(* ===== verification/C2_Prelude.thy ===== *)
theory C2_Prelude
  imports Main "HOL-Library.Word" "HOL-Library.Multiset" "HOL-Library.Monad_Syntax"
begin

text \<open>
  Shared vocabulary of the development.

  \<^item> Machine integers: \<open>u8\<close>, \<open>u16\<close>, \<open>u32\<close> and \<open>u64\<close> are words, so \<open>+\<close> and \<open>-\<close> wrap as in a
    release build. A \<open>usize\<close> is a \<^typ>\<open>nat\<close>, and every operation whose Rust counterpart can
    leave the 64-bit range is written with its check.
  \<^item> Panics: a computation that may panic has type \<open>'a run\<close>, and \<^term>\<open>None\<close> is the panic
    (an index out of range, a failed \<open>assert\<close> or \<open>expect\<close>, a checked subtraction below zero).
  \<^item> Results: a Rust \<open>Result<T, E>\<close> is \<open>'e + 't\<close>, with \<^const>\<open>Inl\<close> for \<open>Err\<close>.
  \<^item> Little-endian byte strings of words and their round trips.
  \<^item> Values held by a finite map, as a multiset, for ownership accounting.
\<close>

unbundle bit_operations_syntax

type_synonym u8 = "8 word"
type_synonym u16 = "16 word"
type_synonym u32 = "32 word"
type_synonym u64 = "64 word"
type_synonym usize = nat
type_synonym bytes = "u8 list"
type_synonym 'a run = "'a option"

named_theorems run_simps \<open>unfolding of computations that may panic\<close>
named_theorems codec_simps \<open>lengths and round trips of byte fields\<close>

section \<open>Panics\<close>

definition ensure :: "bool \<Rightarrow> unit run" where
  "ensure b = (if b then Some () else None)"

definition nth_run :: "'a list \<Rightarrow> usize \<Rightarrow> 'a run" where
  "nth_run xs i = (if i < length xs then Some (xs ! i) else None)"

definition upd_run :: "'a list \<Rightarrow> usize \<Rightarrow> 'a \<Rightarrow> 'a list run" where
  "upd_run xs i v = (if i < length xs then Some (xs[i := v]) else None)"

definition sub_run :: "nat \<Rightarrow> nat \<Rightarrow> nat run" where
  "sub_run a b = (if b \<le> a then Some (a - b) else None)"

lemma ensure_simps [run_simps, simp]:
  "ensure True = Some ()" "ensure False = None" "ensure b = Some u \<longleftrightarrow> b" "ensure b = None \<longleftrightarrow> \<not> b"
  by (simp_all add: ensure_def)

lemma nth_run_Some [run_simps, simp]: "i < length xs \<Longrightarrow> nth_run xs i = Some (xs ! i)"
  by (simp add: nth_run_def)

lemma nth_run_eq_Some [run_simps]: "nth_run xs i = Some x \<longleftrightarrow> i < length xs \<and> xs ! i = x"
  by (simp add: nth_run_def)

lemma upd_run_Some [run_simps, simp]: "i < length xs \<Longrightarrow> upd_run xs i v = Some (xs[i := v])"
  by (simp add: upd_run_def)

lemma upd_run_eq_Some [run_simps]: "upd_run xs i v = Some ys \<longleftrightarrow> i < length xs \<and> ys = xs[i := v]"
  by (auto simp: upd_run_def)

lemma sub_run_Some [run_simps, simp]: "b \<le> a \<Longrightarrow> sub_run a b = Some (a - b)"
  by (simp add: sub_run_def)

lemma sub_run_eq_Some [run_simps]: "sub_run a b = Some c \<longleftrightarrow> b \<le> a \<and> c = a - b"
  by (auto simp: sub_run_def)

section \<open>Fixed-width arithmetic\<close>

definition checked_add :: "'a::len word \<Rightarrow> 'a word \<Rightarrow> 'a word option" where
  "checked_add a b = (if unat a + unat b < 2 ^ LENGTH('a) then Some (a + b) else None)"

definition saturating_add :: "'a::len word \<Rightarrow> 'a word \<Rightarrow> 'a word" where
  "saturating_add a b = (if unat a + unat b < 2 ^ LENGTH('a) then a + b else - 1)"

definition checked_sub :: "'a::len word \<Rightarrow> 'a word \<Rightarrow> 'a word option" where
  "checked_sub a b = (if b \<le> a then Some (a - b) else None)"

lemma unat_bound: "unat (w :: 'a::len word) < 2 ^ LENGTH('a)"
  by (rule unsigned_less)

lemma unat_add_bounded:
  fixes a b :: "'a::len word"
  assumes "unat a + unat b < 2 ^ LENGTH('a)"
  shows "unat (a + b) = unat a + unat b"
  using assms by (simp add: unat_word_ariths)

lemma checked_add_SomeD:
  "checked_add a b = Some c \<Longrightarrow> c = a + b \<and> unat c = unat a + unat b"
  by (auto simp: checked_add_def unat_add_bounded split: if_splits)

lemma checked_add_None_iff:
  fixes a b :: "'a::len word"
  shows "checked_add a b = None \<longleftrightarrow> 2 ^ LENGTH('a) \<le> unat a + unat b"
  by (auto simp: checked_add_def)

lemma checked_sub_SomeD:
  "checked_sub a b = Some c \<Longrightarrow> c = a - b \<and> unat c = unat a - unat b \<and> unat b \<le> unat a"
  by (auto simp: checked_sub_def unat_sub word_le_nat_alt split: if_splits)

lemma checked_sub_Some [simp]: "b \<le> a \<Longrightarrow> checked_sub a b = Some (a - b)"
  by (simp add: checked_sub_def)

lemma checked_add_within:
  fixes a b m :: "'a::len word"
  shows "unat a + unat b \<le> unat m \<Longrightarrow> checked_add a b = Some (a + b) \<and> a + b \<le> m \<and> unat (a + b) = unat a + unat b"
    and "unat m < unat a + unat b \<Longrightarrow> (case checked_add a b of None \<Rightarrow> True | Some t \<Rightarrow> \<not> t \<le> m)"
proof -
  assume le: "unat a + unat b \<le> unat m"
  then have lt: "unat a + unat b < 2 ^ LENGTH('a)" using unat_bound [of m] by linarith
  then show "checked_add a b = Some (a + b) \<and> a + b \<le> m \<and> unat (a + b) = unat a + unat b"
    using unat_add_bounded [OF lt] le by (simp add: checked_add_def word_le_nat_alt)
next
  assume gt: "unat m < unat a + unat b"
  show "case checked_add a b of None \<Rightarrow> True | Some t \<Rightarrow> \<not> t \<le> m"
  proof (cases "checked_add a b")
    case (Some t)
    then show ?thesis using checked_add_SomeD [OF Some] gt by (auto simp: word_le_nat_alt)
  qed simp
qed

lemma if_less_max: "(if a < b then b else a) = max a (b :: 'a::linorder)"
  by (auto simp: max_def)

lemma saturating_add_ge: "unat a \<le> unat (saturating_add a b)"
proof -
  have "unat x \<le> unat (- 1 :: 'a::len word)" for x :: "'a word"
    by (metis word_le_nat_alt word_n1_ge)
  then show ?thesis
    by (auto simp: saturating_add_def unat_add_bounded)
qed

section \<open>Powers of two on usize\<close>

definition usize_max :: nat where
  "usize_max = 2 ^ 64 - 1"

definition isize_max :: nat where
  "isize_max = 2 ^ 63 - 1"

definition u32_max :: nat where
  "u32_max = 2 ^ 32 - 1"

definition is_power_of_two :: "usize \<Rightarrow> bool" where
  "is_power_of_two n = list_ex (\<lambda>k. n = 2 ^ k) [0..<64]"

definition checked_next_power_of_two :: "usize \<Rightarrow> usize option" where
  "checked_next_power_of_two n = map_option (\<lambda>k. 2 ^ k) (find (\<lambda>k. n \<le> 2 ^ k) [0..<64])"

fun floor_log2 :: "nat \<Rightarrow> nat" where
  "floor_log2 n = (if n \<le> 1 then 0 else Suc (floor_log2 (n div 2)))"

definition ilog2 :: "usize \<Rightarrow> nat run" where
  "ilog2 n = (if n = 0 then None else Some (floor_log2 n))"

declare floor_log2.simps [simp del]

lemma floor_log2_pow [simp]: "floor_log2 (2 ^ k) = k"
proof (induction k)
  case 0
  show ?case by (subst floor_log2.simps) simp
next
  case (Suc k)
  have "(1::nat) < 2 ^ Suc k"
    by (rule one_less_power) simp_all
  then have "\<not> 2 ^ Suc k \<le> (1::nat)"
    by (simp only: not_le)
  then show ?case using Suc.IH by (subst floor_log2.simps) simp
qed

lemma ilog2_pow [simp]: "ilog2 (2 ^ k) = Some k"
  by (simp add: ilog2_def)

lemma is_power_of_twoE:
  assumes "is_power_of_two n"
  obtains k where "k < 64" "n = 2 ^ k"
  using assms by (auto simp: is_power_of_two_def list_ex_iff)

lemma is_power_of_twoI: "k < 64 \<Longrightarrow> is_power_of_two (2 ^ k)"
  by (auto simp: is_power_of_two_def list_ex_iff)

text \<open>The result is the least power of two that is at least the argument.\<close>

lemma checked_next_power_of_two_SomeD:
  assumes "checked_next_power_of_two n = Some p"
  obtains k where "k < 64" "p = 2 ^ k" "n \<le> p" "\<And>j. n \<le> 2 ^ j \<Longrightarrow> p \<le> 2 ^ j"
proof -
  from assms obtain k where k: "find (\<lambda>k. n \<le> 2 ^ k) [0..<64] = Some k" and p: "p = 2 ^ k"
    by (auto simp: checked_next_power_of_two_def)
  from k have k64: "k < 64" and nk: "n \<le> 2 ^ k" and below: "\<forall>j<k. \<not> n \<le> 2 ^ j"
    by (auto simp: find_Some_iff)
  have least: "p \<le> 2 ^ j" if "n \<le> 2 ^ j" for j
    using below that p by (cases "j < k") (auto intro: power_increasing)
  show thesis
    by (rule that) (use k64 nk p least in auto)
qed

lemma checked_next_power_of_two_le:
  assumes "n \<le> 2 ^ k" "k < 64"
  obtains j where "j \<le> k" "checked_next_power_of_two n = Some (2 ^ j)" "n \<le> 2 ^ j"
proof -
  obtain p where p: "checked_next_power_of_two n = Some p"
  proof (cases "find (\<lambda>k. n \<le> 2 ^ k) [0..<64]")
    case None
    then show thesis using assms by (auto simp: find_None_iff)
  next
    case (Some j)
    then show thesis using that by (simp add: checked_next_power_of_two_def)
  qed
  then obtain j where j: "p = 2 ^ j" "n \<le> p" "\<And>i. n \<le> 2 ^ i \<Longrightarrow> p \<le> 2 ^ i"
    by (elim checked_next_power_of_two_SomeD) blast
  from j(3) [OF assms(1)] j(1) have "(2::nat) ^ j \<le> 2 ^ k" by simp
  then have "j \<le> k" by simp
  with p j show thesis using that by simp
qed

section \<open>Little-endian byte strings\<close>

text \<open>\<open>to_le_bytes n\<close> is the \<open>n\<close>-byte encoding of a word of at most \<open>8 * n\<close> bits.\<close>

definition to_le_bytes :: "nat \<Rightarrow> 'a::len word \<Rightarrow> bytes" where
  "to_le_bytes n w = map (\<lambda>i. ucast (drop_bit (8 * i) w)) [0..<n]"

fun from_le_bytes :: "bytes \<Rightarrow> 'a::len word" where
  "from_le_bytes [] = 0"
| "from_le_bytes (b # bs) = ucast b OR push_bit 8 (from_le_bytes bs)"

lemma length_to_le_bytes [codec_simps, simp]: "length (to_le_bytes n w) = n"
  by (simp add: to_le_bytes_def)

lemma to_le_bytes_Suc: "to_le_bytes (Suc n) w = ucast w # to_le_bytes n (drop_bit 8 w)"
  by (simp add: to_le_bytes_def map_upt_Suc add.commute [of 8] del: upt_Suc)

lemma bit_from_le_bytes:
  "bit (from_le_bytes bs :: 'a::len word) k \<longleftrightarrow>
     k < LENGTH('a) \<and> k div 8 < length bs \<and> bit (bs ! (k div 8)) (k mod 8)"
proof (induction bs arbitrary: k)
  case Nil
  show ?case by simp
next
  case (Cons b bs)
  show ?case
  proof (cases "k < 8")
    case True
    then show ?thesis
      by (auto simp: bit_or_iff bit_ucast_iff bit_push_bit_iff)
  next
    case False
    then have "k div 8 = Suc ((k - 8) div 8)" "k mod 8 = (k - 8) mod 8"
      by (auto simp: le_div_geq le_mod_geq)
    then show ?thesis
      using False Cons.IH [of "k - 8"]
      by (auto simp: bit_or_iff bit_ucast_iff bit_push_bit_iff bit_imp_le_length dest: bit_imp_le_length)
  qed
qed

lemma from_to_le_bytes:
  fixes w :: "'a::len word"
  assumes "LENGTH('a) \<le> 8 * n"
  shows "from_le_bytes (to_le_bytes n w) = w"
proof (rule bit_word_eqI)
  fix k assume "k < LENGTH('a)"
  with assms have "k div 8 < n" by auto
  moreover have "8 * (k div 8) + k mod 8 = k" by simp
  ultimately show "bit (from_le_bytes (to_le_bytes n w) :: 'a word) k = bit w k"
    using \<open>k < LENGTH('a)\<close>
    by (auto simp: bit_from_le_bytes to_le_bytes_def bit_ucast_iff bit_drop_bit_eq)
qed

lemma to_from_le_bytes:
  assumes "8 * length bs \<le> LENGTH('a::len)" "n = length bs"
  shows "to_le_bytes n (from_le_bytes bs :: 'a word) = bs"
proof (rule nth_equalityI)
  show "length (to_le_bytes n (from_le_bytes bs :: 'a word)) = length bs" using assms by simp
next
  fix i assume "i < length (to_le_bytes n (from_le_bytes bs :: 'a word))"
  then have i: "i < length bs" using assms by simp
  show "to_le_bytes n (from_le_bytes bs :: 'a word) ! i = bs ! i"
  proof (rule bit_word_eqI)
    fix k assume "k < LENGTH(8)"
    then have "k < 8" by simp
    moreover from this have "(8 * i + k) div 8 = i" "(8 * i + k) mod 8 = k" by auto
    ultimately show "bit (to_le_bytes n (from_le_bytes bs :: 'a word) ! i) k = bit (bs ! i) k"
      using i assms by (auto simp: to_le_bytes_def bit_ucast_iff bit_drop_bit_eq bit_from_le_bytes)
  qed
qed

lemma le_bytes_u16 [codec_simps, simp]: "from_le_bytes (to_le_bytes 2 (w :: u16)) = w"
  by (rule from_to_le_bytes) simp

lemma le_bytes_u32 [codec_simps, simp]: "from_le_bytes (to_le_bytes 4 (w :: u32)) = w"
  by (rule from_to_le_bytes) simp

lemma le_bytes_u64 [codec_simps, simp]: "from_le_bytes (to_le_bytes 8 (w :: u64)) = w"
  by (rule from_to_le_bytes) simp

section \<open>Decimal text\<close>

fun show_nat :: "nat \<Rightarrow> string" where
  "show_nat n = (if n < 10 then [char_of (48 + n)] else show_nat (n div 10) @ [char_of (48 + n mod 10)])"

declare show_nat.simps [simp del]

section \<open>Multiset of the values of a finite map\<close>

definition map_vals :: "('k \<rightharpoonup> 'v) \<Rightarrow> 'v multiset" where
  "map_vals m = image_mset (\<lambda>k. the (m k)) (mset_set (dom m))"

lemma map_vals_empty [simp]: "map_vals (\<lambda>_. None) = {#}"
  by (simp add: map_vals_def)

lemma map_vals_insert [simp]:
  assumes "finite (dom m)" "m k = None"
  shows "map_vals (m(k \<mapsto> v)) = add_mset v (map_vals m)"
proof -
  have k: "k \<notin> dom m" using assms(2) by auto
  have "image_mset (\<lambda>x. the ((m(k \<mapsto> v)) x)) (mset_set (dom m)) =
        image_mset (\<lambda>x. the (m x)) (mset_set (dom m))"
    using assms(1) k by (intro image_mset_cong) auto
  then show ?thesis using assms(1) k by (simp add: map_vals_def)
qed

lemma map_vals_remove:
  assumes "finite (dom m)" "m k = Some v"
  shows "map_vals m = add_mset v (map_vals (m(k := None)))"
proof -
  have "map_vals ((m(k := None))(k \<mapsto> v)) = add_mset v (map_vals (m(k := None)))"
    using assms(1) by (intro map_vals_insert) auto
  moreover have "(m(k := None))(k \<mapsto> v) = m" using assms(2) by auto
  ultimately show ?thesis by simp
qed

lemma size_map_vals [simp]: "size (map_vals m) = card (dom m)"
  by (simp add: map_vals_def)

lemma map_vals_eq_empty: "finite (dom m) \<Longrightarrow> map_vals m = {#} \<longleftrightarrow> dom m = {}"
  by (simp add: map_vals_def mset_set_empty_iff)

end
