(* ===== verification/Bitmap.thy ===== *)
theory Bitmap
  imports C2_Prelude
begin

text \<open>
  The free-block bitmaps of \<open>c2-mem/src/alloc/bitmap.rs\<close>: one bit per block of a buddy level,
  packed in 64-bit words, with 1 for a free block.

  The record and the operations follow the source word for word; a \<open>debug_assert!\<close> is a panic of
  the model. The interface \<open>free_bitmap\<close> states what the buddy allocator relies on, over the set
  of free blocks, and the bitmaps interpret it.
\<close>

record level_bitmap =
  bm_words :: "u64 list"
  num_blocks :: usize

definition div_ceil :: "usize \<Rightarrow> usize \<Rightarrow> usize" where
  "div_ceil a b = (a + b - 1) div b"

definition new_bitmap :: "usize \<Rightarrow> level_bitmap" where
  "new_bitmap n = \<lparr>bm_words = replicate (div_ceil n 64) 0, num_blocks = n\<rparr>"

definition trailing_zeros :: "u64 \<Rightarrow> nat" where
  "trailing_zeros w = (case find (bit w) [0..<64] of Some b \<Rightarrow> b | None \<Rightarrow> 64)"

fun alloc_one_words :: "usize \<Rightarrow> u64 list \<Rightarrow> (usize \<times> u64 list) option" where
  "alloc_one_words index [] = None"
| "alloc_one_words index (word # rest) =
     (if word \<noteq> 0 then
        (let b = trailing_zeros word
         in Some (index * 64 + b, (word AND NOT (push_bit b 1)) # rest))
      else map_option (\<lambda>(block, rest'). (block, word # rest')) (alloc_one_words (Suc index) rest))"

definition alloc_one :: "level_bitmap \<Rightarrow> usize option \<times> level_bitmap" where
  "alloc_one bm =
     (case alloc_one_words 0 (bm_words bm) of
        None \<Rightarrow> (None, bm)
      | Some (block, ws) \<Rightarrow> (Some block, bm\<lparr>bm_words := ws\<rparr>))"

definition free_one :: "level_bitmap \<Rightarrow> usize \<Rightarrow> level_bitmap run" where
  "free_one bm block =
     do {
       ensure (block < num_blocks bm);
       word \<leftarrow> nth_run (bm_words bm) (block div 64);
       ws \<leftarrow> upd_run (bm_words bm) (block div 64) (word OR push_bit (block mod 64) 1);
       Some (bm\<lparr>bm_words := ws\<rparr>)
     }"

definition is_free :: "level_bitmap \<Rightarrow> usize \<Rightarrow> bool run" where
  "is_free bm block =
     do {
       ensure (block < num_blocks bm);
       word \<leftarrow> nth_run (bm_words bm) (block div 64);
       Some (word AND push_bit (block mod 64) 1 \<noteq> 0)
     }"

definition mark_used :: "level_bitmap \<Rightarrow> usize \<Rightarrow> level_bitmap run" where
  "mark_used bm block =
     do {
       ensure (block < num_blocks bm);
       word \<leftarrow> nth_run (bm_words bm) (block div 64);
       ws \<leftarrow> upd_run (bm_words bm) (block div 64) (word AND NOT (push_bit (block mod 64) 1));
       Some (bm\<lparr>bm_words := ws\<rparr>)
     }"

definition num_levels :: "usize \<Rightarrow> usize \<Rightarrow> usize run" where
  "num_levels data_size min_block =
     do {
       ensure (min_block \<noteq> 0);
       l \<leftarrow> ilog2 (data_size div min_block);
       Some (l + 1)
     }"

section \<open>The interface the allocator uses\<close>

text \<open>
  A bitmap is a finite set of free blocks below \<open>blocks\<close>: \<open>take_free\<close> removes the least one,
  \<open>put_free\<close> and \<open>drop_free\<close> add and remove a given one, and none of them panics in range.
\<close>

locale free_bitmap =
  fixes mk :: "nat \<Rightarrow> 'b"
    and take_free :: "'b \<Rightarrow> nat option \<times> 'b"
    and put_free :: "'b \<Rightarrow> nat \<Rightarrow> 'b option"
    and test_free :: "'b \<Rightarrow> nat \<Rightarrow> bool option"
    and drop_free :: "'b \<Rightarrow> nat \<Rightarrow> 'b option"
    and free :: "'b \<Rightarrow> nat set"
    and blocks :: "'b \<Rightarrow> nat"
    and invar :: "'b \<Rightarrow> bool"
  assumes mk: "invar (mk n)" "free (mk n) = {}" "blocks (mk n) = n"
    and free_below: "invar b \<Longrightarrow> free b \<subseteq> {..<blocks b}"
    and take_none: "invar b \<Longrightarrow> free b = {} \<Longrightarrow> take_free b = (None, b)"
    and take_some: "invar b \<Longrightarrow> free b \<noteq> {} \<Longrightarrow>
          \<exists>b'. take_free b = (Some (Min (free b)), b') \<and> invar b' \<and>
               free b' = free b - {Min (free b)} \<and> blocks b' = blocks b"
    and put: "invar b \<Longrightarrow> i < blocks b \<Longrightarrow>
          \<exists>b'. put_free b i = Some b' \<and> invar b' \<and> free b' = insert i (free b) \<and>
               blocks b' = blocks b"
    and test: "invar b \<Longrightarrow> i < blocks b \<Longrightarrow> test_free b i = Some (i \<in> free b)"
    and drop: "invar b \<Longrightarrow> i < blocks b \<Longrightarrow>
          \<exists>b'. drop_free b i = Some b' \<and> invar b' \<and> free b' = free b - {i} \<and>
               blocks b' = blocks b"
begin

lemma finite_free: "invar b \<Longrightarrow> finite (free b)"
  by (rule finite_subset [OF free_below]) simp_all

lemma take_cases:
  assumes "invar b"
  obtains "free b = {}" "take_free b = (None, b)"
  | i b' where "i \<in> free b" "i < blocks b" "take_free b = (Some i, b')" "invar b'"
      "free b' = free b - {i}" "blocks b' = blocks b"
proof (cases "free b = {}")
  case True
  with assms take_none that(1) show thesis by blast
next
  case False
  with take_some [OF assms] obtain b' where "take_free b = (Some (Min (free b)), b')" "invar b'"
    "free b' = free b - {Min (free b)}" "blocks b' = blocks b"
    by blast
  moreover have "Min (free b) \<in> free b"
    by (rule Min_in [OF finite_free [OF assms] False])
  ultimately show thesis using free_below [OF assms] that(2) by blast
qed

text \<open>A block just freed in an empty level is the one the next allocation takes.\<close>

lemma put_then_take:
  assumes "invar b" "free b = {}" "i < blocks b" "put_free b i = Some b'"
  shows "fst (take_free b') = Some i"
proof -
  from put [OF assms(1,3)] assms(2,4) have "invar b'" "free b' = {i}" by auto
  then show ?thesis using take_some [of b'] by auto
qed

end

section \<open>The packed words implement it\<close>

definition word_bits :: "u64 list \<Rightarrow> nat set" where
  "word_bits ws = {b. b div 64 < length ws \<and> bit (ws ! (b div 64)) (b mod 64)}"

definition free_set :: "level_bitmap \<Rightarrow> nat set" where
  "free_set bm = word_bits (bm_words bm)"

definition bitmap_inv :: "level_bitmap \<Rightarrow> bool" where
  "bitmap_inv bm \<longleftrightarrow>
     length (bm_words bm) = div_ceil (num_blocks bm) 64 \<and> free_set bm \<subseteq> {..<num_blocks bm}"

lemma word_bits_Nil [simp]: "word_bits [] = {}"
  by (simp add: word_bits_def)

lemma word_bits_Cons: "word_bits (w # ws) = {b. b < 64 \<and> bit w b} \<union> (+) 64 ` word_bits ws"
proof (rule set_eqI)
  fix b
  show "b \<in> word_bits (w # ws) \<longleftrightarrow> b \<in> {b. b < 64 \<and> bit w b} \<union> (+) 64 ` word_bits ws"
  proof (cases "b < 64")
    case True
    then show ?thesis by (auto simp: word_bits_def)
  next
    case False
    then obtain c where c: "b = 64 + c" using le_Suc_ex not_less by blast
    then have "b div 64 = Suc (c div 64)" "b mod 64 = c mod 64" by simp_all
    with c show ?thesis by (auto simp: word_bits_def)
  qed
qed

lemma finite_word_bits [simp]: "finite (word_bits ws)"
  by (induction ws) (simp_all add: word_bits_Cons)

lemma trailing_zeros_least:
  assumes "w \<noteq> (0 :: u64)"
  shows "trailing_zeros w < 64 \<and> bit w (trailing_zeros w) \<and> (\<forall>j. bit w j \<longrightarrow> trailing_zeros w \<le> j)"
proof -
  from assms obtain j where j: "bit w j"
    by (metis bit_word_eqI bit_0_eq bot_apply bot_bool_def)
  then have "j < 64" using bit_imp_le_length by fastforce
  with j have "find (bit w) [0..<64] \<noteq> None"
    by (auto simp: find_None_iff)
  then obtain b where b: "find (bit w) [0..<64] = Some b" by blast
  then have "b < 64 \<and> bit w b \<and> (\<forall>i<b. \<not> bit w i)"
    by (auto simp: find_Some_iff)
  with b show ?thesis
    by (auto simp: trailing_zeros_def not_less)
qed

lemma bit_clear: "bit (w AND NOT (2 ^ b)) k \<longleftrightarrow> bit w k \<and> k \<noteq> b" for w :: u64
  by (auto simp: bit_and_iff bit_not_iff bit_exp_iff dest: bit_imp_possible_bit)

lemma bit_set: "b < 64 \<Longrightarrow> bit (w OR 2 ^ b) k \<longleftrightarrow> bit w k \<or> k = b" for w :: u64
  by (auto simp: bit_or_iff bit_exp_iff)

lemma bit_test: "b < 64 \<Longrightarrow> w AND 2 ^ b = 0 \<longleftrightarrow> \<not> bit w b" for w :: u64
  by (auto simp: bit_eq_iff [of "w AND 2 ^ b"] bit_and_iff bit_exp_iff)

lemma alloc_one_words_None: "alloc_one_words k ws = None \<longleftrightarrow> word_bits ws = {}"
proof (induction ws arbitrary: k)
  case (Cons w ws)
  show ?case
  proof (cases "w = 0")
    case True
    then show ?thesis using Cons.IH by (simp add: word_bits_Cons)
  next
    case False
    then show ?thesis using trailing_zeros_least [OF False]
      by (auto simp: word_bits_Cons Let_def)
  qed
qed simp

lemma alloc_one_words_Some:
  "alloc_one_words k ws = Some (b, ws') \<Longrightarrow>
     b = 64 * k + Min (word_bits ws) \<and> word_bits ws' = word_bits ws - {Min (word_bits ws)} \<and>
     length ws' = length ws"
proof (induction ws arbitrary: k b ws')
  case (Cons w ws)
  show ?case
  proof (cases "w = 0")
    case True
    with Cons.prems obtain ws'' where ws'': "alloc_one_words (Suc k) ws = Some (b, ws'')" "ws' = 0 # ws''"
      by auto
    then have ne: "word_bits ws \<noteq> {}" using alloc_one_words_None by (metis option.distinct(1))
    have "Min (word_bits (w # ws)) = 64 + Min (word_bits ws)"
      using True ne by (simp add: word_bits_Cons mono_Min_commute [symmetric] mono_def)
    with True ws'' Cons.IH [OF ws''(1)] show ?thesis
      by (auto simp: word_bits_Cons image_set_diff)
  next
    case False
    let ?t = "trailing_zeros w"
    note t = trailing_zeros_least [OF False]
    have "Min (word_bits (w # ws)) = ?t"
      using t by (intro Min_eqI) (auto simp: word_bits_Cons)
    with False t Cons.prems show ?thesis
      by (auto simp: word_bits_Cons Let_def bit_clear)
  qed
qed simp

lemma div_64_lt:
  assumes "bitmap_inv bm" "i < num_blocks bm"
  shows "i div 64 < length (bm_words bm)"
  using assms by (auto simp: bitmap_inv_def div_ceil_def)

lemma word_bits_update:
  assumes "i div 64 < length ws"
  shows "word_bits (ws[i div 64 := v]) =
     {b \<in> word_bits ws. b div 64 \<noteq> i div 64} \<union> {b. b div 64 = i div 64 \<and> bit v (b mod 64)}"
  using assms by (auto simp: word_bits_def nth_list_update)

lemma same_block: "b div 64 = i div 64 \<Longrightarrow> b mod 64 = i mod 64 \<Longrightarrow> b = (i :: nat)"
  by (metis div_mult_mod_eq)

lemma free_one_spec:
  assumes "bitmap_inv bm" "i < num_blocks bm"
  shows "\<exists>bm'. free_one bm i = Some bm' \<and> bitmap_inv bm' \<and>
           free_set bm' = insert i (free_set bm) \<and> num_blocks bm' = num_blocks bm"
proof -
  let ?ws = "(bm_words bm)[i div 64 := bm_words bm ! (i div 64) OR push_bit (i mod 64) 1]"
  note lt = div_64_lt [OF assms]
  have bits: "word_bits ?ws = insert i (word_bits (bm_words bm))"
    unfolding word_bits_update [OF lt] using lt
    by (auto simp: bit_set word_bits_def intro: same_block)
  with assms lt show ?thesis
    by (auto simp: free_one_def bitmap_inv_def free_set_def)
qed

lemma mark_used_spec:
  assumes "bitmap_inv bm" "i < num_blocks bm"
  shows "\<exists>bm'. mark_used bm i = Some bm' \<and> bitmap_inv bm' \<and>
           free_set bm' = free_set bm - {i} \<and> num_blocks bm' = num_blocks bm"
proof -
  let ?ws = "(bm_words bm)[i div 64 := bm_words bm ! (i div 64) AND NOT (push_bit (i mod 64) 1)]"
  note lt = div_64_lt [OF assms]
  have bits: "word_bits ?ws = word_bits (bm_words bm) - {i}"
    unfolding word_bits_update [OF lt] using lt
    by (auto simp: bit_clear word_bits_def intro: same_block)
  with assms lt show ?thesis
    by (auto simp: mark_used_def bitmap_inv_def free_set_def)
qed

lemma is_free_spec:
  assumes "bitmap_inv bm" "i < num_blocks bm"
  shows "is_free bm i = Some (i \<in> free_set bm)"
  using assms div_64_lt [OF assms]
  by (auto simp: is_free_def bit_test free_set_def word_bits_def)

lemma new_bitmap_spec:
  "bitmap_inv (new_bitmap n)" "free_set (new_bitmap n) = {}" "num_blocks (new_bitmap n) = n"
  by (auto simp: new_bitmap_def bitmap_inv_def free_set_def word_bits_def)

lemma alloc_one_spec:
  assumes "bitmap_inv bm" "free_set bm \<noteq> {}"
  shows "\<exists>bm'. alloc_one bm = (Some (Min (free_set bm)), bm') \<and> bitmap_inv bm' \<and>
           free_set bm' = free_set bm - {Min (free_set bm)} \<and> num_blocks bm' = num_blocks bm"
proof -
  from assms(2) obtain b ws where a: "alloc_one_words 0 (bm_words bm) = Some (b, ws)"
    using alloc_one_words_None [of 0 "bm_words bm"]
    by (cases "alloc_one_words 0 (bm_words bm)") (auto simp: free_set_def)
  from alloc_one_words_Some [OF a] a assms(1) show ?thesis
    by (auto simp: alloc_one_def free_set_def bitmap_inv_def)
qed

interpretation bm: free_bitmap new_bitmap alloc_one free_one is_free mark_used free_set num_blocks bitmap_inv
proof unfold_locales
  fix b assume "bitmap_inv b" "free_set b = {}"
  then show "alloc_one b = (None, b)"
    using alloc_one_words_None [of 0 "bm_words b"] by (simp add: alloc_one_def free_set_def)
qed (simp_all add: new_bitmap_spec alloc_one_spec free_one_spec mark_used_spec is_free_spec,
     simp add: bitmap_inv_def)

text \<open>A bitmap is determined by its free set.\<close>

lemma bit_word_bits: "k < length ws \<Longrightarrow> bit (ws ! k) j \<longleftrightarrow> j < 64 \<and> 64 * k + j \<in> word_bits ws"
  using bit_imp_le_length [of "ws ! k" j] by (auto simp: word_bits_def)

lemma bitmap_eqI:
  assumes "bitmap_inv a" "bitmap_inv b" "num_blocks a = num_blocks b" "free_set a = free_set b"
  shows "(a :: level_bitmap) = b"
proof -
  have len: "length (bm_words a) = length (bm_words b)" using assms by (simp add: bitmap_inv_def)
  have "bm_words a = bm_words b"
  proof (rule nth_equalityI [OF len])
    fix k assume k: "k < length (bm_words a)"
    then show "bm_words a ! k = bm_words b ! k"
      using assms(4) len by (intro bit_word_eqI) (simp add: bit_word_bits free_set_def)
  qed
  with assms(3) show ?thesis by simp
qed

end
