(* ===== verification/Dyadic.thy ===== *)
theory Dyadic
  imports C2_Prelude
begin

text \<open>
  The abstract specification of buddy allocation: a region of \<open>2 ^ D\<close> units is tiled by dyadic
  blocks, each free or live, and no two free blocks are buddies of each other.

  A block \<open>(l, i)\<close> at level \<open>l\<close> covers the units \<open>x\<close> with \<open>x div 2 ^ (D - l) = i\<close>. The lemmas
  are the three moves of the allocator (take a free block, split a block in two, merge two
  buddies) and the completeness of a fully merged tiling: a block that meets no live block lies
  inside a single free one.
\<close>

type_synonym block = "nat \<times> nat"

definition span :: "nat \<Rightarrow> block \<Rightarrow> nat set" where
  "span D b = {x. x div 2 ^ (D - fst b) = snd b}"

definition block_ok :: "nat \<Rightarrow> block \<Rightarrow> bool" where
  "block_ok D b \<longleftrightarrow> fst b \<le> D \<and> snd b < 2 ^ fst b"

definition buddy_of :: "block \<Rightarrow> block" where
  "buddy_of b = (fst b, snd b XOR 1)"

definition tiling :: "nat \<Rightarrow> block set \<Rightarrow> bool" where
  "tiling D B \<longleftrightarrow>
     (\<forall>b\<in>B. block_ok D b) \<and>
     (\<forall>b\<in>B. \<forall>c\<in>B. b \<noteq> c \<longrightarrow> span D b \<inter> span D c = {}) \<and>
     (\<Union>b\<in>B. span D b) = {..<2 ^ D}"

definition merged :: "block set \<Rightarrow> bool" where
  "merged F \<longleftrightarrow> (\<forall>b\<in>F. 0 < fst b \<longrightarrow> buddy_of b \<notin> F)"

definition buddy_spec :: "nat \<Rightarrow> block set \<Rightarrow> block set \<Rightarrow> bool" where
  "buddy_spec D F A \<longleftrightarrow> F \<inter> A = {} \<and> tiling D (F \<union> A) \<and> merged F"

section \<open>Blocks\<close>

lemma in_span: "x \<in> span D (l, i) \<longleftrightarrow> x div 2 ^ (D - l) = i"
  by (simp add: span_def)

lemma span_interval: "span D (l, i) = {i * 2 ^ (D - l)..<(i + 1) * 2 ^ (D - l)}"
proof -
  have "x div 2 ^ (D - l) = i \<longleftrightarrow> i * 2 ^ (D - l) \<le> x \<and> x < (i + 1) * 2 ^ (D - l)"
    for x :: nat
  proof -
    have "i * 2 ^ (D - l) \<le> x \<longleftrightarrow> i \<le> x div 2 ^ (D - l)"
      by (rule less_eq_div_iff_mult_less_eq [symmetric]) simp
    moreover have "x < (i + 1) * 2 ^ (D - l) \<longleftrightarrow> x div 2 ^ (D - l) < i + 1"
      by (rule div_less_iff_less_mult [symmetric]) simp
    ultimately show ?thesis by linarith
  qed
  then show ?thesis by (simp only: set_eq_iff in_span atLeastLessThan_iff) blast
qed

lemma card_span: "card (span D (l, i)) = 2 ^ (D - l)"
  by (simp only: span_interval card_atLeastLessThan add_mult_distrib
      add_diff_cancel_left' mult_1)

lemma finite_span [simp]: "finite (span D b)"
  by (cases b) (simp add: span_interval)

lemma first_in_span: "i * 2 ^ (D - l) \<in> span D (l, i)"
  by (simp add: in_span)

lemma div_levels:
  fixes x :: nat
  assumes "l \<le> l'" "l' \<le> D"
  shows "x div 2 ^ (D - l) = (x div 2 ^ (D - l')) div 2 ^ (l' - l)"
proof -
  have "2 ^ (D - l) = 2 ^ (D - l') * (2 ^ (l' - l) :: nat)"
    using assms by (simp only: power_add [symmetric]) simp
  then show ?thesis by (simp only: div_mult2_eq)
qed

lemma span_nested:
  assumes "l \<le> l'" "l' \<le> D" "x \<in> span D (l, i)" "x \<in> span D (l', i')"
  shows "span D (l', i') \<subseteq> span D (l, i)"
proof
  fix y assume "y \<in> span D (l', i')"
  with assms show "y \<in> span D (l, i)"
    by (simp add: in_span div_levels [OF assms(1,2)])
qed

lemma span_halves:
  assumes "l < D"
  shows "span D (l, i) = span D (Suc l, 2 * i) \<union> span D (Suc l, 2 * i + 1)"
    and "span D (Suc l, 2 * i) \<inter> span D (Suc l, 2 * i + 1) = {}"
proof -
  have half: "n div 2 = i \<longleftrightarrow> n = 2 * i \<or> n = 2 * i + 1" for n :: nat by linarith
  have "x div 2 ^ (D - l) = x div 2 ^ (D - Suc l) div 2" for x :: nat
    using div_levels [of l "Suc l" D x] assms by simp
  then have "x div 2 ^ (D - l) = i \<longleftrightarrow> x div 2 ^ (D - Suc l) = 2 * i \<or> x div 2 ^ (D - Suc l) = 2 * i + 1"
    for x :: nat by (simp only: half)
  then show "span D (l, i) = span D (Suc l, 2 * i) \<union> span D (Suc l, 2 * i + 1)"
    by (simp only: set_eq_iff in_span Un_iff simp_thms)
  have "n = 2 * i \<longrightarrow> n \<noteq> 2 * i + 1" for n :: nat by simp
  then show "span D (Suc l, 2 * i) \<inter> span D (Suc l, 2 * i + 1) = {}"
    unfolding disjoint_iff in_span by blast
qed

lemma span_parent: "Suc l \<le> D \<Longrightarrow> span D (Suc l, i) \<subseteq> span D (l, i div 2)"
  by (auto simp: in_span div_levels [of l "Suc l" D])

lemma block_in_region:
  assumes "block_ok D b" shows "span D b \<subseteq> {..<2 ^ D}"
proof
  fix x assume x: "x \<in> span D b"
  obtain l i where b: "b = (l, i)" by force
  with assms x have "l \<le> D" "x div 2 ^ (D - l) < 2 ^ l"
    by (auto simp: block_ok_def in_span)
  from this(2) have "x < 2 ^ l * 2 ^ (D - l)"
    by (subst (asm) div_less_iff_less_mult) simp_all
  also have "\<dots> = 2 ^ D" using \<open>l \<le> D\<close> by (metis power_add le_add_diff_inverse)
  finally show "x \<in> {..<2 ^ D}" by simp
qed

lemma span_nonempty: "span D b \<noteq> {}"
  using first_in_span by (cases b) blast

lemma xor_one_nat: "(i :: nat) XOR 1 = (if even i then i + 1 else i - 1)"
  by (simp only: xor_one_eq) simp

lemma xor_one_double: "(2 * k) XOR 1 = 2 * k + (1 :: nat)" "(2 * k + 1) XOR 1 = 2 * (k :: nat)"
  by (simp_all only: xor_one_nat) simp_all

lemma nat_parity: obtains k where "i = 2 * k" | k where "i = 2 * k + (1 :: nat)"
  by (cases "even i") (blast elim: evenE oddE)+

lemma xor_one_half: "(i XOR 1) div 2 = i div (2 :: nat)"
  by (rule nat_parity [of i]) (simp_all only: xor_one_double, simp_all)

lemma xor_one_neq: "(i :: nat) XOR 1 \<noteq> i"
  unfolding xor_one_nat by (cases i) simp_all

lemma xor_one_lt:
  assumes "0 < l" "i < 2 ^ l" shows "(i :: nat) XOR 1 < 2 ^ l"
proof -
  obtain n where l: "l = Suc n" using assms(1) gr0_implies_Suc by blast
  from assms(2) have i: "i < 2 * 2 ^ n" by (simp add: l)
  show ?thesis
    by (rule nat_parity [of i]) (use i in \<open>simp_all only: l power_Suc xor_one_double, simp_all\<close>)
qed

lemma xor_one_pair: "{i, i XOR 1} = {2 * (i div 2), 2 * (i div 2) + (1 :: nat)}"
  by (rule nat_parity [of i]) (simp_all only: xor_one_double, auto)

lemma buddy_block_ok: "block_ok D b \<Longrightarrow> 0 < fst b \<Longrightarrow> block_ok D (buddy_of b)"
  unfolding block_ok_def buddy_of_def fst_conv snd_conv using xor_one_lt by blast

section \<open>Tilings\<close>

lemma tiling_ok: "tiling D B \<Longrightarrow> b \<in> B \<Longrightarrow> block_ok D b"
  by (simp add: tiling_def)

lemma tiling_unique:
  "tiling D B \<Longrightarrow> b \<in> B \<Longrightarrow> c \<in> B \<Longrightarrow> x \<in> span D b \<Longrightarrow> x \<in> span D c \<Longrightarrow> b = c"
  unfolding tiling_def by blast

lemma tiling_cover: "tiling D B \<Longrightarrow> x < 2 ^ D \<Longrightarrow> \<exists>b\<in>B. x \<in> span D b"
  unfolding tiling_def by blast

lemma tiling_finite: assumes "tiling D B" shows "finite B"
proof (rule finite_subset)
  show "B \<subseteq> {..D} \<times> {..<2 ^ D}"
  proof
    fix b assume "b \<in> B"
    then have ok: "fst b \<le> D" "snd b < 2 ^ fst b"
      using tiling_ok [OF assms] by (auto simp: block_ok_def)
    then have "snd b < 2 ^ D"
      using power_increasing [of "fst b" D "2 :: nat"] by linarith
    with ok show "b \<in> {..D} \<times> {..<2 ^ D}" by (cases b) simp
  qed
qed simp

lemma tiling_measure: assumes "tiling D B" shows "(\<Sum>b\<in>B. 2 ^ (D - fst b)) = (2 :: nat) ^ D"
proof -
  have "card (\<Union>b\<in>B. span D b) = (\<Sum>b\<in>B. card (span D b))"
    using assms tiling_finite [OF assms]
    by (intro card_UN_disjoint) (auto simp: tiling_def)
  moreover have "card (span D b) = 2 ^ (D - fst b)" for b
    by (cases b) (simp add: card_span)
  ultimately show ?thesis using assms by (simp add: tiling_def)
qed

lemma tiling_replace:
  assumes t: "tiling D B" and sub: "C \<subseteq> B" and ok: "\<And>b. b \<in> N \<Longrightarrow> block_ok D b"
    and dis: "\<And>b c. b \<in> N \<Longrightarrow> c \<in> N \<Longrightarrow> b \<noteq> c \<Longrightarrow> span D b \<inter> span D c = {}"
    and eq: "(\<Union>b\<in>N. span D b) = (\<Union>b\<in>C. span D b)"
  shows "tiling D (B - C \<union> N)"
proof -
  have old_new: "span D b \<inter> span D c = {}" if "b \<in> B - C" "c \<in> N" for b c
  proof (rule ccontr)
    assume "span D b \<inter> span D c \<noteq> {}"
    then obtain x where x: "x \<in> span D b" "x \<in> span D c" by blast
    have "x \<in> (\<Union>b\<in>N. span D b)" using that(2) x(2) by (rule UN_I)
    then obtain e where e: "e \<in> C" "x \<in> span D e" unfolding eq by (rule UN_E)
    have "b = e" using that(1) e(1) sub x(1) e(2) by (intro tiling_unique [OF t]) auto
    with that(1) e(1) show False by simp
  qed
  have "(\<Union>b\<in>B - C \<union> N. span D b) = (\<Union>b\<in>B - C. span D b) \<union> (\<Union>b\<in>C. span D b)"
    by (simp only: UN_Un eq)
  also have "\<dots> = (\<Union>b\<in>B. span D b)" using sub by (simp only: UN_Un [symmetric]) (simp add: Un_absorb2)
  also have "\<dots> = {..<2 ^ D}" using t by (simp add: tiling_def)
  finally have "(\<Union>b\<in>B - C \<union> N. span D b) = {..<2 ^ D}" .
  moreover have "span D b \<inter> span D c = {}"
    if "b \<in> B - C \<union> N" "c \<in> B - C \<union> N" "b \<noteq> c" for b c
  proof -
    have "span D b \<inter> span D c = {}" if "b \<in> B" "c \<in> B"
      using t that \<open>b \<noteq> c\<close> by (simp add: tiling_def)
    with that dis [of b c] old_new [of b c] old_new [of c b] show ?thesis by (auto simp: Int_commute)
  qed
  moreover have "block_ok D b" if "b \<in> B - C \<union> N" for b
    using that ok tiling_ok [OF t] by blast
  ultimately show ?thesis unfolding tiling_def by simp
qed

lemma halves_ok:
  assumes "block_ok D (l, i)" "l < D"
  shows "block_ok D (Suc l, 2 * i)" "block_ok D (Suc l, 2 * i + 1)"
  using assms by (simp_all add: block_ok_def)

lemma tiling_split:
  assumes "tiling D B" "(l, i) \<in> B" "l < D"
  shows "tiling D (B - {(l, i)} \<union> {(Suc l, 2 * i), (Suc l, 2 * i + 1)})"
proof (rule tiling_replace [OF assms(1)])
  note ok = halves_ok [OF tiling_ok [OF assms(1,2)] assms(3)]
  show "\<And>b. b \<in> {(Suc l, 2 * i), (Suc l, 2 * i + 1)} \<Longrightarrow> block_ok D b" using ok by blast
  show "span D b \<inter> span D c = {}"
    if "b \<in> {(Suc l, 2 * i), (Suc l, 2 * i + 1)}" "c \<in> {(Suc l, 2 * i), (Suc l, 2 * i + 1)}"
      "b \<noteq> c" for b c
    using that span_halves(2) [OF assms(3), of i] by blast
  show "(\<Union>b\<in>{(Suc l, 2 * i), (Suc l, 2 * i + 1)}. span D b) = (\<Union>b\<in>{(l, i)}. span D b)"
    using span_halves(1) [OF assms(3), of i] by blast
qed (use assms(2) in blast)

lemma tiling_merge:
  assumes "tiling D B" "(Suc l, i) \<in> B" "(Suc l, i XOR 1) \<in> B"
  shows "tiling D (B - {(Suc l, i), (Suc l, i XOR 1)} \<union> {(l, i div 2)})"
proof (rule tiling_replace [OF assms(1)])
  have ok: "Suc l \<le> D" "i < 2 ^ Suc l" using tiling_ok [OF assms(1,2)] by (simp_all add: block_ok_def)
  then show "\<And>b. b \<in> {(l, i div 2)} \<Longrightarrow> block_ok D b" by (auto simp: block_ok_def)
  have "{(Suc l, i), (Suc l, i XOR 1)} = Pair (Suc l) ` {i, i XOR 1}" by simp
  also have "\<dots> = {(Suc l, 2 * (i div 2)), (Suc l, 2 * (i div 2) + 1)}"
    by (simp only: xor_one_pair) simp
  finally show "(\<Union>b\<in>{(l, i div 2)}. span D b) = (\<Union>b\<in>{(Suc l, i), (Suc l, i XOR 1)}. span D b)"
    using span_halves(1) [of l D "i div 2"] ok(1) by simp
qed (use assms in blast)+

section \<open>The moves of the allocator\<close>

lemma merged_subset: "merged F \<Longrightarrow> G \<subseteq> F \<Longrightarrow> merged G"
  unfolding merged_def by blast

lemma buddy_of_sym: "buddy_of (buddy_of b) = b"
  by (simp only: buddy_of_def fst_conv snd_conv) (simp add: xor.assoc)

lemma spec_take:
  assumes "buddy_spec D F A" "b \<in> F"
  shows "buddy_spec D (F - {b}) (insert b A)"
proof -
  have "F - {b} \<union> insert b A = F \<union> A" using assms(2) by blast
  with assms show ?thesis
    by (auto simp: buddy_spec_def intro: merged_subset)
qed

lemma halves_fresh:
  assumes "tiling D B" "(l, i) \<in> B" "l < D" "c = (Suc l, 2 * i) \<or> c = (Suc l, 2 * i + 1)"
  shows "c \<notin> B"
proof
  assume "c \<in> B"
  moreover obtain x where "x \<in> span D c" using span_nonempty by blast
  moreover have "x \<in> span D (l, i)"
    using \<open>x \<in> span D c\<close> assms(4) span_halves(1) [OF assms(3), of i] by blast
  ultimately have "c = (l, i)" using assms tiling_unique by blast
  with assms(4) show False by auto
qed

lemma spec_split:
  assumes spec: "buddy_spec D F A" and live: "(l, i) \<in> A" and l: "l < D"
  shows "buddy_spec D (insert (Suc l, 2 * i + 1) F) (insert (Suc l, 2 * i) (A - {(l, i)}))"
    and "(Suc l, 2 * i) \<notin> A"
proof -
  note s = spec [unfolded buddy_spec_def]
  let ?L = "(Suc l, 2 * i)" and ?R = "(Suc l, 2 * i + 1)"
  have fresh: "c \<notin> F \<union> A" if "c = ?L \<or> c = ?R" for c
    using halves_fresh [OF _ _ l that] s live by blast
  have "tiling D (F \<union> A - {(l, i)} \<union> {?L, ?R})"
    by (rule tiling_split) (use s live l in auto)
  moreover have "F \<union> A - {(l, i)} \<union> {?L, ?R} = insert ?R F \<union> insert ?L (A - {(l, i)})"
    using s live by blast
  moreover have "insert ?R F \<inter> insert ?L (A - {(l, i)}) = {}"
    using s fresh by auto
  moreover have "merged (insert ?R F)"
  proof -
    have buddy: "buddy_of ?R = ?L"
      by (simp only: buddy_of_def fst_conv snd_conv xor_one_double)
    have "buddy_of b \<noteq> ?R" if "b \<in> F" for b
    proof
      assume "buddy_of b = ?R"
      then have "b = ?L" using buddy_of_sym [of b] buddy by simp
      with that fresh show False by blast
    qed
    with buddy s fresh show ?thesis unfolding merged_def by auto
  qed
  ultimately show "buddy_spec D (insert ?R F) (insert ?L (A - {(l, i)}))"
    unfolding buddy_spec_def by simp
  show "?L \<notin> A" using fresh by blast
qed

text \<open>Freeing runs through states that are merged everywhere but at the block in hand.\<close>

definition freeing :: "nat \<Rightarrow> block set \<Rightarrow> block set \<Rightarrow> block \<Rightarrow> bool" where
  "freeing D F A b \<longleftrightarrow> b \<in> F \<and> F \<inter> A = {} \<and> tiling D (F \<union> A) \<and> merged (F - {b})"

lemma freeing_start:
  assumes "buddy_spec D F A" "b \<in> A"
  shows "freeing D (insert b F) (A - {b}) b"
proof -
  have "insert b F \<union> (A - {b}) = F \<union> A" using assms(2) by blast
  with assms show ?thesis
    by (auto simp: buddy_spec_def freeing_def intro: merged_subset)
qed

lemma freeing_merge:
  assumes fr: "freeing D F A (Suc l, i)" and buddy: "(Suc l, i XOR 1) \<in> F"
  shows "freeing D (insert (l, i div 2) (F - {(Suc l, i), (Suc l, i XOR 1)})) A (l, i div 2)"
proof -
  note f = fr [unfolded freeing_def]
  let ?P = "(l, i div 2)" and ?C = "{(Suc l, i), (Suc l, i XOR 1)}"
  have t: "tiling D (F \<union> A - ?C \<union> {?P})"
    by (rule tiling_merge) (use f buddy in auto)
  have out: "?P \<notin> A"
  proof
    assume P: "?P \<in> A"
    have "Suc l \<le> D" using f tiling_ok [of D "F \<union> A" "(Suc l, i)"] by (auto simp: block_ok_def)
    then have "span D (Suc l, i) \<inter> span D ?P \<noteq> {}"
      using span_parent [of l D i] span_nonempty [of D "(Suc l, i)"] by blast
    with P f have "(Suc l, i) = ?P" using tiling_unique by blast
    then show False by simp
  qed
  have "F \<union> A - ?C \<union> {?P} = insert ?P (F - ?C) \<union> A" using f buddy by blast
  moreover have "merged (insert ?P (F - ?C) - {?P})"
    using f by (blast intro: merged_subset)
  ultimately show ?thesis using t f out unfolding freeing_def by auto
qed

lemma freeing_done:
  assumes fr: "freeing D F A b" and top: "fst b = 0 \<or> buddy_of b \<notin> F"
  shows "buddy_spec D F A"
proof -
  have "merged F"
    unfolding merged_def
  proof (intro ballI impI notI)
    fix c assume c: "c \<in> F" "0 < fst c" "buddy_of c \<in> F"
    have "fst (buddy_of c) = fst c" by (simp add: buddy_of_def)
    then have "c \<noteq> b" "buddy_of c \<noteq> b" using c top buddy_of_sym [of c] by auto
    with c fr show False unfolding freeing_def merged_def by blast
  qed
  with fr show ?thesis by (simp add: freeing_def buddy_spec_def)
qed

section \<open>Completeness of a merged tiling\<close>

lemma finite_maximal:
  fixes h :: "'a \<Rightarrow> nat"
  assumes "finite M" "M \<noteq> {}" shows "\<exists>f\<in>M. \<forall>g\<in>M. h g \<le> h f"
proof -
  have "Max (h ` M) \<in> h ` M" using assms by (intro Max_in) auto
  then obtain f where f: "f \<in> M" "h f = Max (h ` M)" by auto
  have "h g \<le> h f" if "g \<in> M" for g using that assms(1) f(2) by simp
  with f(1) show ?thesis by blast
qed

lemma clear_cover:
  assumes spec: "buddy_spec D F A" and ok: "block_ok D (l, i)"
    and clear: "\<And>a. a \<in> A \<Longrightarrow> span D a \<inter> span D (l, i) = {}"
    and no: "\<And>f. f \<in> F \<Longrightarrow> fst f \<le> l \<Longrightarrow> \<not> span D (l, i) \<subseteq> span D f"
    and x: "x \<in> span D (l, i)"
  shows "\<exists>f\<in>F. x \<in> span D f \<and> l < fst f \<and> fst f \<le> D"
proof -
  have t: "tiling D (F \<union> A)" using spec by (simp add: buddy_spec_def)
  have l: "l \<le> D" using ok by (simp add: block_ok_def)
  obtain f where f: "f \<in> F \<union> A" "x \<in> span D f"
    using tiling_cover [OF t, of x] block_in_region [OF ok] x by blast
  have "f \<in> F" using clear [of f] f x by blast
  moreover have "l < fst f"
  proof (rule ccontr)
    assume "\<not> l < fst f"
    then show False
      using span_nested [of "fst f" l D x "snd f" i] l x f(2) no [OF \<open>f \<in> F\<close>] by simp
  qed
  ultimately show ?thesis using f tiling_ok [OF t f(1)] by (auto simp: block_ok_def)
qed

lemma merged_complete:
  assumes spec: "buddy_spec D F A" and ok: "block_ok D (l, i)"
    and clear: "\<And>a. a \<in> A \<Longrightarrow> span D a \<inter> span D (l, i) = {}"
  shows "\<exists>f\<in>F. fst f \<le> l \<and> span D (l, i) \<subseteq> span D f"
proof (rule ccontr)
  assume no: "\<not> ?thesis"
  note s = spec [unfolded buddy_spec_def]
  then have t: "tiling D (F \<union> A)" by blast
  have meet: "\<exists>f\<in>F. x \<in> span D f \<and> l < fst f \<and> fst f \<le> D" if "x \<in> span D (l, i)" for x
    using clear_cover [OF spec ok clear _ that] no by blast
  define M where "M = {f \<in> F. l < fst f \<and> fst f \<le> D \<and> span D f \<inter> span D (l, i) \<noteq> {}}"
  have "finite M" using tiling_finite [OF t] by (simp add: M_def)
  moreover obtain m where "m \<in> F" "i * 2 ^ (D - l) \<in> span D m" "l < fst m" "fst m \<le> D"
    using meet [OF first_in_span] by blast
  then have "m \<in> M" using first_in_span [of i D l] unfolding M_def by blast
  then have "M \<noteq> {}" by blast
  ultimately obtain f where f: "f \<in> M" and deepest: "\<And>g. g \<in> M \<Longrightarrow> fst g \<le> fst f"
    using finite_maximal [of M fst] by blast
  obtain k j where kj: "f = (Suc k, j)" using f by (cases f, cases "fst f") (auto simp: M_def)
  have k: "l \<le> k" "Suc k \<le> D" using f kj by (auto simp: M_def)
  have par: "span D (Suc k, j) \<subseteq> span D (k, j div 2)" "span D (Suc k, j XOR 1) \<subseteq> span D (k, j div 2)"
    using span_parent [OF k(2)] xor_one_half [of j] by metis+
  obtain z where z: "z \<in> span D (Suc k, j)" "z \<in> span D (l, i)" using f kj by (auto simp: M_def)
  then have par_in: "span D (k, j div 2) \<subseteq> span D (l, i)"
    using span_nested [of l k D z i "j div 2"] par k by auto
  obtain x where x: "x \<in> span D (Suc k, j XOR 1)" using span_nonempty by blast
  then have xl: "x \<in> span D (l, i)" using par par_in by blast
  then obtain g where g: "g \<in> F" "x \<in> span D g" "l < fst g" "fst g \<le> D" using meet by blast
  then have "g \<in> M" using xl by (auto simp: M_def)
  then have "fst g \<le> Suc k" using deepest kj by fastforce
  have "fst g = Suc k"
  proof (rule ccontr)
    assume "fst g \<noteq> Suc k"
    then have "span D (k, j div 2) \<subseteq> span D g"
      using span_nested [of "fst g" k D x "snd g" "j div 2"] \<open>fst g \<le> Suc k\<close> x g par k by auto
    then have "z \<in> span D g" using z par by blast
    moreover have "f \<in> F" using f by (simp add: M_def)
    ultimately have "g = f" using tiling_unique [OF t, of g f z] g(1) z kj by simp
    with kj \<open>fst g \<noteq> Suc k\<close> show False by simp
  qed
  then have "g = (Suc k, j XOR 1)" using g(2) x by (cases g) (simp add: in_span)
  with g(1) f kj s show False by (auto simp: merged_def buddy_of_def M_def)
qed

lemma all_free_merged:
  assumes "buddy_spec D F {}" shows "F = {(0, 0)}"
proof -
  have root: "block_ok D (0, 0)" by (simp add: block_ok_def)
  obtain f where f: "f \<in> F" "fst f \<le> 0" using merged_complete [OF assms root] by blast
  have t: "tiling D F" using assms by (simp add: buddy_spec_def)
  have f0: "f = (0, 0)" using tiling_ok [OF t f(1)] f(2) by (cases f) (simp add: block_ok_def)
  have "b = (0, 0)" if "b \<in> F" for b
  proof -
    obtain x where x: "x \<in> span D b" using span_nonempty by blast
    then have "x < 2 ^ D" using block_in_region [OF tiling_ok [OF t that]] by blast
    then have "x \<in> span D (0, 0)" by (simp add: in_span)
    then show ?thesis using tiling_unique [OF t that] x f f0 by blast
  qed
  with f f0 show ?thesis by blast
qed

lemma spec_init: "buddy_spec D {(0, 0)} {}"
proof -
  have "span D (0, 0) = {..<2 ^ D}" by (auto simp: span_interval)
  then show ?thesis by (simp add: buddy_spec_def tiling_def merged_def block_ok_def)
qed

lemmas spec_moves = spec_init spec_take spec_split freeing_start freeing_merge freeing_done

end
