(* ===== verification/Slots.thy ===== *)
theory Slots
  imports C2_Prelude
begin

text \<open>
  The contract between a block allocator and a table of slots that hold allocators.

  \<open>block_store\<close> is what the pool of \<open>c2-mem/src/pool.rs\<close> relies on of each buddy segment: \<open>holds b live\<close>
  says that the callers of \<open>b\<close> hold exactly the blocks of \<open>live\<close>. The lemmas of the locale lift the contract
  to a table whose slots are created, used and dropped independently; they are proved once here and reach
  the pool through the interpretation on the buddy allocator.
\<close>

lemma filter_remove1_other: "\<not> P x \<Longrightarrow> filter P (remove1 x xs) = filter P xs"
  by (induction xs) auto

lemma snd_filter_remove1:
  "map snd (filter (\<lambda>x. fst x = i) (remove1 (i, a) xs)) = remove1 a (map snd (filter (\<lambda>x. fst x = i) xs))"
  by (induction xs) auto

lemma map_remove1_inj:
  assumes "inj_on f (insert x (set xs))"
  shows "map f (remove1 x xs) = remove1 (f x) (map f xs)"
  using assms by (induction xs) (auto simp: inj_on_def)

lemma filter_remove1_same: "P x \<Longrightarrow> filter P (remove1 x xs) = remove1 x (filter P xs)"
  by (induction xs) auto

locale block_store =
  fixes holds :: "'b \<Rightarrow> 'a list \<Rightarrow> bool"
    and acquire :: "'b \<Rightarrow> nat \<Rightarrow> ('a option \<times> 'b) option"
    and release :: "'b \<Rightarrow> 'a \<Rightarrow> 'b option"
    and extent :: "'a \<Rightarrow> nat set"
    and capacity :: "'b \<Rightarrow> nat"
    and idle :: "'b \<Rightarrow> bool"
  assumes acquire_total: "holds b live \<Longrightarrow> \<exists>r b'. acquire b n = Some (r, b')"
    and acquire_placed: "holds b live \<Longrightarrow> acquire b n = Some (Some a, b') \<Longrightarrow>
      holds b' (a # live) \<and> capacity b' = capacity b \<and> n \<le> card (extent a)"
    and acquire_refused: "holds b live \<Longrightarrow> acquire b n = Some (None, b') \<Longrightarrow> b' = b"
    and acquire_fresh: "holds b [] \<Longrightarrow> 0 < n \<Longrightarrow> n \<le> capacity b \<Longrightarrow> \<exists>a b'. acquire b n = Some (Some a, b')"
    and release_total: "holds b live \<Longrightarrow> a \<in> set live \<Longrightarrow>
      \<exists>b'. release b a = Some b' \<and> holds b' (remove1 a live) \<and> capacity b' = capacity b"
    and live_distinct: "holds b live \<Longrightarrow> distinct live"
    and live_apart: "holds b live \<Longrightarrow> x \<in> set live \<Longrightarrow> y \<in> set live \<Longrightarrow> x \<noteq> y \<Longrightarrow> extent x \<inter> extent y = {}"
    and live_inside: "holds b live \<Longrightarrow> x \<in> set live \<Longrightarrow> extent x \<subseteq> {..<capacity b}"
    and idle_iff: "holds b live \<Longrightarrow> idle b \<longleftrightarrow> live = []"
begin

definition blocks_of :: "nat \<Rightarrow> (nat \<times> 'a) list \<Rightarrow> 'a list" where
  "blocks_of i live = map snd (filter (\<lambda>x. fst x = i) live)"

definition table_ok :: "(nat \<Rightarrow> 'b option) \<Rightarrow> (nat \<times> 'a) list \<Rightarrow> bool" where
  "table_ok tab live \<longleftrightarrow> (\<forall>i. case tab i of None \<Rightarrow> blocks_of i live = [] | Some b \<Rightarrow> holds b (blocks_of i live))"

lemma in_blocks_of: "a \<in> set (blocks_of i live) \<longleftrightarrow> (i, a) \<in> set live"
  by (force simp: blocks_of_def)

lemma blocks_of_Cons: "blocks_of j ((i, a) # live) = (if i = j then a # blocks_of j live else blocks_of j live)"
  by (simp add: blocks_of_def)

lemma blocks_of_remove:
  "blocks_of j (remove1 (i, a) live) = (if i = j then remove1 a (blocks_of j live) else blocks_of j live)"
  by (simp add: blocks_of_def snd_filter_remove1 filter_remove1_other)

lemma table_slot: "table_ok tab live \<Longrightarrow> tab i = Some b \<Longrightarrow> holds b (blocks_of i live)"
  unfolding table_ok_def by (drule spec [of _ i]) simp

lemma table_empty: "table_ok tab live \<Longrightarrow> tab i = None \<Longrightarrow> blocks_of i live = []"
  unfolding table_ok_def by (drule spec [of _ i]) simp

lemma table_owner: "table_ok tab live \<Longrightarrow> (i, a) \<in> set live \<Longrightarrow> \<exists>b. tab i = Some b"
  using table_empty [of tab live i] in_blocks_of [of a i live] by (cases "tab i") auto

lemma table_update:
  assumes "table_ok tab live" "\<And>j. j \<noteq> i \<Longrightarrow> blocks_of j live' = blocks_of j live"
    and "case s of None \<Rightarrow> blocks_of i live' = [] | Some b \<Rightarrow> holds b (blocks_of i live')"
  shows "table_ok (tab(i := s)) live'"
  unfolding table_ok_def
proof
  fix j
  have "case tab j of None \<Rightarrow> blocks_of j live = [] | Some b \<Rightarrow> holds b (blocks_of j live)"
    using assms(1) unfolding table_ok_def by blast
  then show "case (tab(i := s)) j of None \<Rightarrow> blocks_of j live' = [] | Some b \<Rightarrow> holds b (blocks_of j live')"
    using assms(2) [of j] assms(3) by (cases "j = i") (simp_all split: option.splits)
qed

lemma table_acquire:
  assumes "table_ok tab live" "tab i = Some b" "acquire b n = Some (Some a, b')"
  shows "table_ok (tab(i \<mapsto> b')) ((i, a) # live)"
  using acquire_placed [OF table_slot [OF assms(1,2)] assms(3)]
  by (intro table_update [OF assms(1)]) (simp_all add: blocks_of_Cons)

lemma table_release:
  assumes "table_ok tab live" "tab i = Some b" "(i, a) \<in> set live"
  shows "\<exists>b'. release b a = Some b' \<and> capacity b' = capacity b \<and> table_ok (tab(i \<mapsto> b')) (remove1 (i, a) live)"
proof -
  obtain b' where b': "release b a = Some b'" "holds b' (remove1 a (blocks_of i live))" "capacity b' = capacity b"
    using release_total [OF table_slot [OF assms(1,2)]] assms(3) in_blocks_of by blast
  moreover have "table_ok (tab(i \<mapsto> b')) (remove1 (i, a) live)"
    using b'(2) by (intro table_update [OF assms(1)]) (simp_all add: blocks_of_remove)
  ultimately show ?thesis by blast
qed

lemma table_install:
  assumes "table_ok tab live" "tab i = None" "holds b []"
  shows "table_ok (tab(i \<mapsto> b)) live"
  using table_empty [OF assms(1,2)] assms(3) by (intro table_update [OF assms(1)]) simp_all

lemma table_drop:
  assumes "table_ok tab live" "tab i = Some b" "idle b"
  shows "table_ok (tab(i := None)) live"
  using idle_iff [OF table_slot [OF assms(1,2)]] assms(3) by (intro table_update [OF assms(1)]) simp_all

lemma table_apart:
  assumes "table_ok tab live" "(i, x) \<in> set live" "(i, y) \<in> set live" "x \<noteq> y"
  shows "extent x \<inter> extent y = {}"
proof -
  obtain b where "tab i = Some b" using table_owner [OF assms(1,2)] by blast
  from live_apart [OF table_slot [OF assms(1) this]] assms(2-4) show ?thesis by (simp add: in_blocks_of)
qed

lemma table_inside:
  assumes "table_ok tab live" "(i, x) \<in> set live" "tab i = Some b"
  shows "extent x \<subseteq> {..<capacity b}"
  using live_inside [OF table_slot [OF assms(1,3)]] assms(2) by (simp add: in_blocks_of)

lemma table_distinct:
  assumes "table_ok tab live" shows "distinct live"
proof -
  have "distinct xs" if "\<And>i. distinct (map snd (filter (\<lambda>x. fst x = i) xs))" for xs :: "(nat \<times> 'a) list"
    using that
  proof (induction xs)
    case (Cons x xs)
    have "distinct (map snd (filter (\<lambda>y. fst y = i) xs))" for i
      using Cons.prems [of i] by (auto split: if_splits)
    moreover have "x \<notin> set xs" using Cons.prems [of "fst x"] by (cases x) force
    ultimately show ?case using Cons.IH by simp
  qed simp
  moreover have "distinct (blocks_of i live)" for i
    using live_distinct [OF table_slot [OF assms]] table_empty [OF assms] by (cases "tab i") auto
  ultimately show ?thesis by (simp add: blocks_of_def)
qed

end

end
