(* ===== verification/Buddy.thy ===== *)
theory Buddy
  imports Bitmap Dyadic Slots
begin

text \<open>
  The owner-local buddy allocator of \<open>c2-mem/src/alloc/buddy.rs\<close>.

  \<^item> The records and operations follow the source; the mutex makes each of \<open>alloc\<close> and \<open>free\<close> one
    critical section, so a concurrent execution is a sequence of these steps, and
    \<open>buddy_reach\<close> is every such sequence with the list of live allocations beside it.
  \<^item> Counter arithmetic is checked (an overflow is a panic), and the theorems show that no panic
    occurs, so the wrapping of a release build never happens either.
  \<^item> The bitmaps of all levels refine the tilings of \<open>Dyadic\<close>: \<open>free_blocks\<close> is the abstraction
    and each loop of the code is one of the moves there.
\<close>

record allocation =
  al_offset :: u32
  al_actual_size :: u32
  al_level :: u16

record buddy_layout =
  bl_data_size :: usize
  bl_total_size :: usize

record buddy_state =
  bs_bitmaps :: "level_bitmap list"
  bs_alloc_count :: u32
  bs_free_bytes :: u64

record buddy_allocator =
  ba_base :: u64
  ba_data_size :: usize
  ba_min_block :: usize
  ba_state :: buddy_state

definition on_level :: "level_bitmap list \<Rightarrow> usize \<Rightarrow> (level_bitmap \<Rightarrow> level_bitmap run) \<Rightarrow> level_bitmap list run" where
  "on_level bms level f = do { bm \<leftarrow> nth_run bms level; bm' \<leftarrow> f bm; upd_run bms level bm' }"

definition buddy_init :: "u64 \<Rightarrow> buddy_layout \<Rightarrow> usize \<Rightarrow> buddy_allocator run" where
  "buddy_init base layout min_block =
     do {
       levels \<leftarrow> num_levels (bl_data_size layout) min_block;
       bitmaps \<leftarrow> on_level (map (\<lambda>level. new_bitmap (2 ^ level)) [0..<levels]) 0 (\<lambda>bm. free_one bm 0);
       Some \<lparr>ba_base = base, ba_data_size = bl_data_size layout, ba_min_block = min_block,
             ba_state = \<lparr>bs_bitmaps = bitmaps, bs_alloc_count = 0,
                         bs_free_bytes = word_of_nat (bl_data_size layout)\<rparr>\<rparr>
     }"

definition checked_layout :: "usize \<Rightarrow> usize \<Rightarrow> buddy_layout option" where
  "checked_layout min_data_capacity min_block =
     (if min_block = 0 \<or> \<not> is_power_of_two min_block then None
      else do {
        data_size \<leftarrow> checked_next_power_of_two min_data_capacity;
        if min_data_capacity = 0 \<or> data_size > u32_max \<or> data_size > isize_max \<or> min_block > data_size
        then None
        else Some \<lparr>bl_data_size = data_size, bl_total_size = data_size\<rparr>
      })"

fun find_donor :: "usize \<Rightarrow> level_bitmap list \<Rightarrow> (usize \<times> usize \<times> level_bitmap list) option run" where
  "find_donor level bms =
     do {
       bm \<leftarrow> nth_run bms level;
       case alloc_one bm of
         (Some index, bm') \<Rightarrow> do { bms' \<leftarrow> upd_run bms level bm'; Some (Some (level, index, bms')) }
       | (None, _) \<Rightarrow> (case level of 0 \<Rightarrow> Some None | Suc l \<Rightarrow> find_donor l bms)
     }"

declare find_donor.simps [simp del]

fun split_blocks :: "usize list \<Rightarrow> usize \<Rightarrow> level_bitmap list \<Rightarrow> (usize \<times> level_bitmap list) run" where
  "split_blocks [] index bms = Some (index, bms)"
| "split_blocks (level # levels) index bms =
     do {
       bms' \<leftarrow> on_level bms level (\<lambda>bm. free_one bm (index * 2 + 1));
       split_blocks levels (index * 2) bms'
     }"

definition buddy_alloc :: "buddy_allocator \<Rightarrow> usize \<Rightarrow> (allocation option \<times> buddy_allocator) run" where
  "buddy_alloc b sz =
     (if sz = 0 \<or> sz > ba_data_size b then Some (None, b)
      else case checked_next_power_of_two sz of
        None \<Rightarrow> Some (None, b)
      | Some pow \<Rightarrow>
          let actual_size = max pow (ba_min_block b); st = ba_state b
          in do {
            target_level \<leftarrow> ilog2 (ba_data_size b div actual_size);
            donor \<leftarrow> find_donor target_level (bs_bitmaps st);
            case donor of
              None \<Rightarrow> Some (None, b)
            | Some (donor_level, index0, bms) \<Rightarrow>
                do {
                  (index, bms') \<leftarrow> split_blocks [donor_level + 1..<target_level + 1] index0 bms;
                  count \<leftarrow> checked_add (bs_alloc_count st) 1;
                  free_bytes \<leftarrow> checked_sub (bs_free_bytes st) (word_of_nat actual_size);
                  Some (Some \<lparr>al_offset = word_of_nat (index * actual_size),
                              al_actual_size = word_of_nat actual_size,
                              al_level = word_of_nat target_level\<rparr>,
                        b\<lparr>ba_state := \<lparr>bs_bitmaps = bms', bs_alloc_count = count,
                                      bs_free_bytes = free_bytes\<rparr>\<rparr>)
                }
          })"

fun merge_up :: "usize \<Rightarrow> usize \<Rightarrow> level_bitmap list \<Rightarrow> level_bitmap list run" where
  "merge_up 0 index bms = Some bms"
| "merge_up (Suc level) index bms =
     do {
       bm \<leftarrow> nth_run bms (Suc level);
       buddy_free \<leftarrow> is_free bm (index XOR 1);
       if buddy_free then
         do {
           bms1 \<leftarrow> on_level bms (Suc level) (\<lambda>bm. mark_used bm index);
           bms2 \<leftarrow> on_level bms1 (Suc level) (\<lambda>bm. mark_used bm (index XOR 1));
           bms3 \<leftarrow> on_level bms2 level (\<lambda>bm. free_one bm (index div 2));
           merge_up level (index div 2) bms3
         }
       else Some bms
     }"

definition buddy_free :: "buddy_allocator \<Rightarrow> u32 \<Rightarrow> u16 \<Rightarrow> buddy_allocator run" where
  "buddy_free b offset level =
     do {
       ensure (unat level < 64);
       let size = drop_bit (unat level) (ba_data_size b);
       ensure (size \<noteq> 0);
       let index = unat offset div size;
       let st = ba_state b;
       bms \<leftarrow> on_level (bs_bitmaps st) (unat level) (\<lambda>bm. free_one bm index);
       count \<leftarrow> checked_sub (bs_alloc_count st) 1;
       free_bytes \<leftarrow> checked_add (bs_free_bytes st) (word_of_nat size);
       bms' \<leftarrow> merge_up (unat level) index bms;
       Some (b\<lparr>ba_state := \<lparr>bs_bitmaps = bms', bs_alloc_count = count, bs_free_bytes = free_bytes\<rparr>\<rparr>)
     }"

definition data_ptr :: "buddy_allocator \<Rightarrow> u32 \<Rightarrow> u64" where
  "data_ptr b offset = ba_base b + ucast offset"

definition alloc_count :: "buddy_allocator \<Rightarrow> u32" where
  "alloc_count b = bs_alloc_count (ba_state b)"

definition free_bytes :: "buddy_allocator \<Rightarrow> u64" where
  "free_bytes b = bs_free_bytes (ba_state b)"

text \<open>Every sequence of critical sections, with the allocations its callers hold.\<close>

inductive buddy_reach :: "buddy_allocator \<Rightarrow> allocation list \<Rightarrow> bool" where
  reach_init: "checked_layout capacity min_block = Some layout \<Longrightarrow>
     buddy_init base layout min_block = Some b \<Longrightarrow> buddy_reach b []"
| reach_alloc: "buddy_reach b live \<Longrightarrow> buddy_alloc b sz = Some (Some a, b') \<Longrightarrow>
     buddy_reach b' (a # live)"
| reach_refused: "buddy_reach b live \<Longrightarrow> buddy_alloc b sz = Some (None, b') \<Longrightarrow>
     buddy_reach b' live"
| reach_free: "buddy_reach b live \<Longrightarrow> a \<in> set live \<Longrightarrow>
     buddy_free b (al_offset a) (al_level a) = Some b' \<Longrightarrow> buddy_reach b' (remove1 a live)"

section \<open>The bitmaps of all levels\<close>

definition free_blocks :: "level_bitmap list \<Rightarrow> block set" where
  "free_blocks bms = {(l, i). l < length bms \<and> i \<in> free_set (bms ! l)}"

definition bms_inv :: "nat \<Rightarrow> level_bitmap list \<Rightarrow> bool" where
  "bms_inv D bms \<longleftrightarrow>
     length bms = Suc D \<and> (\<forall>l\<le>D. bitmap_inv (bms ! l) \<and> num_blocks (bms ! l) = 2 ^ l)"

lemma free_blocks_mem: "(l, i) \<in> free_blocks bms \<longleftrightarrow> l < length bms \<and> i \<in> free_set (bms ! l)"
  by (simp add: free_blocks_def)

lemma bms_inv_update:
  assumes "bms_inv D bms" "l \<le> D" "bitmap_inv bm" "num_blocks bm = 2 ^ l"
  shows "bms_inv D (bms[l := bm])"
  using assms by (auto simp: bms_inv_def nth_list_update)

lemma free_blocks_update:
  assumes "l < length bms"
  shows "free_blocks (bms[l := bm]) = {b \<in> free_blocks bms. fst b \<noteq> l} \<union> Pair l ` free_set bm"
  using assms by (auto simp: free_blocks_def nth_list_update split: if_splits)

lemma on_level_free:
  assumes "bms_inv D bms" "l \<le> D" "i < 2 ^ l"
  shows "\<exists>bms'. on_level bms l (\<lambda>bm. free_one bm i) = Some bms' \<and> bms_inv D bms' \<and>
           free_blocks bms' = insert (l, i) (free_blocks bms)"
proof -
  have l: "l < length bms" using assms by (simp add: bms_inv_def)
  obtain bm where "free_one (bms ! l) i = Some bm" "bitmap_inv bm"
    "free_set bm = insert i (free_set (bms ! l))" "num_blocks bm = 2 ^ l"
    using free_one_spec [of "bms ! l" i] assms by (auto simp: bms_inv_def)
  note bm = this
  have "on_level bms l (\<lambda>bm. free_one bm i) = Some (bms[l := bm])" using l bm(1) by (simp add: on_level_def)
  moreover have "bms_inv D (bms[l := bm])" using assms bm by (intro bms_inv_update)
  moreover have "free_blocks (bms[l := bm]) = insert (l, i) (free_blocks bms)"
    unfolding free_blocks_update [OF l] bm(3) using l by (auto simp: free_blocks_def)
  ultimately show ?thesis by blast
qed

lemma on_level_mark:
  assumes "bms_inv D bms" "l \<le> D" "i < 2 ^ l"
  shows "\<exists>bms'. on_level bms l (\<lambda>bm. mark_used bm i) = Some bms' \<and> bms_inv D bms' \<and>
           free_blocks bms' = free_blocks bms - {(l, i)}"
proof -
  have l: "l < length bms" using assms by (simp add: bms_inv_def)
  obtain bm where "mark_used (bms ! l) i = Some bm" "bitmap_inv bm"
    "free_set bm = free_set (bms ! l) - {i}" "num_blocks bm = 2 ^ l"
    using mark_used_spec [of "bms ! l" i] assms by (auto simp: bms_inv_def)
  note bm = this
  have "on_level bms l (\<lambda>bm. mark_used bm i) = Some (bms[l := bm])" using l bm(1) by (simp add: on_level_def)
  moreover have "bms_inv D (bms[l := bm])" using assms bm by (intro bms_inv_update)
  moreover have "free_blocks (bms[l := bm]) = free_blocks bms - {(l, i)}"
    unfolding free_blocks_update [OF l] bm(3) using l by (auto simp: free_blocks_def)
  ultimately show ?thesis by blast
qed

lemma level_take:
  assumes "bms_inv D bms" "l \<le> D"
  obtains "l < length bms" "alloc_one (bms ! l) = (None, bms ! l)" "\<forall>b\<in>free_blocks bms. fst b \<noteq> l"
  | i bm' where "l < length bms" "alloc_one (bms ! l) = (Some i, bm')" "(l, i) \<in> free_blocks bms"
      "bms_inv D (bms[l := bm'])" "free_blocks (bms[l := bm']) = free_blocks bms - {(l, i)}"
proof -
  have l: "l < length bms" and inv: "bitmap_inv (bms ! l)" and n: "num_blocks (bms ! l) = 2 ^ l"
    using assms by (auto simp: bms_inv_def)
  show thesis
  proof (rule bm.take_cases [OF inv])
    assume "free_set (bms ! l) = {}" "alloc_one (bms ! l) = (None, bms ! l)"
    with l that(1) show thesis by (auto simp: free_blocks_def)
  next
    fix i bm'
    assume t: "i \<in> free_set (bms ! l)" "alloc_one (bms ! l) = (Some i, bm')" "bitmap_inv bm'"
      "free_set bm' = free_set (bms ! l) - {i}" "num_blocks bm' = num_blocks (bms ! l)"
    show thesis
    proof (rule that(2) [OF l t(2)])
      show "free_blocks (bms[l := bm']) = free_blocks bms - {(l, i)}"
        unfolding free_blocks_update [OF l] t(4) using l by (auto simp: free_blocks_def)
    qed (use l t n assms in \<open>auto simp: free_blocks_def intro: bms_inv_update\<close>)
  qed
qed

lemma find_donor_found:
  "l < length bms \<Longrightarrow> alloc_one (bms ! l) = (Some i, bm') \<Longrightarrow>
     find_donor l bms = Some (Some (l, i, bms[l := bm']))"
  by (subst find_donor.simps) simp

lemma find_donor_next:
  "l < length bms \<Longrightarrow> alloc_one (bms ! l) = (None, bm') \<Longrightarrow>
     find_donor l bms = (case l of 0 \<Rightarrow> Some None | Suc k \<Rightarrow> find_donor k bms)"
  by (subst find_donor.simps) simp

lemma find_donor_spec:
  assumes "bms_inv D bms" "l \<le> D"
  shows "(find_donor l bms = Some None \<and> (\<forall>b\<in>free_blocks bms. l < fst b)) \<or>
    (\<exists>k i bms'. find_donor l bms = Some (Some (k, i, bms')) \<and> k \<le> l \<and> (k, i) \<in> free_blocks bms \<and>
       bms_inv D bms' \<and> free_blocks bms' = free_blocks bms - {(k, i)})"
  using assms(2)
proof (induction l)
  case 0
  show ?case
    by (rule level_take [OF assms(1) 0]) (auto simp: find_donor_found find_donor_next)
next
  case (Suc l)
  show ?case
  proof (rule level_take [OF assms(1) Suc.prems])
    assume none: "Suc l < length bms" "alloc_one (bms ! Suc l) = (None, bms ! Suc l)"
      "\<forall>b\<in>free_blocks bms. fst b \<noteq> Suc l"
    then have "find_donor (Suc l) bms = find_donor l bms" by (simp add: find_donor_next)
    moreover have "Suc l < fst b" if "b \<in> free_blocks bms" "l < fst b" for b
      using none(3) that by (intro Suc_lessI) auto
    ultimately show ?thesis using Suc by (auto intro: le_SucI)
  next
    fix i bm'
    assume "Suc l < length bms" "alloc_one (bms ! Suc l) = (Some i, bm')"
      "(Suc l, i) \<in> free_blocks bms" "bms_inv D (bms[Suc l := bm'])"
      "free_blocks (bms[Suc l := bm']) = free_blocks bms - {(Suc l, i)}"
    then show ?thesis using find_donor_found by blast
  qed
qed

lemma split_blocks_spec:
  assumes "bms_inv D bms" "buddy_spec D (free_blocks bms) A" "(k, i) \<in> A" "k + n \<le> D"
  shows "\<exists>j bms'. split_blocks [Suc k..<Suc (k + n)] i bms = Some (j, bms') \<and> bms_inv D bms' \<and>
     (k + n, j) \<notin> A - {(k, i)} \<and> buddy_spec D (free_blocks bms') (insert (k + n, j) (A - {(k, i)}))"
  using assms
proof (induction n arbitrary: k i A bms)
  case 0
  then show ?case by (auto simp: insert_absorb)
next
  case (Suc n)
  have k: "k < D" using Suc.prems(4) by simp
  note split = spec_split [OF Suc.prems(2,3) k]
  have "2 * i + 1 < 2 ^ Suc k"
    using halves_ok(2) [of D k i] tiling_ok [of D "free_blocks bms \<union> A" "(k, i)"] Suc.prems k
    by (auto simp: block_ok_def buddy_spec_def)
  then obtain bms' where bms': "on_level bms (Suc k) (\<lambda>bm. free_one bm (i * 2 + 1)) = Some bms'"
    "bms_inv D bms'" "free_blocks bms' = insert (Suc k, 2 * i + 1) (free_blocks bms)"
    using on_level_free [OF Suc.prems(1), of "Suc k" "i * 2 + 1"] k by (auto simp: mult.commute)
  let ?A = "insert (Suc k, 2 * i) (A - {(k, i)})"
  have "?A - {(Suc k, 2 * i)} = A - {(k, i)}" using split(2) by auto
  moreover obtain j bms'' where "split_blocks [Suc (Suc k)..<Suc (Suc k + n)] (2 * i) bms' = Some (j, bms'')"
    "bms_inv D bms''" "(Suc k + n, j) \<notin> ?A - {(Suc k, 2 * i)}"
    "buddy_spec D (free_blocks bms'') (insert (Suc k + n, j) (?A - {(Suc k, 2 * i)}))"
    using Suc.IH [of bms' ?A "Suc k" "2 * i"] bms' split(1) Suc.prems(4) by auto
  moreover have "[Suc k..<Suc (k + Suc n)] = Suc k # [Suc (Suc k)..<Suc (Suc k + n)]"
    by (simp add: upt_conv_Cons)
  ultimately show ?case using bms'(1) by (simp add: mult.commute del: upt_Suc)
qed

lemma merge_up_spec:
  assumes "bms_inv D bms" "freeing D (free_blocks bms) A (l, i)"
  shows "\<exists>bms'. merge_up l i bms = Some bms' \<and> bms_inv D bms' \<and> buddy_spec D (free_blocks bms') A"
  using assms
proof (induction l arbitrary: i bms)
  case 0
  then show ?case using freeing_done by auto
next
  case (Suc l)
  have ok: "Suc l \<le> D" "i < 2 ^ Suc l"
    using Suc.prems(2) tiling_ok [of D "free_blocks bms \<union> A" "(Suc l, i)"]
    by (auto simp: freeing_def block_ok_def)
  then have x: "i XOR 1 < 2 ^ Suc l" by (intro xor_one_lt) auto
  have len: "Suc l < length bms" using Suc.prems(1) ok by (simp add: bms_inv_def)
  have test: "is_free (bms ! Suc l) (i XOR 1) = Some ((Suc l, i XOR 1) \<in> free_blocks bms)"
    using Suc.prems(1) ok x len by (subst is_free_spec) (auto simp: bms_inv_def free_blocks_def)
  show ?case
  proof (cases "(Suc l, i XOR 1) \<in> free_blocks bms")
    case False
    then have "buddy_spec D (free_blocks bms) A"
      using freeing_done [OF Suc.prems(2)] by (simp add: buddy_of_def)
    with False Suc.prems(1) test len show ?thesis by simp
  next
    case True
    obtain b1 where b1: "on_level bms (Suc l) (\<lambda>bm. mark_used bm i) = Some b1" "bms_inv D b1"
      "free_blocks b1 = free_blocks bms - {(Suc l, i)}"
      using on_level_mark [OF Suc.prems(1) ok] by blast
    obtain b2 where b2: "on_level b1 (Suc l) (\<lambda>bm. mark_used bm (i XOR 1)) = Some b2" "bms_inv D b2"
      "free_blocks b2 = free_blocks b1 - {(Suc l, i XOR 1)}"
      using on_level_mark [OF b1(2) ok(1) x] by blast
    obtain b3 where b3: "on_level b2 l (\<lambda>bm. free_one bm (i div 2)) = Some b3" "bms_inv D b3"
      "free_blocks b3 = insert (l, i div 2) (free_blocks b2)"
      using on_level_free [OF b2(2), of l "i div 2"] ok by (auto simp: less_mult_imp_div_less)
    have "free_blocks b3 = insert (l, i div 2) (free_blocks bms - {(Suc l, i), (Suc l, i XOR 1)})"
      using b1(3) b2(3) b3(3) by auto
    then have "freeing D (free_blocks b3) A (l, i div 2)"
      using freeing_merge [OF Suc.prems(2) True] by simp
    from Suc.IH [OF b3(2) this] True test len b1(1) b2(1) b3(1) show ?thesis by auto
  qed
qed

section \<open>Geometry\<close>

definition depth :: "buddy_allocator \<Rightarrow> nat" where
  "depth b = floor_log2 (ba_data_size b div ba_min_block b)"

definition geometry :: "buddy_allocator \<Rightarrow> bool" where
  "geometry b \<longleftrightarrow> (\<exists>m. ba_min_block b = 2 ^ m \<and> ba_data_size b = 2 ^ (m + depth b) \<and> m + depth b < 32)"

definition block_size :: "buddy_allocator \<Rightarrow> nat \<Rightarrow> nat" where
  "block_size b l = ba_data_size b div 2 ^ l"

definition mint :: "buddy_allocator \<Rightarrow> block \<Rightarrow> allocation" where
  "mint b blk = \<lparr>al_offset = word_of_nat (snd blk * block_size b (fst blk)),
     al_actual_size = word_of_nat (block_size b (fst blk)), al_level = word_of_nat (fst blk)\<rparr>"

lemma geometryE:
  assumes "geometry b"
  obtains m where "ba_min_block b = 2 ^ m" "ba_data_size b = 2 ^ (m + depth b)" "m + depth b < 32"
    "\<And>l. l \<le> depth b \<Longrightarrow> block_size b l = 2 ^ (m + depth b - l)"
proof -
  obtain m where m: "ba_min_block b = 2 ^ m" "ba_data_size b = 2 ^ (m + depth b)" "m + depth b < 32"
    using assms by (auto simp: geometry_def)
  moreover have "block_size b l = 2 ^ (m + depth b - l)" if "l \<le> depth b" for l
    unfolding block_size_def m(2) using that by (intro power_diff [symmetric]) simp_all
  ultimately show thesis using that by blast
qed

lemma block_size_bounds:
  assumes "geometry b" "l \<le> depth b"
  shows "0 < block_size b l" "block_size b l * 2 ^ l = ba_data_size b" "ba_min_block b \<le> block_size b l"
proof -
  obtain m where m: "ba_min_block b = 2 ^ m" "ba_data_size b = 2 ^ (m + depth b)"
    "block_size b l = 2 ^ (m + depth b - l)"
    using assms by (elim geometryE) blast
  show "0 < block_size b l" by (simp add: m)
  show "block_size b l * 2 ^ l = ba_data_size b"
    using assms(2) by (simp only: m power_add [symmetric]) simp
  show "ba_min_block b \<le> block_size b l"
    unfolding m using assms(2) by (intro power_increasing) simp_all
qed

lemma block_end:
  assumes "geometry b" "block_ok (depth b) (l, i)"
  shows "i * block_size b l + block_size b l \<le> ba_data_size b"
proof -
  have "i + 1 \<le> 2 ^ l" using assms(2) by (simp add: block_ok_def)
  then have "(i + 1) * block_size b l \<le> 2 ^ l * block_size b l" by (rule mult_right_mono) simp
  then show ?thesis
    using block_size_bounds(2) [OF assms(1), of l] assms(2) by (simp add: block_ok_def algebra_simps)
qed

lemma data_size_bound: assumes "geometry b" shows "ba_data_size b < 2 ^ 32"
  using assms by (elim geometryE) (simp only: power_strict_increasing_iff one_less_numeral_iff semiring_norm)

lemma mint_fields:
  assumes "geometry b" "block_ok (depth b) (l, i)"
  shows "unat (al_offset (mint b (l, i))) = i * block_size b l"
    "unat (al_actual_size (mint b (l, i))) = block_size b l"
    "unat (al_level (mint b (l, i))) = l"
proof -
  note e = block_end [OF assms] and d = data_size_bound [OF assms(1)]
    and p = block_size_bounds(1) [OF assms(1), of l]
  have l: "l \<le> depth b" using assms(2) by (simp add: block_ok_def)
  obtain m where "m + depth b < 32" using assms(1) by (elim geometryE)
  with l have "l < 2 ^ 16" by simp
  then show "unat (al_level (mint b (l, i))) = l"
    by (simp add: mint_def unat_of_nat take_bit_nat_eq_self)
  show "unat (al_actual_size (mint b (l, i))) = block_size b l"
    using e d by (simp add: mint_def unat_of_nat take_bit_nat_eq_self)
  show "unat (al_offset (mint b (l, i))) = i * block_size b l"
    using e d p l by (simp add: mint_def unat_of_nat take_bit_nat_eq_self del: of_nat_mult)
qed

text \<open>The size an allocation request is rounded to.\<close>

definition request_size :: "buddy_allocator \<Rightarrow> usize \<Rightarrow> usize" where
  "request_size b sz =
     (case checked_next_power_of_two sz of Some pow \<Rightarrow> max pow (ba_min_block b) | None \<Rightarrow> 0)"

lemma request_level:
  assumes "geometry b" "0 < sz" "sz \<le> ba_data_size b"
  obtains t pow where "checked_next_power_of_two sz = Some pow" "max pow (ba_min_block b) = block_size b t"
    "ilog2 (ba_data_size b div block_size b t) = Some t" "t \<le> depth b" "sz \<le> block_size b t"
    "block_size b t = ba_min_block b \<or> block_size b t < 2 * sz"
proof -
  obtain m where m: "ba_min_block b = 2 ^ m" "ba_data_size b = 2 ^ (m + depth b)" "m + depth b < 32"
    "\<And>l. l \<le> depth b \<Longrightarrow> block_size b l = 2 ^ (m + depth b - l)"
    using assms(1) by (elim geometryE) blast
  obtain j where j: "j \<le> m + depth b" "checked_next_power_of_two sz = Some (2 ^ j)" "sz \<le> 2 ^ j"
    using checked_next_power_of_two_le [of sz "m + depth b"] assms(3) m by auto
  define t where "t = m + depth b - max j m"
  have t: "t \<le> depth b" "m + depth b - t = max j m" using j(1) by (auto simp: t_def)
  have bs: "block_size b t = 2 ^ max j m" using m(4) [OF t(1)] t(2) by simp
  have mx: "max (2 ^ j) (2 ^ m) = (2 :: nat) ^ max j m" by (simp add: max_def)
  have "ba_data_size b div 2 ^ max j m = 2 ^ t"
    unfolding m(2) t_def using j(1) by (intro power_diff [symmetric]) auto
  moreover have "sz \<le> 2 ^ max j m" using j(3) mx by (metis max.coboundedI1)
  moreover have "2 ^ max j m = ba_min_block b \<or> 2 ^ max j m < 2 * sz"
  proof (cases "j \<le> m")
    case False
    then obtain k where k: "j = Suc k" by (cases j) auto
    have "\<not> sz \<le> 2 ^ k"
      using checked_next_power_of_two_SomeD [OF j(2)] k by (metis power_Suc lessI linorder_not_le one_less_numeral_iff power_strict_increasing_iff semiring_norm(76))
    with False k show ?thesis by (simp add: max_def)
  qed (simp add: m)
  ultimately show thesis using that [of "2 ^ j" t] j(2) bs mx t(1) m(1) by simp
qed

section \<open>The allocator invariant\<close>

definition buddy_inv :: "buddy_allocator \<Rightarrow> block set \<Rightarrow> bool" where
  "buddy_inv b A \<longleftrightarrow>
     geometry b \<and> bms_inv (depth b) (bs_bitmaps (ba_state b)) \<and>
     buddy_spec (depth b) (free_blocks (bs_bitmaps (ba_state b))) A \<and>
     unat (bs_free_bytes (ba_state b)) + (\<Sum>a\<in>A. block_size b (fst a)) = ba_data_size b \<and>
     unat (bs_alloc_count (ba_state b)) = card A"

definition same_region :: "buddy_allocator \<Rightarrow> buddy_allocator \<Rightarrow> bool" where
  "same_region b b' \<longleftrightarrow> ba_base b' = ba_base b \<and> ba_data_size b' = ba_data_size b \<and> ba_min_block b' = ba_min_block b"

lemma same_region_geometry:
  assumes "same_region b b'"
  shows "depth b' = depth b" "block_size b' = block_size b" "geometry b' = geometry b" "mint b' = mint b"
  using assms by (simp_all add: same_region_def depth_def block_size_def geometry_def mint_def fun_eq_iff)

lemma live_finite: "buddy_spec D F A \<Longrightarrow> finite A"
  using tiling_finite [of D "F \<union> A"] by (simp add: buddy_spec_def)

lemma live_bytes:
  assumes "geometry b" "buddy_spec (depth b) F A"
  shows "(\<Sum>a\<in>A. block_size b (fst a)) \<le> ba_data_size b" "card A < 2 ^ 32"
proof -
  let ?D = "depth b"
  obtain m where m: "ba_data_size b = 2 ^ (m + ?D)" "m + ?D < 32"
    "\<And>l. l \<le> ?D \<Longrightarrow> block_size b l = 2 ^ (m + ?D - l)"
    using assms(1) by (elim geometryE) blast
  have t: "tiling ?D (F \<union> A)" using assms(2) by (simp add: buddy_spec_def)
  have bs: "block_size b (fst a) = 2 ^ m * 2 ^ (?D - fst a)" if "a \<in> F \<union> A" for a
  proof -
    have "fst a \<le> ?D" using tiling_ok [OF t that] by (simp add: block_ok_def)
    then show ?thesis using m(3) by (simp add: power_add [symmetric])
  qed
  have "(\<Sum>a\<in>A. block_size b (fst a)) \<le> (\<Sum>a\<in>F \<union> A. block_size b (fst a))"
    using tiling_finite [OF t] by (intro sum_mono2) auto
  also have "\<dots> = 2 ^ m * (\<Sum>a\<in>F \<union> A. 2 ^ (?D - fst a))"
    unfolding sum_distrib_left by (rule sum.cong [OF refl bs])
  also have "\<dots> = ba_data_size b" by (simp add: tiling_measure [OF t] m(1) power_add)
  finally show le: "(\<Sum>a\<in>A. block_size b (fst a)) \<le> ba_data_size b" .
  have "card A = (\<Sum>a\<in>A. 1)" by simp
  also have "\<dots> \<le> (\<Sum>a\<in>A. block_size b (fst a))"
    by (intro sum_mono) (simp add: bs Suc_leI)
  finally show "card A < 2 ^ 32" using le data_size_bound [OF assms(1)] by linarith
qed

lemma alloc_counters:
  assumes inv: "buddy_inv b A" and spec: "buddy_spec (depth b) F (insert (t, j) A)" and fresh: "(t, j) \<notin> A"
  defines "st \<equiv> ba_state b" and "w \<equiv> word_of_nat (block_size b t)"
  shows "checked_add (bs_alloc_count st) 1 = Some (bs_alloc_count st + 1)"
    "unat (bs_alloc_count st + 1) = Suc (card A)" "w \<le> bs_free_bytes st"
    "unat (bs_free_bytes st - w) + (block_size b t + (\<Sum>a\<in>A. block_size b (fst a))) = ba_data_size b"
proof -
  have g: "geometry b" and bytes: "unat (bs_free_bytes st) + (\<Sum>a\<in>A. block_size b (fst a)) = ba_data_size b"
    and count: "unat (bs_alloc_count st) = card A"
    using inv by (auto simp: buddy_inv_def st_def)
  note live = live_bytes [OF g spec] and fin = live_finite [OF spec]
  have sum: "block_size b t + (\<Sum>a\<in>A. block_size b (fst a)) \<le> ba_data_size b" "Suc (card A) < 2 ^ 32"
    using live fresh fin by simp_all
  have ws: "unat w = block_size b t"
    using sum(1) data_size_bound [OF g] by (simp add: w_def unat_of_nat take_bit_nat_eq_self)
  show "checked_add (bs_alloc_count st) 1 = Some (bs_alloc_count st + 1)"
    "unat (bs_alloc_count st + 1) = Suc (card A)"
    using count sum(2) unat_add_bounded [of "bs_alloc_count st" 1] by (simp_all add: checked_add_def)
  show le: "w \<le> bs_free_bytes st" using ws sum(1) bytes by (simp add: word_le_nat_alt)
  show "unat (bs_free_bytes st - w) + (block_size b t + (\<Sum>a\<in>A. block_size b (fst a))) = ba_data_size b"
    using ws le bytes by (simp add: unat_sub word_le_nat_alt)
qed

lemma buddy_alloc_spec:
  assumes inv: "buddy_inv b A" and sz: "0 < sz" "sz \<le> ba_data_size b"
  obtains (refused) t where "t \<le> depth b" "request_size b sz = block_size b t" "sz \<le> block_size b t"
      "block_size b t = ba_min_block b \<or> block_size b t < 2 * sz"
      "buddy_alloc b sz = Some (None, b)" "\<forall>f\<in>free_blocks (bs_bitmaps (ba_state b)). t < fst f"
  | (placed) t i b' where "t \<le> depth b" "request_size b sz = block_size b t" "sz \<le> block_size b t"
      "block_size b t = ba_min_block b \<or> block_size b t < 2 * sz"
      "buddy_alloc b sz = Some (Some (mint b (t, i)), b')" "(t, i) \<notin> A"
      "buddy_inv b' (insert (t, i) A)" "same_region b b'"
      "\<exists>f\<in>free_blocks (bs_bitmaps (ba_state b)). fst f \<le> t"
proof -
  let ?D = "depth b" and ?st = "ba_state b"
  have g: "geometry b" and bms: "bms_inv ?D (bs_bitmaps ?st)"
    and spec: "buddy_spec ?D (free_blocks (bs_bitmaps ?st)) A"
    and bytes: "unat (bs_free_bytes ?st) + (\<Sum>a\<in>A. block_size b (fst a)) = ba_data_size b"
    and count: "unat (bs_alloc_count ?st) = card A"
    using inv by (auto simp: buddy_inv_def)
  obtain t pow where req: "checked_next_power_of_two sz = Some pow" "max pow (ba_min_block b) = block_size b t"
    "ilog2 (ba_data_size b div block_size b t) = Some t" "t \<le> ?D" "sz \<le> block_size b t"
    "block_size b t = ba_min_block b \<or> block_size b t < 2 * sz"
    using request_level [OF g sz] by blast
  have size: "request_size b sz = block_size b t" by (simp add: request_size_def req)
  from find_donor_spec [OF bms req(4)] show thesis
  proof (elim disjE exE conjE)
    assume "find_donor t (bs_bitmaps ?st) = Some None"
      and "\<forall>f\<in>free_blocks (bs_bitmaps ?st). t < fst f"
    with req sz size show thesis by (intro refused [of t]) (simp_all add: buddy_alloc_def)
  next
    fix k i bms1
    assume donor: "find_donor t (bs_bitmaps ?st) = Some (Some (k, i, bms1))" "k \<le> t"
      "(k, i) \<in> free_blocks (bs_bitmaps ?st)" "bms_inv ?D bms1"
      "free_blocks bms1 = free_blocks (bs_bitmaps ?st) - {(k, i)}"
    have fresh: "(k, i) \<notin> A" using spec donor(3) by (auto simp: buddy_spec_def)
    obtain j bms2 where split: "split_blocks [Suc k..<Suc t] i bms1 = Some (j, bms2)" "bms_inv ?D bms2"
      "(t, j) \<notin> A" "buddy_spec ?D (free_blocks bms2) (insert (t, j) A)"
      using split_blocks_spec [OF donor(4), of "insert (k, i) A" k i "t - k"]
        spec_take [OF spec donor(3)] donor(2,5) req(4) fresh by auto
    have fin: "finite A" using live_finite [OF spec] .
    note c = alloc_counters [OF inv split(4,3)]
    define b' where "b' = b\<lparr>ba_state := \<lparr>bs_bitmaps = bms2, bs_alloc_count = bs_alloc_count ?st + 1,
      bs_free_bytes = bs_free_bytes ?st - word_of_nat (block_size b t)\<rparr>\<rparr>"
    have same: "same_region b b'" by (simp add: b'_def same_region_def)
    have "buddy_inv b' (insert (t, j) A)"
      using split g c fin bytes
      by (simp add: buddy_inv_def same_region_geometry [OF same]) (simp add: b'_def)
    moreover have "buddy_alloc b sz = Some (Some (mint b (t, j)), b')"
      using req sz donor(1) split(1) c
      by (simp add: buddy_alloc_def b'_def mint_def Let_def del: upt_Suc)
    ultimately show thesis using placed size req(4-6) split(3) same donor(2,3) by fastforce
  qed
qed

lemma free_counters:
  assumes inv: "buddy_inv b A" and live: "a \<in> A"
  defines "st \<equiv> ba_state b" and "w \<equiv> word_of_nat (block_size b (fst a))"
  shows "(1 :: u32) \<le> bs_alloc_count st" "unat (bs_alloc_count st - 1) = card (A - {a})"
    "checked_add (bs_free_bytes st) w = Some (bs_free_bytes st + w)"
    "unat (bs_free_bytes st + w) + (\<Sum>a\<in>A - {a}. block_size b (fst a)) = ba_data_size b"
proof -
  have g: "geometry b" and bytes: "unat (bs_free_bytes st) + (\<Sum>a\<in>A. block_size b (fst a)) = ba_data_size b"
    and count: "unat (bs_alloc_count st) = card A" and fin: "finite A"
    using inv live_finite by (auto simp: buddy_inv_def st_def)
  have sum: "(\<Sum>a\<in>A. block_size b (fst a)) = block_size b (fst a) + (\<Sum>a\<in>A - {a}. block_size b (fst a))"
    using live fin by (simp add: sum.remove)
  have ws: "unat w = block_size b (fst a)"
    using sum bytes data_size_bound [OF g] by (simp add: w_def unat_of_nat take_bit_nat_eq_self)
  have card: "card A = Suc (card (A - {a}))" using live fin by (metis card.remove)
  then show "(1 :: u32) \<le> bs_alloc_count st" using count by (simp add: word_le_nat_alt)
  then show "unat (bs_alloc_count st - 1) = card (A - {a})" using count card by (simp add: unat_sub)
  have lt: "unat (bs_free_bytes st) + unat w < 2 ^ 64"
    using sum bytes data_size_bound [OF g] ws by simp
  then show "checked_add (bs_free_bytes st) w = Some (bs_free_bytes st + w)" by (simp add: checked_add_def)
  show "unat (bs_free_bytes st + w) + (\<Sum>a\<in>A - {a}. block_size b (fst a)) = ba_data_size b"
    using lt unat_add_bounded [of "bs_free_bytes st" w] ws sum bytes by simp
qed

lemma buddy_free_spec:
  assumes inv: "buddy_inv b A" and live: "a \<in> A"
  shows "\<exists>b'. buddy_free b (al_offset (mint b a)) (al_level (mint b a)) = Some b' \<and>
           buddy_inv b' (A - {a}) \<and> same_region b b'"
proof -
  let ?D = "depth b" and ?st = "ba_state b"
  obtain l i where a: "a = (l, i)" by force
  have g: "geometry b" and bms: "bms_inv ?D (bs_bitmaps ?st)"
    and spec: "buddy_spec ?D (free_blocks (bs_bitmaps ?st)) A"
    using inv by (auto simp: buddy_inv_def)
  have ok: "block_ok ?D (l, i)" using spec live a by (auto simp: buddy_spec_def intro: tiling_ok)
  then have l: "l \<le> ?D" "i < 2 ^ l" by (simp_all add: block_ok_def)
  note fields = mint_fields [OF g ok] and pos = block_size_bounds(1) [OF g l(1)]
  have "l < 64" using g l(1) by (elim geometryE) simp
  have size: "drop_bit l (ba_data_size b) = block_size b l" by (simp add: drop_bit_eq_div block_size_def)
  obtain bms1 where bms1: "on_level (bs_bitmaps ?st) l (\<lambda>bm. free_one bm i) = Some bms1" "bms_inv ?D bms1"
    "free_blocks bms1 = insert a (free_blocks (bs_bitmaps ?st))"
    using on_level_free [OF bms l] a by auto
  obtain bms2 where bms2: "merge_up l i bms1 = Some bms2" "bms_inv ?D bms2"
    "buddy_spec ?D (free_blocks bms2) (A - {a})"
    using merge_up_spec [OF bms1(2), of "A - {a}" l i] freeing_start [OF spec live] bms1(3) a by auto
  note c = free_counters [OF inv live, unfolded a fst_conv]
  define b' where "b' = b\<lparr>ba_state := \<lparr>bs_bitmaps = bms2, bs_alloc_count = bs_alloc_count ?st - 1,
    bs_free_bytes = bs_free_bytes ?st + word_of_nat (block_size b l)\<rparr>\<rparr>"
  have same: "same_region b b'" by (simp add: b'_def same_region_def)
  have "buddy_inv b' (A - {a})"
    using bms2 g c a by (simp add: buddy_inv_def same_region_geometry [OF same]) (simp add: b'_def)
  moreover have "buddy_free b (al_offset (mint b a)) (al_level (mint b a)) = Some b'"
    using fields pos a size bms1(1) bms2(1) c \<open>l < 64\<close> by (simp add: buddy_free_def b'_def Let_def)
  ultimately show ?thesis using same by blast
qed

lemma buddy_init_spec:
  assumes layout: "checked_layout capacity min_block = Some layout"
  obtains b where "buddy_init base layout min_block = Some b" "buddy_inv b {}"
    "ba_base b = base" "ba_data_size b = bl_data_size layout" "ba_min_block b = min_block"
    "capacity \<le> bl_data_size layout" "free_blocks (bs_bitmaps (ba_state b)) = {(0, 0)}"
proof -
  obtain m where m: "min_block = 2 ^ m"
    using layout by (auto simp: checked_layout_def split: if_splits elim: is_power_of_twoE)
  obtain n where n: "bl_data_size layout = 2 ^ n" "capacity \<le> 2 ^ n" "2 ^ n \<le> u32_max" "2 ^ m \<le> (2 ^ n :: nat)"
    using layout m
    by (auto simp: checked_layout_def split: if_splits bind_splits elim!: checked_next_power_of_two_SomeD)
  have "m \<le> n" using n(4) by simp
  then have div: "2 ^ n div 2 ^ m = (2 :: nat) ^ (n - m)" by (simp add: power_diff)
  have "2 ^ n < (2 :: nat) ^ 32" using n(3) by (simp add: u32_max_def)
  then have "n < 32" by (simp only: power_strict_increasing_iff one_less_numeral_iff semiring_norm)
  let ?new = "map (\<lambda>level. new_bitmap (2 ^ level)) [0..<Suc (n - m)]"
  have new: "bms_inv (n - m) ?new" "free_blocks ?new = {}"
    by (auto simp: bms_inv_def free_blocks_def new_bitmap_spec nth_append less_Suc_eq_le simp del: upt_Suc)
  obtain bms where bms: "on_level ?new 0 (\<lambda>bm. free_one bm 0) = Some bms" "bms_inv (n - m) bms"
    "free_blocks bms = {(0, 0)}"
    using on_level_free [OF new(1), of 0 0] new(2) by auto
  define b where "b = \<lparr>ba_base = base, ba_data_size = 2 ^ n, ba_min_block = min_block,
    ba_state = \<lparr>bs_bitmaps = bms, bs_alloc_count = 0, bs_free_bytes = word_of_nat (2 ^ n)\<rparr>\<rparr>"
  have init: "buddy_init base layout min_block = Some b"
    using bms(1) div m n(1) by (simp add: buddy_init_def num_levels_def b_def del: upt_Suc)
  have d: "depth b = n - m" using div m by (simp add: depth_def b_def)
  have "geometry b" using d m \<open>m \<le> n\<close> \<open>n < 32\<close> by (auto simp: geometry_def b_def)
  moreover have "unat (word_of_nat (2 ^ n) :: u64) = 2 ^ n"
    using \<open>2 ^ n < (2 :: nat) ^ 32\<close> by (simp add: unat_of_nat take_bit_nat_eq_self del: of_nat_power)
  ultimately have "buddy_inv b {}"
    unfolding buddy_inv_def d using bms spec_init by (simp add: b_def)
  with init n that show thesis by (simp add: b_def bms)
qed

lemma bms_eqI:
  assumes "bms_inv D xs" "bms_inv D ys" "free_blocks xs = free_blocks ys"
  shows "xs = ys"
proof (rule nth_equalityI)
  show len: "length xs = length ys" using assms by (simp add: bms_inv_def)
  fix l assume l: "l < length xs"
  have "free_set (xs ! l) = free_set (ys ! l)"
    using assms(3) l len by (auto simp: free_blocks_def set_eq_iff)
  then show "xs ! l = ys ! l"
    using assms(1,2) l by (intro bitmap_eqI) (auto simp: bms_inv_def)
qed

section \<open>Reachable allocators\<close>

definition alloc_range :: "allocation \<Rightarrow> nat set" where
  "alloc_range a = {unat (al_offset a)..<unat (al_offset a) + unat (al_actual_size a)}"

lemma range_mint:
  assumes "geometry b" "block_ok (depth b) blk"
  shows "x \<in> alloc_range (mint b blk) \<longleftrightarrow> x div ba_min_block b \<in> span (depth b) blk"
proof -
  obtain l i where blk: "blk = (l, i)" by force
  have ok: "block_ok (depth b) (l, i)" and l: "l \<le> depth b" using assms(2) blk by (auto simp: block_ok_def)
  obtain m where m: "ba_min_block b = 2 ^ m" "block_size b l = 2 ^ (m + depth b - l)"
    using assms(1) l by (elim geometryE) blast
  have s: "block_size b l = ba_min_block b * 2 ^ (depth b - l)"
    using l by (simp add: m power_add [symmetric])
  have "x \<in> alloc_range (mint b blk) \<longleftrightarrow> i * block_size b l \<le> x \<and> x < (i + 1) * block_size b l"
    unfolding blk alloc_range_def mint_fields [OF assms(1) ok] by (simp add: algebra_simps)
  also have "\<dots> \<longleftrightarrow> x div block_size b l = i"
    using block_size_bounds(1) [OF assms(1) l]
    by (simp only: less_eq_div_iff_mult_less_eq [symmetric] div_less_iff_less_mult [symmetric]) linarith
  finally show ?thesis unfolding blk in_span s div_mult2_eq .
qed

lemma mint_inj:
  assumes "geometry b" shows "inj_on (mint b) {blk. block_ok (depth b) blk}"
proof (rule inj_onI, clarsimp)
  fix l i l' i'
  assume ok: "block_ok (depth b) (l, i)" "block_ok (depth b) (l', i')" and eq: "mint b (l, i) = mint b (l', i')"
  have "l = l'" using mint_fields(3) [OF assms ok(1)] mint_fields(3) [OF assms ok(2)] eq by simp
  moreover have "i * block_size b l = i' * block_size b l'"
    using mint_fields(1) [OF assms ok(1)] mint_fields(1) [OF assms ok(2)] eq by simp
  ultimately show "l = l' \<and> i = i'"
    using block_size_bounds(1) [OF assms, of l] ok(1) by (simp add: block_ok_def)
qed

definition lawful :: "buddy_allocator \<Rightarrow> bool" where
  "lawful b \<longleftrightarrow> checked_layout (ba_data_size b) (ba_min_block b) =
     Some \<lparr>bl_data_size = ba_data_size b, bl_total_size = ba_data_size b\<rparr>"

lemma lawful_init:
  assumes "checked_layout capacity min_block = Some layout" "buddy_init base layout min_block = Some b"
  shows "lawful b"
proof -
  obtain n where n: "n < 64" "layout = \<lparr>bl_data_size = 2 ^ n, bl_total_size = 2 ^ n\<rparr>" "2 ^ n \<le> u32_max"
     "min_block \<le> 2 ^ n" "min_block \<noteq> 0" "is_power_of_two min_block"
    using assms(1)
    by (auto simp: checked_layout_def split: if_splits bind_splits elim!: checked_next_power_of_two_SomeD)
  obtain j where j: "j \<le> n" "checked_next_power_of_two (2 ^ n) = Some (2 ^ j)" "2 ^ n \<le> (2 ^ j :: nat)"
    using checked_next_power_of_two_le [of "2 ^ n" n] n(1) by blast
  then have "j = n" by (simp add: le_antisym)
  moreover have "ba_data_size b = 2 ^ n" "ba_min_block b = min_block"
    using buddy_init_spec [OF assms(1), of base] assms(2) n(2) by auto
  ultimately show ?thesis using j n by (simp add: lawful_def checked_layout_def u32_max_def isize_max_def)
qed

definition holds_inv :: "buddy_allocator \<Rightarrow> allocation list \<Rightarrow> block set \<Rightarrow> bool" where
  "holds_inv b live A \<longleftrightarrow> buddy_inv b A \<and> distinct live \<and> set live = mint b ` A \<and> lawful b"

lemma live_blocks_ok: "buddy_inv b A \<Longrightarrow> blk \<in> A \<Longrightarrow> block_ok (depth b) blk"
  by (auto simp: buddy_inv_def buddy_spec_def tiling_def)

lemma mint_eq_live:
  assumes "buddy_inv b A" "x \<in> A" "y \<in> A" "mint b x = mint b y" shows "x = y"
proof -
  have "geometry b" using assms(1) by (simp add: buddy_inv_def)
  then show ?thesis using inj_onD [OF mint_inj assms(4)] live_blocks_ok [OF assms(1)] assms(2,3) by simp
qed

lemma holds_alloc:
  assumes "holds_inv b live A" "buddy_inv b' (insert blk A)" "blk \<notin> A" "same_region b b'"
  shows "holds_inv b' (mint b blk # live) (insert blk A)"
proof -
  note geo = same_region_geometry [OF assms(4)]
  have "mint b blk \<noteq> mint b x" if "x \<in> A" for x
    using mint_eq_live [OF assms(2), of blk x] assms(3) that geo(4) by auto
  then show ?thesis using assms geo by (auto simp: holds_inv_def lawful_def same_region_def)
qed

lemma holds_free:
  assumes "holds_inv b live A" "buddy_inv b' (A - {blk})" "blk \<in> A" "same_region b b'"
  shows "holds_inv b' (remove1 (mint b blk) live) (A - {blk})"
proof -
  note geo = same_region_geometry [OF assms(4)]
  have inv: "buddy_inv b A" using assms(1) by (simp add: holds_inv_def)
  have "inj_on (mint b) A" using mint_eq_live [OF inv] by (intro inj_onI)
  then have "mint b ` (A - {blk}) = mint b ` A - mint b ` {blk}"
    using assms(3) by (intro inj_on_image_set_diff [of _ A]) auto
  then show ?thesis using assms geo by (simp add: holds_inv_def lawful_def same_region_def)
qed

lemma alloc_size_ok: "buddy_alloc b sz = Some (Some a, b') \<Longrightarrow> 0 < sz \<and> sz \<le> ba_data_size b"
  by (auto simp: buddy_alloc_def split: if_splits)

lemma reach_inv:
  assumes "buddy_reach b live"
  obtains A where "holds_inv b live A"
proof -
  have "\<exists>A. holds_inv b live A" using assms
  proof induction
    case (reach_init capacity min_block layout base b)
    obtain b' where "buddy_init base layout min_block = Some b'" "buddy_inv b' {}"
      using buddy_init_spec [OF reach_init(1), of base] by blast
    with reach_init lawful_init [OF reach_init] show ?case
      by (intro exI [of _ "{}"]) (simp add: holds_inv_def)
  next
    case (reach_alloc b live sz a b')
    then obtain A where A: "holds_inv b live A" by blast
    then have inv: "buddy_inv b A" by (simp add: holds_inv_def)
    show ?case
      by (rule buddy_alloc_spec [OF inv, of sz])
        (use alloc_size_ok [OF reach_alloc.hyps(2)] reach_alloc.hyps(2) holds_alloc [OF A] in auto)
  next
    case (reach_refused b live sz b')
    then obtain A where A: "holds_inv b live A" by blast
    then have inv: "buddy_inv b A" by (simp add: holds_inv_def)
    have "b' = b"
    proof (cases "0 < sz \<and> sz \<le> ba_data_size b")
      case True
      show ?thesis
        by (rule buddy_alloc_spec [OF inv, of sz]) (use True reach_refused.hyps(2) in simp_all)
    qed (use reach_refused.hyps(2) in \<open>auto simp: buddy_alloc_def\<close>)
    with A show ?case by blast
  next
    case (reach_free b live a b')
    then obtain A where A: "holds_inv b live A" by blast
    then obtain blk where blk: "blk \<in> A" "a = mint b blk"
      using reach_free.hyps(2) by (auto simp: holds_inv_def)
    have "buddy_inv b' (A - {blk})" "same_region b b'"
      using buddy_free_spec [of b A blk] A blk reach_free.hyps(3) by (auto simp: holds_inv_def)
    with holds_free [OF A] blk show ?case by blast
  qed
  then show thesis using that by blast
qed

lemma idle_free_blocks: "buddy_inv b {} \<Longrightarrow> free_blocks (bs_bitmaps (ba_state b)) = {(0, 0)}"
  unfolding buddy_inv_def by (blast dest: all_free_merged)

lemma sum_mint:
  assumes "holds_inv b live A"
  shows "(\<Sum>a\<leftarrow>live. unat (al_actual_size a)) = (\<Sum>blk\<in>A. block_size b (fst blk))" "length live = card A"
proof -
  have h: "buddy_inv b A" "distinct live" "set live = mint b ` A" and g: "geometry b"
    using assms by (auto simp: holds_inv_def buddy_inv_def)
  have inj: "inj_on (mint b) A" using mint_eq_live [OF h(1)] by (intro inj_onI)
  have "(\<Sum>a\<leftarrow>live. unat (al_actual_size a)) = (\<Sum>a\<in>mint b ` A. unat (al_actual_size a))"
    using h(2,3) sum_list_distinct_conv_sum_set [of live] by simp
  also have "\<dots> = (\<Sum>blk\<in>A. unat (al_actual_size (mint b blk)))" by (simp add: sum.reindex [OF inj])
  also have "\<dots> = (\<Sum>blk\<in>A. block_size b (fst blk))"
    using mint_fields(2) [OF g] live_blocks_ok [OF h(1)] by (intro sum.cong) auto
  finally show "(\<Sum>a\<leftarrow>live. unat (al_actual_size a)) = (\<Sum>blk\<in>A. block_size b (fst blk))" .
  show "length live = card A" using h(2,3) card_image [OF inj] distinct_card [of live] by simp
qed

lemma live_disjoint:
  assumes "buddy_inv b A" "x \<in> A" "y \<in> A" "x \<noteq> y"
  shows "alloc_range (mint b x) \<inter> alloc_range (mint b y) = {}"
proof -
  have g: "geometry b" and t: "tiling (depth b) (free_blocks (bs_bitmaps (ba_state b)) \<union> A)"
    using assms(1) by (auto simp: buddy_inv_def buddy_spec_def)
  have "z \<notin> alloc_range (mint b y)" if "z \<in> alloc_range (mint b x)" for z
    using that tiling_unique [OF t, of x y "z div ba_min_block b"] assms(2-4)
      range_mint [OF g live_blocks_ok [OF assms(1,2)], of z]
      range_mint [OF g live_blocks_ok [OF assms(1,3)], of z] by blast
  then show ?thesis by blast
qed

text \<open>C1: In every execution of the allocator (any interleaving of the critical sections of \<open>alloc\<close>
  and \<open>free\<close>), the allocations its callers hold are pairwise distinct, their byte ranges are
  pairwise disjoint, lie inside the segment, and each starts at a multiple of its own size.\<close>

theorem live_allocations_disjoint:
  assumes "buddy_reach b live"
  shows "distinct live \<and>
    (\<forall>x\<in>set live. \<forall>y\<in>set live. x \<noteq> y \<longrightarrow> alloc_range x \<inter> alloc_range y = {}) \<and>
    (\<forall>x\<in>set live. unat (al_offset x) + unat (al_actual_size x) \<le> ba_data_size b \<and>
       ba_min_block b \<le> unat (al_actual_size x) \<and>
       unat (al_actual_size x) dvd unat (al_offset x))"
proof -
  obtain A where h: "holds_inv b live A" using assms by (rule reach_inv)
  then have inv: "buddy_inv b A" and live: "distinct live" "set live = mint b ` A" and g: "geometry b"
    by (auto simp: holds_inv_def buddy_inv_def)
  have "unat (al_offset (mint b x)) + unat (al_actual_size (mint b x)) \<le> ba_data_size b \<and>
       ba_min_block b \<le> unat (al_actual_size (mint b x)) \<and>
       unat (al_actual_size (mint b x)) dvd unat (al_offset (mint b x))" if "x \<in> A" for x
  proof (cases x)
    case (Pair l i)
    then have ok: "block_ok (depth b) (l, i)" using live_blocks_ok [OF inv that] by simp
    then show ?thesis
      using mint_fields [OF g ok] block_end [OF g ok] block_size_bounds(3) [OF g, of l] Pair
      by (simp add: block_ok_def)
  qed
  moreover have "alloc_range (mint b x) \<inter> alloc_range (mint b y) = {}"
    if "x \<in> A" "y \<in> A" "mint b x \<noteq> mint b y" for x y
    using live_disjoint [OF inv, of x y] that by blast
  ultimately show ?thesis using live by simp
qed

lemma reach_accounting:
  assumes "buddy_reach b live"
  shows "unat (free_bytes b) + (\<Sum>a\<leftarrow>live. unat (al_actual_size a)) = ba_data_size b \<and>
    unat (alloc_count b) = length live"
proof -
  obtain A where h: "holds_inv b live A" using assms by (rule reach_inv)
  then show ?thesis using sum_mint [OF h]
    by (simp add: holds_inv_def buddy_inv_def free_bytes_def alloc_count_def)
qed

text \<open>The counters are exact in every reachable state: the free bytes and the sizes of the live
  allocations add up to the segment, and \<open>alloc_count\<close> is the number of live allocations.\<close>

lemma buddy_accounting:
  assumes "buddy_reach b live"
  shows "unat (free_bytes b) + (\<Sum>a\<leftarrow>live. unat (al_actual_size a)) = ba_data_size b \<and>
    unat (alloc_count b) = length live"
  using assms by (rule reach_accounting)

text \<open>Releasing any live allocation never panics, whatever was allocated and released before.\<close>

lemma free_live_total:
  assumes "buddy_reach b live" "a \<in> set live"
  shows "\<exists>b'. buddy_free b (al_offset a) (al_level a) = Some b' \<and>
    unat (free_bytes b') = unat (free_bytes b) + unat (al_actual_size a)"
proof -
  obtain A where h: "holds_inv b live A" using assms(1) by (rule reach_inv)
  obtain blk where blk: "blk \<in> A" "a = mint b blk" using h assms(2) by (auto simp: holds_inv_def)
  obtain b' where b': "buddy_free b (al_offset a) (al_level a) = Some b'"
    "buddy_inv b' (A - {blk})" "same_region b b'"
    using buddy_free_spec [of b A blk] h blk by (auto simp: holds_inv_def)
  note sums = sum_mint [OF h] sum_mint [OF holds_free [OF h b'(2) blk(1) b'(3)]]
  have "(\<Sum>a\<leftarrow>live. unat (al_actual_size a)) =
      unat (al_actual_size a) + (\<Sum>a\<leftarrow>remove1 a live. unat (al_actual_size a))"
    using assms(2) by (rule sum_list_map_remove1)
  then show ?thesis using b' h sums blk(2) same_region_geometry [OF b'(3)]
    by (simp add: holds_inv_def buddy_inv_def free_bytes_def same_region_def)
qed

text \<open>When every allocation has been released, the allocator is exactly the freshly
  initialised one: all buddies have merged back into the single whole-segment block.\<close>

lemma all_released_is_fresh:
  assumes "buddy_reach b []"
  shows "buddy_init (ba_base b) \<lparr>bl_data_size = ba_data_size b, bl_total_size = ba_data_size b\<rparr> (ba_min_block b) = Some b"
proof -
  obtain A where h: "holds_inv b [] A" using assms by (rule reach_inv)
  then have A: "A = {}" and inv: "buddy_inv b {}" and law: "lawful b" by (auto simp: holds_inv_def)
  obtain b' where b': "buddy_init (ba_base b) \<lparr>bl_data_size = ba_data_size b, bl_total_size = ba_data_size b\<rparr> (ba_min_block b) = Some b'"
    "buddy_inv b' {}" "ba_base b' = ba_base b" "ba_data_size b' = ba_data_size b" "ba_min_block b' = ba_min_block b"
    using buddy_init_spec [OF law [unfolded lawful_def], of "ba_base b"] by auto
  have same: "same_region b b'" using b' by (simp add: same_region_def)
  have "bs_bitmaps (ba_state b') = bs_bitmaps (ba_state b)"
    using inv b'(2) same_region_geometry(1) [OF same] idle_free_blocks [OF inv] idle_free_blocks [OF b'(2)]
    by (intro bms_eqI [of "depth b"]) (simp_all add: buddy_inv_def)
  moreover have "bs_free_bytes (ba_state b') = bs_free_bytes (ba_state b)"
    "bs_alloc_count (ba_state b') = bs_alloc_count (ba_state b)"
    using inv b'(2,4) by (simp_all add: buddy_inv_def word_unat_eq_iff)
  ultimately have "b' = b" using b'(3-5) by simp
  with b'(1) show ?thesis by simp
qed

lemma mint_range_eq:
  assumes "geometry b" "block_ok (depth b) (t, i)"
  shows "alloc_range (mint b (t, i)) = {i * block_size b t..<i * block_size b t + block_size b t}"
  by (simp add: alloc_range_def mint_fields [OF assms])

lemma span_of_range:
  assumes "geometry b" "block_ok (depth b) x" "block_ok (depth b) y"
    and "alloc_range (mint b x) \<inter> alloc_range (mint b y) = {}"
  shows "span (depth b) x \<inter> span (depth b) y = {}"
proof (rule ccontr)
  assume "span (depth b) x \<inter> span (depth b) y \<noteq> {}"
  then obtain z where z: "z \<in> span (depth b) x" "z \<in> span (depth b) y" by blast
  have "z * ba_min_block b div ba_min_block b = z"
    using assms(1) by (elim geometryE) simp
  then have "z * ba_min_block b \<in> alloc_range (mint b x) \<inter> alloc_range (mint b y)"
    using z by (simp add: range_mint [OF assms(1)] assms(2,3))
  with assms(4) show False by blast
qed

lemma block_of_aligned:
  assumes "geometry b" "t \<le> depth b" "i * block_size b t + block_size b t \<le> ba_data_size b"
  shows "block_ok (depth b) (t, i)"
proof -
  have "(i + 1) * block_size b t \<le> 2 ^ t * block_size b t"
    using assms(3) block_size_bounds(2) [OF assms(1,2)] by (simp add: algebra_simps)
  then have "i + 1 \<le> 2 ^ t" using block_size_bounds(1) [OF assms(1,2)] by (simp only: mult_le_cancel2)
  then show ?thesis using assms(2) by (simp add: block_ok_def)
qed

text \<open>C2: Allocation is total and complete. A request of between one byte and the whole segment
  never panics; it is refused exactly when every aligned block of the rounded size overlaps a live
  allocation, so freed buddies are always found merged. When granted, the block has the rounded
  size, at least the requested bytes, and overlaps no live allocation.\<close>

theorem alloc_complete:
  assumes "buddy_reach b live" "0 < sz" "sz \<le> ba_data_size b"
  defines "S \<equiv> request_size b sz"
  shows "\<exists>r b'. buddy_alloc b sz = Some (r, b') \<and> sz \<le> S \<and> (S = ba_min_block b \<or> S < 2 * sz) \<and>
    (r = None \<longleftrightarrow> (\<forall>i. i * S + S \<le> ba_data_size b \<longrightarrow> (\<exists>x\<in>set live. alloc_range x \<inter> {i * S..<i * S + S} \<noteq> {}))) \<and>
    (\<forall>a. r = Some a \<longrightarrow> unat (al_actual_size a) = S \<and> (\<forall>x\<in>set live. alloc_range x \<inter> alloc_range a = {}))"
proof -
  obtain A where h: "holds_inv b live A" using assms(1) by (rule reach_inv)
  then have inv: "buddy_inv b A" and live: "set live = mint b ` A" and g: "geometry b"
    by (auto simp: holds_inv_def buddy_inv_def)
  show ?thesis
  proof (rule buddy_alloc_spec [OF inv assms(2,3)])
    fix t
    assume t: "t \<le> depth b" "request_size b sz = block_size b t" "sz \<le> block_size b t"
      "block_size b t = ba_min_block b \<or> block_size b t < 2 * sz" "buddy_alloc b sz = Some (None, b)"
      "\<forall>f\<in>free_blocks (bs_bitmaps (ba_state b)). t < fst f"
    have "\<exists>x\<in>A. alloc_range (mint b x) \<inter> {i * S..<i * S + S} \<noteq> {}" if i: "i * S + S \<le> ba_data_size b" for i
    proof (rule ccontr)
      assume no: "\<not> ?thesis"
      have ok: "block_ok (depth b) (t, i)" using i t by (intro block_of_aligned [OF g]) (simp_all add: S_def)
      have "span (depth b) x \<inter> span (depth b) (t, i) = {}" if "x \<in> A" for x
        using no that t(2) by (intro span_of_range [OF g live_blocks_ok [OF inv that] ok])
          (auto simp: mint_range_eq [OF g ok] S_def)
      then show False using merged_complete [OF _ ok, of _ A] inv t(6)
        unfolding buddy_inv_def by (meson not_le)
    qed
    with t live show ?thesis by (auto simp: S_def)
  next
    fix t i b'
    assume t: "t \<le> depth b" "request_size b sz = block_size b t" "sz \<le> block_size b t"
      "block_size b t = ba_min_block b \<or> block_size b t < 2 * sz"
      "buddy_alloc b sz = Some (Some (mint b (t, i)), b')" "(t, i) \<notin> A" "buddy_inv b' (insert (t, i) A)"
      "same_region b b'"
    note geo = same_region_geometry [OF t(8)]
    have ok: "block_ok (depth b) (t, i)" using live_blocks_ok [OF t(7)] geo by simp
    have clear: "alloc_range (mint b x) \<inter> alloc_range (mint b (t, i)) = {}" if "x \<in> A" for x
      using live_disjoint [OF t(7), of x "(t, i)"] that t(6) geo by auto
    have "i * S + S \<le> ba_data_size b" using block_end [OF g ok] t(2) by (simp add: S_def)
    then have "\<not> (\<forall>i. i * S + S \<le> ba_data_size b \<longrightarrow> (\<exists>x\<in>set live. alloc_range x \<inter> {i * S..<i * S + S} \<noteq> {}))"
      using clear live t(2) unfolding not_all by (intro exI [of _ i]) (simp add: mint_range_eq [OF g ok] S_def)
    then show ?thesis using t live clear mint_fields(2) [OF g ok] by (simp add: S_def)
  qed
qed

section \<open>The contract with the pool\<close>

lemma card_alloc_range: "card (alloc_range a) = unat (al_actual_size a)"
  by (simp add: alloc_range_def)

lemma buddy_alloc_cases:
  assumes "buddy_reach b live"
  obtains (refused) "buddy_alloc b sz = Some (None, b)"
  | (placed) a b' where "buddy_alloc b sz = Some (Some a, b')" "same_region b b'" "sz \<le> unat (al_actual_size a)"
proof (cases "0 < sz \<and> sz \<le> ba_data_size b")
  case True
  obtain A where "holds_inv b live A" using assms by (rule reach_inv)
  then have inv: "buddy_inv b A" and g: "geometry b" by (auto simp: holds_inv_def buddy_inv_def)
  show thesis
  proof (rule buddy_alloc_spec [OF inv])
    fix t i b' assume p: "sz \<le> block_size b t" "buddy_alloc b sz = Some (Some (mint b (t, i)), b')"
      "buddy_inv b' (insert (t, i) A)" "same_region b b'"
    have "block_ok (depth b) (t, i)"
      using live_blocks_ok [OF p(3), of "(t, i)"] same_region_geometry [OF p(4)] by simp
    from mint_fields(2) [OF g this] p placed show thesis by simp
  qed (use True refused in simp_all)
next
  case False
  then show thesis by (intro refused) (auto simp: buddy_alloc_def)
qed

lemma reach_live_bounds:
  assumes "buddy_reach b live" "x \<in> set live"
  shows "alloc_range x \<subseteq> {..<ba_data_size b}"
proof -
  obtain A where h: "holds_inv b live A" using assms(1) by (rule reach_inv)
  then obtain blk where blk: "blk \<in> A" "x = mint b blk" using assms(2) by (auto simp: holds_inv_def)
  have inv: "buddy_inv b A" and g: "geometry b" using h by (auto simp: holds_inv_def buddy_inv_def)
  have ok: "block_ok (depth b) (fst blk, snd blk)" using live_blocks_ok [OF inv blk(1)] by simp
  show ?thesis using mint_fields [OF g ok] block_end [OF g ok] blk(2) by (auto simp: alloc_range_def)
qed

lemma reach_live_apart:
  assumes "buddy_reach b live" "x \<in> set live" "y \<in> set live" "x \<noteq> y"
  shows "alloc_range x \<inter> alloc_range y = {}"
proof -
  obtain A where h: "holds_inv b live A" using assms(1) by (rule reach_inv)
  then obtain u v where "u \<in> A" "x = mint b u" "v \<in> A" "y = mint b v"
    using assms(2,3) by (auto simp: holds_inv_def)
  with live_disjoint [of b A u v] h assms(4) show ?thesis by (auto simp: holds_inv_def)
qed

lemma reach_idle_iff: "buddy_reach b live \<Longrightarrow> alloc_count b = 0 \<longleftrightarrow> live = []"
  using reach_accounting [of b live] by (metis length_0_conv unat_eq_zero)

lemma reach_fresh_alloc:
  assumes "buddy_reach b []" "0 < sz" "sz \<le> ba_data_size b"
  shows "\<exists>a b'. buddy_alloc b sz = Some (Some a, b')"
proof -
  obtain A where h: "holds_inv b [] A" using assms(1) by (rule reach_inv)
  then have inv: "buddy_inv b {}" by (auto simp: holds_inv_def)
  show ?thesis
  proof (rule buddy_alloc_spec [OF inv assms(2,3)])
    fix t assume "\<forall>f\<in>free_blocks (bs_bitmaps (ba_state b)). t < fst f"
    then show ?thesis by (simp add: idle_free_blocks [OF inv])
  qed blast
qed

lemma reach_release:
  assumes "buddy_reach b live" "a \<in> set live"
  shows "\<exists>b'. buddy_free b (al_offset a) (al_level a) = Some b' \<and> buddy_reach b' (remove1 a live) \<and>
    ba_data_size b' = ba_data_size b"
proof -
  obtain b' where b': "buddy_free b (al_offset a) (al_level a) = Some b'"
    using free_live_total [OF assms] by blast
  moreover have "ba_data_size b' = ba_data_size b"
    using b' unfolding buddy_free_def Let_def by (elim bind_eq_Some_conv [THEN iffD1, elim_format] exE conjE) auto
  ultimately show ?thesis using reach_free [OF assms b'] by blast
qed

interpretation bb: block_store buddy_reach buddy_alloc "\<lambda>b a. buddy_free b (al_offset a) (al_level a)"
  alloc_range ba_data_size "\<lambda>b. alloc_count b = 0"
proof unfold_locales
  fix b live n assume r: "buddy_reach b live"
  show "\<exists>x b'. buddy_alloc b n = Some (x, b')" using buddy_alloc_cases [OF r, of n] by blast
  fix b' show "buddy_alloc b n = Some (None, b') \<Longrightarrow> b' = b" using buddy_alloc_cases [OF r, of n] by auto
  fix a assume a: "buddy_alloc b n = Some (Some a, b')"
  show "buddy_reach b' (a # live) \<and> ba_data_size b' = ba_data_size b \<and> n \<le> card (alloc_range a)"
    using buddy_alloc_cases [OF r, of n] a reach_alloc [OF r a]
    by (auto simp: card_alloc_range same_region_def)
next
  fix b live assume "buddy_reach b live"
  then show "distinct live" by (rule reach_inv) (simp add: holds_inv_def)
qed (fact reach_fresh_alloc reach_release reach_live_apart reach_live_bounds reach_idle_iff)+

section \<open>A concrete run\<close>

text \<open>A 16-byte segment with 4-byte blocks: allocate 3 bytes, then 5, then release the first.\<close>

definition sample :: "u64 \<Rightarrow> u64 \<Rightarrow> u64 \<Rightarrow> u32 \<Rightarrow> u64 \<Rightarrow> buddy_allocator" where
  "sample w0 w1 w2 n free =
     \<lparr>ba_base = 4096, ba_data_size = 16, ba_min_block = 4,
      ba_state = \<lparr>bs_bitmaps = [\<lparr>bm_words = [w0], num_blocks = 1\<rparr>, \<lparr>bm_words = [w1], num_blocks = 2\<rparr>,
                               \<lparr>bm_words = [w2], num_blocks = 4\<rparr>],
                 bs_alloc_count = n, bs_free_bytes = free\<rparr>\<rparr>"

definition sample_a1 :: allocation where
  "sample_a1 = \<lparr>al_offset = 0, al_actual_size = 4, al_level = 2\<rparr>"

definition sample_a2 :: allocation where
  "sample_a2 = \<lparr>al_offset = 8, al_actual_size = 8, al_level = 1\<rparr>"

lemma log_values: "floor_log2 1 = 0" "floor_log2 2 = 1" "floor_log2 4 = 2"
  by (simp_all add: floor_log2.simps)

lemmas pow_eval = is_power_of_two_def checked_next_power_of_two_def u32_max_def isize_max_def upt_conv_Cons
  ilog2_def log_values [simplified]

lemmas buddy_eval = pow_eval checked_layout_def buddy_init_def num_levels_def new_bitmap_def div_ceil_def
  on_level_def free_one_def is_free_def mark_used_def alloc_one_def trailing_zeros_def buddy_alloc_def
  buddy_free_def find_donor.simps checked_add_def sample_def sample_a1_def sample_a2_def

lemma sample_layout: "checked_layout 16 4 = Some \<lparr>bl_data_size = 16, bl_total_size = 16\<rparr>"
  by (simp add: buddy_eval)

lemma sample_init: "buddy_init 4096 \<lparr>bl_data_size = 16, bl_total_size = 16\<rparr> 4 = Some (sample 1 0 0 0 16)"
  by (simp add: buddy_eval)

lemma sample_alloc1: "buddy_alloc (sample 1 0 0 0 16) 3 = Some (Some sample_a1, sample 0 2 2 1 12)"
  by (simp add: buddy_eval)

lemma sample_alloc2: "buddy_alloc (sample 0 2 2 1 12) 5 = Some (Some sample_a2, sample 0 0 2 2 4)"
  by (simp add: buddy_eval)

lemma sample_free1: "buddy_free (sample 0 2 2 1 12) 0 2 = Some (sample 1 0 0 0 16)"
proof -
  have "merge_up 2 = merge_up (Suc (Suc 0))" by (simp add: numeral_2_eq_2)
  then show ?thesis by (simp add: buddy_eval)
qed

lemma sample_reach1: "buddy_reach (sample 0 2 2 1 12) [sample_a1]"
  by (rule reach_alloc [OF reach_init [OF sample_layout sample_init] sample_alloc1])

lemma sample_reach2: "buddy_reach (sample 0 0 2 2 4) [sample_a2, sample_a1]"
  by (rule reach_alloc [OF sample_reach1 sample_alloc2])

lemma sample_reach3: "buddy_reach (sample 1 0 0 0 16) []"
  using reach_free [OF sample_reach1, of sample_a1] sample_free1 by (simp add: sample_a1_def)

theorem live_allocations_disjoint_witness:
  "buddy_reach (sample 0 0 2 2 4) [sample_a2, sample_a1] \<and> alloc_range sample_a2 \<inter> alloc_range sample_a1 = {}"
  using live_allocations_disjoint [OF sample_reach2] sample_reach2 by (simp add: sample_a1_def sample_a2_def)

theorem alloc_complete_witness: "\<exists>b'. buddy_alloc (sample 0 0 2 2 4) 8 = Some (None, b')"
proof -
  have S: "request_size (sample 0 0 2 2 4) 8 = 8" by (simp add: request_size_def sample_def pow_eval)
  have "\<exists>x\<in>set [sample_a2, sample_a1]. alloc_range x \<inter> {i * 8..<i * 8 + 8} \<noteq> {}" if "i * 8 + 8 \<le> (16 :: nat)" for i
  proof -
    from that have "i = 0 \<or> i = 1" by linarith
    then show ?thesis by (auto simp: alloc_range_def sample_a1_def sample_a2_def)
  qed
  then show ?thesis
    using alloc_complete [OF sample_reach2, of 8, unfolded S] by (auto simp: sample_def)
qed

end
