(* ===== verification/Ledger.thy ===== *)
theory Ledger
  imports C2_Prelude
begin

text \<open>
  The interface of an admission ledger: a state with several counted dimensions, each with a finite
  limit; \<open>admit\<close> takes a charge in every dimension or takes nothing, and \<open>refund\<close> returns a charge
  and panics only when a counter would go below zero.

  The client lemmas follow the multiset of live charges (one element per guard that has not been
  dropped): while every guard is dropped once, each counter is the sum of the live charges, never
  passes its limit, and no refund panics.
\<close>

definition total_cost :: "('c \<Rightarrow> 'd \<Rightarrow> nat) \<Rightarrow> 'c multiset \<Rightarrow> 'd \<Rightarrow> nat" where
  "total_cost cost live d = (\<Sum>c\<in>#live. cost c d)"

lemma total_simps [simp]:
  "total_cost cost {#} d = 0"
  "total_cost cost (add_mset c live) d = cost c d + total_cost cost live d"
  by (simp_all add: total_cost_def)

lemma total_remove:
  "c \<in># live \<Longrightarrow> total_cost cost live d = cost c d + total_cost cost (live - {#c#}) d"
  by (auto simp: total_cost_def dest!: multi_member_split)

locale ledger =
  fixes used :: "'s \<Rightarrow> 'd \<Rightarrow> nat"
    and limit :: "'s \<Rightarrow> 'd \<Rightarrow> nat"
    and cost :: "'c \<Rightarrow> 'd \<Rightarrow> nat"
    and admit :: "'s \<Rightarrow> 'c \<Rightarrow> ('e + unit) \<times> 's"
    and refund :: "'s \<Rightarrow> 'c \<Rightarrow> 's option"
  assumes admitted: "admit s c = (Inr (), s') \<Longrightarrow>
        (\<forall>d. used s d \<le> limit s d) \<Longrightarrow>
        used s' d = used s d + cost c d \<and> used s' d \<le> limit s' d \<and> limit s' d = limit s d"
    and rejected: "admit s c = (Inl e, s') \<Longrightarrow> used s' d = used s d \<and> limit s' d = limit s d"
    and refunded: "(\<forall>d. cost c d \<le> used s d) \<Longrightarrow>
        \<exists>s'. refund s c = Some s' \<and> (\<forall>d. used s' d = used s d - cost c d \<and> limit s' d = limit s d)"
begin

definition balanced :: "'s \<Rightarrow> 'c multiset \<Rightarrow> bool" where
  "balanced s live \<longleftrightarrow> (\<forall>d. used s d = total_cost cost live d) \<and> (\<forall>d. used s d \<le> limit s d)"

lemma balancedI: "(\<And>d. used s d = total_cost cost live d \<and> used s d \<le> limit s d) \<Longrightarrow> balanced s live"
  unfolding balanced_def by blast

lemma balanced_admit:
  assumes "balanced s live" "admit s c = (Inr (), s')"
  shows "balanced s' (add_mset c live)"
proof (rule balancedI)
  fix d
  have "\<forall>d. used s d \<le> limit s d" "used s d = total_cost cost live d" using assms(1) by (auto simp: balanced_def)
  with admitted [OF assms(2), of d] show "used s' d = total_cost cost (add_mset c live) d \<and> used s' d \<le> limit s' d"
    by simp
qed

lemma balanced_reject: "balanced s live \<Longrightarrow> admit s c = (Inl e, s') \<Longrightarrow> balanced s' live"
  using rejected [of s c e s'] by (auto simp: balanced_def)

lemma balanced_refund:
  assumes "balanced s live" "c \<in># live"
  shows "\<exists>s'. refund s c = Some s' \<and> balanced s' (live - {#c#})"
proof -
  have tot: "used s d = cost c d + total_cost cost (live - {#c#}) d" for d
    using assms total_remove [of c live cost d] by (simp add: balanced_def)
  then obtain s' where s': "refund s c = Some s'"
    "\<And>d. used s' d = used s d - cost c d" "\<And>d. limit s' d = limit s d"
    using refunded [of c s] by auto
  have "used s' d = total_cost cost (live - {#c#}) d \<and> used s' d \<le> limit s' d" for d
    using tot [of d] s'(2,3) [of d] assms(1) unfolding balanced_def by (metis add_diff_cancel_left' diff_le_self le_trans)
  then have "balanced s' (live - {#c#})" by (rule balancedI)
  with s'(1) show ?thesis by blast
qed

lemma balanced_refundD:
  "balanced s live \<Longrightarrow> c \<in># live \<Longrightarrow> refund s c = Some s' \<Longrightarrow> balanced s' (live - {#c#})"
  using balanced_refund by fastforce

end

end
