(* ===== verification/Budget.thy ===== *)
theory Budget
  imports Ledger
begin

text \<open>
  The finite memory budget of \<open>c2-mem/src/budget.rs\<close>: three cells behind one mutex.

  A \<open>BudgetReservation\<close> is the pair of its kind and bytes; dropping it is \<open>budget_release\<close>. Each
  of the two takes the lock once, so \<open>budget_reach\<close> is every interleaving of reservations and
  drops over all clones of the budget, with the multiset of guards that are alive.
\<close>

datatype budget_kind = Shm | File | Reassembly

definition budget_kind_label :: "budget_kind \<Rightarrow> string" where
  "budget_kind_label kind =
     (case kind of Shm \<Rightarrow> ''shm'' | File \<Rightarrow> ''file'' | Reassembly \<Rightarrow> ''reassembly'')"

record budget_cell =
  bc_limit_bytes :: u64
  bc_used_bytes :: u64
  bc_peak_bytes :: u64
  bc_rejected_allocations :: u64
  bc_rejected_bytes :: u64

record budget_error =
  be_cell :: budget_kind
  be_requested :: u64
  be_used :: u64
  be_limit :: u64

record budget_cells =
  cells_shm :: budget_cell
  cells_file :: budget_cell
  cells_reassembly :: budget_cell

type_synonym budget_reservation = "budget_kind \<times> u64"

definition new_cell :: "u64 \<Rightarrow> budget_cell" where
  "new_cell limit_bytes = \<lparr>bc_limit_bytes = limit_bytes, bc_used_bytes = 0, bc_peak_bytes = 0,
     bc_rejected_allocations = 0, bc_rejected_bytes = 0\<rparr>"

definition cell_try_reserve :: "budget_cell \<Rightarrow> budget_kind \<Rightarrow> u64 \<Rightarrow> (budget_error + unit) \<times> budget_cell" where
  "cell_try_reserve c kind bytes =
     (let reject =
        (Inl \<lparr>be_cell = kind, be_requested = bytes, be_used = bc_used_bytes c, be_limit = bc_limit_bytes c\<rparr>,
         c\<lparr>bc_rejected_allocations := saturating_add (bc_rejected_allocations c) 1,
           bc_rejected_bytes := saturating_add (bc_rejected_bytes c) bytes\<rparr>)
      in case checked_add (bc_used_bytes c) bytes of
           Some new_used \<Rightarrow>
             (if new_used \<le> bc_limit_bytes c then
                (Inr (), c\<lparr>bc_used_bytes := new_used,
                           bc_peak_bytes := (if new_used > bc_peak_bytes c then new_used else bc_peak_bytes c)\<rparr>)
              else reject)
         | None \<Rightarrow> reject)"

definition cell_release :: "budget_cell \<Rightarrow> u64 \<Rightarrow> budget_cell run" where
  "cell_release c bytes =
     do { used \<leftarrow> checked_sub (bc_used_bytes c) bytes; Some (c\<lparr>bc_used_bytes := used\<rparr>) }"

definition new_cells :: "u64 \<Rightarrow> u64 \<Rightarrow> u64 \<Rightarrow> budget_cells" where
  "new_cells shm_limit file_limit reassembly_limit =
     \<lparr>cells_shm = new_cell shm_limit, cells_file = new_cell file_limit,
      cells_reassembly = new_cell reassembly_limit\<rparr>"

definition get_cell :: "budget_cells \<Rightarrow> budget_kind \<Rightarrow> budget_cell" where
  "get_cell cs kind =
     (case kind of Shm \<Rightarrow> cells_shm cs | File \<Rightarrow> cells_file cs | Reassembly \<Rightarrow> cells_reassembly cs)"

definition set_cell :: "budget_cells \<Rightarrow> budget_kind \<Rightarrow> budget_cell \<Rightarrow> budget_cells" where
  "set_cell cs kind c =
     (case kind of Shm \<Rightarrow> cs\<lparr>cells_shm := c\<rparr> | File \<Rightarrow> cs\<lparr>cells_file := c\<rparr>
        | Reassembly \<Rightarrow> cs\<lparr>cells_reassembly := c\<rparr>)"

definition budget_reserve :: "budget_cells \<Rightarrow> budget_kind \<Rightarrow> u64 \<Rightarrow> (budget_error + budget_reservation) \<times> budget_cells" where
  "budget_reserve cs kind bytes =
     (let (attempt, c) = cell_try_reserve (get_cell cs kind) kind bytes
      in (map_sum id (\<lambda>_. (kind, bytes)) attempt, set_cell cs kind c))"

definition budget_release :: "budget_cells \<Rightarrow> budget_reservation \<Rightarrow> budget_cells run" where
  "budget_release cs r =
     do { c \<leftarrow> cell_release (get_cell cs (fst r)) (snd r); Some (set_cell cs (fst r) c) }"

text \<open>\<open>BudgetCell::snapshot\<close> copies every field, so a snapshot of the budget is its cells.\<close>

definition budget_snapshot :: "budget_cells \<Rightarrow> budget_cells" where
  "budget_snapshot cs = \<lparr>cells_shm = cells_shm cs, cells_file = cells_file cs,
     cells_reassembly = cells_reassembly cs\<rparr>"

definition budget_limits :: "budget_cells \<Rightarrow> u64 \<times> u64 \<times> u64" where
  "budget_limits cs =
     (bc_limit_bytes (cells_shm cs), bc_limit_bytes (cells_file cs), bc_limit_bytes (cells_reassembly cs))"

definition observer_used_bytes :: "budget_cells \<Rightarrow> u64" where
  "observer_used_bytes cs =
     (let s = budget_snapshot cs
      in saturating_add (saturating_add (bc_used_bytes (cells_shm s)) (bc_used_bytes (cells_file s)))
           (bc_used_bytes (cells_reassembly s)))"

inductive budget_reach :: "u64 \<Rightarrow> u64 \<Rightarrow> u64 \<Rightarrow> budget_cells \<Rightarrow> budget_reservation multiset \<Rightarrow> bool"
  for shm_limit file_limit reassembly_limit where
  budget_new: "budget_reach shm_limit file_limit reassembly_limit
     (new_cells shm_limit file_limit reassembly_limit) {#}"
| budget_admit: "budget_reach shm_limit file_limit reassembly_limit cs live \<Longrightarrow>
     budget_reserve cs kind bytes = (Inr r, cs') \<Longrightarrow>
     budget_reach shm_limit file_limit reassembly_limit cs' (add_mset r live)"
| budget_reject: "budget_reach shm_limit file_limit reassembly_limit cs live \<Longrightarrow>
     budget_reserve cs kind bytes = (Inl e, cs') \<Longrightarrow>
     budget_reach shm_limit file_limit reassembly_limit cs' live"
| budget_drop: "budget_reach shm_limit file_limit reassembly_limit cs live \<Longrightarrow> r \<in># live \<Longrightarrow>
     budget_release cs r = Some cs' \<Longrightarrow>
     budget_reach shm_limit file_limit reassembly_limit cs' (live - {#r#})"

section \<open>The cells are a ledger\<close>

definition budget_used :: "budget_cells \<Rightarrow> budget_kind \<Rightarrow> nat" where
  "budget_used cs k = unat (bc_used_bytes (get_cell cs k))"

definition budget_limit :: "budget_cells \<Rightarrow> budget_kind \<Rightarrow> nat" where
  "budget_limit cs k = unat (bc_limit_bytes (get_cell cs k))"

definition reservation_cost :: "budget_reservation \<Rightarrow> budget_kind \<Rightarrow> nat" where
  "reservation_cost r k = (if fst r = k then unat (snd r) else 0)"

definition reserve_charge :: "budget_cells \<Rightarrow> budget_reservation \<Rightarrow> (budget_error + unit) \<times> budget_cells" where
  "reserve_charge cs r = (let (x, cs') = budget_reserve cs (fst r) (snd r) in (map_sum id (\<lambda>_. ()) x, cs'))"

lemma get_set_cell [simp]: "get_cell (set_cell cs k c) k' = (if k = k' then c else get_cell cs k')"
  by (cases k; cases k') (simp_all add: get_cell_def set_cell_def)

lemma cell_admit:
  assumes "unat (bc_used_bytes c) + unat n \<le> unat (bc_limit_bytes c)"
  shows "cell_try_reserve c k n = (Inr (), c\<lparr>bc_used_bytes := bc_used_bytes c + n,
      bc_peak_bytes := max (bc_peak_bytes c) (bc_used_bytes c + n)\<rparr>)"
    and "unat (bc_used_bytes c + n) = unat (bc_used_bytes c) + unat n"
proof -
  have fits: "unat (bc_used_bytes c) + unat n < 2 ^ 64"
    using assms unat_bound [of "bc_limit_bytes c"] by simp
  then show u: "unat (bc_used_bytes c + n) = unat (bc_used_bytes c) + unat n"
    by (intro unat_add_bounded) simp
  have "checked_add (bc_used_bytes c) n = Some (bc_used_bytes c + n)" using fits by (simp add: checked_add_def)
  moreover have "bc_used_bytes c + n \<le> bc_limit_bytes c" using assms u by (simp add: word_le_nat_alt)
  ultimately show "cell_try_reserve c k n = (Inr (), c\<lparr>bc_used_bytes := bc_used_bytes c + n,
      bc_peak_bytes := max (bc_peak_bytes c) (bc_used_bytes c + n)\<rparr>)"
    by (auto simp: cell_try_reserve_def max_def)
qed

lemma cell_refuse:
  assumes "unat (bc_limit_bytes c) < unat (bc_used_bytes c) + unat n"
  shows "cell_try_reserve c k n =
     (Inl \<lparr>be_cell = k, be_requested = n, be_used = bc_used_bytes c, be_limit = bc_limit_bytes c\<rparr>,
      c\<lparr>bc_rejected_allocations := saturating_add (bc_rejected_allocations c) 1,
        bc_rejected_bytes := saturating_add (bc_rejected_bytes c) n\<rparr>)"
proof (cases "checked_add (bc_used_bytes c) n")
  case (Some u)
  have "\<not> u \<le> bc_limit_bytes c" using assms checked_add_SomeD [OF Some] by (auto simp: word_le_nat_alt)
  with Some show ?thesis by (simp add: cell_try_reserve_def)
qed (simp add: cell_try_reserve_def)

lemma reserve_charge_cases:
  obtains (fits) "budget_used s (fst r) + unat (snd r) \<le> budget_limit s (fst r)"
  | (full) "budget_limit s (fst r) < budget_used s (fst r) + unat (snd r)"
  using not_le by blast

lemma reserve_charge_admit:
  assumes "budget_used s (fst r) + unat (snd r) \<le> budget_limit s (fst r)"
  shows "\<exists>s'. budget_reserve s (fst r) (snd r) = (Inr r, s') \<and> reserve_charge s r = (Inr (), s') \<and>
     (\<forall>d. budget_used s' d = budget_used s d + reservation_cost r d \<and> budget_limit s' d = budget_limit s d)"
  using cell_admit [of "get_cell s (fst r)" "snd r"] assms
  by (auto simp: reserve_charge_def budget_reserve_def budget_used_def budget_limit_def reservation_cost_def)

lemma reserve_charge_refuse:
  assumes "budget_limit s (fst r) < budget_used s (fst r) + unat (snd r)"
  shows "\<exists>e s'. budget_reserve s (fst r) (snd r) = (Inl e, s') \<and> reserve_charge s r = (Inl e, s') \<and>
     (\<forall>d. budget_used s' d = budget_used s d \<and> budget_limit s' d = budget_limit s d)"
  using cell_refuse [of "get_cell s (fst r)" "snd r"] assms
  by (auto simp: reserve_charge_def budget_reserve_def budget_used_def budget_limit_def)

interpretation mb: ledger budget_used budget_limit reservation_cost reserve_charge budget_release
proof unfold_locales
  fix s c s' and d :: budget_kind
  assume a: "reserve_charge s c = (Inr (), s')" and le: "\<forall>d. budget_used s d \<le> budget_limit s d"
  show "budget_used s' d = budget_used s d + reservation_cost c d \<and>
        budget_used s' d \<le> budget_limit s' d \<and> budget_limit s' d = budget_limit s d"
  proof (cases rule: reserve_charge_cases [of s c])
    case fits
    with reserve_charge_admit [OF fits] a le show ?thesis by (auto simp: reservation_cost_def)
  next
    case full
    with reserve_charge_refuse [OF full] a show ?thesis by auto
  qed
next
  fix s c e s' and d :: budget_kind
  assume a: "reserve_charge s c = (Inl e, s')"
  show "budget_used s' d = budget_used s d \<and> budget_limit s' d = budget_limit s d"
    by (cases rule: reserve_charge_cases [of s c])
      (use a reserve_charge_admit [of s c] reserve_charge_refuse [of s c] in auto)
next
  fix c s assume le: "\<forall>d :: budget_kind. reservation_cost c d \<le> budget_used s d"
  then have "snd c \<le> bc_used_bytes (get_cell s (fst c))"
    by (auto simp: reservation_cost_def budget_used_def word_le_nat_alt split: if_splits)
  then show "\<exists>s'. budget_release s c = Some s' \<and>
      (\<forall>d. budget_used s' d = budget_used s d - reservation_cost c d \<and> budget_limit s' d = budget_limit s d)"
    by (simp add: budget_release_def cell_release_def budget_used_def budget_limit_def reservation_cost_def
        unat_sub word_le_nat_alt)
qed

section \<open>Every reachable budget\<close>

lemma reserve_as_charge:
  "budget_reserve cs k n = (Inr r, cs') \<Longrightarrow> r = (k, n) \<and> reserve_charge cs (k, n) = (Inr (), cs')"
  "budget_reserve cs k n = (Inl e, cs') \<Longrightarrow> reserve_charge cs (k, n) = (Inl e, cs')"
  by (auto simp: reserve_charge_def budget_reserve_def split: prod.splits sum.splits)
     (auto simp: map_sum_def split: sum.splits)

lemma budget_reach_balanced:
  assumes "budget_reach a b c cs live"
  shows "mb.balanced cs live"
  using assms
proof induction
  case budget_new
  show ?case
    by (rule mb.balancedI) (auto simp: budget_used_def new_cells_def get_cell_def new_cell_def split: budget_kind.splits)
next
  case (budget_admit cs live kind bytes r cs')
  then show ?case using reserve_as_charge(1) mb.balanced_admit by metis
next
  case (budget_reject cs live kind bytes e cs')
  then show ?case using reserve_as_charge(2) mb.balanced_reject by metis
next
  case (budget_drop cs live r cs')
  then show ?case using mb.balanced_refundD by blast
qed

text \<open>An invariant of single cells holds of every cell in every reachable budget.\<close>

lemma budget_cell_invariant:
  assumes "budget_reach a b c cs live"
    and init: "\<And>k. P k (get_cell (new_cells a b c) k)"
    and res: "\<And>k c n x c'. P k c \<Longrightarrow> cell_try_reserve c k n = (x, c') \<Longrightarrow> P k c'"
    and rel: "\<And>k c n c'. P k c \<Longrightarrow> cell_release c n = Some c' \<Longrightarrow> P k c'"
  shows "P k (get_cell cs k)"
  using assms(1)
proof (induction arbitrary: k)
  case (budget_admit cs live kind bytes r cs')
  then show ?case using res by (fastforce simp: budget_reserve_def split: prod.splits)
next
  case (budget_reject cs live kind bytes e cs')
  then show ?case using res by (fastforce simp: budget_reserve_def split: prod.splits)
next
  case (budget_drop cs live r cs')
  then show ?case using rel by (fastforce simp: budget_release_def split: bind_splits)
qed (rule init)

lemma reserve_limit: "cell_try_reserve c k n = (x, c') \<Longrightarrow> bc_limit_bytes c' = bc_limit_bytes c"
  by (auto simp: cell_try_reserve_def Let_def split: option.splits if_splits)

lemma release_limit: "cell_release c n = Some c' \<Longrightarrow> bc_limit_bytes c' = bc_limit_bytes c"
  by (auto simp: cell_release_def split: bind_splits)

lemma budget_limit_const:
  assumes "budget_reach a b c cs live"
  shows "budget_limits cs = (a, b, c)"
proof -
  have "bc_limit_bytes (get_cell cs k) = bc_limit_bytes (get_cell (new_cells a b c) k)" for k
    by (rule budget_cell_invariant [OF assms]) (simp_all add: reserve_limit release_limit)
  from this [of Shm] this [of File] this [of Reassembly] show ?thesis
    by (simp add: budget_limits_def get_cell_def new_cells_def new_cell_def)
qed

definition peak_ok :: "budget_cell \<Rightarrow> bool" where
  "peak_ok c \<longleftrightarrow> bc_used_bytes c \<le> bc_peak_bytes c \<and> bc_peak_bytes c \<le> bc_limit_bytes c"

lemma peak_ok_reserve: "peak_ok c \<Longrightarrow> cell_try_reserve c k n = (x, c') \<Longrightarrow> peak_ok c'"
  by (auto simp: peak_ok_def cell_try_reserve_def Let_def split: option.splits if_splits)

lemma peak_ok_release: "peak_ok c \<Longrightarrow> cell_release c n = Some c' \<Longrightarrow> peak_ok c'"
  by (auto simp: peak_ok_def cell_release_def word_le_nat_alt split: bind_splits dest!: checked_sub_SomeD)

lemma budget_peaks:
  assumes "budget_reach a b c cs live"
  shows "peak_ok (get_cell cs k)"
proof (rule budget_cell_invariant [OF assms])
  show "peak_ok (get_cell (new_cells a b c) k)" for k
    by (cases k) (simp_all add: peak_ok_def new_cells_def new_cell_def get_cell_def)
qed (fact peak_ok_reserve, fact peak_ok_release)

text \<open>C21: Budget admission is exact. After any interleaving of reservations and guard drops, each
  cell's usage is the sum of the bytes of its live guards, its limit is the one fixed at
  construction and is never exceeded, the peak lies between usage and limit, and a reservation is
  rejected exactly when the live charges plus the request exceed the limit (also when the sum
  leaves the 64-bit range).\<close>

theorem budget_admission_exact:
  assumes "budget_reach shm file reassembly cs live"
  shows "budget_limits cs = (shm, file, reassembly) \<and>
    (\<forall>k. budget_used cs k = total_cost reservation_cost live k \<and> budget_used cs k \<le> budget_limit cs k \<and>
       peak_ok (get_cell cs k) \<and>
       (\<forall>n. isl (fst (budget_reserve cs k n)) \<longleftrightarrow>
          budget_limit cs k < total_cost reservation_cost live k + unat n))"
proof -
  have bal: "mb.balanced cs live" by (rule budget_reach_balanced [OF assms])
  have "isl (fst (budget_reserve cs k n)) \<longleftrightarrow> budget_limit cs k < budget_used cs k + unat n" for k n
    by (cases rule: reserve_charge_cases [of cs "(k, n)"])
      (use reserve_charge_admit [of cs "(k, n)"] reserve_charge_refuse [of cs "(k, n)"] in auto)
  with bal budget_limit_const [OF assms] budget_peaks [OF assms] show ?thesis
    unfolding mb.balanced_def by metis
qed

text \<open>Dropping a live reservation guard never hits the underflow panic, returns exactly its bytes
  to its own cell and leaves the other cells alone.\<close>

lemma budget_drop_total:
  assumes "budget_reach shm file reassembly cs live" "r \<in># live"
  shows "\<exists>cs'. budget_release cs r = Some cs' \<and>
    (\<forall>k. budget_used cs' k + reservation_cost r k = budget_used cs k)"
proof -
  have bal: "mb.balanced cs live" by (rule budget_reach_balanced [OF assms(1)])
  obtain cs' where "budget_release cs r = Some cs'" "mb.balanced cs' (live - {#r#})"
    using mb.balanced_refund [OF bal assms(2)] by blast
  then show ?thesis using bal total_remove [OF assms(2), of reservation_cost] by (simp add: mb.balanced_def)
qed

lemma sample_budget: "budget_reach 100 0 0 (snd (budget_reserve (new_cells 100 0 0) Shm 60)) {#(Shm, 60)#}"
  by (rule budget_admit [OF budget_new, of _ _ _ Shm 60])
    (simp add: budget_reserve_def new_cells_def new_cell_def get_cell_def set_cell_def cell_try_reserve_def checked_add_def)

theorem budget_admission_exact_witness:
  "isl (fst (budget_reserve (snd (budget_reserve (new_cells 100 0 0) Shm 60)) Shm 41)) \<and>
   \<not> isl (fst (budget_reserve (snd (budget_reserve (new_cells 100 0 0) Shm 60)) Shm 40))"
proof -
  let ?cs = "snd (budget_reserve (new_cells 100 0 0) Shm 60)"
  note t = budget_admission_exact [OF sample_budget]
  then have "budget_limit ?cs Shm = 100"
    by (simp add: budget_limits_def budget_limit_def get_cell_def)
  then show ?thesis using t by (simp add: reservation_cost_def)
qed

end
