(* ===== verification/F64.thy ===== *)
theory F64
  imports C2_Prelude
begin

text \<open>
  The part of \<open>f64\<close> (IEEE 754 binary64) that the relay's timestamps use: classification, comparison, addition and
  conversion from integers, on the 64-bit patterns. A finite value is an integer multiple of two to the
  power of minus 1074; \<open>f64_scaled\<close> is that multiple, so comparison is exact integer comparison, and
  rounding (to nearest, ties to even) is integer division.
\<close>

type_synonym f64 = u64

definition f64_exp :: "f64 \<Rightarrow> nat" where
  "f64_exp w = unat w div 2 ^ 52 mod 2048"

definition f64_frac :: "f64 \<Rightarrow> nat" where
  "f64_frac w = unat w mod 2 ^ 52"

definition f64_is_finite :: "f64 \<Rightarrow> bool" where
  "f64_is_finite w \<longleftrightarrow> f64_exp w \<noteq> 2047"

definition f64_is_nan :: "f64 \<Rightarrow> bool" where
  "f64_is_nan w \<longleftrightarrow> f64_exp w = 2047 \<and> f64_frac w \<noteq> 0"

definition f64_mag :: "f64 \<Rightarrow> nat" where
  "f64_mag w = (if f64_exp w = 0 then f64_frac w else (2 ^ 52 + f64_frac w) * 2 ^ (f64_exp w - 1))"

definition f64_scaled :: "f64 \<Rightarrow> int" where
  "f64_scaled w = (if 2 ^ 63 \<le> unat w then - int (f64_mag w) else int (f64_mag w))"

definition f64_lt :: "f64 \<Rightarrow> f64 \<Rightarrow> bool" where
  "f64_lt a b \<longleftrightarrow> \<not> f64_is_nan a \<and> \<not> f64_is_nan b \<and> f64_scaled a < f64_scaled b"

definition f64_le :: "f64 \<Rightarrow> f64 \<Rightarrow> bool" where
  "f64_le a b \<longleftrightarrow> \<not> f64_is_nan a \<and> \<not> f64_is_nan b \<and> f64_scaled a \<le> f64_scaled b"

definition f64_max :: "f64 \<Rightarrow> f64 \<Rightarrow> f64" where
  "f64_max a b = (if f64_is_nan a then b else if f64_is_nan b then a else if f64_lt a b then b else a)"

text \<open>The pattern of the value nearest to a non-negative multiple.\<close>

definition f64_encode :: "nat \<Rightarrow> nat" where
  "f64_encode s =
     (if s < 2 ^ 52 then s
      else
        (let k = floor_log2 s - 52; q = s div 2 ^ k; r = s mod 2 ^ k;
             q' = (if 2 * r > 2 ^ k \<or> (2 * r = 2 ^ k \<and> odd q) then q + 1 else q)
         in min (k * 2 ^ 52 + q') (2047 * 2 ^ 52)))"

definition f64_of_scaled :: "int \<Rightarrow> f64" where
  "f64_of_scaled s = (if s < 0 then word_of_nat (2 ^ 63 + f64_encode (nat (- s))) else word_of_nat (f64_encode (nat s)))"

definition f64_plus :: "f64 \<Rightarrow> f64 \<Rightarrow> f64" where
  "f64_plus a b =
     (if unat a = 2 ^ 63 \<and> unat b = 2 ^ 63 then a else f64_of_scaled (f64_scaled a + f64_scaled b))"

definition f64_one :: f64 where "f64_one = 0x3FF0000000000000"

definition F64_UNIT :: nat where "F64_UNIT = 2 ^ 1074"

definition f64_of_u64 :: "u64 \<Rightarrow> f64" where
  "f64_of_u64 n = f64_of_scaled (int (unat n * F64_UNIT))"

section \<open>Integers are exact\<close>

lemma half_bounds: "p \<le> n div 2 \<Longrightarrow> n div 2 < 2 * p \<Longrightarrow> 2 * p \<le> n \<and> n < 4 * (p::nat)"
  using div_mult_mod_eq [of n 2] mod_less_divisor [of 2 n] by linarith

lemma unat_u64: "n < 2 ^ 64 \<Longrightarrow> unat (word_of_nat n :: u64) = n"
  by (simp add: unat_of_nat take_bit_eq_mod)

lemma floor_log2_bounds: "0 < n \<Longrightarrow> 2 ^ floor_log2 n \<le> n \<and> n < 2 ^ Suc (floor_log2 n)"
proof (induction n rule: floor_log2.induct)
  case (1 n)
  show ?case
  proof (cases "n \<le> 1")
    case True
    then show ?thesis using 1 by (simp add: floor_log2.simps [of n])
  next
    case False
    then have "2 ^ floor_log2 (n div 2) \<le> n div 2" "n div 2 < 2 ^ Suc (floor_log2 (n div 2))" using 1 by auto
    moreover have "floor_log2 n = Suc (floor_log2 (n div 2))" using False by (subst floor_log2.simps) simp
    ultimately show ?thesis using half_bounds [of "2 ^ floor_log2 (n div 2)" n] by simp
  qed
qed

lemma floor_log2_unique: "2 ^ k \<le> n \<Longrightarrow> n < 2 ^ Suc k \<Longrightarrow> floor_log2 n = k"
proof -
  assume a: "2 ^ k \<le> n" "n < 2 ^ Suc k"
  then have "0 < n" by (meson less_le_trans zero_less_numeral zero_less_power)
  from floor_log2_bounds [OF this] a have "2 ^ floor_log2 n < (2::nat) ^ Suc k" "2 ^ k < (2::nat) ^ Suc (floor_log2 n)"
    by linarith+
  then have "floor_log2 n < Suc k" "k < Suc (floor_log2 n)" by (simp_all only: power_strict_increasing_iff one_less_numeral_iff semiring_norm)
  then show "floor_log2 n = k" by simp
qed

lemma f64_fields:
  assumes "k \<le> 2045" "2 ^ 52 \<le> q" "q < 2 ^ 53"
  shows "unat (word_of_nat (k * 2 ^ 52 + q) :: f64) = k * 2 ^ 52 + q"
    "f64_exp (word_of_nat (k * 2 ^ 52 + q)) = k + 1" "f64_frac (word_of_nat (k * 2 ^ 52 + q)) = q - 2 ^ 52"
proof -
  have "k * 2 ^ 52 + q < 2 ^ 64" using assms by simp
  then show u: "unat (word_of_nat (k * 2 ^ 52 + q) :: f64) = k * 2 ^ 52 + q" by (rule unat_u64)
  define r where "r = q - 2 ^ 52"
  have q: "q = 2 ^ 52 + r" "r < 2 ^ 52" using assms by (simp_all add: r_def)
  have s: "k * 2 ^ 52 + q = r + (k + 1) * 2 ^ 52" using q by simp
  show "f64_exp (word_of_nat (k * 2 ^ 52 + q)) = k + 1" using assms(1) q(2) unfolding f64_exp_def u unfolding s by simp
  show "f64_frac (word_of_nat (k * 2 ^ 52 + q)) = q - 2 ^ 52" using q mod_mult_self1 [of r "k + 1" "2 ^ 52"] unfolding f64_frac_def u unfolding s by simp
qed

lemma f64_encode_exact:
  assumes "k \<le> 2045" "2 ^ 52 \<le> q" "q < 2 ^ 53"
  shows "f64_encode (q * 2 ^ k) = k * 2 ^ 52 + q"
proof -
  have "(2::nat) ^ (52 + k) \<le> q * 2 ^ k" "q * 2 ^ k < 2 ^ Suc (52 + k)" using assms by (simp_all add: power_add)
  then have l: "floor_log2 (q * 2 ^ k) = 52 + k" by (rule floor_log2_unique)
  have "2 ^ 52 * 1 \<le> q * 2 ^ k" using assms(2) by (intro mult_le_mono) simp_all
  then have b: "\<not> q * 2 ^ k < 2 ^ 52" by simp
  show ?thesis using assms b by (simp add: f64_encode_def l Let_def)
qed

definition f64_int :: "nat \<Rightarrow> f64 \<Rightarrow> bool" where
  "f64_int n w \<longleftrightarrow> f64_is_finite w \<and> f64_scaled w = int (n * F64_UNIT)"

lemma F64_UNIT_split: "j \<le> 52 \<Longrightarrow> F64_UNIT = 2 ^ (52 - j) * 2 ^ (1022 + j)"
  unfolding F64_UNIT_def power_add [symmetric] by (rule arg_cong [where f = "\<lambda>e. 2 ^ e"]) simp

lemma F64_UNIT_pos: "0 < F64_UNIT"
  unfolding F64_UNIT_def by (rule zero_less_power) simp

lemma f64_of_nat_exact:
  assumes "n < 2 ^ 53"
  shows "f64_int n (f64_of_scaled (int (n * F64_UNIT)))"
proof (cases "n = 0")
  case True
  then show ?thesis by (simp add: f64_int_def f64_of_scaled_def f64_encode_def f64_is_finite_def f64_scaled_def f64_mag_def f64_exp_def f64_frac_def)
next
  case False
  define j where "j = floor_log2 n"
  have j: "2 ^ j \<le> n" "n < 2 ^ Suc j" using floor_log2_bounds [of n] False by (auto simp: j_def)
  have "2 ^ j < (2::nat) ^ 53" using j(1) assms by linarith
  then have "j < 53" by (simp only: power_strict_increasing_iff one_less_numeral_iff semiring_norm)
  then have j52: "j \<le> 52" by simp
  define q where "q = n * 2 ^ (52 - j)"
  define k where "k = 1022 + j"
  have q: "2 ^ 52 \<le> q" "q < 2 ^ 53"
  proof -
    have "(2::nat) ^ 52 = 2 ^ j * 2 ^ (52 - j)" "(2::nat) ^ 53 = 2 ^ Suc j * 2 ^ (52 - j)"
      using j52 by (simp_all flip: power_add)
    moreover have "2 ^ j * 2 ^ (52 - j) \<le> n * 2 ^ (52 - j)" "n * 2 ^ (52 - j) < 2 ^ Suc j * 2 ^ (52 - j)" using j by simp_all
    ultimately show "2 ^ 52 \<le> q" "q < 2 ^ 53" by (simp_all only: q_def)
  qed
  have s: "n * F64_UNIT = q * 2 ^ k" unfolding q_def k_def F64_UNIT_split [OF j52] by (simp only: mult.assoc)
  have k: "k \<le> 2045" using j52 by (simp add: k_def)
  have e: "f64_of_scaled (int (n * F64_UNIT)) = word_of_nat (k * 2 ^ 52 + q)"
    unfolding s f64_of_scaled_def by (simp only: nat_int f64_encode_exact [OF k q] of_nat_less_0_iff if_False)
  have lt: "k * 2 ^ 52 + q < 2 ^ 63" using k q j52 by (simp add: k_def)
  have "f64_mag (word_of_nat (k * 2 ^ 52 + q)) = q * 2 ^ k" using f64_fields [OF k q] q by (simp add: f64_mag_def)
  then have "f64_scaled (word_of_nat (k * 2 ^ 52 + q)) = int (n * F64_UNIT)"
    using lt f64_fields(1) [OF k q] unfolding f64_scaled_def s by simp
  then show ?thesis unfolding f64_int_def e using f64_fields(2) [OF k q] k by (simp add: f64_is_finite_def k_def)
qed


lemma finite_not_nan [simp]: "f64_is_finite w \<Longrightarrow> \<not> f64_is_nan w"
  by (simp add: f64_is_finite_def f64_is_nan_def)

lemma f64_lt_finite: "f64_is_finite a \<Longrightarrow> f64_is_finite b \<Longrightarrow> f64_lt a b \<longleftrightarrow> f64_scaled a < f64_scaled b"
  by (simp add: f64_lt_def)

lemma f64_le_finite: "f64_is_finite a \<Longrightarrow> f64_is_finite b \<Longrightarrow> f64_le a b \<longleftrightarrow> f64_scaled a \<le> f64_scaled b"
  by (simp add: f64_le_def)

lemma f64_of_u64_int: "unat n < 2 ^ 53 \<Longrightarrow> f64_int (unat n) (f64_of_u64 n)"
  unfolding f64_of_u64_def by (rule f64_of_nat_exact)

lemma f64_one_int: "f64_int 1 f64_one"
proof -
  have "f64_exp f64_one = 1023" "f64_frac f64_one = 0" "\<not> 2 ^ 63 \<le> unat f64_one"
    by (simp_all add: f64_exp_def f64_frac_def f64_one_def)
  moreover have "F64_UNIT = 2 ^ 52 * 2 ^ 1022" using F64_UNIT_split [of 0] by (simp only: le0 diff_zero add_0_right)
  ultimately show ?thesis by (simp only: f64_int_def f64_is_finite_def f64_scaled_def f64_mag_def) simp
qed

lemma f64_succ_int: "f64_int n w \<Longrightarrow> n + 1 < 2 ^ 53 \<Longrightarrow> f64_int (n + 1) (f64_plus w f64_one)"
proof -
  assume a: "f64_int n w" "n + 1 < 2 ^ 53"
  have "unat f64_one \<noteq> 2 ^ 63" by (simp add: f64_one_def)
  moreover have "f64_scaled w + f64_scaled f64_one = int ((n + 1) * F64_UNIT)"
    using a(1) f64_one_int by (simp add: f64_int_def)
  ultimately show ?thesis using f64_of_nat_exact [OF a(2)] by (simp only: f64_plus_def simp_thms if_False)
qed

lemma f64_max_int: "f64_int n a \<Longrightarrow> f64_int m b \<Longrightarrow> f64_int (max n m) (f64_max a b)"
  using F64_UNIT_pos by (auto simp: f64_int_def f64_max_def f64_lt_def max_def)

lemma f64_int_less: "f64_int n a \<Longrightarrow> f64_int m b \<Longrightarrow> f64_scaled a < f64_scaled b \<longleftrightarrow> n < m"
  using F64_UNIT_pos by (simp add: f64_int_def)

end
