(* ===== verification/Wire_Frame.thy ===== *)
theory Wire_Frame
  imports C2_Prelude
begin

text \<open>
  The byte formats at the bottom of \<open>c2-wire\<close>: \<open>flags.rs\<close>, \<open>frame.rs\<close>, \<open>msg_type.rs\<close>, \<open>buddy.rs\<close>
  and \<open>chunk/header.rs\<close>.

  \<open>fixed_codec\<close> is the contract of a fixed-width record: decoding succeeds exactly on buffers that
  start with the encoding of a well-formed record, and returns it with its width. The buddy payload,
  the chunk header, the reply chunk metadata and the frame body header satisfy it.
\<close>

section \<open>flags.rs\<close>

definition FLAG_RESPONSE :: u32 where "FLAG_RESPONSE = push_bit 1 1"
definition FLAG_HANDSHAKE :: u32 where "FLAG_HANDSHAKE = push_bit 2 1"
definition FLAG_CTRL :: u32 where "FLAG_CTRL = push_bit 4 1"
definition FLAG_BUDDY :: u32 where "FLAG_BUDDY = push_bit 6 1"
definition FLAG_CALL_V2 :: u32 where "FLAG_CALL_V2 = push_bit 7 1"
definition FLAG_REPLY_V2 :: u32 where "FLAG_REPLY_V2 = push_bit 8 1"
definition FLAG_CHUNKED :: u32 where "FLAG_CHUNKED = push_bit 9 1"
definition FLAG_CHUNK_LAST :: u32 where "FLAG_CHUNK_LAST = push_bit 10 1"
definition FLAG_SIGNAL :: u32 where "FLAG_SIGNAL = push_bit 11 1"

definition is_response :: "u32 \<Rightarrow> bool" where "is_response flags \<longleftrightarrow> flags AND FLAG_RESPONSE \<noteq> 0"
definition is_handshake :: "u32 \<Rightarrow> bool" where "is_handshake flags \<longleftrightarrow> flags AND FLAG_HANDSHAKE \<noteq> 0"
definition is_ctrl :: "u32 \<Rightarrow> bool" where "is_ctrl flags \<longleftrightarrow> flags AND FLAG_CTRL \<noteq> 0"
definition is_buddy :: "u32 \<Rightarrow> bool" where "is_buddy flags \<longleftrightarrow> flags AND FLAG_BUDDY \<noteq> 0"
definition is_call_v2 :: "u32 \<Rightarrow> bool" where "is_call_v2 flags \<longleftrightarrow> flags AND FLAG_CALL_V2 \<noteq> 0"
definition is_reply_v2 :: "u32 \<Rightarrow> bool" where "is_reply_v2 flags \<longleftrightarrow> flags AND FLAG_REPLY_V2 \<noteq> 0"
definition is_signal :: "u32 \<Rightarrow> bool" where "is_signal flags \<longleftrightarrow> flags AND FLAG_SIGNAL \<noteq> 0"
definition is_chunked :: "u32 \<Rightarrow> bool" where "is_chunked flags \<longleftrightarrow> flags AND FLAG_CHUNKED \<noteq> 0"
definition is_chunk_last :: "u32 \<Rightarrow> bool" where "is_chunk_last flags \<longleftrightarrow> flags AND FLAG_CHUNK_LAST \<noteq> 0"

section \<open>frame.rs\<close>

definition HEADER_SIZE :: usize where
  "HEADER_SIZE = 16"

record frame_header =
  fh_total_len :: u32
  fh_request_id :: u64
  fh_flags :: u32

definition body_len :: "frame_header \<Rightarrow> usize" where
  "body_len h = unat (fh_total_len h)"

definition payload_len :: "frame_header \<Rightarrow> usize" where
  "payload_len h = (if fh_total_len h \<ge> 12 then unat (fh_total_len h - 12) else 0)"

datatype decode_error =
    BufferTooShort usize usize
  | Truncated string usize usize
  | InvalidValue string u64
  | InvalidText string string
  | Utf8Error

definition decode_error_message :: "decode_error \<Rightarrow> string" where
  "decode_error_message e =
     (case e of
        BufferTooShort need have_len \<Rightarrow> ''buffer too short: need '' @ show_nat need @ '', have '' @ show_nat have_len
      | Truncated field need have_len \<Rightarrow> field @ '': need '' @ show_nat need @ '' bytes, have '' @ show_nat have_len
      | InvalidValue field value \<Rightarrow> field @ '': invalid value '' @ show_nat (unat value)
      | InvalidText field reason \<Rightarrow> ''invalid '' @ field @ '': '' @ reason
      | Utf8Error \<Rightarrow> ''UTF-8 decode error'')"

definition subslice :: "usize \<Rightarrow> usize \<Rightarrow> 'a list \<Rightarrow> 'a list" where
  "subslice a b xs = take (b - a) (drop a xs)"

definition encode_frame_parts :: "u64 \<Rightarrow> u32 \<Rightarrow> bytes list \<Rightarrow> bytes" where
  "encode_frame_parts request_id frame_flags parts =
     (let payload_len = sum_list (map length parts);
          total_len = word_of_nat (12 + payload_len) :: u32
      in to_le_bytes 4 total_len @ to_le_bytes 8 request_id @ to_le_bytes 4 frame_flags @ concat parts)"

definition encode_frame :: "u64 \<Rightarrow> u32 \<Rightarrow> bytes \<Rightarrow> bytes" where
  "encode_frame request_id frame_flags payload = encode_frame_parts request_id frame_flags [payload]"

definition decode_total_len :: "bytes \<Rightarrow> decode_error + (u32 \<times> bytes)" where
  "decode_total_len buf =
     (if length buf < 4 then Inl (BufferTooShort 4 (length buf))
      else Inr (from_le_bytes (subslice 0 4 buf), drop 4 buf))"

definition decode_frame_body :: "bytes \<Rightarrow> u32 \<Rightarrow> decode_error + (frame_header \<times> bytes)" where
  "decode_frame_body body total_len =
     (if length body < 12 then Inl (BufferTooShort 12 (length body))
      else Inr (\<lparr>fh_total_len = total_len, fh_request_id = from_le_bytes (subslice 0 8 body),
                 fh_flags = from_le_bytes (subslice 8 12 body)\<rparr>, drop 12 body))"

definition decode_frame :: "bytes \<Rightarrow> decode_error + (frame_header \<times> bytes)" where
  "decode_frame buf =
     (case decode_total_len buf of
        Inl e \<Rightarrow> Inl e
      | Inr (total_len, body) \<Rightarrow>
          (let expected = unat total_len
           in if length body < expected then Inl (Truncated ''frame body'' expected (length body))
              else decode_frame_body (take expected body) total_len))"

section \<open>Message types\<close>

datatype msg_type =
    Ping | Pong | CrmCall | CrmReply | ShutdownClient | ShutdownAck | Disconnect | DisconnectAck
  | PendingRouteAttest | PendingRouteAttestAck | RouteList | RouteListAck | RouteLookup | RouteLookupAck
  | RouteNack | Release

definition as_byte :: "msg_type \<Rightarrow> u8" where
  "as_byte t =
     (case t of Ping \<Rightarrow> 0x01 | Pong \<Rightarrow> 0x02 | CrmCall \<Rightarrow> 0x03 | CrmReply \<Rightarrow> 0x04 | ShutdownClient \<Rightarrow> 0x05
        | ShutdownAck \<Rightarrow> 0x07 | Disconnect \<Rightarrow> 0x08 | DisconnectAck \<Rightarrow> 0x09 | PendingRouteAttest \<Rightarrow> 0x0A
        | PendingRouteAttestAck \<Rightarrow> 0x0B | RouteList \<Rightarrow> 0x0E | RouteListAck \<Rightarrow> 0x0F | RouteLookup \<Rightarrow> 0x10
        | RouteLookupAck \<Rightarrow> 0x11 | RouteNack \<Rightarrow> 0x15 | Release \<Rightarrow> 0x17)"

definition from_byte :: "u8 \<Rightarrow> msg_type option" where
  "from_byte b =
     (if b = 0x01 then Some Ping else if b = 0x02 then Some Pong else if b = 0x03 then Some CrmCall
      else if b = 0x04 then Some CrmReply else if b = 0x05 then Some ShutdownClient
      else if b = 0x07 then Some ShutdownAck else if b = 0x08 then Some Disconnect
      else if b = 0x09 then Some DisconnectAck else if b = 0x0A then Some PendingRouteAttest
      else if b = 0x0B then Some PendingRouteAttestAck else if b = 0x0E then Some RouteList
      else if b = 0x0F then Some RouteListAck else if b = 0x10 then Some RouteLookup
      else if b = 0x11 then Some RouteLookupAck else if b = 0x15 then Some RouteNack
      else if b = 0x17 then Some Release else None)"

definition msg_is_signal :: "msg_type \<Rightarrow> bool" where
  "msg_is_signal t \<longleftrightarrow> t \<in> {Ping, Pong, ShutdownClient, ShutdownAck, Disconnect, DisconnectAck}"

section \<open>buddy.rs\<close>

definition BUDDY_PAYLOAD_SIZE :: usize where
  "BUDDY_PAYLOAD_SIZE = 23"

definition SHM_KIND_BUDDY :: u8 where "SHM_KIND_BUDDY = 0"
definition SHM_KIND_DEDICATED :: u8 where "SHM_KIND_DEDICATED = 1"

record buddy_payload =
  bp_seg_idx :: u16
  bp_generation :: u32
  bp_offset :: u32
  bp_data_size :: u32
  bp_is_dedicated :: bool
  bp_loan_id :: u64

definition encode_buddy_payload :: "buddy_payload \<Rightarrow> bytes" where
  "encode_buddy_payload bp =
     to_le_bytes 2 (bp_seg_idx bp) @ to_le_bytes 4 (bp_generation bp) @ to_le_bytes 4 (bp_offset bp) @
     to_le_bytes 4 (bp_data_size bp) @
     [if bp_is_dedicated bp then SHM_KIND_DEDICATED else SHM_KIND_BUDDY] @ to_le_bytes 8 (bp_loan_id bp)"

definition decode_buddy_payload :: "bytes \<Rightarrow> decode_error + (buddy_payload \<times> usize)" where
  "decode_buddy_payload buf =
     (if length buf < BUDDY_PAYLOAD_SIZE then Inl (BufferTooShort BUDDY_PAYLOAD_SIZE (length buf))
      else
        (let seg_idx = from_le_bytes (subslice 0 2 buf);
             generation = from_le_bytes (subslice 2 6 buf) :: u32;
             offset = from_le_bytes (subslice 6 10 buf);
             data_size = from_le_bytes (subslice 10 14 buf);
             kind = buf ! 14
         in if kind \<noteq> SHM_KIND_BUDDY \<and> kind \<noteq> SHM_KIND_DEDICATED then Inl (InvalidValue ''SHM kind'' (ucast kind))
            else if generation = 0 then Inl (InvalidValue ''backing generation'' (ucast generation))
            else
              (let loan_id = from_le_bytes (subslice 15 23 buf) :: u64
               in if loan_id = 0 then Inl (InvalidValue ''loan id'' loan_id)
                  else Inr (\<lparr>bp_seg_idx = seg_idx, bp_generation = generation, bp_offset = offset,
                             bp_data_size = data_size, bp_is_dedicated = (kind = SHM_KIND_DEDICATED),
                             bp_loan_id = loan_id\<rparr>, BUDDY_PAYLOAD_SIZE))))"

section \<open>chunk/header.rs\<close>

definition CHUNK_HEADER_SIZE :: usize where
  "CHUNK_HEADER_SIZE = 4"

definition encode_chunk_header :: "u16 \<Rightarrow> u16 \<Rightarrow> bytes" where
  "encode_chunk_header chunk_idx total_chunks = to_le_bytes 2 chunk_idx @ to_le_bytes 2 total_chunks"

definition decode_chunk_header :: "bytes \<Rightarrow> usize \<Rightarrow> decode_error + (u16 \<times> u16 \<times> usize)" where
  "decode_chunk_header buf offset =
     (let remaining = length buf - offset
      in if remaining < CHUNK_HEADER_SIZE then Inl (BufferTooShort CHUNK_HEADER_SIZE remaining)
         else Inr (from_le_bytes (subslice offset (offset + 2) buf), from_le_bytes (subslice (offset + 2) (offset + 4) buf),
                   CHUNK_HEADER_SIZE))"

definition REPLY_CHUNK_META_SIZE :: usize where
  "REPLY_CHUNK_META_SIZE = 16"

definition encode_reply_chunk_meta :: "u64 \<Rightarrow> u32 \<Rightarrow> u32 \<Rightarrow> bytes" where
  "encode_reply_chunk_meta total_size total_chunks chunk_idx =
     to_le_bytes 8 total_size @ to_le_bytes 4 total_chunks @ to_le_bytes 4 chunk_idx"

definition decode_reply_chunk_meta :: "bytes \<Rightarrow> usize \<Rightarrow> decode_error + (u64 \<times> u32 \<times> u32 \<times> usize)" where
  "decode_reply_chunk_meta buf offset =
     (let remaining = length buf - offset
      in if remaining < REPLY_CHUNK_META_SIZE then Inl (BufferTooShort REPLY_CHUNK_META_SIZE remaining)
         else Inr (from_le_bytes (subslice offset (offset + 8) buf),
                   from_le_bytes (subslice (offset + 8) (offset + 12) buf),
                   from_le_bytes (subslice (offset + 12) (offset + 16) buf), REPLY_CHUNK_META_SIZE))"

section \<open>Slices\<close>

lemma length_slice [simp]: "b \<le> length xs \<Longrightarrow> length (subslice a b xs) = b - a"
  by (simp add: subslice_def)

lemma slice_append:
  assumes "a \<le> b" "b \<le> c" shows "subslice a b xs @ subslice b c xs = subslice a c xs"
proof -
  have "c - a = (b - a) + (c - b)" using assms by simp
  then have "subslice a c xs = take (b - a) (drop a xs) @ take (c - b) (drop (b - a) (drop a xs))"
    unfolding subslice_def by (simp only: take_add)
  then show ?thesis using assms by (simp add: subslice_def)
qed

lemma slice_zero: "subslice 0 b xs = take b xs"
  by (simp add: subslice_def)

lemma slice_skip [codec_simps]:
  "length ys = n \<Longrightarrow> n \<le> a \<Longrightarrow> subslice a b (ys @ zs) = subslice (a - n) (b - n) zs"
  by (simp add: subslice_def)

lemma slice_Cons [codec_simps]: "0 < a \<Longrightarrow> subslice a b (y # ys) = subslice (a - 1) (b - 1) ys"
  by (cases a) (simp_all add: subslice_def)

lemma slice_head [codec_simps]: "length ys = b \<Longrightarrow> subslice 0 b (ys @ zs) = ys"
  by (simp add: subslice_def)

lemma le_slice_u16: "b \<le> length xs \<Longrightarrow> b - a = 2 \<Longrightarrow> to_le_bytes 2 (from_le_bytes (subslice a b xs) :: u16) = subslice a b xs"
  by (rule to_from_le_bytes) simp_all

lemma le_slice_u32: "b \<le> length xs \<Longrightarrow> b - a = 4 \<Longrightarrow> to_le_bytes 4 (from_le_bytes (subslice a b xs) :: u32) = subslice a b xs"
  by (rule to_from_le_bytes) simp_all

lemma le_slice_u64: "b \<le> length xs \<Longrightarrow> b - a = 8 \<Longrightarrow> to_le_bytes 8 (from_le_bytes (subslice a b xs) :: u64) = subslice a b xs"
  by (rule to_from_le_bytes) simp_all

lemmas le_slices = le_slice_u16 le_slice_u32 le_slice_u64

lemma slice_single: "a < length xs \<Longrightarrow> [xs ! a] = subslice a (Suc a) xs"
  by (simp add: subslice_def take_Suc_conv_app_nth hd_drop_conv_nth take_Suc)

section \<open>Fixed-width records\<close>

locale fixed_codec =
  fixes enc :: "'a \<Rightarrow> bytes"
    and dec :: "bytes \<Rightarrow> 'e + ('a \<times> nat)"
    and wf :: "'a \<Rightarrow> bool"
    and width :: nat
  assumes enc_length: "length (enc x) = width"
    and dec_enc: "wf x \<Longrightarrow> dec (enc x @ rest) = Inr (x, width)"
    and dec_sound: "dec bs = Inr (x, n) \<Longrightarrow> wf x \<and> n = width \<and> take width bs = enc x"
begin

lemma dec_iff: "dec bs = Inr (x, n) \<longleftrightarrow> wf x \<and> n = width \<and> (\<exists>rest. bs = enc x @ rest)"
proof
  assume "dec bs = Inr (x, n)"
  with dec_sound [OF this] show "wf x \<and> n = width \<and> (\<exists>rest. bs = enc x @ rest)"
    by (metis append_take_drop_id)
qed (auto simp: dec_enc)

lemma enc_inj: "wf x \<Longrightarrow> wf y \<Longrightarrow> enc x @ r = enc y @ s \<Longrightarrow> x = y \<and> r = s"
  using dec_enc [of x r] dec_enc [of y s] by auto

lemma dec_short: "length bs < width \<Longrightarrow> isl (dec bs)"
proof (cases "dec bs")
  case (Inr r)
  assume "length bs < width"
  moreover obtain x n where "r = (x, n)" by force
  ultimately show ?thesis using Inr dec_iff [of bs x n] enc_length [of x] by auto
qed simp

end

subsection \<open>Buddy payload\<close>

definition buddy_payload_wf :: "buddy_payload \<Rightarrow> bool" where
  "buddy_payload_wf bp \<longleftrightarrow> bp_generation bp \<noteq> 0 \<and> bp_loan_id bp \<noteq> 0"

lemma payload_slices:
  assumes "23 \<le> length buf"
  shows "take 23 buf = subslice 0 2 buf @ subslice 2 6 buf @ subslice 6 10 buf @ subslice 10 14 buf @ [buf ! 14] @ subslice 15 23 buf"
  using assms by (simp add: slice_single slice_append slice_zero [symmetric] del: append_Cons append.simps)

interpretation bpc: fixed_codec encode_buddy_payload decode_buddy_payload buddy_payload_wf BUDDY_PAYLOAD_SIZE
proof unfold_locales
  fix x show "length (encode_buddy_payload x) = BUDDY_PAYLOAD_SIZE"
    by (simp add: encode_buddy_payload_def BUDDY_PAYLOAD_SIZE_def)
next
  fix x rest assume "buddy_payload_wf x"
  then show "decode_buddy_payload (encode_buddy_payload x @ rest) = Inr (x, BUDDY_PAYLOAD_SIZE)"
    by (simp add: decode_buddy_payload_def encode_buddy_payload_def BUDDY_PAYLOAD_SIZE_def buddy_payload_wf_def
        codec_simps nth_append SHM_KIND_BUDDY_def SHM_KIND_DEDICATED_def Let_def)
next
  fix bs x n assume d: "decode_buddy_payload bs = Inr (x, n)"
  then have len: "23 \<le> length bs"
    by (auto simp: decode_buddy_payload_def BUDDY_PAYLOAD_SIZE_def split: if_splits)
  have "take 23 bs = encode_buddy_payload x"
    unfolding payload_slices [OF len] using d len
    by (auto simp: decode_buddy_payload_def encode_buddy_payload_def BUDDY_PAYLOAD_SIZE_def le_slices
        Let_def split: if_splits)
  with d show "buddy_payload_wf x \<and> n = BUDDY_PAYLOAD_SIZE \<and> take BUDDY_PAYLOAD_SIZE bs = encode_buddy_payload x"
    by (auto simp: decode_buddy_payload_def BUDDY_PAYLOAD_SIZE_def buddy_payload_wf_def Let_def split: if_splits)
qed

subsection \<open>Chunk headers\<close>

lemma slice_drop: "subslice a b (drop off xs) = subslice (off + a) (off + b) xs"
  by (simp add: subslice_def add.commute)

lemma decode_chunk_header_offset: "decode_chunk_header buf off = decode_chunk_header (drop off buf) 0"
  by (simp add: decode_chunk_header_def slice_drop Let_def)

lemma decode_reply_chunk_meta_offset: "decode_reply_chunk_meta buf off = decode_reply_chunk_meta (drop off buf) 0"
  by (simp add: decode_reply_chunk_meta_def slice_drop Let_def)

definition chunk_enc :: "u16 \<times> u16 \<Rightarrow> bytes" where
  "chunk_enc h = encode_chunk_header (fst h) (snd h)"

definition chunk_dec :: "bytes \<Rightarrow> decode_error + ((u16 \<times> u16) \<times> usize)" where
  "chunk_dec bs = map_sum id (\<lambda>(i, t, n). ((i, t), n)) (decode_chunk_header bs 0)"

interpretation chc: fixed_codec chunk_enc chunk_dec "\<lambda>_. True" CHUNK_HEADER_SIZE
proof unfold_locales
  fix bs x n assume d: "chunk_dec bs = Inr (x, n)"
  then have len: "4 \<le> length bs"
    by (auto simp: chunk_dec_def decode_chunk_header_def CHUNK_HEADER_SIZE_def Let_def split: if_splits)
  have "take 4 bs = subslice 0 2 bs @ subslice 2 4 bs" by (simp add: slice_append slice_zero [symmetric])
  with d len show "True \<and> n = CHUNK_HEADER_SIZE \<and> take CHUNK_HEADER_SIZE bs = chunk_enc x"
    by (auto simp: numeral_2_eq_2 [symmetric] chunk_dec_def chunk_enc_def decode_chunk_header_def encode_chunk_header_def CHUNK_HEADER_SIZE_def
        le_slices Let_def split: if_splits)
qed (simp_all add: chunk_enc_def chunk_dec_def encode_chunk_header_def decode_chunk_header_def
    CHUNK_HEADER_SIZE_def codec_simps Let_def)

definition meta_enc :: "u64 \<times> u32 \<times> u32 \<Rightarrow> bytes" where
  "meta_enc m = (case m of (sz, chunks, idx) \<Rightarrow> encode_reply_chunk_meta sz chunks idx)"

definition meta_dec :: "bytes \<Rightarrow> decode_error + ((u64 \<times> u32 \<times> u32) \<times> usize)" where
  "meta_dec bs = map_sum id (\<lambda>(sz, chunks, idx, n). ((sz, chunks, idx), n)) (decode_reply_chunk_meta bs 0)"

interpretation rcm: fixed_codec meta_enc meta_dec "\<lambda>_. True" REPLY_CHUNK_META_SIZE
proof unfold_locales
  fix bs x n assume d: "meta_dec bs = Inr (x, n)"
  then have len: "16 \<le> length bs"
    by (auto simp: meta_dec_def decode_reply_chunk_meta_def REPLY_CHUNK_META_SIZE_def Let_def split: if_splits)
  have "take 16 bs = subslice 0 8 bs @ subslice 8 12 bs @ subslice 12 16 bs" by (simp add: slice_append slice_zero [symmetric])
  with d len show "True \<and> n = REPLY_CHUNK_META_SIZE \<and> take REPLY_CHUNK_META_SIZE bs = meta_enc x"
    by (auto simp: meta_dec_def meta_enc_def decode_reply_chunk_meta_def encode_reply_chunk_meta_def
        REPLY_CHUNK_META_SIZE_def le_slices Let_def split: if_splits)
qed (auto simp: meta_enc_def meta_dec_def encode_reply_chunk_meta_def decode_reply_chunk_meta_def
    REPLY_CHUNK_META_SIZE_def codec_simps Let_def)

section \<open>Frames\<close>

lemma encode_frame_eq:
  "encode_frame rid fl p =
     to_le_bytes 4 (word_of_nat (12 + length p) :: u32) @ to_le_bytes 8 rid @ to_le_bytes 4 fl @ p"
  by (simp add: encode_frame_def encode_frame_parts_def)

lemma encode_frame_parts_eq: "encode_frame_parts rid fl ps = encode_frame rid fl (concat ps)"
  by (simp add: encode_frame_def encode_frame_parts_def length_concat)

definition frame_len :: "bytes \<Rightarrow> nat" where
  "frame_len p = (12 + length p) mod 2 ^ 32"

lemma unat_frame_len: "unat (word_of_nat (12 + length p) :: u32) = frame_len p"
  by (simp only: frame_len_def unat_of_nat take_bit_eq_mod) simp

text \<open>What decoding an encoded frame gives, for payloads of any length.\<close>

lemma decode_encoded:
  assumes "frame_len p \<le> 12 + length p + length rest"
  shows "decode_frame (encode_frame rid fl p @ rest) =
    (if frame_len p < 12 then Inl (BufferTooShort 12 (frame_len p))
     else Inr (\<lparr>fh_total_len = word_of_nat (12 + length p), fh_request_id = rid, fh_flags = fl\<rparr>,
               take (frame_len p - 12) (p @ rest)))"
proof -
  let ?body = "to_le_bytes 8 rid @ to_le_bytes 4 fl @ p @ rest"
  have total: "decode_total_len (encode_frame rid fl p @ rest) = Inr (word_of_nat (12 + length p), ?body)"
    by (simp add: decode_total_len_def encode_frame_eq codec_simps)
  have "decode_frame (encode_frame rid fl p @ rest) =
      decode_frame_body (take (frame_len p) ?body) (word_of_nat (12 + length p))"
    using assms unfolding decode_frame_def total by (simp add: unat_frame_len [simplified] Let_def)
  moreover have "take (frame_len p) ?body = to_le_bytes 8 rid @ to_le_bytes 4 fl @ take (frame_len p - 12) (p @ rest)"
    if "\<not> frame_len p < 12" using that by (simp add: take_Cons' algebra_simps)
  moreover have "length (take (frame_len p) ?body) = frame_len p" using assms by simp
  ultimately show ?thesis by (auto simp: decode_frame_body_def codec_simps)
qed

text \<open>C17: A frame decodes back to exactly its header fields and payload, whatever bytes follow it in
  the buffer, if and only if its payload has fewer than \<open>2 ^ 32 - 12\<close> bytes: that is the largest
  payload whose length survives the cast of \<open>total_len\<close> to 32 bits.\<close>

theorem frame_roundtrip_exact:
  "(\<exists>h. decode_frame (encode_frame rid fl p @ rest) = Inr (h, p) \<and> fh_request_id h = rid \<and> fh_flags h = fl)
     \<longleftrightarrow> 12 + length p < 2 ^ 32"
proof
  assume "12 + length p < 2 ^ 32"
  then have "frame_len p = 12 + length p" by (simp add: frame_len_def)
  then show "\<exists>h. decode_frame (encode_frame rid fl p @ rest) = Inr (h, p) \<and> fh_request_id h = rid \<and> fh_flags h = fl"
    using decode_encoded [of p rest rid fl] by simp
next
  assume dec: "\<exists>h. decode_frame (encode_frame rid fl p @ rest) = Inr (h, p) \<and> fh_request_id h = rid \<and> fh_flags h = fl"
  have le: "frame_len p \<le> 12 + length p" unfolding frame_len_def by (rule mod_less_eq_dividend)
  have "\<not> frame_len p < 12 \<and> take (frame_len p - 12) (p @ rest) = p"
    using dec le decode_encoded [of p rest rid fl] by (auto split: if_splits)
  then have "\<not> frame_len p < 12" "length (take (frame_len p - 12) (p @ rest)) = length p" by simp_all
  then have "12 + length p \<le> frame_len p" by (simp add: min_def split: if_splits)
  moreover have "frame_len p < 2 ^ 32" by (simp add: frame_len_def)
  ultimately show "12 + length p < 2 ^ 32" by linarith
qed

text \<open>Decoding is sound: when a buffer decodes, it starts with the encoding of the returned
  request id, flags and payload, the header's length field is the payload length plus 12, and the
  bytes after the frame are ignored.\<close>

lemma decode_frame_sound:
  assumes "decode_frame buf = Inr (h, p)"
  shows "(\<exists>rest. buf = encode_frame (fh_request_id h) (fh_flags h) p @ rest) \<and>
    unat (fh_total_len h) = 12 + length p \<and> payload_len h = length p"
proof -
  define t :: u32 where "t = from_le_bytes (subslice 0 4 buf)"
  define body where "body = take (unat t) (drop 4 buf)"
  have len: "4 \<le> length buf" "unat t \<le> length buf - 4" "12 \<le> length body"
    and h: "fh_total_len h = t" "fh_request_id h = from_le_bytes (subslice 0 8 body)"
      "fh_flags h = from_le_bytes (subslice 8 12 body)" and p: "p = drop 12 body"
    using assms by (auto simp: decode_frame_def decode_total_len_def decode_frame_body_def Let_def t_def body_def
        split: if_splits)
  have blen: "length body = unat t" using len by (simp add: body_def)
  then have t12: "unat t = 12 + length p" using len(3) p by simp
  have "take 12 body = subslice 0 8 body @ subslice 8 12 body" by (simp add: slice_append slice_zero [symmetric])
  then have "body = subslice 0 8 body @ subslice 8 12 body @ p" unfolding p by (metis append.assoc append_take_drop_id)
  then have "body = to_le_bytes 8 (fh_request_id h) @ to_le_bytes 4 (fh_flags h) @ p"
    using len(3) by (simp add: h le_slices)
  moreover have "to_le_bytes 4 t = take 4 buf" using len(1) by (simp add: t_def le_slices) (simp add: slice_zero)
  moreover have "buf = take 4 buf @ body @ drop (unat t) (drop 4 buf)"
    unfolding body_def by (simp only: append_take_drop_id)
  moreover have "word_of_nat (12 + length p) = t" unfolding t12 [symmetric] by simp
  ultimately have "buf = encode_frame (fh_request_id h) (fh_flags h) p @ drop (unat t) (drop 4 buf)"
    unfolding encode_frame_eq by (metis append.assoc)
  moreover have "payload_len h = length p"
    using t12 h(1) by (simp add: payload_len_def word_le_nat_alt unat_sub)
  ultimately show ?thesis using t12 h(1) by blast
qed

text \<open>The buddy payload codec is exact: a buffer decodes to a descriptor if and only if the
  descriptor has a nonzero generation and a nonzero loan id and the buffer starts with its 23-byte
  encoding. Every other buffer (short, unknown kind byte, zero generation, zero loan id) is an error.\<close>

lemma buddy_payload_codec_exact:
  "decode_buddy_payload buf = Inr (bp, n) \<longleftrightarrow>
     bp_generation bp \<noteq> 0 \<and> bp_loan_id bp \<noteq> 0 \<and> n = 23 \<and> (\<exists>rest. buf = encode_buddy_payload bp @ rest)"
  using bpc.dec_iff [of buf bp n] by (simp add: buddy_payload_wf_def BUDDY_PAYLOAD_SIZE_def)

text \<open>A message type byte decodes to a type exactly when it is that type's byte.\<close>

lemma msg_type_codec_exact: "from_byte b = Some t \<longleftrightarrow> as_byte t = b"
  by (cases t) (auto simp: from_byte_def as_byte_def)

text \<open>Chunk headers and reply chunk metadata written anywhere in a buffer decode, at that
  offset, to the values written, whatever surrounds them.\<close>

lemma chunk_headers_roundtrip:
  "decode_chunk_header (pre @ encode_chunk_header i n @ rest) (length pre) = Inr (i, n, CHUNK_HEADER_SIZE) \<and>
   decode_reply_chunk_meta (pre @ encode_reply_chunk_meta sz chunks idx @ rest) (length pre) =
     Inr (sz, chunks, idx, REPLY_CHUNK_META_SIZE)"
proof -
  have "chunk_dec (chunk_enc (i, n) @ rest) = Inr ((i, n), CHUNK_HEADER_SIZE)"
    "meta_dec (meta_enc (sz, chunks, idx) @ rest) = Inr ((sz, chunks, idx), REPLY_CHUNK_META_SIZE)"
    by (simp_all add: chc.dec_enc rcm.dec_enc)
  then show ?thesis
    by (simp add: decode_chunk_header_offset [of "pre @ _"] decode_reply_chunk_meta_offset [of "pre @ _"]
        chunk_dec_def meta_dec_def chunk_enc_def meta_enc_def)
      (auto simp: map_sum_def split: sum.splits)
qed


text \<open>C18: The fixed-size codecs are exact. A buffer decodes to a buddy payload descriptor if and only if the descriptor has a
  nonzero generation and a nonzero loan id and the buffer starts with its 23-byte encoding; a byte decodes to a message
  type exactly when it is that type's byte; and chunk headers and reply chunk metadata written anywhere in a buffer
  decode, at that offset, to the values written, whatever surrounds them.\<close>

theorem fixed_codecs_exact:
  "(decode_buddy_payload buf = Inr (bp, k) \<longleftrightarrow>
      bp_generation bp \<noteq> 0 \<and> bp_loan_id bp \<noteq> 0 \<and> k = 23 \<and> (\<exists>rest. buf = encode_buddy_payload bp @ rest)) \<and>
   (from_byte b = Some t \<longleftrightarrow> as_byte t = b) \<and>
   decode_chunk_header (pre @ encode_chunk_header i n @ rest) (length pre) = Inr (i, n, CHUNK_HEADER_SIZE) \<and>
   decode_reply_chunk_meta (pre @ encode_reply_chunk_meta sz chunks idx @ rest) (length pre) =
     Inr (sz, chunks, idx, REPLY_CHUNK_META_SIZE)"
  by (intro conjI buddy_payload_codec_exact msg_type_codec_exact conjunct1 [OF chunk_headers_roundtrip] conjunct2 [OF chunk_headers_roundtrip])

end
