(* ===== verification/Text.thy ===== *)
theory Text
  imports Wire_Frame
begin

text \<open>
  Text and its validation. A Rust string is the list of its UTF-8 bytes; \<open>utf8_chars\<close> decodes them
  to scalar values exactly when they are well-formed, as \<open>core::str::from_utf8\<close> does. On top of it:
  the route and contract validators of \<open>c2-contract/src/lib.rs\<close> and the identity validators of
  \<open>c2-config/src/identity.rs\<close>. The error constructors are those that these validators raise.
\<close>

type_synonym str = bytes

section \<open>UTF-8\<close>

definition cont_byte :: "u8 \<Rightarrow> bool" where
  "cont_byte b \<longleftrightarrow> 0x80 \<le> b \<and> b \<le> 0xBF"

definition low_bits :: "nat \<Rightarrow> u8 \<Rightarrow> nat" where
  "low_bits n b = unat b mod 2 ^ n"

text \<open>Which second byte may follow a leading byte of a sequence of three or four bytes.\<close>

definition second_of_three :: "u8 \<Rightarrow> u8 \<Rightarrow> bool" where
  "second_of_three b c =
     (if b = 0xE0 then 0xA0 \<le> c \<and> c \<le> 0xBF else if b = 0xED then 0x80 \<le> c \<and> c \<le> 0x9F else cont_byte c)"

definition second_of_four :: "u8 \<Rightarrow> u8 \<Rightarrow> bool" where
  "second_of_four b c =
     (if b = 0xF0 then 0x90 \<le> c \<and> c \<le> 0xBF else if b = 0xF4 then 0x80 \<le> c \<and> c \<le> 0x8F else cont_byte c)"

fun utf8_chars :: "bytes \<Rightarrow> nat list option" where
  "utf8_chars [] = Some []"
| "utf8_chars (b # bs) =
     (if b < 0x80 then map_option ((#) (unat b)) (utf8_chars bs)
      else if 0xC2 \<le> b \<and> b \<le> 0xDF then
        (case bs of
           c # rest \<Rightarrow>
             if cont_byte c then map_option ((#) (low_bits 5 b * 64 + low_bits 6 c)) (utf8_chars rest) else None
         | [] \<Rightarrow> None)
      else if 0xE0 \<le> b \<and> b \<le> 0xEF then
        (case bs of
           c # d # rest \<Rightarrow>
             if second_of_three b c \<and> cont_byte d
             then map_option ((#) (low_bits 4 b * 4096 + low_bits 6 c * 64 + low_bits 6 d)) (utf8_chars rest)
             else None
         | _ \<Rightarrow> None)
      else if 0xF0 \<le> b \<and> b \<le> 0xF4 then
        (case bs of
           c # d # e # rest \<Rightarrow>
             if second_of_four b c \<and> cont_byte d \<and> cont_byte e
             then map_option ((#) (low_bits 3 b * 262144 + low_bits 6 c * 4096 + low_bits 6 d * 64 + low_bits 6 e)) (utf8_chars rest)
             else None
         | _ \<Rightarrow> None)
      else None)"

definition utf8_valid :: "bytes \<Rightarrow> bool" where
  "utf8_valid bs \<longleftrightarrow> utf8_chars bs \<noteq> None"

definition text_chars :: "str \<Rightarrow> nat list" where
  "text_chars v = (case utf8_chars v of Some cs \<Rightarrow> cs | None \<Rightarrow> [])"

definition is_control :: "nat \<Rightarrow> bool" where
  "is_control c \<longleftrightarrow> c < 0x20 \<or> (0x7F \<le> c \<and> c \<le> 0x9F)"

definition is_whitespace :: "nat \<Rightarrow> bool" where
  "is_whitespace c \<longleftrightarrow>
     (9 \<le> c \<and> c \<le> 13) \<or> c = 0x20 \<or> c = 0x85 \<or> c = 0xA0 \<or> c = 0x1680 \<or> (0x2000 \<le> c \<and> c \<le> 0x200A) \<or>
     c = 0x2028 \<or> c = 0x2029 \<or> c = 0x202F \<or> c = 0x205F \<or> c = 0x3000"

definition trim_chars :: "nat list \<Rightarrow> nat list" where
  "trim_chars cs = rev (dropWhile is_whitespace (rev (dropWhile is_whitespace cs)))"

definition text_string :: "str \<Rightarrow> string" where
  "text_string v = map (\<lambda>b. char_of (unat b)) v"

definition str_of :: "string \<Rightarrow> str" where
  "str_of s = map of_char s"

section \<open>Contract text\<close>

definition MAX_WIRE_TEXT_BYTES :: usize where
  "MAX_WIRE_TEXT_BYTES = 255"

definition CONTRACT_HASH_HEX_BYTES :: usize where
  "CONTRACT_HASH_HEX_BYTES = 64"

datatype contract_error =
    CE_Empty string
  | CE_TooLong string usize usize
  | CE_SurroundingWhitespace string
  | CE_ControlCharacter string
  | CE_Separator string
  | CE_InvalidHash string

definition contract_error_message :: "contract_error \<Rightarrow> string" where
  "contract_error_message e =
     (case e of
        CE_Empty field \<Rightarrow> field @ '' cannot be empty''
      | CE_TooLong field limit actual \<Rightarrow> field @ '' cannot exceed '' @ show_nat limit @ '' bytes: '' @ show_nat actual
      | CE_SurroundingWhitespace field \<Rightarrow> field @ '' cannot contain leading or trailing whitespace''
      | CE_ControlCharacter field \<Rightarrow> field @ '' cannot contain control characters''
      | CE_Separator field \<Rightarrow> field @ '' cannot contain path or tag separators''
      | CE_InvalidHash field \<Rightarrow> field @ '' must be exactly 64 lowercase hex bytes'')"

definition and_then :: "'e + 'a \<Rightarrow> ('a \<Rightarrow> 'e + 'b) \<Rightarrow> 'e + 'b" where
  "and_then r f = (case r of Inl e \<Rightarrow> Inl e | Inr x \<Rightarrow> f x)"

definition map_err :: "('e \<Rightarrow> 'f) \<Rightarrow> 'e + 'a \<Rightarrow> 'f + 'a" where
  "map_err f r = (case r of Inl e \<Rightarrow> Inl (f e) | Inr x \<Rightarrow> Inr x)"

definition validate_wire_len :: "string \<Rightarrow> str \<Rightarrow> contract_error + unit" where
  "validate_wire_len field v =
     (if length v > MAX_WIRE_TEXT_BYTES then Inl (CE_TooLong field MAX_WIRE_TEXT_BYTES (length v)) else Inr ())"

definition validate_contract_text_field :: "string \<Rightarrow> str \<Rightarrow> contract_error + unit" where
  "validate_contract_text_field field v =
     (if v = [] then Inl (CE_Empty field)
      else and_then (validate_wire_len field v) (\<lambda>_.
        if trim_chars (text_chars v) \<noteq> text_chars v then Inl (CE_SurroundingWhitespace field)
        else if list_ex is_control (text_chars v) then Inl (CE_ControlCharacter field)
        else if 0x2F \<in> set (text_chars v) \<or> 0x5C \<in> set (text_chars v) then Inl (CE_Separator field)
        else Inr ()))"

definition validate_route_text_field :: "string \<Rightarrow> str \<Rightarrow> contract_error + unit" where
  "validate_route_text_field field v =
     (if v = [] then Inl (CE_Empty field)
      else and_then (validate_wire_len field v) (\<lambda>_.
        if trim_chars (text_chars v) \<noteq> text_chars v then Inl (CE_SurroundingWhitespace field)
        else if list_ex is_control (text_chars v) then Inl (CE_ControlCharacter field)
        else if 0x5C \<in> set (text_chars v) then Inl (CE_Separator field)
        else Inr ()))"

definition validate_call_route_key :: "string \<Rightarrow> str \<Rightarrow> contract_error + unit" where
  "validate_call_route_key field v = validate_route_text_field field v"

definition validate_crm_tag :: "str \<Rightarrow> str \<Rightarrow> str \<Rightarrow> contract_error + unit" where
  "validate_crm_tag crm_ns crm_name crm_ver =
     and_then (validate_contract_text_field ''crm namespace'' crm_ns) (\<lambda>_.
     and_then (validate_contract_text_field ''crm name'' crm_name) (\<lambda>_.
     validate_contract_text_field ''crm version'' crm_ver))"

definition lower_hex_byte :: "u8 \<Rightarrow> bool" where
  "lower_hex_byte b \<longleftrightarrow> (0x30 \<le> b \<and> b \<le> 0x39) \<or> (0x61 \<le> b \<and> b \<le> 0x66)"

definition validate_contract_hash :: "string \<Rightarrow> str \<Rightarrow> contract_error + unit" where
  "validate_contract_hash field v =
     (if length v \<noteq> CONTRACT_HASH_HEX_BYTES \<or> \<not> list_all lower_hex_byte v then Inl (CE_InvalidHash field) else Inr ())"

record expected_route_contract =
  ec_route_name :: str
  ec_crm_ns :: str
  ec_crm_name :: str
  ec_crm_ver :: str
  ec_abi_hash :: str
  ec_signature_hash :: str

definition validate_expected_route_contract :: "expected_route_contract \<Rightarrow> contract_error + unit" where
  "validate_expected_route_contract c =
     and_then (validate_call_route_key ''route name'' (ec_route_name c)) (\<lambda>_.
     and_then (validate_crm_tag (ec_crm_ns c) (ec_crm_name c) (ec_crm_ver c)) (\<lambda>_.
     and_then (validate_contract_hash ''abi_hash'' (ec_abi_hash c)) (\<lambda>_.
     validate_contract_hash ''signature_hash'' (ec_signature_hash c))))"

text \<open>
  The check of route identifiers (and registration tokens) that the codecs share; the messages differ
  by a prefix.
\<close>

definition validate_route_uid :: "string \<Rightarrow> str \<Rightarrow> string + unit" where
  "validate_route_uid prefix v =
     (if v = [] then Inl (prefix @ ''must not be empty'')
      else if length v > MAX_WIRE_TEXT_BYTES
        then Inl (prefix @ ''is too long: '' @ show_nat (length v) @ '' bytes > '' @ show_nat MAX_WIRE_TEXT_BYTES)
      else if list_ex (\<lambda>b. b \<le> 0x20 \<or> b = 0x2F \<or> b = 0x5C) v then Inl (prefix @ ''contains an invalid character'')
      else Inr ())"

section \<open>Server and relay identities\<close>

definition validate_id :: "string \<Rightarrow> str \<Rightarrow> string + unit" where
  "validate_id label v =
     (if v = [] then Inl (label @ '' cannot be empty'')
      else if trim_chars (text_chars v) \<noteq> text_chars v then Inl (label @ '' cannot contain leading or trailing whitespace'')
      else if v = [0x2E] \<or> v = [0x2E, 0x2E] \<or> 0x2F \<in> set (text_chars v) \<or> 0x5C \<in> set (text_chars v)
        then Inl (label @ '' cannot contain path separators'')
      else if list_ex is_control (text_chars v) then Inl (label @ '' cannot contain control characters'')
      else Inr ())"

definition validate_server_id :: "str \<Rightarrow> string + unit" where
  "validate_server_id v = validate_id ''server_id'' v"

definition validate_relay_id :: "str \<Rightarrow> string + unit" where
  "validate_relay_id v =
     and_then (validate_id ''relay_id'' v) (\<lambda>_.
     if length v > 255 then Inl ''relay_id cannot exceed 255 bytes'' else Inr ())"

section \<open>Results\<close>

lemma and_then_simps [simp]:
  "and_then (Inl e) f = Inl e" "and_then (Inr x) f = f x"
  by (simp_all add: and_then_def)

lemma and_then_Inr: "and_then r f = Inr y \<longleftrightarrow> (\<exists>x. r = Inr x \<and> f x = Inr y)"
  by (cases r) auto

lemma if_Inl_eq_Inr: "(if b then Inl e else r) = Inr y \<longleftrightarrow> \<not> b \<and> r = Inr y"
  by simp

lemma map_err_Inr [simp]: "map_err f r = Inr y \<longleftrightarrow> r = Inr y" "Inr y = map_err f r \<longleftrightarrow> r = Inr y"
  by (cases r; auto simp: map_err_def)+

lemma validated_lengths:
  "validate_route_text_field f v = Inr u \<Longrightarrow> v \<noteq> [] \<and> length v \<le> 255"
  "validate_contract_text_field f v = Inr u \<Longrightarrow> v \<noteq> [] \<and> length v \<le> 255"
  "validate_route_uid p v = Inr u \<Longrightarrow> v \<noteq> [] \<and> length v \<le> 255"
  "validate_contract_hash f v = Inr u \<Longrightarrow> length v = 64"
  by (auto simp: validate_route_text_field_def validate_contract_text_field_def validate_route_uid_def validate_contract_hash_def
      validate_wire_len_def MAX_WIRE_TEXT_BYTES_def CONTRACT_HASH_HEX_BYTES_def and_then_Inr split: if_splits)

end
