(* ===== verification/Pool.thy ===== *)
theory Pool
  imports Buddy Budget F64 Text
begin

text \<open>
  The memory pool of \<open>c2-mem/src/pool.rs\<close>, over the buddy allocator and the memory budget.

  \<^item> The pool owns a vector of optional buddy segments and a map of dedicated segments; both kinds of slot
    have a generation counter that outlives what the slot holds.
  \<^item> The budget is shared with other owners, so its cells are a second component of the state. Dropping a
    segment or a spill file drops its reservation, which is \<open>budget_release\<close>.
  \<^item> What the operating system answers is an argument: \<open>os_env\<close> has the page size, the clock, the decision of
    the pressure engine and the outcome of each mapping the call may attempt.
  \<^item> An \<open>expect\<close> that fails is \<open>None\<close>. Error texts are constructors of \<open>pool_error\<close>.
\<close>

section \<open>Durations\<close>

text \<open>\<open>Duration::try_from_secs_f64\<close>: nanoseconds, rounded to nearest with ties to even; an error for a
  negative value and for one whose seconds exceed 64 bits.\<close>

definition try_from_secs_f64 :: "f64 \<Rightarrow> nat option" where
  "try_from_secs_f64 secs =
     (if \<not> f64_is_finite secs \<or> f64_scaled secs < 0 then None
      else
        (let n = f64_mag secs * 10 ^ 9; q = n div F64_UNIT; r = n mod F64_UNIT;
             nanos = (if 2 * r > F64_UNIT \<or> (2 * r = F64_UNIT \<and> odd q) then q + 1 else q)
         in if nanos < 2 ^ 64 * 10 ^ 9 then Some nanos else None))"

section \<open>Data\<close>

record pool_config =
  pc_segment_size :: usize
  pc_min_block_size :: usize
  pc_max_segments :: usize
  pc_max_dedicated_segments :: usize
  pc_buddy_idle_decay_secs :: f64
  pc_spill_threshold :: f64
  pc_buddy_enabled :: bool
  pc_min_retained_segments :: usize

datatype pool_error =
    PrefixTooLong nat
  | BadMinBlock nat
  | MinBlockOverflow nat
  | SegmentTooSmall nat nat
  | GeometryUnsupported nat nat
  | MaxSegmentsRange
  | RetainedExceedsMax nat nat
  | MaxDedicatedRange
  | DecayNotFinite
  | DecayNotRepresentable
  | PeerCannotAllocate
  | PeerCannotFree
  | PeerCannotCreate
  | PeerNeverOwns
  | ZeroBytes
  | BuddyDisabled
  | RetentionDisabled
  | TooManySegments nat nat
  | StaleGeneration
  | InvalidDedicatedIndex
  | InvalidSegmentIndex
  | IncarnationMismatch
  | NoShmCapacity nat
  | SegmentsExhausted
  | DedicatedExhausted
  | DedicatedTooLarge nat
  | MappingFailed str
  | SpillFailed str
  | CannotGrow nat nat
  | BudgetText budget_error
  | PressureText str

datatype backing_error = BE_Budget budget_error | BE_Pressure str | BE_Other pool_error

definition into_message :: "backing_error \<Rightarrow> pool_error" where
  "into_message e = (case e of BE_Budget b \<Rightarrow> BudgetText b | BE_Pressure m \<Rightarrow> PressureText m | BE_Other m \<Rightarrow> m)"

record pool_allocation =
  pa_seg_idx :: u32
  pa_generation :: u32
  pa_offset :: u32
  pa_actual_size :: u32
  pa_level :: u16
  pa_is_dedicated :: bool

record tier_counters =
  tc_buddy_reused_allocs :: u64
  tc_buddy_expanded_allocs :: u64
  tc_dedicated_allocs :: u64
  tc_file_spill_allocs :: u64

text \<open>The region of an owner's segment is its base address and its mapped size.\<close>

record buddy_segment =
  sg_base :: u64
  sg_size :: usize
  sg_allocator :: buddy_allocator
  sg_budget_guard :: "budget_reservation option"

record dedicated_entry =
  dn_base :: u64
  dn_size :: usize
  dn_budget_guard :: "budget_reservation option"
  dn_generation :: u32

record mem_pool =
  mp_config :: pool_config
  mp_segments :: "buddy_segment option list"
  mp_generations :: "u32 list"
  mp_is_peer :: bool
  mp_dedicated :: "u32 \<rightharpoonup> dedicated_entry"
  mp_name_prefix :: str
  mp_incarnation :: u64
  mp_dedicated_generations :: "u32 list"
  mp_idle_since :: "nat option list"
  mp_retain_idle_backing :: bool
  mp_has_budget :: bool
  mp_counters :: tier_counters

datatype handle_backing =
    ShmBacking pool_allocation u64 usize
  | FileSpill "budget_reservation option" str usize

text \<open>What the operating system answers during one call.\<close>

record os_env =
  os_now :: nat
  os_page_size :: "usize option"
  os_buddy_pressure :: "str option"
  os_buddy_region :: "str + u64"
  os_dedicated_pressure :: "str option"
  os_dedicated_region :: "str + u64"
  os_spill_file :: "str + str"

section \<open>Handles\<close>

definition into_handle :: "pool_allocation \<Rightarrow> usize \<Rightarrow> u64 \<Rightarrow> handle_backing" where
  "into_handle a n owner = ShmBacking a owner n"

fun handle_len :: "handle_backing \<Rightarrow> usize" where
  "handle_len (ShmBacking _ _ n) = n"
| "handle_len (FileSpill _ _ n) = n"

fun with_len :: "handle_backing \<Rightarrow> usize \<Rightarrow> handle_backing" where
  "with_len (ShmBacking a owner _) n = ShmBacking a owner n"
| "with_len (FileSpill g path _) n = FileSpill g path n"

definition trim_to :: "handle_backing \<Rightarrow> usize \<Rightarrow> (pool_error + unit) \<times> handle_backing" where
  "trim_to h new_len =
     (if new_len > handle_len h then (Inl (CannotGrow new_len (handle_len h)), h)
      else (Inr (), with_len h new_len))"

fun shm_allocation :: "handle_backing \<Rightarrow> pool_allocation option" where
  "shm_allocation (ShmBacking a _ _) = Some a"
| "shm_allocation (FileSpill _ _ _) = None"

section \<open>Construction\<close>

definition validate_duration_secs :: "f64 \<Rightarrow> pool_error + unit" where
  "validate_duration_secs secs =
     (if \<not> f64_is_finite secs then Inl DecayNotFinite
      else if f64_lt secs 0 then Inr ()
      else case try_from_secs_f64 secs of Some _ \<Rightarrow> Inr () | None \<Rightarrow> Inl DecayNotRepresentable)"

definition validate_config :: "pool_config \<Rightarrow> pool_error + unit" where
  "validate_config c =
     (let mb = pc_min_block_size c; ss = pc_segment_size c
      in if mb = 0 \<or> \<not> is_power_of_two mb then Inl (BadMinBlock mb)
         else if mb * 2 > usize_max then Inl (MinBlockOverflow mb)
         else if ss < mb * 2 then Inl (SegmentTooSmall ss mb)
         else if checked_layout ss mb = None then Inl (GeometryUnsupported ss mb)
         else if pc_max_segments c > 65535 + 1 then Inl MaxSegmentsRange
         else if pc_min_retained_segments c > pc_max_segments c
           then Inl (RetainedExceedsMax (pc_min_retained_segments c) (pc_max_segments c))
         else if pc_max_dedicated_segments c > 65535 + 1 then Inl MaxDedicatedRange
         else validate_duration_secs (pc_buddy_idle_decay_secs c))"

definition MAX_SHM_PREFIX_LEN :: usize where "MAX_SHM_PREFIX_LEN = 255"

definition with_identity :: "pool_config \<Rightarrow> str \<Rightarrow> bool \<Rightarrow> bool \<Rightarrow> u64 \<Rightarrow> pool_error + mem_pool" where
  "with_identity config name_prefix is_peer has_budget incarnation =
     (if length name_prefix > MAX_SHM_PREFIX_LEN then Inl (PrefixTooLong (length name_prefix))
      else and_then (validate_config config) (\<lambda>_. Inr
        \<lparr>mp_config = config, mp_segments = [], mp_generations = [], mp_is_peer = is_peer,
         mp_dedicated = Map.empty, mp_name_prefix = name_prefix, mp_incarnation = incarnation,
         mp_dedicated_generations = [], mp_idle_since = [], mp_retain_idle_backing = True,
         mp_has_budget = has_budget,
         mp_counters = \<lparr>tc_buddy_reused_allocs = 0, tc_buddy_expanded_allocs = 0,
                        tc_dedicated_allocs = 0, tc_file_spill_allocs = 0\<rparr>\<rparr>))"

text \<open>\<open>PoolIncarnation::new\<close> takes the next value of a process-wide counter.\<close>

definition incarnation_new :: "u64 \<Rightarrow> (u64 \<times> u64) run" where
  "incarnation_new counter = do { counter' \<leftarrow> checked_add counter 1; Some (counter, counter') }"

text \<open>The name of an owned pool is the prefix, an underscore, the process id in eight hexadecimal digits and the
  text of a fresh UUID; \<open>uuid\<close> is the text the UUID library returns.\<close>

definition hex_digit :: "u32 \<Rightarrow> u8" where
  "hex_digit d = (if d < 10 then 0x30 + ucast d else 0x57 + ucast d)"

definition pid_hex :: "u32 \<Rightarrow> str" where
  "pid_hex pid = map (\<lambda>i. hex_digit (drop_bit (4 * i) pid AND 15)) [7, 6, 5, 4, 3, 2, 1, 0]"

definition new_with_prefix_and_budget :: "pool_config \<Rightarrow> str \<Rightarrow> u32 \<Rightarrow> str \<Rightarrow> u64 \<Rightarrow> pool_error + mem_pool" where
  "new_with_prefix_and_budget config name_prefix pid uuid incarnation =
     with_identity config (name_prefix @ [0x5F] @ pid_hex pid @ uuid) False True incarnation"

definition open_peer :: "pool_config \<Rightarrow> str \<Rightarrow> u64 \<Rightarrow> pool_error + mem_pool" where
  "open_peer config name_prefix incarnation = with_identity config name_prefix True False incarnation"

section \<open>Observers\<close>

definition segment :: "mem_pool \<Rightarrow> nat \<Rightarrow> buddy_segment option" where
  "segment p idx = (if idx < length (mp_segments p) then mp_segments p ! idx else None)"

definition segment_count :: "mem_pool \<Rightarrow> nat" where
  "segment_count p = length (filter (\<lambda>s. s \<noteq> None) (mp_segments p))"

definition segment_generation :: "mem_pool \<Rightarrow> nat \<Rightarrow> u32 option" where
  "segment_generation p idx =
     do {
       _ \<leftarrow> segment p idx;
       if idx < length (mp_generations p) then Some (mp_generations p ! idx) else None
     }"

definition validate_generation :: "mem_pool \<Rightarrow> u32 \<Rightarrow> u32 \<Rightarrow> bool \<Rightarrow> pool_error + unit" where
  "validate_generation p seg_idx generation dedicated =
     (let current = (if dedicated then map_option dn_generation (mp_dedicated p seg_idx)
                     else segment_generation p (unat seg_idx))
      in if unat seg_idx > 65535 \<or> generation = 0 \<or> current \<noteq> Some generation then Inl StaleGeneration
         else Inr ())"

definition pool_data_ptr :: "mem_pool \<Rightarrow> pool_allocation \<Rightarrow> pool_error + u64" where
  "pool_data_ptr p a =
     and_then (validate_generation p (pa_seg_idx a) (pa_generation a) (pa_is_dedicated a)) (\<lambda>_.
       if pa_is_dedicated a then
         (case mp_dedicated p (pa_seg_idx a) of
            None \<Rightarrow> Inl InvalidDedicatedIndex
          | Some entry \<Rightarrow> Inr (dn_base entry))
       else
         (case segment p (unat (pa_seg_idx a)) of
            None \<Rightarrow> Inl InvalidSegmentIndex
          | Some seg \<Rightarrow> Inr (sg_base seg + ucast (pa_offset a))))"

definition validate_handle_owner :: "mem_pool \<Rightarrow> handle_backing \<Rightarrow> pool_error + unit" where
  "validate_handle_owner p h =
     (case h of
        ShmBacking _ owner _ \<Rightarrow>
          (if mp_is_peer p then Inl PeerNeverOwns
           else if owner \<noteq> mp_incarnation p then Inl IncarnationMismatch
           else Inr ())
      | FileSpill _ _ _ \<Rightarrow> Inr ())"

definition validate_handle :: "mem_pool \<Rightarrow> handle_backing \<Rightarrow> pool_error + unit" where
  "validate_handle p h =
     and_then (validate_handle_owner p h) (\<lambda>_.
       case h of
         ShmBacking a _ _ \<Rightarrow> and_then (pool_data_ptr p a) (\<lambda>_. Inr ())
       | FileSpill _ _ _ \<Rightarrow> Inr ())"

text \<open>The bytes a handle exposes: the address and length of the slice, or the prefix of its own file.\<close>

definition checked_handle_slice :: "mem_pool \<Rightarrow> handle_backing \<Rightarrow> pool_error + (u64 option \<times> usize)" where
  "checked_handle_slice p h =
     and_then (validate_handle_owner p h) (\<lambda>_.
       case h of
         ShmBacking a _ n \<Rightarrow> and_then (pool_data_ptr p a) (\<lambda>pointer. Inr (Some pointer, n))
       | FileSpill _ _ n \<Rightarrow> Inr (None, n))"

section \<open>Backings\<close>

definition reserve_backing :: "mem_pool \<Rightarrow> budget_cells \<Rightarrow> budget_kind \<Rightarrow> u64 \<Rightarrow>
    ((budget_error + budget_reservation) \<times> budget_cells) run" where
  "reserve_backing p cs kind bytes = do { ensure (mp_has_budget p); Some (budget_reserve cs kind bytes) }"

definition drop_reservation :: "budget_reservation option \<Rightarrow> budget_cells \<Rightarrow> budget_cells run" where
  "drop_reservation g cs = (case g of None \<Rightarrow> Some cs | Some r \<Rightarrow> budget_release cs r)"

definition buddy_segment_create :: "str + u64 \<Rightarrow> usize \<Rightarrow> usize \<Rightarrow> (pool_error + buddy_segment) run" where
  "buddy_segment_create region sz min_block =
     (case checked_layout sz min_block of
        None \<Rightarrow> Some (Inl (GeometryUnsupported sz min_block))
      | Some layout \<Rightarrow>
          (case region of
             Inl e \<Rightarrow> Some (Inl (MappingFailed e))
           | Inr base \<Rightarrow>
               do {
                 allocator \<leftarrow> buddy_init base layout min_block;
                 Some (Inr \<lparr>sg_base = base, sg_size = bl_total_size layout, sg_allocator = allocator,
                            sg_budget_guard = None\<rparr>)
               }))"

definition round_payload_to_page :: "usize \<Rightarrow> usize \<Rightarrow> usize option" where
  "round_payload_to_page data_size page_size =
     (if data_size = 0 then None
      else
        (let remainder = data_size mod page_size;
             padded = (if remainder = 0 then Some data_size
                       else if data_size + (page_size - remainder) > usize_max then None
                       else Some (data_size + (page_size - remainder)))
         in case padded of
              None \<Rightarrow> None
            | Some n \<Rightarrow> if n \<le> isize_max then Some n else None))"

text \<open>\<open>native_page_size\<close> drops a zero answer of the system.\<close>

definition required_shm_size :: "os_env \<Rightarrow> usize \<Rightarrow> usize option" where
  "required_shm_size env data_size =
     (case os_page_size env of
        None \<Rightarrow> None
      | Some page \<Rightarrow> if page > 0 then round_payload_to_page data_size page else None)"

definition vec_resize :: "'a list \<Rightarrow> nat \<Rightarrow> 'a \<Rightarrow> 'a list" where
  "vec_resize xs n v = take n xs @ replicate (n - length xs) v"

text \<open>The first slot that is empty and whose generation can still advance.\<close>

definition slot_generation :: "u32 list \<Rightarrow> nat \<Rightarrow> u32" where
  "slot_generation gens idx = (if idx < length gens then gens ! idx else 0)"

fun find_slot :: "(nat \<Rightarrow> bool) \<Rightarrow> u32 list \<Rightarrow> nat list \<Rightarrow> (nat \<times> u32) option" where
  "find_slot taken gens [] = None"
| "find_slot taken gens (idx # rest) =
     (if taken idx then find_slot taken gens rest
      else case checked_add (slot_generation gens idx) 1 of
             Some generation \<Rightarrow> Some (idx, generation)
           | None \<Rightarrow> find_slot taken gens rest)"

definition create_segment :: "os_env \<Rightarrow> mem_pool \<Rightarrow> budget_cells \<Rightarrow>
    ((backing_error + (nat \<times> buddy_segment)) \<times> mem_pool \<times> budget_cells) run" where
  "create_segment env p cs =
     (let config = mp_config p
      in case find_slot (\<lambda>idx. segment p idx \<noteq> None) (mp_generations p) [0..<pc_max_segments config] of
           None \<Rightarrow> Some (Inl (BE_Other SegmentsExhausted), p, cs)
         | Some (idx, generation) \<Rightarrow>
             do {
               layout \<leftarrow> checked_layout (pc_segment_size config) (pc_min_block_size config);
               case os_buddy_pressure env of
                 Some reason \<Rightarrow> Some (Inl (BE_Pressure reason), p, cs)
               | None \<Rightarrow>
                   do {
                     (attempt, cs1) \<leftarrow> reserve_backing p cs Shm (word_of_nat (bl_total_size layout));
                     case attempt of
                       Inl e \<Rightarrow> Some (Inl (BE_Budget e), p, cs1)
                     | Inr guard \<Rightarrow>
                         do {
                           created \<leftarrow> buddy_segment_create (os_buddy_region env) (pc_segment_size config)
                                        (pc_min_block_size config);
                           case created of
                             Inl e \<Rightarrow> do { cs2 \<leftarrow> budget_release cs1 guard; Some (Inl (BE_Other e), p, cs2) }
                           | Inr seg \<Rightarrow>
                               do {
                                 let gens = mp_generations p;
                                 gens' \<leftarrow> upd_run (if length gens \<le> idx then vec_resize gens (idx + 1) 0 else gens)
                                           idx generation;
                                 Some (Inr (idx, seg\<lparr>sg_budget_guard := Some guard\<rparr>),
                                       p\<lparr>mp_generations := gens'\<rparr>, cs1)
                               }
                         }
                   }
             })"

definition install_segment :: "mem_pool \<Rightarrow> nat \<Rightarrow> buddy_segment \<Rightarrow> mem_pool run" where
  "install_segment p idx seg =
     (let p1 = (if length (mp_segments p) \<le> idx then
                  p\<lparr>mp_segments := vec_resize (mp_segments p) (idx + 1) None,
                    mp_idle_since := vec_resize (mp_idle_since p) (idx + 1) None\<rparr>
                else p)
      in do {
           segs \<leftarrow> upd_run (mp_segments p1) idx (Some seg);
           idle \<leftarrow> upd_run (mp_idle_since p1) idx None;
           Some (p1\<lparr>mp_segments := segs, mp_idle_since := idle\<rparr>)
         })"

section \<open>Allocation\<close>

definition buddy_block_limit :: "mem_pool \<Rightarrow> usize run" where
  "buddy_block_limit p =
     (let config = mp_config p
      in if \<not> pc_buddy_enabled config \<or> pc_max_segments config = 0 then Some 0
         else do {
           layout \<leftarrow> checked_layout (pc_segment_size config) (pc_min_block_size config);
           Some (bl_data_size layout)
         })"

definition buddy_allocation :: "nat \<Rightarrow> u32 \<Rightarrow> allocation \<Rightarrow> pool_allocation" where
  "buddy_allocation idx generation a =
     \<lparr>pa_seg_idx = word_of_nat idx, pa_generation = generation, pa_offset = al_offset a,
      pa_actual_size = al_actual_size a, pa_level = al_level a, pa_is_dedicated = False\<rparr>"

text \<open>The loop of \<open>try_buddy_reuse\<close> over the segments from index \<open>idx\<close> on.\<close>

fun try_buddy_reuse_from :: "buddy_segment option list \<Rightarrow> nat \<Rightarrow> usize \<Rightarrow> mem_pool \<Rightarrow>
    (pool_allocation option \<times> mem_pool) run" where
  "try_buddy_reuse_from [] idx sz p = Some (None, p)"
| "try_buddy_reuse_from (None # rest) idx sz p = try_buddy_reuse_from rest (idx + 1) sz p"
| "try_buddy_reuse_from (Some seg # rest) idx sz p =
     do {
       (r, allocator) \<leftarrow> buddy_alloc (sg_allocator seg) sz;
       let p1 = p\<lparr>mp_segments := (mp_segments p)[idx := Some (seg\<lparr>sg_allocator := allocator\<rparr>)]\<rparr>;
       case r of
         None \<Rightarrow> try_buddy_reuse_from rest (idx + 1) sz p1
       | Some a \<Rightarrow>
           do {
             generation \<leftarrow> nth_run (mp_generations p1) idx;
             Some (Some (buddy_allocation idx generation a),
                   p1\<lparr>mp_idle_since := (mp_idle_since p1)[idx := None],
                      mp_counters := (mp_counters p1)\<lparr>tc_buddy_reused_allocs :=
                        saturating_add (tc_buddy_reused_allocs (mp_counters p1)) 1\<rparr>\<rparr>)
           }
     }"

definition try_buddy_reuse :: "usize \<Rightarrow> mem_pool \<Rightarrow> (pool_allocation option \<times> mem_pool) run" where
  "try_buddy_reuse sz p = try_buddy_reuse_from (mp_segments p) 0 sz p"

definition expand_buddy :: "os_env \<Rightarrow> usize \<Rightarrow> mem_pool \<Rightarrow> budget_cells \<Rightarrow>
    (pool_allocation option \<times> mem_pool \<times> budget_cells) run" where
  "expand_buddy env sz p cs =
     do {
       (created, p1, cs1) \<leftarrow> create_segment env p cs;
       case created of
         Inl _ \<Rightarrow> Some (None, p1, cs1)
       | Inr (idx, seg) \<Rightarrow>
           do {
             (r, allocator) \<leftarrow> buddy_alloc (sg_allocator seg) sz;
             a \<leftarrow> r;
             p2 \<leftarrow> install_segment p1 idx (seg\<lparr>sg_allocator := allocator\<rparr>);
             generation \<leftarrow> nth_run (mp_generations p2) idx;
             Some (Some (buddy_allocation idx generation a),
                   p2\<lparr>mp_counters := (mp_counters p2)\<lparr>tc_buddy_expanded_allocs :=
                     saturating_add (tc_buddy_expanded_allocs (mp_counters p2)) 1\<rparr>\<rparr>, cs1)
           }
     }"

definition alloc_dedicated :: "os_env \<Rightarrow> usize \<Rightarrow> mem_pool \<Rightarrow> budget_cells \<Rightarrow>
    ((backing_error + pool_allocation) \<times> mem_pool \<times> budget_cells) run" where
  "alloc_dedicated env sz p cs =
     (case find_slot (\<lambda>idx. mp_dedicated p (word_of_nat idx) \<noteq> None) (mp_dedicated_generations p)
             [0..<pc_max_dedicated_segments (mp_config p)] of
        None \<Rightarrow> Some (Inl (BE_Other DedicatedExhausted), p, cs)
      | Some (idx, generation) \<Rightarrow>
          (case (case required_shm_size env sz of
                   None \<Rightarrow> None
                 | Some n \<Rightarrow> if n \<le> u32_max then Some n else None) of
             None \<Rightarrow> Some (Inl (BE_Other (DedicatedTooLarge sz)), p, cs)
           | Some backing \<Rightarrow>
               (case os_dedicated_pressure env of
                  Some reason \<Rightarrow> Some (Inl (BE_Pressure reason), p, cs)
                | None \<Rightarrow>
                    do {
                      (attempt, cs1) \<leftarrow> reserve_backing p cs Shm (word_of_nat backing);
                      case attempt of
                        Inl e \<Rightarrow> Some (Inl (BE_Budget e), p, cs1)
                      | Inr guard \<Rightarrow>
                          (case os_dedicated_region env of
                             Inl e \<Rightarrow>
                               do { cs2 \<leftarrow> budget_release cs1 guard;
                                    Some (Inl (BE_Other (MappingFailed e)), p, cs2) }
                           | Inr base \<Rightarrow>
                               do {
                                 let gens = mp_dedicated_generations p;
                                 gens' \<leftarrow> upd_run (vec_resize gens (max (length gens) (idx + 1)) 0) idx generation;
                                 Some (Inr \<lparr>pa_seg_idx = word_of_nat idx, pa_generation = generation, pa_offset = 0,
                                            pa_actual_size = word_of_nat backing, pa_level = 0,
                                            pa_is_dedicated = True\<rparr>,
                                       p\<lparr>mp_dedicated_generations := gens',
                                         mp_dedicated := (mp_dedicated p)(word_of_nat idx \<mapsto>
                                           \<lparr>dn_base = base, dn_size = backing, dn_budget_guard = Some guard,
                                            dn_generation = generation\<rparr>),
                                         mp_counters := (mp_counters p)\<lparr>tc_dedicated_allocs :=
                                           saturating_add (tc_dedicated_allocs (mp_counters p)) 1\<rparr>\<rparr>, cs1)
                               })
                    })))"

section \<open>Reclamation\<close>

definition idle_delay :: "pool_config \<Rightarrow> nat run" where
  "idle_delay config =
     (if f64_lt (pc_buddy_idle_decay_secs config) 0 then Some 0
      else try_from_secs_f64 (pc_buddy_idle_decay_secs config))"

text \<open>\<open>segments[index].take()\<close>: the segment is unmapped and its reservation returned.\<close>

definition take_segment :: "nat \<Rightarrow> buddy_segment \<Rightarrow> mem_pool \<Rightarrow> budget_cells \<Rightarrow> (mem_pool \<times> budget_cells) run" where
  "take_segment idx seg p cs =
     do {
       cs' \<leftarrow> drop_reservation (sg_budget_guard seg) cs;
       idle \<leftarrow> upd_run (mp_idle_since p) idx None;
       Some (p\<lparr>mp_segments := (mp_segments p)[idx := None], mp_idle_since := idle\<rparr>, cs')
     }"

text \<open>The loop of \<open>gc_buddy\<close>; its indices are the slots in descending order.\<close>

fun gc_loop :: "nat \<Rightarrow> nat \<Rightarrow> nat list \<Rightarrow> nat \<Rightarrow> nat \<Rightarrow> mem_pool \<Rightarrow> budget_cells \<Rightarrow> (nat \<times> mem_pool \<times> budget_cells) run" where
  "gc_loop now delay [] live removed p cs = Some (removed, p, cs)"
| "gc_loop now delay (index # rest) live removed p cs =
     (if live \<le> pc_min_retained_segments (mp_config p) then Some (removed, p, cs)
      else do {
        slot \<leftarrow> nth_run (mp_segments p) index;
        case slot of
          None \<Rightarrow> gc_loop now delay rest live removed p cs
        | Some seg \<Rightarrow>
            (if alloc_count (sg_allocator seg) \<noteq> 0 then Some (removed, p, cs)
             else do {
               since \<leftarrow> nth_run (mp_idle_since p) index;
               let idle_at = (case since of None \<Rightarrow> now | Some t \<Rightarrow> t);
               let p1 = p\<lparr>mp_idle_since := (mp_idle_since p)[index := Some idle_at]\<rparr>;
               if now - idle_at < delay then Some (removed, p1, cs)
               else do {
                 (p2, cs2) \<leftarrow> take_segment index seg p1 cs;
                 gc_loop now delay rest (live - 1) (removed + 1) p2 cs2
               }
             })
      })"

definition gc_buddy :: "nat \<Rightarrow> mem_pool \<Rightarrow> budget_cells \<Rightarrow> (nat \<times> mem_pool \<times> budget_cells) run" where
  "gc_buddy now p cs =
     do {
       delay \<leftarrow> idle_delay (mp_config p);
       gc_loop now delay (rev [0..<length (mp_segments p)]) (segment_count p) 0 p cs
     }"

fun retire_idle :: "nat list \<Rightarrow> mem_pool \<Rightarrow> budget_cells \<Rightarrow> (mem_pool \<times> budget_cells) run" where
  "retire_idle [] p cs = Some (p, cs)"
| "retire_idle (index # rest) p cs =
     do {
       slot \<leftarrow> nth_run (mp_segments p) index;
       (p', cs') \<leftarrow> (case slot of
           None \<Rightarrow> Some (p, cs)
         | Some seg \<Rightarrow> if alloc_count (sg_allocator seg) = 0 then take_segment index seg p cs else Some (p, cs));
       retire_idle rest p' cs'
     }"

definition set_idle_backing_retention :: "bool \<Rightarrow> mem_pool \<Rightarrow> budget_cells \<Rightarrow> (mem_pool \<times> budget_cells) run" where
  "set_idle_backing_retention retain p cs =
     (let p1 = p\<lparr>mp_retain_idle_backing := retain\<rparr>
      in if \<not> retain then retire_idle [0..<length (mp_segments p1)] p1 cs else Some (p1, cs))"

section \<open>The allocation interface\<close>

definition alloc_shm :: "os_env \<Rightarrow> usize \<Rightarrow> mem_pool \<Rightarrow> budget_cells \<Rightarrow>
    ((backing_error + pool_allocation) \<times> mem_pool \<times> budget_cells) run" where
  "alloc_shm env sz p cs =
     do {
       max_buddy \<leftarrow> buddy_block_limit p;
       if max_buddy > 0 \<and> sz \<le> max_buddy then
         do {
           (reused, p1) \<leftarrow> try_buddy_reuse sz p;
           case reused of
             Some a \<Rightarrow> Some (Inr a, p1, cs)
           | None \<Rightarrow>
               do {
                 (_, p2, cs2) \<leftarrow> gc_buddy (os_now env) p1 cs;
                 (expanded, p3, cs3) \<leftarrow> expand_buddy env sz p2 cs2;
                 case expanded of
                   Some a \<Rightarrow> Some (Inr a, p3, cs3)
                 | None \<Rightarrow> alloc_dedicated env sz p3 cs3
               }
         }
       else alloc_dedicated env sz p cs
     }"

definition pool_alloc :: "os_env \<Rightarrow> usize \<Rightarrow> mem_pool \<Rightarrow> budget_cells \<Rightarrow>
    ((pool_error + pool_allocation) \<times> mem_pool \<times> budget_cells) run" where
  "pool_alloc env sz p cs =
     (if mp_is_peer p then Some (Inl PeerCannotAllocate, p, cs)
      else if sz = 0 then Some (Inl ZeroBytes, p, cs)
      else do {
        (r, p', cs') \<leftarrow> alloc_shm env sz p cs;
        Some (map_err into_message r, p', cs')
      })"

definition alloc_shm_handle :: "os_env \<Rightarrow> usize \<Rightarrow> mem_pool \<Rightarrow> budget_cells \<Rightarrow>
    ((pool_error + handle_backing) \<times> mem_pool \<times> budget_cells) run" where
  "alloc_shm_handle env sz p cs =
     do {
       (r, p', cs') \<leftarrow> pool_alloc env sz p cs;
       Some (map_sum id (\<lambda>a. into_handle a sz (mp_incarnation p')) r, p', cs')
     }"

definition try_alloc_shm :: "os_env \<Rightarrow> usize \<Rightarrow> mem_pool \<Rightarrow> budget_cells \<Rightarrow>
    ((pool_error + handle_backing) \<times> mem_pool \<times> budget_cells) run" where
  "try_alloc_shm env sz p cs =
     (if mp_is_peer p then Some (Inl PeerCannotAllocate, p, cs)
      else if sz = 0 then Some (Inl ZeroBytes, p, cs)
      else do {
        (r, p', cs') \<leftarrow> alloc_shm env sz p cs;
        Some (map_sum (\<lambda>_. NoShmCapacity sz) (\<lambda>a. into_handle a sz (mp_incarnation p')) r, p', cs')
      })"

text \<open>A \<open>usize\<close> always fits \<open>u64\<close> on the platform modelled, so the conversion cannot fail.\<close>

definition alloc_file_spill :: "os_env \<Rightarrow> usize \<Rightarrow> mem_pool \<Rightarrow> budget_cells \<Rightarrow>
    ((backing_error + handle_backing) \<times> mem_pool \<times> budget_cells) run" where
  "alloc_file_spill env sz p cs =
     do {
       (attempt, cs1) \<leftarrow> reserve_backing p cs File (word_of_nat sz);
       case attempt of
         Inl e \<Rightarrow> Some (Inl (BE_Budget e), p, cs1)
       | Inr guard \<Rightarrow>
           (case os_spill_file env of
              Inl e \<Rightarrow> do { cs2 \<leftarrow> budget_release cs1 guard; Some (Inl (BE_Other (SpillFailed e)), p, cs2) }
            | Inr path \<Rightarrow>
                Some (Inr (FileSpill (Some guard) path sz),
                      p\<lparr>mp_counters := (mp_counters p)\<lparr>tc_file_spill_allocs :=
                        saturating_add (tc_file_spill_allocs (mp_counters p)) 1\<rparr>\<rparr>, cs1))
     }"

definition alloc_handle :: "os_env \<Rightarrow> usize \<Rightarrow> mem_pool \<Rightarrow> budget_cells \<Rightarrow>
    ((pool_error + handle_backing) \<times> mem_pool \<times> budget_cells) run" where
  "alloc_handle env sz p cs =
     (if mp_is_peer p then Some (Inl PeerCannotAllocate, p, cs)
      else if sz = 0 then Some (Inl ZeroBytes, p, cs)
      else do {
        (r, p', cs') \<leftarrow> alloc_shm env sz p cs;
        case r of
          Inr a \<Rightarrow> Some (Inr (into_handle a sz (mp_incarnation p')), p', cs')
        | Inl _ \<Rightarrow>
            do {
              (spilled, p'', cs'') \<leftarrow> alloc_file_spill env sz p' cs';
              Some (map_err into_message spilled, p'', cs'')
            }
      })"

section \<open>Release\<close>

definition free_buddy :: "nat \<Rightarrow> pool_allocation \<Rightarrow> mem_pool \<Rightarrow> budget_cells \<Rightarrow> (mem_pool \<times> budget_cells) run" where
  "free_buddy now a p cs =
     (let idx = unat (pa_seg_idx a)
      in do {
           seg \<leftarrow> segment p idx;
           allocator \<leftarrow> buddy_free (sg_allocator seg) (pa_offset a) (pa_level a);
           let seg' = seg\<lparr>sg_allocator := allocator\<rparr>;
           let p1 = p\<lparr>mp_segments := (mp_segments p)[idx := Some seg']\<rparr>;
           if alloc_count allocator = 0 then
             (if mp_retain_idle_backing p1 then
                do { idle \<leftarrow> upd_run (mp_idle_since p1) idx (Some now); Some (p1\<lparr>mp_idle_since := idle\<rparr>, cs) }
              else take_segment idx seg' p1 cs)
           else Some (p1, cs)
         })"

definition pool_free :: "nat \<Rightarrow> pool_allocation \<Rightarrow> mem_pool \<Rightarrow> budget_cells \<Rightarrow>
    ((pool_error + unit) \<times> mem_pool \<times> budget_cells) run" where
  "pool_free now a p cs =
     (if mp_is_peer p then Some (Inl PeerCannotFree, p, cs)
      else case validate_generation p (pa_seg_idx a) (pa_generation a) (pa_is_dedicated a) of
        Inl e \<Rightarrow> Some (Inl e, p, cs)
      | Inr _ \<Rightarrow>
          if pa_is_dedicated a then
            do {
              cs' \<leftarrow> (case mp_dedicated p (pa_seg_idx a) of
                        None \<Rightarrow> Some cs
                      | Some entry \<Rightarrow> drop_reservation (dn_budget_guard entry) cs);
              Some (Inr (), p\<lparr>mp_dedicated := (mp_dedicated p)(pa_seg_idx a := None)\<rparr>, cs')
            }
          else do { (p', cs') \<leftarrow> free_buddy now a p cs; Some (Inr (), p', cs') })"

definition free_at :: "nat \<Rightarrow> u32 \<Rightarrow> u32 \<Rightarrow> u32 \<Rightarrow> u16 \<Rightarrow> bool \<Rightarrow> mem_pool \<Rightarrow> budget_cells \<Rightarrow>
    ((pool_error + unit) \<times> mem_pool \<times> budget_cells) run" where
  "free_at now seg_idx generation offset level is_dedicated p cs =
     pool_free now \<lparr>pa_seg_idx = seg_idx, pa_generation = generation, pa_offset = offset,
       pa_actual_size = 0, pa_level = level, pa_is_dedicated = is_dedicated\<rparr> p cs"

definition release_handle :: "nat \<Rightarrow> handle_backing \<Rightarrow> mem_pool \<Rightarrow> budget_cells \<Rightarrow> (mem_pool \<times> budget_cells) run" where
  "release_handle now h p cs =
     (case validate_handle_owner p h of
        Inl _ \<Rightarrow> None
      | Inr _ \<Rightarrow>
          (case h of
             ShmBacking a _ _ \<Rightarrow>
               do {
                 (r, p', cs') \<leftarrow> pool_free now a p cs;
                 case r of Inl _ \<Rightarrow> None | Inr _ \<Rightarrow> Some (p', cs')
               }
           | FileSpill guard _ _ \<Rightarrow> do { cs' \<leftarrow> drop_reservation guard cs; Some (p, cs') }))"

section \<open>Prewarming\<close>

text \<open>The \<open>while\<close> loop of \<open>ensure_buddy_segments\<close>: its recursion is the loop itself, with no bound, so
  that not ending is a possible value. \<open>envs\<close> are the answers of the system to the successive creations.\<close>

partial_function (option) ensure_loop :: "(nat \<Rightarrow> os_env) \<Rightarrow> nat \<Rightarrow> mem_pool \<Rightarrow> budget_cells \<Rightarrow>
    ((pool_error + unit) \<times> mem_pool \<times> budget_cells) run" where
  "ensure_loop envs wanted p cs =
     (if segment_count p < wanted then
        do {
          (created, p1, cs1) \<leftarrow> create_segment (envs 0) p cs;
          case created of
            Inl e \<Rightarrow> Some (Inl (into_message e), p1, cs1)
          | Inr (idx, seg) \<Rightarrow>
              do {
                p2 \<leftarrow> install_segment p1 idx seg;
                ensure_loop (\<lambda>i. envs (Suc i)) wanted p2 cs1
              }
        }
      else Some (Inr (), p, cs))"

definition ensure_buddy_segments :: "(nat \<Rightarrow> os_env) \<Rightarrow> nat \<Rightarrow> mem_pool \<Rightarrow> budget_cells \<Rightarrow>
    ((pool_error + unit) \<times> mem_pool \<times> budget_cells) run" where
  "ensure_buddy_segments envs wanted p cs =
     (if mp_is_peer p then Some (Inl PeerCannotCreate, p, cs)
      else if \<not> pc_buddy_enabled (mp_config p) then Some (Inl BuddyDisabled, p, cs)
      else if wanted > 0 \<and> \<not> mp_retain_idle_backing p then Some (Inl RetentionDisabled, p, cs)
      else if wanted > pc_max_segments (mp_config p)
        then Some (Inl (TooManySegments wanted (pc_max_segments (mp_config p))), p, cs)
      else ensure_loop envs wanted p cs)"

section \<open>Statistics\<close>

record pool_stats =
  ps_total_segments :: nat
  ps_dedicated_segments :: nat
  ps_alloc_count :: u32
  ps_buddy_data_bytes :: u64
  ps_buddy_occupied_bytes :: u64
  ps_buddy_idle_bytes :: u64
  ps_dedicated_mapped_bytes :: u64
  ps_dedicated_active_count :: nat
  ps_dedicated_active_bytes :: u64
  ps_counters :: tier_counters

text \<open>Sums are checked: an overflow is a panic. The dedicated slots are visited in the order of \<open>slots\<close>,
  which stands for the iteration order of the map.\<close>

fun add_segment_stats :: "buddy_segment option list \<Rightarrow> u64 \<times> u64 \<times> u32 \<Rightarrow> (u64 \<times> u64 \<times> u32) run" where
  "add_segment_stats [] acc = Some acc"
| "add_segment_stats (None # rest) acc = add_segment_stats rest acc"
| "add_segment_stats (Some seg # rest) (buddy_data, buddy_idle, allocs) =
     do {
       d \<leftarrow> checked_add buddy_data (word_of_nat (sg_size seg));
       i \<leftarrow> checked_add buddy_idle (free_bytes (sg_allocator seg));
       n \<leftarrow> checked_add allocs (alloc_count (sg_allocator seg));
       add_segment_stats rest (d, i, n)
     }"

fun sum_dedicated :: "(u32 \<rightharpoonup> dedicated_entry) \<Rightarrow> u32 list \<Rightarrow> u64 \<Rightarrow> u64 run" where
  "sum_dedicated m [] acc = Some acc"
| "sum_dedicated m (slot # rest) acc =
     (case m slot of
        None \<Rightarrow> sum_dedicated m rest acc
      | Some e \<Rightarrow> do { acc' \<leftarrow> checked_add acc (word_of_nat (dn_size e)); sum_dedicated m rest acc' })"

definition stats :: "u32 list \<Rightarrow> mem_pool \<Rightarrow> pool_stats run" where
  "stats slots p =
     do {
       (buddy_data, buddy_idle, allocs) \<leftarrow> add_segment_stats (mp_segments p) (0, 0, 0);
       dedicated_mapped \<leftarrow> sum_dedicated (mp_dedicated p) slots 0;
       let dedicated_active = length (filter (\<lambda>i. mp_dedicated p i \<noteq> None) slots);
       n \<leftarrow> checked_add allocs (word_of_nat dedicated_active);
       buddy_occupied \<leftarrow> checked_sub buddy_data buddy_idle;
       Some \<lparr>ps_total_segments = segment_count p, ps_dedicated_segments = dedicated_active, ps_alloc_count = n,
             ps_buddy_data_bytes = buddy_data, ps_buddy_occupied_bytes = buddy_occupied,
             ps_buddy_idle_bytes = buddy_idle, ps_dedicated_mapped_bytes = dedicated_mapped,
             ps_dedicated_active_count = dedicated_active, ps_dedicated_active_bytes = dedicated_mapped,
             ps_counters = mp_counters p\<rparr>
     }"

section \<open>Every execution\<close>

text \<open>The state of an execution: the pool, the cells of its budget, the handles its callers hold and the
  reservations that other users of the budget hold. A step is one call on the pool, or another user of
  the budget. Handles are move-only, so the handle given to \<open>release_handle\<close> is one that is held.\<close>

record pool_world =
  w_pool :: mem_pool
  w_cells :: budget_cells
  w_handles :: "handle_backing list"
  w_others :: "budget_reservation multiset"

inductive pool_step :: "pool_world \<Rightarrow> pool_world \<Rightarrow> bool" where
  step_alloc: "call \<in> {alloc_handle, try_alloc_shm, alloc_shm_handle} \<Longrightarrow>
     call env sz p cs = Some (Inr h, p', cs') \<Longrightarrow>
     pool_step \<lparr>w_pool = p, w_cells = cs, w_handles = hs, w_others = oth\<rparr>
       \<lparr>w_pool = p', w_cells = cs', w_handles = h # hs, w_others = oth\<rparr>"
| step_refused: "call \<in> {alloc_handle, try_alloc_shm, alloc_shm_handle} \<Longrightarrow>
     call env sz p cs = Some (Inl e, p', cs') \<Longrightarrow>
     pool_step \<lparr>w_pool = p, w_cells = cs, w_handles = hs, w_others = oth\<rparr>
       \<lparr>w_pool = p', w_cells = cs', w_handles = hs, w_others = oth\<rparr>"
| step_release: "h \<in> set hs \<Longrightarrow> release_handle now h p cs = Some (p', cs') \<Longrightarrow>
     pool_step \<lparr>w_pool = p, w_cells = cs, w_handles = hs, w_others = oth\<rparr>
       \<lparr>w_pool = p', w_cells = cs', w_handles = remove1 h hs, w_others = oth\<rparr>"
| step_trim: "hs = before @ h # after \<Longrightarrow> trim_to h n = (r, h') \<Longrightarrow>
     pool_step \<lparr>w_pool = p, w_cells = cs, w_handles = hs, w_others = oth\<rparr>
       \<lparr>w_pool = p, w_cells = cs, w_handles = before @ h' # after, w_others = oth\<rparr>"
| step_gc: "gc_buddy now p cs = Some (n, p', cs') \<Longrightarrow>
     pool_step \<lparr>w_pool = p, w_cells = cs, w_handles = hs, w_others = oth\<rparr>
       \<lparr>w_pool = p', w_cells = cs', w_handles = hs, w_others = oth\<rparr>"
| step_retention: "set_idle_backing_retention retain p cs = Some (p', cs') \<Longrightarrow>
     pool_step \<lparr>w_pool = p, w_cells = cs, w_handles = hs, w_others = oth\<rparr>
       \<lparr>w_pool = p', w_cells = cs', w_handles = hs, w_others = oth\<rparr>"
| step_ensure: "ensure_buddy_segments envs wanted p cs = Some (r, p', cs') \<Longrightarrow>
     pool_step \<lparr>w_pool = p, w_cells = cs, w_handles = hs, w_others = oth\<rparr>
       \<lparr>w_pool = p', w_cells = cs', w_handles = hs, w_others = oth\<rparr>"
| step_other_admit: "budget_reserve cs kind bytes = (Inr r, cs') \<Longrightarrow>
     pool_step \<lparr>w_pool = p, w_cells = cs, w_handles = hs, w_others = oth\<rparr>
       \<lparr>w_pool = p, w_cells = cs', w_handles = hs, w_others = add_mset r oth\<rparr>"
| step_other_reject: "budget_reserve cs kind bytes = (Inl e, cs') \<Longrightarrow>
     pool_step \<lparr>w_pool = p, w_cells = cs, w_handles = hs, w_others = oth\<rparr>
       \<lparr>w_pool = p, w_cells = cs', w_handles = hs, w_others = oth\<rparr>"
| step_other_drop: "r \<in># oth \<Longrightarrow> budget_release cs r = Some cs' \<Longrightarrow>
     pool_step \<lparr>w_pool = p, w_cells = cs, w_handles = hs, w_others = oth\<rparr>
       \<lparr>w_pool = p, w_cells = cs', w_handles = hs, w_others = oth - {#r#}\<rparr>"

text \<open>The backing a slot of either kind holds, by its generation.\<close>

definition mapped :: "mem_pool \<Rightarrow> bool \<Rightarrow> nat \<Rightarrow> u32 option" where
  "mapped p dedicated idx =
     (if dedicated then (if idx < 2 ^ 32 then map_option dn_generation (mp_dedicated p (word_of_nat idx)) else None)
      else segment_generation p idx)"

text \<open>Every execution, with the backings that have been unmapped in its course.\<close>

inductive pool_run :: "pool_world \<Rightarrow> (bool \<times> nat \<times> u32) set \<Rightarrow> bool" where
  run_new: "new_with_prefix_and_budget config prefix pid uuid incarnation = Inr p \<Longrightarrow>
     budget_reach shm_limit file_limit reassembly_limit cs oth \<Longrightarrow>
     pool_run \<lparr>w_pool = p, w_cells = cs, w_handles = [], w_others = oth\<rparr> {}"
| run_step: "pool_run w gone \<Longrightarrow> pool_step w w' \<Longrightarrow>
     pool_run w' (gone \<union> {(d, i, g). mapped (w_pool w) d i = Some g \<and> mapped (w_pool w') d i \<noteq> Some g})"

end
