(* ===== verification/Pool_Proofs.thy ===== *)
theory Pool_Proofs
  imports Pool
begin

text \<open>
  The invariant of the memory pool and its preservation by every operation: each buddy segment serves exactly
  the allocations its callers hold, each dedicated segment exactly one, the generation counters never go
  back, and the budget is charged with exactly the mapped backings and the spill files.
\<close>

section \<open>Lists and guards\<close>

lemma vec_resize_longer: "length xs \<le> n \<Longrightarrow> vec_resize xs n v = xs @ replicate (n - length xs) v"
  by (simp add: vec_resize_def)

lemma length_vec_resize [simp]: "length (vec_resize xs n v) = n"
  by (simp add: vec_resize_def)

lemma slot_generation_resize: "length xs \<le> n \<Longrightarrow> slot_generation (vec_resize xs n 0) = slot_generation xs"
  by (auto simp: vec_resize_longer slot_generation_def fun_eq_iff nth_append)

lemma slot_generation_upd: "i < length xs \<Longrightarrow> slot_generation (xs[i := g]) = (slot_generation xs)(i := g)"
  by (auto simp: slot_generation_def fun_eq_iff)

definition opt_mset :: "'a option \<Rightarrow> 'a multiset" where
  "opt_mset x = (case x of None \<Rightarrow> {#} | Some g \<Rightarrow> {#g#})"

definition gsum :: "(nat \<Rightarrow> 'a option) \<Rightarrow> nat \<Rightarrow> 'a multiset" where
  "gsum f n = (\<Sum>i<n. opt_mset (f i))"

lemma opt_mset_simps [simp]: "opt_mset None = {#}" "opt_mset (Some g) = {#g#}"
  by (simp_all add: opt_mset_def)

lemma gsum_upd: "i < n \<Longrightarrow> gsum (f(i := x)) n + opt_mset (f i) = gsum f n + opt_mset x"
proof -
  assume i: "i < n"
  have *: "gsum h n = opt_mset (h i) + (\<Sum>j\<in>{..<n} - {i}. opt_mset (h j))" for h :: "nat \<Rightarrow> 'a option"
    unfolding gsum_def using i by (simp add: sum.remove)
  have "(\<Sum>j\<in>{..<n} - {i}. opt_mset ((f(i := x)) j)) = (\<Sum>j\<in>{..<n} - {i}. opt_mset (f j))"
    by (intro sum.cong) auto
  then show ?thesis using * [of f] * [of "f(i := x)"] by (simp add: ac_simps)
qed

lemma gsum_none: "gsum (\<lambda>i. None) n = {#}"
  by (simp add: gsum_def)

lemma gsum_fill: "i < n \<Longrightarrow> f i = None \<Longrightarrow> gsum (f(i \<mapsto> g)) n = add_mset g (gsum f n)"
  using gsum_upd [of i n f "Some g"] by simp

lemma gsum_clear: "i < n \<Longrightarrow> f i = Some g \<Longrightarrow> gsum f n = add_mset g (gsum (f(i := None)) n)"
  using gsum_upd [of i n f None] by simp

section \<open>The invariant\<close>

definition alloc_of :: "pool_allocation \<Rightarrow> allocation" where
  "alloc_of a = \<lparr>al_offset = pa_offset a, al_actual_size = pa_actual_size a, al_level = pa_level a\<rparr>"

definition buddy_live :: "pool_allocation list \<Rightarrow> (nat \<times> allocation) list" where
  "buddy_live A = map (\<lambda>a. (unat (pa_seg_idx a), alloc_of a)) (filter (\<lambda>a. \<not> pa_is_dedicated a) A)"

definition dedicated_live :: "u32 \<Rightarrow> pool_allocation list \<Rightarrow> pool_allocation list" where
  "dedicated_live i A = filter (\<lambda>a. pa_is_dedicated a \<and> pa_seg_idx a = i) A"

definition allocators :: "mem_pool \<Rightarrow> nat \<Rightarrow> buddy_allocator option" where
  "allocators p i = map_option sg_allocator (segment p i)"

definition seg_guard :: "mem_pool \<Rightarrow> nat \<Rightarrow> budget_reservation option" where
  "seg_guard p i = Option.bind (segment p i) sg_budget_guard"

definition ded_guard :: "mem_pool \<Rightarrow> nat \<Rightarrow> budget_reservation option" where
  "ded_guard p i = Option.bind (mp_dedicated p (word_of_nat i)) dn_budget_guard"

definition backing_guards :: "mem_pool \<Rightarrow> budget_reservation multiset" where
  "backing_guards p = gsum (seg_guard p) (pc_max_segments (mp_config p)) +
     gsum (ded_guard p) (pc_max_dedicated_segments (mp_config p))"

definition shape :: "mem_pool \<Rightarrow> bool" where
  "shape p \<longleftrightarrow> \<not> mp_is_peer p \<and> mp_has_budget p \<and> validate_config (mp_config p) = Inr () \<and>
     length (mp_idle_since p) = length (mp_segments p) \<and> length (mp_segments p) \<le> length (mp_generations p) \<and>
     length (mp_generations p) \<le> pc_max_segments (mp_config p) \<and>
     length (mp_dedicated_generations p) \<le> pc_max_dedicated_segments (mp_config p)"

definition seg_ok :: "mem_pool \<Rightarrow> nat \<Rightarrow> buddy_segment \<Rightarrow> bool" where
  "seg_ok p i sg \<longleftrightarrow> sg_size sg = ba_data_size (sg_allocator sg) \<and>
     checked_layout (pc_segment_size (mp_config p)) (pc_min_block_size (mp_config p)) =
       Some \<lparr>bl_data_size = sg_size sg, bl_total_size = sg_size sg\<rparr> \<and>
     sg_budget_guard sg = Some (Shm, word_of_nat (sg_size sg)) \<and> mp_generations p ! i \<noteq> 0"

definition segs_ok :: "mem_pool \<Rightarrow> bool" where
  "segs_ok p \<longleftrightarrow> (\<forall>i sg. segment p i = Some sg \<longrightarrow> seg_ok p i sg)"

definition dedicated_allocation :: "u32 \<Rightarrow> dedicated_entry \<Rightarrow> pool_allocation" where
  "dedicated_allocation i e = \<lparr>pa_seg_idx = i, pa_generation = dn_generation e, pa_offset = 0,
     pa_actual_size = word_of_nat (dn_size e), pa_level = 0, pa_is_dedicated = True\<rparr>"

definition ded_ok :: "mem_pool \<Rightarrow> u32 \<Rightarrow> dedicated_entry \<Rightarrow> bool" where
  "ded_ok p i e \<longleftrightarrow> unat i < length (mp_dedicated_generations p) \<and>
     dn_generation e = mp_dedicated_generations p ! unat i \<and> dn_generation e \<noteq> 0 \<and>
     dn_budget_guard e = Some (Shm, word_of_nat (dn_size e)) \<and> dn_size e \<le> u32_max"

definition deds_ok :: "mem_pool \<Rightarrow> pool_allocation list \<Rightarrow> bool" where
  "deds_ok p A \<longleftrightarrow> (\<forall>i. mp_dedicated p i = None \<longrightarrow> dedicated_live i A = []) \<and>
     (\<forall>i e. mp_dedicated p i = Some e \<longrightarrow> ded_ok p i e \<and> dedicated_live i A = [dedicated_allocation i e])"

definition gens_ok :: "mem_pool \<Rightarrow> pool_allocation list \<Rightarrow> bool" where
  "gens_ok p A \<longleftrightarrow> (\<forall>a\<in>set A. \<not> pa_is_dedicated a \<longrightarrow> pa_generation a = mp_generations p ! unat (pa_seg_idx a))"

definition core :: "mem_pool \<Rightarrow> budget_cells \<Rightarrow> pool_allocation list \<Rightarrow> budget_reservation multiset \<Rightarrow> bool" where
  "core p cs A R \<longleftrightarrow> shape p \<and> segs_ok p \<and> deds_ok p A \<and> bb.table_ok (allocators p) (buddy_live A) \<and>
     gens_ok p A \<and> mb.balanced cs (backing_guards p + R)"

text \<open>How a pool may change: the generation counters never decrease, and a backing that appears has a
  generation above every earlier one of its slot.\<close>

definition high :: "mem_pool \<Rightarrow> bool \<Rightarrow> nat \<Rightarrow> nat" where
  "high p d i = unat (slot_generation (if d then mp_dedicated_generations p else mp_generations p) i)"

definition later :: "mem_pool \<Rightarrow> mem_pool \<Rightarrow> bool" where
  "later p p' \<longleftrightarrow> mp_config p' = mp_config p \<and> mp_incarnation p' = mp_incarnation p \<and>
     (\<forall>d i. high p d i \<le> high p' d i) \<and>
     (\<forall>d i g. mapped p' d i = Some g \<longrightarrow> mapped p d i = Some g \<or> high p d i < unat g)"

lemma later_refl [simp]: "later p p"
  by (simp add: later_def)

lemma later_trans: "later p q \<Longrightarrow> later q r \<Longrightarrow> later p r"
  unfolding later_def by (intro conjI; (elim conjE)?) (simp, simp, meson le_trans, meson le_less_trans)

lemma later_config: "later p p' \<Longrightarrow> mp_config p' = mp_config p" "later p p' \<Longrightarrow> mp_incarnation p' = mp_incarnation p"
  by (simp_all add: later_def)

text \<open>Everything but the idle clock, the counters and the retention flag is what the invariant reads.\<close>

definition same_backings :: "mem_pool \<Rightarrow> mem_pool \<Rightarrow> bool" where
  "same_backings p p' \<longleftrightarrow> mp_config p' = mp_config p \<and> mp_incarnation p' = mp_incarnation p \<and>
     mp_is_peer p' = mp_is_peer p \<and> mp_has_budget p' = mp_has_budget p \<and>
     mp_segments p' = mp_segments p \<and> mp_generations p' = mp_generations p \<and>
     mp_dedicated p' = mp_dedicated p \<and> mp_dedicated_generations p' = mp_dedicated_generations p \<and>
     length (mp_idle_since p') = length (mp_idle_since p)"

lemma same_backings_views:
  assumes "same_backings p p'"
  shows "segment p' = segment p" "allocators p' = allocators p" "backing_guards p' = backing_guards p"
    "mapped p' = mapped p" "high p' = high p"
proof -
  show s: "segment p' = segment p" using assms by (simp add: same_backings_def segment_def fun_eq_iff)
  show "allocators p' = allocators p" by (simp add: allocators_def fun_eq_iff s)
  have "seg_guard p' = seg_guard p" "ded_guard p' = ded_guard p"
    using assms by (simp_all add: same_backings_def seg_guard_def ded_guard_def s fun_eq_iff)
  then show "backing_guards p' = backing_guards p" using assms by (simp add: same_backings_def backing_guards_def)
  show "mapped p' = mapped p"
    using assms by (simp add: same_backings_def mapped_def segment_generation_def s fun_eq_iff)
  show "high p' = high p" using assms by (simp add: same_backings_def high_def fun_eq_iff)
qed

lemma same_backings_core:
  assumes "same_backings p p'" "core p cs A R"
  shows "core p' cs A R"
proof -
  note v = same_backings_views [OF assms(1)]
  have "shape p' = shape p" using assms(1) by (simp add: same_backings_def shape_def)
  moreover have "seg_ok p' = seg_ok p" using assms(1) by (simp add: same_backings_def seg_ok_def fun_eq_iff)
  then have "segs_ok p' = segs_ok p" by (simp add: segs_ok_def v)
  moreover have "ded_ok p' = ded_ok p" using assms(1) by (simp add: same_backings_def ded_ok_def fun_eq_iff)
  then have "deds_ok p' A = deds_ok p A" using assms(1) by (simp add: same_backings_def deds_ok_def)
  moreover have "gens_ok p' A = gens_ok p A" using assms(1) by (simp add: same_backings_def gens_ok_def)
  ultimately show ?thesis using assms(2) by (simp add: core_def v)
qed

lemma same_backings_later: "same_backings p p' \<Longrightarrow> later p p'"
  by (simp add: later_def same_backings_views) (simp add: same_backings_def)

section \<open>Slots\<close>

text \<open>Replacing what a slot of the segment vector holds.\<close>

definition put_segment :: "nat \<Rightarrow> buddy_segment option \<Rightarrow> mem_pool \<Rightarrow> mem_pool" where
  "put_segment i s p = p\<lparr>mp_segments := (mp_segments p)[i := s]\<rparr>"

lemma segment_bound: "segment p i = Some sg \<Longrightarrow> i < length (mp_segments p)"
  by (simp add: segment_def split: if_splits)

lemma segment_nth: "i < length (mp_segments p) \<Longrightarrow> mp_segments p ! i = segment p i"
  by (simp add: segment_def)

lemma put_segment_fields [simp]:
  "mp_config (put_segment i s p) = mp_config p" "mp_incarnation (put_segment i s p) = mp_incarnation p"
  "mp_generations (put_segment i s p) = mp_generations p" "mp_dedicated (put_segment i s p) = mp_dedicated p"
  "mp_dedicated_generations (put_segment i s p) = mp_dedicated_generations p"
  "mp_idle_since (put_segment i s p) = mp_idle_since p"
  "length (mp_segments (put_segment i s p)) = length (mp_segments p)"
  by (simp_all add: put_segment_def)

lemma deds_ok_cong:
  assumes "deds_ok p A" "mp_dedicated p' = mp_dedicated p"
    "mp_dedicated_generations p' = mp_dedicated_generations p" "\<And>j. dedicated_live j A' = dedicated_live j A"
  shows "deds_ok p' A'"
proof -
  have "ded_ok p' = ded_ok p" using assms(3) by (simp add: ded_ok_def fun_eq_iff)
  with assms show ?thesis by (simp add: deds_ok_def)
qed

lemma put_segment_views:
  assumes "i < length (mp_segments p)"
  shows "segment (put_segment i s p) = (segment p)(i := s)"
    "allocators (put_segment i s p) = (allocators p)(i := map_option sg_allocator s)"
    "seg_guard (put_segment i s p) = (seg_guard p)(i := Option.bind s sg_budget_guard)"
    "ded_guard (put_segment i s p) = ded_guard p" "shape (put_segment i s p) = shape p"
    "high (put_segment i s p) = high p"
proof -
  show v: "segment (put_segment i s p) = (segment p)(i := s)"
    using assms by (auto simp: segment_def put_segment_def fun_eq_iff)
  show "allocators (put_segment i s p) = (allocators p)(i := map_option sg_allocator s)"
    "seg_guard (put_segment i s p) = (seg_guard p)(i := Option.bind s sg_budget_guard)"
    "ded_guard (put_segment i s p) = ded_guard p"
    by (auto simp: allocators_def seg_guard_def ded_guard_def v fun_eq_iff)
  show "shape (put_segment i s p) = shape p" by (simp add: shape_def put_segment_def)
  show "high (put_segment i s p) = high p" by (simp add: high_def fun_eq_iff)
qed

lemma shape_bounds:
  assumes "shape p"
  shows "length (mp_segments p) \<le> pc_max_segments (mp_config p)" "pc_max_segments (mp_config p) \<le> 65536"
    "pc_max_dedicated_segments (mp_config p) \<le> 65536" "idle_delay (mp_config p) \<noteq> None"
    "\<exists>n. checked_layout (pc_segment_size (mp_config p)) (pc_min_block_size (mp_config p)) =
       Some \<lparr>bl_data_size = n, bl_total_size = n\<rparr> \<and> 0 < n \<and> n < 2 ^ 32"
proof -
  note s = assms [unfolded shape_def]
  show "length (mp_segments p) \<le> pc_max_segments (mp_config p)" using s by linarith
  have v: "validate_config (mp_config p) = Inr ()" using s by simp
  then show "pc_max_segments (mp_config p) \<le> 65536" "pc_max_dedicated_segments (mp_config p) \<le> 65536"
    by (auto simp: validate_config_def Let_def split: if_splits)
  show "idle_delay (mp_config p) \<noteq> None"
    using v by (auto simp: validate_config_def Let_def validate_duration_secs_def idle_delay_def split: if_splits option.splits)
  have "checked_layout (pc_segment_size (mp_config p)) (pc_min_block_size (mp_config p)) \<noteq> None"
    using v by (auto simp: validate_config_def Let_def split: if_splits)
  then show "\<exists>n. checked_layout (pc_segment_size (mp_config p)) (pc_min_block_size (mp_config p)) =
       Some \<lparr>bl_data_size = n, bl_total_size = n\<rparr> \<and> 0 < n \<and> n < 2 ^ 32"
    by (auto simp: checked_layout_def u32_max_def split: if_splits bind_splits elim!: checked_next_power_of_two_SomeD)
qed

lemma guard_of_segment:
  assumes "core p cs A R" "segment p i = Some sg"
  shows "i < pc_max_segments (mp_config p)" "i < length (mp_segments p)" "i < length (mp_idle_since p)"
    "i < length (mp_generations p)"
    "sg_budget_guard sg = Some (Shm, word_of_nat (sg_size sg))"
    "seg_guard p i = Some (Shm, word_of_nat (sg_size sg))"
    "bb.blocks_of i (buddy_live A) = L \<Longrightarrow> buddy_reach (sg_allocator sg) L"
proof -
  have c: "shape p" "segs_ok p" "bb.table_ok (allocators p) (buddy_live A)" using assms(1) by (auto simp: core_def)
  show i: "i < length (mp_segments p)" using segment_bound [OF assms(2)] .
  then show "i < pc_max_segments (mp_config p)" using shape_bounds(1) [OF c(1)] by linarith
  show "i < length (mp_idle_since p)" "i < length (mp_generations p)" using i c(1) by (auto simp: shape_def)
  have "seg_ok p i sg" using c(2) assms(2) unfolding segs_ok_def by blast
  then show g: "sg_budget_guard sg = Some (Shm, word_of_nat (sg_size sg))" by (simp add: seg_ok_def)
  then show "seg_guard p i = Some (Shm, word_of_nat (sg_size sg))" by (simp add: seg_guard_def assms(2))
  show "bb.blocks_of i (buddy_live A) = L \<Longrightarrow> buddy_reach (sg_allocator sg) L"
    using bb.table_slot [OF c(3), of i "sg_allocator sg"] by (simp add: allocators_def assms(2))
qed

text \<open>Replacing the allocator of a segment by one that serves another list of allocations.\<close>

lemma core_put_allocator:
  assumes "core p cs A R" "segment p i = Some sg" "ba_data_size b = ba_data_size (sg_allocator sg)"
    and "bb.table_ok ((allocators p)(i \<mapsto> b)) (buddy_live A')"
    and "\<And>j. dedicated_live j A' = dedicated_live j A" "gens_ok p A'"
  shows "core (put_segment i (Some (sg\<lparr>sg_allocator := b\<rparr>)) p) cs A' R"
    and "later p (put_segment i (Some (sg\<lparr>sg_allocator := b\<rparr>)) p)"
proof -
  let ?s = "Some (sg\<lparr>sg_allocator := b\<rparr>)" and ?p = "put_segment i (Some (sg\<lparr>sg_allocator := b\<rparr>)) p"
  note i = guard_of_segment(2) [OF assms(1,2)]
  note v = put_segment_views [OF i, of ?s]
  have c: "shape p" "segs_ok p" "deds_ok p A" "mb.balanced cs (backing_guards p + R)"
    using assms(1) by (auto simp: core_def)
  have "seg_ok p i sg" using c(2) assms(2) unfolding segs_ok_def by blast
  then have "segs_ok ?p" using c(2) assms(3) by (auto simp: segs_ok_def seg_ok_def v)
  moreover have "deds_ok ?p A'" using assms(5) by (intro deds_ok_cong [OF c(3)]) simp_all
  moreover have "(seg_guard p)(i := Option.bind ?s sg_budget_guard) = seg_guard p"
    using guard_of_segment(5,6) [OF assms(1,2)] by (simp add: fun_eq_iff)
  then have "backing_guards ?p = backing_guards p" by (simp add: backing_guards_def v)
  moreover have "gens_ok ?p A'" using assms(6) by (simp add: gens_ok_def)
  ultimately show "core ?p cs A' R" using c assms(4) by (simp add: core_def v)
  have "segment_generation ?p = segment_generation p"
    using assms(2) by (auto simp: segment_generation_def v fun_eq_iff)
  then have "mapped ?p = mapped p" by (auto simp: mapped_def fun_eq_iff)
  then show "later p ?p" by (simp add: later_def v)
qed

lemma take_segment_spec:
  assumes "core p cs A R" "segment p i = Some sg" "alloc_count (sg_allocator sg) = 0"
  shows "\<exists>p' cs'. take_segment i sg p cs = Some (p', cs') \<and> core p' cs' A R \<and> later p p' \<and>
    segment p' = (segment p)(i := None) \<and> length (mp_segments p') = length (mp_segments p)"
proof -
  let ?q = "put_segment i None p"
  note g = guard_of_segment [OF assms(1,2)]
  note v = put_segment_views [OF g(2), of None]
  have c: "shape p" "segs_ok p" "deds_ok p A" "bb.table_ok (allocators p) (buddy_live A)" "gens_ok p A"
    "mb.balanced cs (backing_guards p + R)" using assms(1) by (auto simp: core_def)
  have guards: "backing_guards p = add_mset (Shm, word_of_nat (sg_size sg)) (backing_guards ?q)"
    using gsum_clear [of i _ "seg_guard p", OF g(1) g(6)] by (simp add: backing_guards_def v)
  obtain cs' where cs': "budget_release cs (Shm, word_of_nat (sg_size sg)) = Some cs'"
    "mb.balanced cs' (backing_guards ?q + R)"
    using mb.balanced_refund [OF c(6), of "(Shm, word_of_nat (sg_size sg))"] by (auto simp: guards)
  have "segs_ok ?q" using c(2) by (auto simp: segs_ok_def seg_ok_def v)
  moreover have "deds_ok ?q A" by (intro deds_ok_cong [OF c(3)]) simp_all
  moreover have "gens_ok ?q A" using c(5) by (simp add: gens_ok_def)
  moreover have "bb.table_ok (allocators ?q) (buddy_live A)"
    using bb.table_drop [OF c(4), of i "sg_allocator sg"] assms(2,3) by (simp add: v allocators_def)
  ultimately have core: "core ?q cs' A R" using c(1) cs'(2) by (simp add: core_def v)
  let ?r = "?q\<lparr>mp_idle_since := (mp_idle_since p)[i := None]\<rparr>"
  have same: "same_backings ?q ?r" by (simp add: same_backings_def)
  have "later p ?q" by (auto simp: later_def v mapped_def segment_generation_def)
  then have "later p ?r" using same_backings_later [OF same] later_trans by blast
  moreover have "take_segment i sg p cs = Some (?r, cs')"
    using g(3) by (simp add: take_segment_def drop_reservation_def g(5) cs'(1) put_segment_def)
  ultimately show ?thesis
    using same_backings_core [OF same core] same_backings_views(1) [OF same] v(1)
    by (intro exI [of _ ?r] exI [of _ cs']) simp
qed

section \<open>Reclamation\<close>

lemma gc_loop_spec:
  assumes "core p cs A R" "\<forall>i\<in>set idxs. i < length (mp_segments p)"
  shows "\<exists>n p' cs'. gc_loop now delay idxs live removed p cs = Some (n, p', cs') \<and> core p' cs' A R \<and> later p p'"
  using assms
proof (induction idxs arbitrary: live removed p cs)
  case Nil
  then show ?case by simp
next
  case (Cons index rest)
  show ?case
  proof (cases "pc_min_retained_segments (mp_config p) < live \<and> (\<exists>sg. segment p index = Some sg)")
    case True
    then obtain sg where sg: "segment p index = Some sg" by blast
    note g = guard_of_segment [OF Cons.prems(1) sg]
    define at where "at = (case mp_idle_since p ! index of None \<Rightarrow> now | Some t \<Rightarrow> t)"
    define q where "q = p\<lparr>mp_idle_since := (mp_idle_since p)[index := Some at]\<rparr>"
    have same: "same_backings p q" by (simp add: q_def same_backings_def)
    note q = same_backings_core [OF same Cons.prems(1)] same_backings_later [OF same] same_backings_views(1) [OF same]
    show ?thesis
    proof (cases "alloc_count (sg_allocator sg) = 0 \<and> delay \<le> now - at")
      case True
      obtain p' cs' where t: "take_segment index sg q cs = Some (p', cs')" "core p' cs' A R" "later q p'"
        "length (mp_segments p') = length (mp_segments q)"
        using take_segment_spec [OF q(1), of index sg] sg True q(3) by auto
      have "\<forall>i\<in>set rest. i < length (mp_segments p')" using Cons.prems(2) t(4) by (simp add: q_def)
      from Cons.IH [OF t(2) this, of "live - 1" "removed + 1"] obtain n p2 cs2 where
        "gc_loop now delay rest (live - 1) (removed + 1) p' cs' = Some (n, p2, cs2)" "core p2 cs2 A R" "later p' p2"
        by blast
      moreover have "later p p2" using calculation(3) t(3) q(2) later_trans by blast
      ultimately show ?thesis using True \<open>_ \<and> (\<exists>sg. _)\<close> t(1) g(2,3) sg
        by (simp add: segment_nth Let_def at_def [symmetric] q_def [symmetric])
    next
      case False
      then show ?thesis using \<open>_ \<and> (\<exists>sg. _)\<close> g(2,3) sg q(1,2) Cons.prems(1)
        by (auto simp: segment_nth Let_def at_def [symmetric] q_def [symmetric])
    qed
  next
    case False
    then show ?thesis using Cons.IH [OF Cons.prems(1)] Cons.prems by (auto simp: segment_nth)
  qed
qed

lemma gc_buddy_spec:
  assumes "core p cs A R"
  shows "\<exists>n p' cs'. gc_buddy now p cs = Some (n, p', cs') \<and> core p' cs' A R \<and> later p p'"
proof -
  obtain delay where "idle_delay (mp_config p) = Some delay"
    using shape_bounds(4) [of p] assms by (auto simp: core_def)
  with gc_loop_spec [OF assms, of "rev [0..<length (mp_segments p)]" now delay "segment_count p" 0]
  show ?thesis by (simp add: gc_buddy_def)
qed

lemma retire_idle_spec:
  assumes "core p cs A R" "\<forall>i\<in>set idxs. i < length (mp_segments p)"
  shows "\<exists>p' cs'. retire_idle idxs p cs = Some (p', cs') \<and> core p' cs' A R \<and> later p p'"
  using assms
proof (induction idxs arbitrary: p cs)
  case Nil
  then show ?case by simp
next
  case (Cons i rest)
  have i: "i < length (mp_segments p)" using Cons.prems by simp
  show ?case
  proof (cases "\<exists>sg. segment p i = Some sg \<and> alloc_count (sg_allocator sg) = 0")
    case True
    then obtain sg where sg: "segment p i = Some sg" "alloc_count (sg_allocator sg) = 0" by blast
    obtain p' cs' where t: "take_segment i sg p cs = Some (p', cs')" "core p' cs' A R" "later p p'"
      "length (mp_segments p') = length (mp_segments p)"
      using take_segment_spec [OF Cons.prems(1) sg] by blast
    obtain p2 cs2 where "retire_idle rest p' cs' = Some (p2, cs2)" "core p2 cs2 A R" "later p' p2"
      using Cons.IH [OF t(2)] Cons.prems(2) t(4) by auto
    moreover have "later p p2" using calculation(3) t(3) later_trans by blast
    ultimately show ?thesis using sg i t(1) by (simp add: segment_nth)
  next
    case False
    then show ?thesis using Cons.IH [OF Cons.prems(1)] Cons.prems(2) i
      by (cases "segment p i") (auto simp: segment_nth)
  qed
qed

lemma retention_spec:
  assumes "core p cs A R"
  shows "\<exists>p' cs'. set_idle_backing_retention retain p cs = Some (p', cs') \<and> core p' cs' A R \<and> later p p'"
proof -
  let ?q = "p\<lparr>mp_retain_idle_backing := retain\<rparr>"
  have same: "same_backings p ?q" by (simp add: same_backings_def)
  note q = same_backings_core [OF same assms] same_backings_later [OF same]
  obtain p' cs' where r: "retire_idle [0..<length (mp_segments ?q)] ?q cs = Some (p', cs')" "core p' cs' A R" "later ?q p'"
    using retire_idle_spec [OF q(1), of "[0..<length (mp_segments ?q)]"] by auto
  then have "later p p'" using q(2) later_trans by blast
  then show ?thesis using r q by (cases retain) (auto simp: set_idle_backing_retention_def Let_def)
qed

section \<open>Reuse\<close>

lemma unat_index: "i < 65536 \<Longrightarrow> unat (word_of_nat i :: u32) = i"
  by (simp add: unat_of_nat take_bit_eq_mod)

lemma buddy_allocation_fields [simp]:
  "pa_is_dedicated (buddy_allocation i g a) = False" "alloc_of (buddy_allocation i g a) = a"
  "pa_generation (buddy_allocation i g a) = g" "pa_seg_idx (buddy_allocation i g a) = word_of_nat i"
  "pa_actual_size (buddy_allocation i g a) = al_actual_size a"
  by (simp_all add: buddy_allocation_def alloc_of_def)

lemma buddy_live_Cons:
  "i < 65536 \<Longrightarrow> buddy_live (buddy_allocation i g a # A) = (i, a) # buddy_live A"
  "dedicated_live j (buddy_allocation i g a # A) = dedicated_live j A"
  by (simp_all add: buddy_live_def dedicated_live_def unat_index)

lemma segment_alloc:
  assumes "core p cs A R" "segment p i = Some sg" "buddy_alloc (sg_allocator sg) sz = Some (Some a, b)"
  defines "q \<equiv> put_segment i (Some (sg\<lparr>sg_allocator := b\<rparr>)) p"
  shows "core q cs (buddy_allocation i (mp_generations p ! i) a # A) R" "later p q" "sz \<le> unat (al_actual_size a)"
proof -
  note g = guard_of_segment [OF assms(1,2)]
  have c: "shape p" "bb.table_ok (allocators p) (buddy_live A)" "gens_ok p A" using assms(1) by (auto simp: core_def)
  have i: "i < 65536" using g(1) shape_bounds(2) [OF c(1)] by linarith
  have pl: "ba_data_size b = ba_data_size (sg_allocator sg)" "sz \<le> unat (al_actual_size a)"
    using bb.acquire_placed [OF g(7) [OF refl] assms(3)] by (auto simp: card_alloc_range)
  show "sz \<le> unat (al_actual_size a)" by (fact pl(2))
  have tab: "bb.table_ok ((allocators p)(i \<mapsto> b)) (buddy_live (buddy_allocation i (mp_generations p ! i) a # A))"
    using bb.table_acquire [OF c(2) _ assms(3), of i] assms(2) i by (simp add: allocators_def buddy_live_Cons(1))
  have gen: "gens_ok p (buddy_allocation i (mp_generations p ! i) a # A)"
    using c(3) i by (simp add: gens_ok_def unat_index)
  note put = core_put_allocator [OF assms(1,2) pl(1) tab buddy_live_Cons(2) gen]
  from put show "core q cs (buddy_allocation i (mp_generations p ! i) a # A) R" "later p q"
    unfolding q_def by blast+
qed

lemma put_segment_same:
  assumes "segment p i = Some sg" shows "put_segment i (Some (sg\<lparr>sg_allocator := sg_allocator sg\<rparr>)) p = p"
proof -
  have "(mp_segments p)[i := Some sg] = mp_segments p"
    using segment_bound [OF assms] assms by (metis list_update_id segment_nth)
  then show ?thesis by (simp add: put_segment_def)
qed

lemma drop_eq_Cons: "x # ys = drop i xs \<Longrightarrow> i < length xs \<and> xs ! i = x \<and> ys = drop (i + 1) xs"
  by (cases "i < length xs") (auto simp: Cons_nth_drop_Suc [symmetric])

lemma reuse_from_spec:
  assumes "core p cs A R" "segs = drop i (mp_segments p)"
  shows "\<exists>r p'. try_buddy_reuse_from segs i sz p = Some (r, p') \<and> later p p' \<and>
    (case r of None \<Rightarrow> core p' cs A R | Some a \<Rightarrow> core p' cs (a # A) R \<and> sz \<le> unat (pa_actual_size a))"
  using assms
proof (induction segs arbitrary: i)
  case Nil
  then show ?case by simp
next
  case (Cons s rest)
  have i: "i < length (mp_segments p)" "mp_segments p ! i = s" and rest: "rest = drop (i + 1) (mp_segments p)"
    using drop_eq_Cons [OF Cons.prems(2)] by auto
  note IH = Cons.IH [OF Cons.prems(1) rest]
  show ?case
  proof (cases s)
    case None
    then show ?thesis using IH by simp
  next
    case (Some sg)
    then have sg: "segment p i = Some sg" using i by (simp add: segment_def)
    note g = guard_of_segment [OF Cons.prems(1) sg]
    obtain r b where r: "buddy_alloc (sg_allocator sg) sz = Some (r, b)"
      using bb.acquire_total [OF g(7) [OF refl]] by blast
    show ?thesis
    proof (cases r)
      case None
      then have "b = sg_allocator sg" using bb.acquire_refused [OF g(7) [OF refl], of sz b] r by simp
      then have "p\<lparr>mp_segments := (mp_segments p)[i := Some (sg\<lparr>sg_allocator := b\<rparr>)]\<rparr> = p"
        using put_segment_same [OF sg] by (simp add: put_segment_def)
      then show ?thesis using IH Some r None by (simp add: Let_def)
    next
      case (Some a)
      let ?q = "put_segment i (Some (sg\<lparr>sg_allocator := b\<rparr>)) p"
      note al = segment_alloc [OF Cons.prems(1) sg r [unfolded Some]]
      let ?q2 = "?q\<lparr>mp_idle_since := (mp_idle_since ?q)[i := None], mp_counters := (mp_counters ?q)\<lparr>tc_buddy_reused_allocs :=
                        saturating_add (tc_buddy_reused_allocs (mp_counters ?q)) 1\<rparr>\<rparr>"
      have same: "same_backings ?q ?q2" by (simp add: same_backings_def)
      have "try_buddy_reuse_from (Some sg # rest) i sz p =
          Some (Some (buddy_allocation i (mp_generations p ! i) a), ?q2)"
        using r Some g(4) by (simp add: Let_def put_segment_def)
      moreover have "later p ?q2" using al(2) same_backings_later [OF same] later_trans by blast
      ultimately show ?thesis
        using same_backings_core [OF same al(1)] al(3) \<open>s = Some sg\<close>
        by (intro exI [of _ "Some (buddy_allocation i (mp_generations p ! i) a)"] exI [of _ ?q2]) simp
    qed
  qed
qed

lemma reuse_spec:
  assumes "core p cs A R"
  shows "\<exists>r p'. try_buddy_reuse sz p = Some (r, p') \<and> later p p' \<and>
    (case r of None \<Rightarrow> core p' cs A R | Some a \<Rightarrow> core p' cs (a # A) R \<and> sz \<le> unat (pa_actual_size a))"
  using reuse_from_spec [OF assms, of "mp_segments p" 0 sz] by (simp add: try_buddy_reuse_def)

section \<open>Creation\<close>

lemma find_slot_Some:
  assumes "find_slot taken gens idxs = Some (idx, g)"
  shows "idx \<in> set idxs \<and> \<not> taken idx \<and> unat g = unat (slot_generation gens idx) + 1"
  using assms
proof (induction idxs)
  case (Cons i rest)
  then show ?case using checked_add_SomeD [of "slot_generation gens i" 1 g]
    by (auto split: if_splits option.splits)
qed simp

lemma reserve_balanced:
  assumes "mb.balanced cs G" "budget_reserve cs kind n = (r, cs')"
  shows "case r of Inl e \<Rightarrow> mb.balanced cs' G | Inr g \<Rightarrow> g = (kind, n) \<and> mb.balanced cs' (add_mset g G)"
  using assms reserve_as_charge [of cs kind n] mb.balanced_admit [OF assms(1)] mb.balanced_reject [OF assms(1)]
  by (cases r) auto

lemma release_added:
  assumes "mb.balanced cs (add_mset g G)"
  shows "\<exists>cs'. budget_release cs g = Some cs' \<and> mb.balanced cs' G"
  using mb.balanced_refund [OF assms, of g] by simp

text \<open>What a successful \<open>create_segment\<close> leaves: the segment is charged and named, but not yet in its slot.\<close>

definition created :: "mem_pool \<Rightarrow> budget_cells \<Rightarrow> budget_reservation multiset \<Rightarrow> nat \<Rightarrow> buddy_segment \<Rightarrow> mem_pool \<Rightarrow> bool" where
  "created p cs1 R idx sg p1 \<longleftrightarrow>
     idx < pc_max_segments (mp_config p) \<and> segment p idx = None \<and>
     p1 = p\<lparr>mp_generations := mp_generations p1\<rparr> \<and> idx < length (mp_generations p1) \<and>
     length (mp_generations p) \<le> length (mp_generations p1) \<and>
     length (mp_generations p1) \<le> pc_max_segments (mp_config p) \<and>
     slot_generation (mp_generations p1) = (slot_generation (mp_generations p))(idx := mp_generations p1 ! idx) \<and>
     unat (mp_generations p1 ! idx) = high p False idx + 1 \<and>
     sg_size sg = ba_data_size (sg_allocator sg) \<and> buddy_reach (sg_allocator sg) [] \<and>
     checked_layout (pc_segment_size (mp_config p)) (pc_min_block_size (mp_config p)) =
       Some \<lparr>bl_data_size = sg_size sg, bl_total_size = sg_size sg\<rparr> \<and>
     sg_budget_guard sg = Some (Shm, word_of_nat (sg_size sg)) \<and>
     mb.balanced cs1 (add_mset (Shm, word_of_nat (sg_size sg)) (backing_guards p + R))"

lemma advance_generation:
  assumes "unat g = unat (slot_generation gens idx) + 1" "idx < n" "length gens \<le> n"
  shows "\<exists>gens'. upd_run (if length gens \<le> idx then vec_resize gens (idx + 1) 0 else gens) idx g = Some gens' \<and>
    idx < length gens' \<and> length gens \<le> length gens' \<and> length gens' \<le> n \<and>
    slot_generation gens' = (slot_generation gens)(idx := gens' ! idx) \<and> gens' ! idx = g"
  using assms
  by (cases "length gens \<le> idx") (simp_all add: slot_generation_upd slot_generation_resize)

lemma create_segment_spec:
  assumes "core p cs A R"
  shows "\<exists>r p1 cs1. create_segment env p cs = Some (r, p1, cs1) \<and>
    (case r of Inl e \<Rightarrow> p1 = p \<and> core p cs1 A R | Inr (idx, sg) \<Rightarrow> created p cs1 R idx sg p1)"
proof (cases "find_slot (\<lambda>idx. segment p idx \<noteq> None) (mp_generations p) [0..<pc_max_segments (mp_config p)]")
  case None
  then show ?thesis using assms by (simp add: create_segment_def Let_def)
next
  case (Some slot)
  then obtain idx g where slot: "slot = (idx, g)" "idx < pc_max_segments (mp_config p)" "segment p idx = None"
    "unat g = unat (slot_generation (mp_generations p) idx) + 1"
    using find_slot_Some by (cases slot) fastforce
  have c: "shape p" "mb.balanced cs (backing_guards p + R)" using assms by (auto simp: core_def)
  obtain n where n: "checked_layout (pc_segment_size (mp_config p)) (pc_min_block_size (mp_config p)) =
      Some \<lparr>bl_data_size = n, bl_total_size = n\<rparr>" using shape_bounds(5) [OF c(1)] by blast
  show ?thesis
  proof (cases "os_buddy_pressure env")
    case (Some reason)
    then show ?thesis using assms \<open>find_slot _ _ _ = Some slot\<close> slot(1) n by (simp add: create_segment_def Let_def)
  next
    case None
    obtain r cs1 where res: "budget_reserve cs Shm (word_of_nat n) = (r, cs1)" by force
    note bal = reserve_balanced [OF c(2) res]
    have fields: "mp_has_budget p" using c(1) by (simp add: shape_def)
    note run = None \<open>find_slot _ _ _ = Some slot\<close> slot(1) n fields res
    show ?thesis
    proof (cases r)
      case (Inl e)
      then show ?thesis using run bal assms by (simp add: create_segment_def Let_def reserve_backing_def core_def)
    next
      case (Inr guard)
      then have guard: "guard = (Shm, word_of_nat n)" "mb.balanced cs1 (add_mset guard (backing_guards p + R))"
        using bal by auto
      show ?thesis
      proof (cases "os_buddy_region env")
        case (Inl e)
        obtain cs2 where "budget_release cs1 guard = Some cs2" "mb.balanced cs2 (backing_guards p + R)"
          using release_added [OF guard(2)] by blast
        then show ?thesis using run Inr Inl assms
          by (simp add: create_segment_def Let_def reserve_backing_def buddy_segment_create_def core_def)
      next
        case (Inr base)
        obtain b where b: "buddy_init base \<lparr>bl_data_size = n, bl_total_size = n\<rparr> (pc_min_block_size (mp_config p)) = Some b"
          "ba_data_size b = n" using buddy_init_spec [OF n] by (metis buddy_layout.select_convs(1))
        have len: "length (mp_generations p) \<le> pc_max_segments (mp_config p)" using c(1) by (simp add: shape_def)
        from advance_generation [OF slot(4,2) len] obtain gens' where g': "upd_run (if length (mp_generations p) \<le> idx
            then vec_resize (mp_generations p) (idx + 1) 0 else mp_generations p) idx g = Some gens'"
          "idx < length gens'" "length (mp_generations p) \<le> length gens'" "length gens' \<le> pc_max_segments (mp_config p)"
          "slot_generation gens' = (slot_generation (mp_generations p))(idx := gens' ! idx)" "gens' ! idx = g" by blast
        let ?sg = "\<lparr>sg_base = base, sg_size = n, sg_allocator = b, sg_budget_guard = Some guard\<rparr>"
        have "create_segment env p cs = Some (Inr (idx, ?sg), p\<lparr>mp_generations := gens'\<rparr>, cs1)"
          using run Inr \<open>r = _\<close> b(1) g'(1)
          by (simp add: create_segment_def Let_def reserve_backing_def buddy_segment_create_def split del: if_split)
        moreover have "created p cs1 R idx ?sg (p\<lparr>mp_generations := gens'\<rparr>)"
          using slot g' guard b(2) n reach_init [OF n b(1)]
          by (simp add: created_def high_def)
        ultimately show ?thesis by simp
      qed
    qed
  qed
qed

lemma vec_resize_nth: "length xs \<le> n \<Longrightarrow> i < n \<Longrightarrow> vec_resize xs n v ! i = (if i < length xs then xs ! i else v)"
  by (simp add: vec_resize_longer nth_append)

lemma install_run:
  assumes "length (mp_idle_since p) = length (mp_segments p)"
  shows "\<exists>segs idle. install_segment p idx sg = Some (p\<lparr>mp_segments := segs, mp_idle_since := idle\<rparr>) \<and>
    segment (p\<lparr>mp_segments := segs, mp_idle_since := idle\<rparr>) = (segment p)(idx \<mapsto> sg) \<and>
    length idle = length segs \<and> length segs = max (length (mp_segments p)) (idx + 1)"
proof (cases "length (mp_segments p) \<le> idx")
  case True
  let ?s = "(vec_resize (mp_segments p) (idx + 1) None)[idx := Some sg]"
    and ?i = "(vec_resize (mp_idle_since p) (idx + 1) None)[idx := None]"
  have "install_segment p idx sg = Some (p\<lparr>mp_segments := ?s, mp_idle_since := ?i\<rparr>)"
    using True assms by (simp add: install_segment_def Let_def)
  moreover have "segment (p\<lparr>mp_segments := ?s, mp_idle_since := ?i\<rparr>) = (segment p)(idx \<mapsto> sg)"
    using True by (auto simp: segment_def fun_eq_iff nth_list_update vec_resize_nth)
  moreover have "length ?i = length ?s \<and> length ?s = max (length (mp_segments p)) (idx + 1)" using True by simp
  ultimately show ?thesis by blast
next
  case False
  let ?s = "(mp_segments p)[idx := Some sg]" and ?i = "(mp_idle_since p)[idx := None]"
  have "install_segment p idx sg = Some (p\<lparr>mp_segments := ?s, mp_idle_since := ?i\<rparr>)"
    using False assms by (simp add: install_segment_def Let_def)
  moreover have "segment (p\<lparr>mp_segments := ?s, mp_idle_since := ?i\<rparr>) = (segment p)(idx \<mapsto> sg)"
    using False by (auto simp: segment_def fun_eq_iff)
  moreover have "length ?i = length ?s \<and> length ?s = max (length (mp_segments p)) (idx + 1)" using False assms by simp
  ultimately show ?thesis by blast
qed

lemma slot_generation_nth: "i < length gens \<Longrightarrow> gens ! i = slot_generation gens i"
  by (simp add: slot_generation_def)

lemma live_index:
  assumes "core p cs A R" "a \<in> set A" "\<not> pa_is_dedicated a"
  shows "\<exists>sg. segment p (unat (pa_seg_idx a)) = Some sg"
proof -
  have "(unat (pa_seg_idx a), alloc_of a) \<in> set (buddy_live A)" using assms(2,3) by (force simp: buddy_live_def)
  then show ?thesis using bb.table_owner [of "allocators p" "buddy_live A" "unat (pa_seg_idx a)" "alloc_of a"] assms(1)
    by (auto simp: core_def allocators_def)
qed

text \<open>Filling an empty slot with a charged segment that serves the allocations \<open>L\<close>.\<close>

lemma core_fill_slot:
  assumes c: "core p cs A R" and idx: "segment p idx = None" "idx < pc_max_segments (mp_config p)"
    and gens: "idx < length gens" "length (mp_generations p) \<le> length gens" "length gens \<le> pc_max_segments (mp_config p)"
      "slot_generation gens = (slot_generation (mp_generations p))(idx := gens ! idx)" "gens ! idx \<noteq> 0"
    and sg: "sg_size sg = ba_data_size (sg_allocator sg)" "sg_budget_guard sg = Some (Shm, word_of_nat (sg_size sg))"
      "checked_layout (pc_segment_size (mp_config p)) (pc_min_block_size (mp_config p)) =
       Some \<lparr>bl_data_size = sg_size sg, bl_total_size = sg_size sg\<rparr>"
    and bal: "mb.balanced cs1 (add_mset (Shm, word_of_nat (sg_size sg)) (backing_guards p + R))"
    and tab: "bb.table_ok ((allocators p)(idx \<mapsto> sg_allocator sg)) (map (Pair idx) L @ buddy_live A)"
    and q: "q = p\<lparr>mp_generations := gens, mp_segments := segs, mp_idle_since := idle\<rparr>"
      "segment q = (segment p)(idx \<mapsto> sg)" "length idle = length segs"
      "length segs = max (length (mp_segments p)) (idx + 1)"
  shows "core q cs1 (map (buddy_allocation idx (gens ! idx)) L @ A) R"
proof -
  let ?B = "map (buddy_allocation idx (gens ! idx)) L @ A"
  have c': "shape p" "segs_ok p" "deds_ok p A" "gens_ok p A" using c by (auto simp: core_def)
  have i: "idx < 65536" using idx(2) shape_bounds(2) [OF c'(1)] by linarith
  have keep: "gens ! i = mp_generations p ! i" if "i < length (mp_generations p)" "i \<noteq> idx" for i
    using that gens(2,4) slot_generation_nth [of i gens] slot_generation_nth [of i "mp_generations p"] by simp
  have "shape q" using c'(1) q(3,4) gens(1-3) unfolding q(1) by (simp add: shape_def)
  moreover have "segs_ok q" unfolding segs_ok_def
  proof (intro allI impI)
    fix i sg' assume s: "segment q i = Some sg'"
    show "seg_ok q i sg'"
    proof (cases "i = idx")
      case True
      then show ?thesis using s sg gens(5) q(2) unfolding q(1) by (simp add: seg_ok_def)
    next
      case False
      then have s': "segment p i = Some sg'" using s q(2) by simp
      then have "seg_ok p i sg'" using c'(2) unfolding segs_ok_def by blast
      then show ?thesis using keep [OF guard_of_segment(4) [OF c s'] False] unfolding q(1) by (simp add: seg_ok_def)
    qed
  qed
  moreover have "dedicated_live j ?B = dedicated_live j A" for j by (simp add: dedicated_live_def filter_empty_conv)
  then have "deds_ok q ?B" unfolding q(1) by (intro deds_ok_cong [OF c'(3)]) simp_all
  moreover have "buddy_live ?B = map (Pair idx) L @ buddy_live A"
    using i by (induction L) (simp_all add: buddy_live_Cons)
  moreover have "allocators q = (allocators p)(idx \<mapsto> sg_allocator sg)" by (auto simp: allocators_def q(2) fun_eq_iff)
  moreover have "gens_ok q ?B" unfolding gens_ok_def
  proof (intro ballI impI)
    fix a assume a: "a \<in> set ?B" "\<not> pa_is_dedicated a"
    show "pa_generation a = mp_generations q ! unat (pa_seg_idx a)"
    proof (cases "a \<in> set A")
      case True
      then obtain sg' where s: "segment p (unat (pa_seg_idx a)) = Some sg'" using live_index [OF c] a(2) by blast
      then have "unat (pa_seg_idx a) \<noteq> idx" using idx(1) by auto
      then show ?thesis using keep [OF guard_of_segment(4) [OF c s]] c'(4) True a(2) unfolding q(1) by (simp add: gens_ok_def)
    next
      case False
      then show ?thesis using a i unfolding q(1) by (auto simp: unat_index)
    qed
  qed
  moreover have "seg_guard q = (seg_guard p)(idx \<mapsto> (Shm, word_of_nat (sg_size sg)))" "ded_guard q = ded_guard p"
    using q(2) sg(2) by (auto simp: seg_guard_def fun_eq_iff) (simp add: q(1) ded_guard_def)
  then have "backing_guards q = add_mset (Shm, word_of_nat (sg_size sg)) (backing_guards p)"
    using gsum_fill [OF idx(2), of "seg_guard p"] idx(1) q(1) by (simp add: backing_guards_def seg_guard_def)
  ultimately show ?thesis using bal tab by (simp add: core_def)
qed
lemma later_fill_slot:
  assumes "slot_generation gens = (slot_generation (mp_generations p))(idx := gens ! idx)"
    "unat (gens ! idx) = high p False idx + 1" "idx < length gens" "length (mp_generations p) \<le> length gens"
    and q: "q = p\<lparr>mp_generations := gens, mp_segments := segs, mp_idle_since := idle\<rparr>"
      "segment q = (segment p)(idx \<mapsto> sg)" and sh: "shape p"
  shows "later p q"
proof -
  have h: "high q d i = (if \<not> d \<and> i = idx then high p d i + 1 else high p d i)" for d i
    using assms(1,2) unfolding q(1) by (simp add: high_def)
  have m: "mapped q d i = (if \<not> d \<and> i = idx then Some (gens ! idx) else mapped p d i)" for d i
  proof (cases "\<not> d \<and> i \<noteq> idx \<and> segment p i \<noteq> None")
    case True
    then have "i < length (mp_generations p)" using sh segment_bound by (fastforce simp: shape_def)
    then have "gens ! i = mp_generations p ! i"
      using True assms(1,4) slot_generation_nth [of i gens] slot_generation_nth [of i "mp_generations p"] by simp
    then show ?thesis using True \<open>i < _\<close> assms(4) by (simp add: mapped_def segment_generation_def q(2)) (simp add: q(1))
  next
    case False
    then show ?thesis using assms(3) by (auto simp: mapped_def segment_generation_def q(2)) (simp_all add: q(1))
  qed
  show ?thesis using assms(2) by (simp add: later_def h m) (simp add: q(1))
qed

lemma install_created:
  assumes c: "core p cs A R" and cr: "created p cs1 R idx sg p1"
    and b: "ba_data_size b = ba_data_size (sg_allocator sg)"
    and tab: "bb.table_ok ((allocators p)(idx \<mapsto> b)) (map (Pair idx) L @ buddy_live A)"
  shows "\<exists>p2. install_segment p1 idx (sg\<lparr>sg_allocator := b\<rparr>) = Some p2 \<and>
    core p2 cs1 (map (buddy_allocation idx (mp_generations p1 ! idx)) L @ A) R \<and> later p p2 \<and>
    mp_generations p2 = mp_generations p1 \<and> segment p2 = (segment p)(idx \<mapsto> sg\<lparr>sg_allocator := b\<rparr>)"
proof -
  let ?sg = "sg\<lparr>sg_allocator := b\<rparr>"
  obtain gens where p1: "p1 = p\<lparr>mp_generations := gens\<rparr>" using cr unfolding created_def by blast
  have g: "idx < pc_max_segments (mp_config p)" "segment p idx = None" "idx < length gens"
    "length (mp_generations p) \<le> length gens" "length gens \<le> pc_max_segments (mp_config p)"
    "slot_generation gens = (slot_generation (mp_generations p))(idx := gens ! idx)"
    "unat (gens ! idx) = high p False idx + 1"
    and sg: "sg_size sg = ba_data_size (sg_allocator sg)" "sg_budget_guard sg = Some (Shm, word_of_nat (sg_size sg))"
    "checked_layout (pc_segment_size (mp_config p)) (pc_min_block_size (mp_config p)) =
       Some \<lparr>bl_data_size = sg_size sg, bl_total_size = sg_size sg\<rparr>"
    and bal: "mb.balanced cs1 (add_mset (Shm, word_of_nat (sg_size sg)) (backing_guards p + R))"
    using cr unfolding created_def p1 by auto
  have sh: "shape p" using c by (simp add: core_def)
  then have "length (mp_idle_since p1) = length (mp_segments p1)" by (simp add: p1 shape_def)
  from install_run [OF this, of idx ?sg] obtain segs idle where
    in': "install_segment p1 idx ?sg = Some (p1\<lparr>mp_segments := segs, mp_idle_since := idle\<rparr>)"
    "segment (p1\<lparr>mp_segments := segs, mp_idle_since := idle\<rparr>) = (segment p1)(idx \<mapsto> ?sg)"
    "length idle = length segs" "length segs = max (length (mp_segments p1)) (idx + 1)" by blast
  define q where "q = p\<lparr>mp_generations := gens, mp_segments := segs, mp_idle_since := idle\<rparr>"
  have q: "p1\<lparr>mp_segments := segs, mp_idle_since := idle\<rparr> = q" by (simp add: q_def p1)
  have "segment p1 = segment p" by (simp add: p1 segment_def fun_eq_iff)
  then have sq: "segment q = (segment p)(idx \<mapsto> ?sg)" using in'(2) q by simp
  have "core q cs1 (map (buddy_allocation idx (gens ! idx)) L @ A) R"
  proof (rule core_fill_slot [OF c g(2,1,3,4,5,6) _ _ _ _ _ _ q_def sq in'(3)])
    show "gens ! idx \<noteq> 0" using g(7) by auto
    show "bb.table_ok ((allocators p)(idx \<mapsto> sg_allocator ?sg)) (map (Pair idx) L @ buddy_live A)" using tab by simp
  qed (use sg b bal in'(4) p1 in simp_all)
  moreover have "later p q" by (rule later_fill_slot [OF g(6,7,3,4) q_def sq sh])
  ultimately show ?thesis using in'(1) q sq by (simp add: p1 q_def)
qed

lemma expand_spec:
  assumes c: "core p cs A R" and sz: "0 < sz" "buddy_block_limit p = Some m" "sz \<le> m"
  shows "\<exists>r p' cs'. expand_buddy env sz p cs = Some (r, p', cs') \<and> later p p' \<and>
    (case r of None \<Rightarrow> core p' cs' A R | Some a \<Rightarrow> core p' cs' (a # A) R \<and> sz \<le> unat (pa_actual_size a))"
proof -
  obtain r p1 cs1 where cs: "create_segment env p cs = Some (r, p1, cs1)"
    "case r of Inl e \<Rightarrow> p1 = p \<and> core p cs1 A R | Inr (idx, sg) \<Rightarrow> created p cs1 R idx sg p1"
    using create_segment_spec [OF c] by blast
  show ?thesis
  proof (cases r)
    case (Inl e)
    then show ?thesis using cs by (simp add: expand_buddy_def)
  next
    case (Inr x)
    obtain idx sg where x: "x = (idx, sg)" by force
    with Inr cs have cr: "created p cs1 R idx sg p1" by simp
    note crd = cr [unfolded created_def]
    have reach: "buddy_reach (sg_allocator sg) []" and none: "segment p idx = None"
      and cap: "sg_size sg = ba_data_size (sg_allocator sg)"
      and lay: "checked_layout (pc_segment_size (mp_config p)) (pc_min_block_size (mp_config p)) =
        Some \<lparr>bl_data_size = sg_size sg, bl_total_size = sg_size sg\<rparr>" and len: "idx < length (mp_generations p1)"
      using crd by blast+
    have "sz \<le> ba_data_size (sg_allocator sg)"
      using sz lay cap by (auto simp: buddy_block_limit_def Let_def split: if_splits)
    then obtain a b where ab: "buddy_alloc (sg_allocator sg) sz = Some (Some a, b)"
      using bb.acquire_fresh [OF reach sz(1)] by blast
    have tab: "bb.table_ok (allocators p) (buddy_live A)" using c by (simp add: core_def)
    have inst: "bb.table_ok ((allocators p)(idx \<mapsto> sg_allocator sg)) (buddy_live A)"
      using none by (intro bb.table_install [OF tab _ reach]) (simp add: allocators_def)
    have tab': "bb.table_ok ((allocators p)(idx \<mapsto> b)) (map (Pair idx) [a] @ buddy_live A)"
      using bb.table_acquire [OF inst _ ab, of idx] by simp
    have pl: "ba_data_size b = ba_data_size (sg_allocator sg)" "sz \<le> unat (al_actual_size a)"
      using bb.acquire_placed [OF reach ab] by (auto simp: card_alloc_range)
    obtain p2 where p2: "install_segment p1 idx (sg\<lparr>sg_allocator := b\<rparr>) = Some p2"
      "core p2 cs1 (map (buddy_allocation idx (mp_generations p1 ! idx)) [a] @ A) R" "later p p2"
      "mp_generations p2 = mp_generations p1"
      using install_created [OF c cr pl(1) tab'] by blast
    let ?q = "p2\<lparr>mp_counters := (mp_counters p2)\<lparr>tc_buddy_expanded_allocs :=
                     saturating_add (tc_buddy_expanded_allocs (mp_counters p2)) 1\<rparr>\<rparr>"
    let ?a = "buddy_allocation idx (mp_generations p1 ! idx) a"
    have same: "same_backings p2 ?q" by (simp add: same_backings_def)
    have "expand_buddy env sz p cs = Some (Some ?a, ?q, cs1)"
      using cs(1) Inr x ab p2(1,4) len by (simp add: expand_buddy_def)
    moreover have "later p ?q" using p2(3) same_backings_later [OF same] later_trans by blast
    moreover have "core ?q cs1 (?a # A) R" using same_backings_core [OF same p2(2)] by simp
    ultimately show ?thesis using pl(2) by (intro exI [of _ "Some ?a"] exI [of _ ?q] exI [of _ cs1]) simp
  qed
qed

end
