(* ===== verification/Pool_Handles.thy ===== *)
theory Pool_Handles
  imports Pool_Proofs
begin

text \<open>
  Dedicated segments, the three allocation tiers, release, prewarming, and the handles the callers hold: every
  operation of the memory pool keeps the invariant and returns.
\<close>

section \<open>Dedicated segments\<close>

definition put_dedicated :: "u32 \<Rightarrow> dedicated_entry option \<Rightarrow> u32 list \<Rightarrow> mem_pool \<Rightarrow> mem_pool" where
  "put_dedicated i e gens p = p\<lparr>mp_dedicated := (mp_dedicated p)(i := e), mp_dedicated_generations := gens\<rparr>"

lemma put_dedicated_fields [simp]:
  "mp_config (put_dedicated i e gens p) = mp_config p" "mp_incarnation (put_dedicated i e gens p) = mp_incarnation p"
  "mp_generations (put_dedicated i e gens p) = mp_generations p"
  "mp_dedicated (put_dedicated i e gens p) = (mp_dedicated p)(i := e)"
  "mp_dedicated_generations (put_dedicated i e gens p) = gens" "segment (put_dedicated i e gens p) = segment p"
  "allocators (put_dedicated i e gens p) = allocators p" "seg_guard (put_dedicated i e gens p) = seg_guard p"
  by (simp_all add: put_dedicated_def segment_def allocators_def seg_guard_def fun_eq_iff)

lemma put_dedicated_parts:
  assumes "shape p" "length gens \<le> pc_max_dedicated_segments (mp_config p)"
  shows "shape (put_dedicated i e gens p)" "segs_ok (put_dedicated i e gens p) = segs_ok p"
    "gens_ok (put_dedicated i e gens p) A = gens_ok p A"
    "unat i < pc_max_dedicated_segments (mp_config p) \<Longrightarrow>
       gsum (ded_guard (put_dedicated i e gens p)) (pc_max_dedicated_segments (mp_config p)) =
       gsum ((ded_guard p)(unat i := Option.bind e dn_budget_guard)) (pc_max_dedicated_segments (mp_config p))"
proof -
  show "shape (put_dedicated i e gens p)" using assms by (simp add: shape_def put_dedicated_def)
  show "segs_ok (put_dedicated i e gens p) = segs_ok p" by (simp add: segs_ok_def seg_ok_def)
  show "gens_ok (put_dedicated i e gens p) A = gens_ok p A" by (simp add: gens_ok_def)
  have "ded_guard (put_dedicated i e gens p) j = ((ded_guard p)(unat i := Option.bind e dn_budget_guard)) j"
    if "j < pc_max_dedicated_segments (mp_config p)" for j
  proof -
    have "j < 65536" using that shape_bounds(3) [OF assms(1)] by linarith
    then have "word_of_nat j = i \<longleftrightarrow> j = unat i" using unat_index [of j] by auto
    then show ?thesis by (auto simp: ded_guard_def)
  qed
  then show "gsum (ded_guard (put_dedicated i e gens p)) (pc_max_dedicated_segments (mp_config p)) =
       gsum ((ded_guard p)(unat i := Option.bind e dn_budget_guard)) (pc_max_dedicated_segments (mp_config p))"
    by (simp add: gsum_def)
qed

lemma mapped_put_dedicated:
  "mapped (put_dedicated i e gens p) d j = (if d \<and> j = unat i then map_option dn_generation e else mapped p d j)"
proof -
  have "word_of_nat j = i \<longleftrightarrow> j = unat i" if "j < 2 ^ 32"
  proof -
    have "unat (word_of_nat j :: u32) = j" using that by (simp add: unat_of_nat take_bit_eq_mod)
    then show ?thesis by auto
  qed
  then show ?thesis using unat_bound [of i] by (auto simp: mapped_def segment_generation_def)
qed

lemma dedicated_live_Cons:
  "dedicated_live j (dedicated_allocation i e # A) = (if j = i then [dedicated_allocation i e] else []) @ dedicated_live j A"
  "buddy_live (dedicated_allocation i e # A) = buddy_live A"
  by (simp_all add: dedicated_live_def buddy_live_def dedicated_allocation_def)

lemma core_put_dedicated:
  assumes c: "core p cs A R" and i: "mp_dedicated p i = None" "unat i < pc_max_dedicated_segments (mp_config p)"
    and gens: "unat i < length gens" "length (mp_dedicated_generations p) \<le> length gens"
      "length gens \<le> pc_max_dedicated_segments (mp_config p)"
      "slot_generation gens = (slot_generation (mp_dedicated_generations p))(unat i := gens ! unat i)"
      "unat (gens ! unat i) = high p True (unat i) + 1"
    and e: "dn_generation e = gens ! unat i" "dn_budget_guard e = Some (Shm, word_of_nat (dn_size e))" "dn_size e \<le> u32_max"
    and bal: "mb.balanced cs1 (add_mset (Shm, word_of_nat (dn_size e)) (backing_guards p + R))"
  shows "core (put_dedicated i (Some e) gens p) cs1 (dedicated_allocation i e # A) R"
    "later p (put_dedicated i (Some e) gens p)"
proof -
  let ?q = "put_dedicated i (Some e) gens p"
  have c': "shape p" "segs_ok p" "deds_ok p A" "gens_ok p A" "bb.table_ok (allocators p) (buddy_live A)"
    using c by (auto simp: core_def)
  note pp = put_dedicated_parts [OF c'(1) gens(3), of i "Some e"]
  have "ded_ok ?q j e'" if "mp_dedicated ?q j = Some e'" for j e'
  proof (cases "j = i")
    case True
    then show ?thesis using that e gens(1,5) by (auto simp: ded_ok_def)
  next
    case False
    then have j: "mp_dedicated p j = Some e'" "ded_ok p j e'" using that c'(3) by (auto simp: deds_ok_def)
    have "unat j \<noteq> unat i" using False word_unat_eq_iff by blast
    then have "gens ! unat j = mp_dedicated_generations p ! unat j"
      using j(2) gens(2,4) slot_generation_nth [of "unat j" gens]
        slot_generation_nth [of "unat j" "mp_dedicated_generations p"] by (simp add: ded_ok_def)
    then show ?thesis using j(2) gens(2) by (auto simp: ded_ok_def)
  qed
  then have "deds_ok ?q (dedicated_allocation i e # A)"
    using c'(3) i(1) by (simp add: deds_ok_def dedicated_live_Cons(1))
  moreover have "(ded_guard p) (unat i) = None" by (simp add: ded_guard_def i(1))
  then have "backing_guards ?q = add_mset (Shm, word_of_nat (dn_size e)) (backing_guards p)"
    using pp(4) [OF i(2)] gsum_fill [OF i(2), of "ded_guard p"] e(2) by (simp add: backing_guards_def)
  moreover have "gens_ok p (dedicated_allocation i e # A)" using c'(4) by (simp add: gens_ok_def dedicated_allocation_def)
  ultimately show "core ?q cs1 (dedicated_allocation i e # A) R"
    using pp(1,2,3) c' bal by (simp add: core_def dedicated_live_Cons)
  have h: "high ?q d j = (if d \<and> j = unat i then high p d j + 1 else high p d j)" for d j
    using gens(4,5) by (simp add: high_def)
  show "later p ?q" using gens(5) e(1) by (auto simp: later_def h mapped_put_dedicated)
qed

lemma core_drop_dedicated:
  assumes c: "core p cs A R" and i: "mp_dedicated p i = Some e"
  shows "\<exists>cs'. drop_reservation (dn_budget_guard e) cs = Some cs' \<and>
    core (put_dedicated i None (mp_dedicated_generations p) p) cs' (remove1 (dedicated_allocation i e) A) R \<and>
    later p (put_dedicated i None (mp_dedicated_generations p) p)"
proof -
  let ?q = "put_dedicated i None (mp_dedicated_generations p) p" and ?a = "dedicated_allocation i e"
  have c': "shape p" "segs_ok p" "deds_ok p A" "gens_ok p A" "bb.table_ok (allocators p) (buddy_live A)"
    "mb.balanced cs (backing_guards p + R)" using c by (auto simp: core_def)
  have len: "length (mp_dedicated_generations p) \<le> pc_max_dedicated_segments (mp_config p)" using c'(1) by (simp add: shape_def)
  have e: "ded_ok p i e" "dedicated_live i A = [?a]" using c'(3) i by (auto simp: deds_ok_def)
  then have g: "dn_budget_guard e = Some (Shm, word_of_nat (dn_size e))" and
    lt: "unat i < pc_max_dedicated_segments (mp_config p)" using len by (auto simp: ded_ok_def)
  have "ded_guard p (unat i) = Some (Shm, word_of_nat (dn_size e))" by (simp add: ded_guard_def i g)
  then have guards: "backing_guards p = add_mset (Shm, word_of_nat (dn_size e)) (backing_guards ?q)"
    using put_dedicated_parts(4) [OF c'(1) len lt, of None] gsum_clear [OF lt] by (simp add: backing_guards_def)
  then obtain cs' where cs': "budget_release cs (Shm, word_of_nat (dn_size e)) = Some cs'"
    "mb.balanced cs' (backing_guards ?q + R)" using release_added [of cs _ "backing_guards ?q + R"] c'(6) by auto
  have dl: "dedicated_live j (remove1 ?a A) = (if j = i then [] else dedicated_live j A)" for j
  proof (cases "j = i")
    case True
    then show ?thesis using e(2) filter_remove1_same [of "\<lambda>a. pa_is_dedicated a \<and> pa_seg_idx a = i" ?a A]
      by (simp add: dedicated_live_def) (simp add: dedicated_allocation_def)
  next
    case False
    then show ?thesis by (simp add: dedicated_live_def filter_remove1_other dedicated_allocation_def)
  qed
  have "ded_ok ?q = ded_ok p" by (simp add: ded_ok_def fun_eq_iff)
  then have "deds_ok ?q (remove1 ?a A)" using c'(3) dl by (simp add: deds_ok_def)
  moreover have "buddy_live (remove1 ?a A) = buddy_live A"
    by (simp add: buddy_live_def filter_remove1_other dedicated_allocation_def)
  moreover have "gens_ok p (remove1 ?a A)" using c'(4) set_remove1_subset [of ?a A] by (auto simp: gens_ok_def)
  ultimately have "core ?q cs' (remove1 ?a A) R"
    using put_dedicated_parts(1-3) [OF c'(1) len, of i None] c' cs'(2) by (simp add: core_def)
  moreover have "later p ?q" by (auto simp: later_def high_def mapped_put_dedicated)
  ultimately show ?thesis using cs'(1) g by (simp add: drop_reservation_def)
qed

lemma advance_dedicated:
  assumes "unat g = unat (slot_generation gens idx) + 1" "idx < n" "length gens \<le> n"
  shows "\<exists>gens'. upd_run (vec_resize gens (max (length gens) (idx + 1)) 0) idx g = Some gens' \<and>
    idx < length gens' \<and> length gens \<le> length gens' \<and> length gens' \<le> n \<and>
    slot_generation gens' = (slot_generation gens)(idx := gens' ! idx) \<and> gens' ! idx = g"
  using assms by (simp add: slot_generation_upd slot_generation_resize)

lemma pad_ge: "0 < m \<Longrightarrow> a \<le> a + m - a mod (m :: nat)"
  using mod_less_divisor [of m a] by linarith

lemma required_shm_size_bounds:
  "required_shm_size env sz = Some n \<Longrightarrow> 0 < sz \<and> sz \<le> n \<and> n \<le> isize_max"
  by (auto simp: required_shm_size_def round_payload_to_page_def Let_def pad_ge split: option.splits if_splits)

lemma unat_u32: "n \<le> u32_max \<Longrightarrow> unat (word_of_nat n :: u32) = n"
  by (simp add: unat_of_nat take_bit_eq_mod u32_max_def)

definition tier_post :: "mem_pool \<Rightarrow> pool_allocation list \<Rightarrow> budget_reservation multiset \<Rightarrow> usize \<Rightarrow>
    (backing_error + pool_allocation) \<times> mem_pool \<times> budget_cells \<Rightarrow> bool" where
  "tier_post p A R sz res \<longleftrightarrow> (case res of (r, p', cs') \<Rightarrow> later p p' \<and>
     (case r of Inl e \<Rightarrow> core p' cs' A R
      | Inr a \<Rightarrow> core p' cs' (a # A) R \<and> sz \<le> unat (pa_actual_size a)))"

lemma alloc_dedicated_spec:
  assumes c: "core p cs A R"
  shows "\<exists>res. alloc_dedicated env sz p cs = Some res \<and> tier_post p A R sz res"
proof (cases "find_slot (\<lambda>idx. mp_dedicated p (word_of_nat idx) \<noteq> None) (mp_dedicated_generations p)
             [0..<pc_max_dedicated_segments (mp_config p)]")
  case None
  then show ?thesis using c by (simp add: alloc_dedicated_def tier_post_def)
next
  case (Some slot)
  then obtain idx g where slot: "slot = (idx, g)" "idx < pc_max_dedicated_segments (mp_config p)"
    "mp_dedicated p (word_of_nat idx) = None" "unat g = unat (slot_generation (mp_dedicated_generations p) idx) + 1"
    using find_slot_Some by (cases slot) fastforce
  have c': "shape p" "mb.balanced cs (backing_guards p + R)" "mp_has_budget p" using c by (auto simp: core_def shape_def)
  have u: "unat (word_of_nat idx :: u32) = idx" using slot(2) shape_bounds(3) [OF c'(1)] by (intro unat_index) linarith
  note run = Some slot(1)
  show ?thesis
  proof (cases "os_dedicated_pressure env = None \<and> (\<exists>n. required_shm_size env sz = Some n \<and> n \<le> u32_max)")
    case False
    then show ?thesis using run c
      by (cases "required_shm_size env sz"; cases "os_dedicated_pressure env") (auto simp: alloc_dedicated_def tier_post_def)
  next
    case True
    then obtain n where n: "required_shm_size env sz = Some n" "n \<le> u32_max" and nopress: "os_dedicated_pressure env = None" by blast
    obtain r cs1 where res: "budget_reserve cs Shm (word_of_nat n) = (r, cs1)" by force
    note bal = reserve_balanced [OF c'(2) res]
    note run = run n nopress res c'(3)
    show ?thesis
    proof (cases r)
      case (Inl e)
      then show ?thesis using run bal c by (simp add: alloc_dedicated_def reserve_backing_def tier_post_def core_def)
    next
      case (Inr guard)
      then have guard: "guard = (Shm, word_of_nat n)" "mb.balanced cs1 (add_mset guard (backing_guards p + R))" using bal by auto
      show ?thesis
      proof (cases "os_dedicated_region env")
        case (Inl e)
        obtain cs2 where "budget_release cs1 guard = Some cs2" "mb.balanced cs2 (backing_guards p + R)"
          using release_added [OF guard(2)] by blast
        then show ?thesis using run Inr Inl c
          by (simp add: alloc_dedicated_def reserve_backing_def tier_post_def core_def)
      next
        case (Inr base)
        have "length (mp_dedicated_generations p) \<le> pc_max_dedicated_segments (mp_config p)" using c'(1) by (simp add: shape_def)
        from advance_dedicated [OF slot(4,2) this] obtain gens where
          g: "upd_run (vec_resize (mp_dedicated_generations p) (max (length (mp_dedicated_generations p)) (idx + 1)) 0) idx g = Some gens"
          "idx < length gens" "length (mp_dedicated_generations p) \<le> length gens"
          "length gens \<le> pc_max_dedicated_segments (mp_config p)"
          "slot_generation gens = (slot_generation (mp_dedicated_generations p))(idx := gens ! idx)" "gens ! idx = g" by blast
        let ?i = "word_of_nat idx :: u32"
        let ?e = "\<lparr>dn_base = base, dn_size = n, dn_budget_guard = Some guard, dn_generation = g\<rparr>"
        let ?q = "put_dedicated ?i (Some ?e) gens p"
        let ?q2 = "?q\<lparr>mp_counters := (mp_counters p)\<lparr>tc_dedicated_allocs :=
                                           saturating_add (tc_dedicated_allocs (mp_counters p)) 1\<rparr>\<rparr>"
        have same: "same_backings ?q ?q2" by (simp add: same_backings_def)
        have hi: "unat (gens ! idx) = high p True idx + 1" using slot(4) g(6) by (simp add: high_def)
        have put: "core ?q cs1 (dedicated_allocation ?i ?e # A) R" "later p ?q"
          using core_put_dedicated [of p cs A R ?i gens ?e cs1] c slot g hi guard n(2) u by simp_all
        have al: "alloc_dedicated env sz p cs = Some (Inr (dedicated_allocation ?i ?e), ?q2, cs1)"
          using run Inr \<open>r = _\<close> g(1)
          by (simp add: alloc_dedicated_def reserve_backing_def Let_def put_dedicated_def dedicated_allocation_def)
        have "later p ?q2" using put(2) same_backings_later [OF same] later_trans by blast
        then show ?thesis using al same_backings_core [OF same put(1)] required_shm_size_bounds [OF n(1)] unat_u32 [OF n(2)]
          by (simp add: tier_post_def) (simp add: dedicated_allocation_def)
      qed
    qed
  qed
qed

section \<open>Shared-memory allocation\<close>

lemma tier_post_later: "later p q \<Longrightarrow> tier_post q A R sz res \<Longrightarrow> tier_post p A R sz res"
  using later_trans by (auto simp: tier_post_def)

lemma block_limit_total: "shape p \<Longrightarrow> \<exists>m. buddy_block_limit p = Some m"
  using shape_bounds(5) [of p] by (auto simp: buddy_block_limit_def Let_def)

lemma block_limit_later: "later p q \<Longrightarrow> buddy_block_limit q = buddy_block_limit p"
  by (simp add: buddy_block_limit_def later_config)

lemma alloc_shm_spec:
  assumes c: "core p cs A R" and sz: "0 < sz"
  shows "\<exists>res. alloc_shm env sz p cs = Some res \<and> tier_post p A R sz res"
proof -
  obtain m where m: "buddy_block_limit p = Some m" using block_limit_total c by (auto simp: core_def)
  show ?thesis
  proof (cases "0 < m \<and> sz \<le> m")
    case False
    then show ?thesis using alloc_dedicated_spec [OF c] m by (simp add: alloc_shm_def) blast
  next
    case True
    obtain r p1 where r: "try_buddy_reuse sz p = Some (r, p1)" "later p p1"
      "case r of None \<Rightarrow> core p1 cs A R | Some a \<Rightarrow> core p1 cs (a # A) R \<and> sz \<le> unat (pa_actual_size a)"
      using reuse_spec [OF c] by blast
    show ?thesis
    proof (cases r)
      case (Some a)
      then show ?thesis using r m True by (simp add: alloc_shm_def tier_post_def)
    next
      case None
      then have "core p1 cs A R" using r(3) by simp
      then obtain k p2 cs2 where g: "gc_buddy (os_now env) p1 cs = Some (k, p2, cs2)" "core p2 cs2 A R" "later p1 p2"
        using gc_buddy_spec by blast
      have l2: "later p p2" using r(2) g(3) later_trans by blast
      have m2: "buddy_block_limit p2 = Some m" using block_limit_later [OF l2] m by simp
      obtain x p3 cs3 where x: "expand_buddy env sz p2 cs2 = Some (x, p3, cs3)" "later p2 p3"
        "case x of None \<Rightarrow> core p3 cs3 A R | Some a \<Rightarrow> core p3 cs3 (a # A) R \<and> sz \<le> unat (pa_actual_size a)"
        using expand_spec [OF g(2) sz m2] True by blast
      have l3: "later p p3" using l2 x(2) later_trans by blast
      show ?thesis
      proof (cases x)
        case (Some a)
        then show ?thesis using r(1) None g(1) x l3 m True by (simp add: alloc_shm_def tier_post_def)
      next
        case None
        then have "core p3 cs3 A R" using x(3) by simp
        from alloc_dedicated_spec [OF this] obtain res where
          "alloc_dedicated env sz p3 cs3 = Some res" "tier_post p3 A R sz res" by blast
        then show ?thesis using tier_post_later [OF l3] r(1) \<open>r = None\<close> g(1) x(1) None m True by (simp add: alloc_shm_def)
      qed
    qed
  qed
qed

section \<open>Release\<close>

lemma distinct_by_key:
  assumes "\<And>i. distinct (filter (\<lambda>x. key x = i) xs)" shows "distinct xs"
  using assms
proof (induction xs)
  case (Cons x xs)
  have "distinct (filter (\<lambda>y. key y = i) xs)" for i using Cons.prems [of i] by (auto split: if_splits)
  moreover have "x \<notin> set xs" using Cons.prems [of "key x"] by auto
  ultimately show ?case using Cons.IH by simp
qed simp

lemma buddy_key_inj:
  assumes "gens_ok p A" "a \<in> set A" "b \<in> set A" "\<not> pa_is_dedicated a" "\<not> pa_is_dedicated b"
    "pa_seg_idx a = pa_seg_idx b" "alloc_of a = alloc_of b"
  shows "a = b"
  using assms by (simp add: gens_ok_def alloc_of_def)

lemma core_distinct:
  assumes "core p cs A R" shows "distinct A"
proof (rule distinct_by_key [of "\<lambda>a. if pa_is_dedicated a then Some (pa_seg_idx a) else None"])
  fix k :: "u32 option"
  have c: "deds_ok p A" "bb.table_ok (allocators p) (buddy_live A)" using assms by (auto simp: core_def)
  show "distinct (filter (\<lambda>a. (if pa_is_dedicated a then Some (pa_seg_idx a) else None) = k) A)"
  proof (cases k)
    case None
    have "distinct (filter (\<lambda>a. \<not> pa_is_dedicated a) A)"
      using bb.table_distinct [OF c(2)] by (simp add: buddy_live_def distinct_map)
    then show ?thesis using None by (simp add: if_distrib [of "\<lambda>x. x = None"] cong: if_cong)
  next
    case (Some i)
    have "distinct (dedicated_live i A)" using c(1) by (cases "mp_dedicated p i") (auto simp: deds_ok_def)
    moreover have "(\<lambda>a :: pool_allocation. (if pa_is_dedicated a then Some (pa_seg_idx a) else None) = k) =
        (\<lambda>a. pa_is_dedicated a \<and> pa_seg_idx a = i)" using Some by auto
    ultimately show ?thesis by (simp only: dedicated_live_def)
  qed
qed

lemma buddy_live_remove:
  assumes "gens_ok p A" "a \<in> set A" "\<not> pa_is_dedicated a"
  shows "buddy_live (remove1 a A) = remove1 (unat (pa_seg_idx a), alloc_of a) (buddy_live A)"
proof -
  let ?N = "filter (\<lambda>a. \<not> pa_is_dedicated a) A" and ?f = "\<lambda>a. (unat (pa_seg_idx a), alloc_of a)"
  have "inj_on ?f (insert a (set ?N))"
  proof (rule inj_onI)
    fix x y assume "x \<in> insert a (set ?N)" "y \<in> insert a (set ?N)" "?f x = ?f y"
    then show "x = y" using buddy_key_inj [OF assms(1), of x y] assms(2,3) by (auto simp: word_unat_eq_iff)
  qed
  then have "map ?f (remove1 a ?N) = remove1 (?f a) (map ?f ?N)" by (rule map_remove1_inj)
  then show ?thesis using assms(3) by (simp add: buddy_live_def filter_remove1_same)
qed

lemma live_validates:
  assumes "core p cs A R" "a \<in> set A"
  shows "validate_generation p (pa_seg_idx a) (pa_generation a) (pa_is_dedicated a) = Inr ()"
proof (cases "pa_is_dedicated a")
  case True
  have c: "shape p" "deds_ok p A" using assms(1) by (auto simp: core_def)
  have "a \<in> set (dedicated_live (pa_seg_idx a) A)" using True assms(2) by (simp add: dedicated_live_def)
  then obtain e where e: "mp_dedicated p (pa_seg_idx a) = Some e" "ded_ok p (pa_seg_idx a) e"
    "a = dedicated_allocation (pa_seg_idx a) e"
    using c(2) by (cases "mp_dedicated p (pa_seg_idx a)") (auto simp: deds_ok_def)
  then have "pa_generation a = dn_generation e" by (metis dedicated_allocation_def pool_allocation.select_convs(2))
  then show ?thesis using True e(1,2) c(1) shape_bounds(3) [OF c(1)]
    by (auto simp: validate_generation_def ded_ok_def shape_def)
next
  case False
  then obtain sg where sg: "segment p (unat (pa_seg_idx a)) = Some sg" using live_index [OF assms] by blast
  have c: "shape p" "segs_ok p" "gens_ok p A" using assms(1) by (auto simp: core_def)
  note g = guard_of_segment [OF assms(1) sg]
  have "seg_ok p (unat (pa_seg_idx a)) sg" using c(2) sg unfolding segs_ok_def by blast
  then show ?thesis using False sg g(1,4) shape_bounds(2) [OF c(1)] c(3) assms(2)
    by (auto simp: validate_generation_def segment_generation_def seg_ok_def gens_ok_def)
qed

lemma free_buddy_spec:
  assumes c: "core p cs A R" and a: "a \<in> set A" "\<not> pa_is_dedicated a"
  shows "\<exists>p' cs'. free_buddy now a p cs = Some (p', cs') \<and> core p' cs' (remove1 a A) R \<and> later p p'"
proof -
  let ?i = "unat (pa_seg_idx a)"
  obtain sg where sg: "segment p ?i = Some sg" using live_index [OF c a] by blast
  note g = guard_of_segment [OF c sg]
  have c': "gens_ok p A" "bb.table_ok (allocators p) (buddy_live A)" using c by (auto simp: core_def)
  have mem: "(?i, alloc_of a) \<in> set (buddy_live A)" using a by (force simp: buddy_live_def)
  have slot: "allocators p ?i = Some (sg_allocator sg)" by (simp add: allocators_def sg)
  obtain b where b: "buddy_free (sg_allocator sg) (pa_offset a) (pa_level a) = Some b"
    "ba_data_size b = ba_data_size (sg_allocator sg)"
    "bb.table_ok ((allocators p)(?i \<mapsto> b)) (buddy_live (remove1 a A))"
    using bb.table_release [OF c'(2) slot mem] buddy_live_remove [OF c'(1) a] by (auto simp: alloc_of_def)
  have dl: "dedicated_live j (remove1 a A) = dedicated_live j A" for j
    using a(2) by (simp add: dedicated_live_def filter_remove1_other)
  have gens: "gens_ok p (remove1 a A)" using c'(1) set_remove1_subset [of a A] by (auto simp: gens_ok_def)
  define q where "q = put_segment ?i (Some (sg\<lparr>sg_allocator := b\<rparr>)) p"
  have q: "core q cs (remove1 a A) R" "later p q"
    using core_put_allocator [OF c sg b(2,3) dl gens] by (simp_all add: q_def)
  have sq: "segment q ?i = Some (sg\<lparr>sg_allocator := b\<rparr>)" using put_segment_views(1) [OF g(2)] by (simp add: q_def)
  have run: "free_buddy now a p cs =
      (if alloc_count b = 0 then
         (if mp_retain_idle_backing q then
            do { idle \<leftarrow> upd_run (mp_idle_since q) ?i (Some now); Some (q\<lparr>mp_idle_since := idle\<rparr>, cs) }
          else take_segment ?i (sg\<lparr>sg_allocator := b\<rparr>) q cs)
       else Some (q, cs))"
    using sg b(1) by (simp add: free_buddy_def Let_def q_def put_segment_def)
  show ?thesis
  proof (cases "alloc_count b = 0 \<and> \<not> mp_retain_idle_backing q")
    case True
    then obtain p' cs' where "take_segment ?i (sg\<lparr>sg_allocator := b\<rparr>) q cs = Some (p', cs')"
      "core p' cs' (remove1 a A) R" "later q p'" using take_segment_spec [OF q(1) sq] by auto
    then show ?thesis using run True q(2) later_trans by auto
  next
    case False
    let ?q2 = "q\<lparr>mp_idle_since := (mp_idle_since q)[?i := Some now]\<rparr>"
    have same: "same_backings q ?q2" by (simp add: same_backings_def)
    have "?i < length (mp_idle_since q)" using g(3) by (simp add: q_def)
    moreover have "later p ?q2" using q(2) same_backings_later [OF same] later_trans by blast
    ultimately show ?thesis using run False q same_backings_core [OF same q(1)] by auto
  qed
qed

lemma pool_free_spec:
  assumes c: "core p cs A R" and a: "a \<in> set A"
  shows "\<exists>p' cs'. pool_free now a p cs = Some (Inr (), p', cs') \<and> core p' cs' (remove1 a A) R \<and> later p p'"
proof -
  have np: "\<not> mp_is_peer p" using c by (simp add: core_def shape_def)
  note v = live_validates [OF c a]
  show ?thesis
  proof (cases "pa_is_dedicated a")
    case False
    then show ?thesis using free_buddy_spec [OF c a False, of now] np v by (auto simp: pool_free_def)
  next
    case True
    have d: "deds_ok p A" using c by (simp add: core_def)
    have "a \<in> set (dedicated_live (pa_seg_idx a) A)" using True a by (simp add: dedicated_live_def)
    then obtain e where e: "mp_dedicated p (pa_seg_idx a) = Some e" "a = dedicated_allocation (pa_seg_idx a) e"
      using d by (cases "mp_dedicated p (pa_seg_idx a)") (auto simp: deds_ok_def)
    from core_drop_dedicated [OF c e(1)] obtain cs' where cs': "drop_reservation (dn_budget_guard e) cs = Some cs'"
      "core (put_dedicated (pa_seg_idx a) None (mp_dedicated_generations p) p) cs'
         (remove1 (dedicated_allocation (pa_seg_idx a) e) A) R"
      "later p (put_dedicated (pa_seg_idx a) None (mp_dedicated_generations p) p)" by blast
    moreover have "p\<lparr>mp_dedicated := (mp_dedicated p)(pa_seg_idx a := None)\<rparr> =
      put_dedicated (pa_seg_idx a) None (mp_dedicated_generations p) p" by (simp add: put_dedicated_def)
    ultimately show ?thesis using np v True e by (simp add: pool_free_def)
  qed
qed

section \<open>Prewarming\<close>

lemma segment_count_card: "segment_count p = card {i. segment p i \<noteq> None}"
proof -
  have "{i. segment p i \<noteq> None} = {i. i < length (mp_segments p) \<and> mp_segments p ! i \<noteq> None}"
    by (auto simp: segment_def)
  then show ?thesis by (simp add: segment_count_def length_filter_conv_card)
qed

lemma segment_finite: "finite {i. segment p i \<noteq> None}"
  by (rule finite_subset [of _ "{..<length (mp_segments p)}"]) (auto simp: segment_def split: if_splits)

lemma segment_count_fill:
  assumes "segment p i = None" "segment q = (segment p)(i \<mapsto> sg)"
  shows "segment_count q = segment_count p + 1"
proof -
  have "{j. segment q j \<noteq> None} = insert i {j. segment p j \<noteq> None}" using assms(2) by auto
  then show ?thesis using assms(1) segment_finite [of p] by (simp add: segment_count_card)
qed

lemma segment_count_le: "shape p \<Longrightarrow> segment_count p \<le> pc_max_segments (mp_config p)"
  unfolding segment_count_def by (rule le_trans [OF length_filter_le shape_bounds(1)])

lemma install_empty:
  assumes c: "core p cs A R" and cr: "created p cs1 R idx sg p1"
  shows "\<exists>p2. install_segment p1 idx sg = Some p2 \<and> core p2 cs1 A R \<and> later p p2 \<and>
    segment_count p2 = segment_count p + 1"
proof -
  have reach: "buddy_reach (sg_allocator sg) []" and none: "segment p idx = None" using cr by (auto simp: created_def)
  have tab: "bb.table_ok (allocators p) (buddy_live A)" using c by (simp add: core_def)
  have inst: "bb.table_ok ((allocators p)(idx \<mapsto> sg_allocator sg)) (map (Pair idx) [] @ buddy_live A)"
    using none bb.table_install [OF tab _ reach, of idx] by (simp add: allocators_def)
  from install_created [OF c cr refl inst] obtain p2 where p2: "install_segment p1 idx sg = Some p2"
    "core p2 cs1 A R" "later p p2" "segment p2 = (segment p)(idx \<mapsto> sg)" by auto
  with segment_count_fill [OF none p2(4)] show ?thesis by blast
qed

lemma ensure_loop_spec:
  assumes "core p cs A R"
  shows "\<exists>r p' cs'. ensure_loop envs wanted p cs = Some (r, p', cs') \<and> core p' cs' A R \<and> later p p' \<and>
    segment_count p \<le> segment_count p' \<and>
    (if r = Inr () then segment_count p' = max wanted (segment_count p) else segment_count p' < wanted)"
  using assms
proof (induction "wanted - segment_count p" arbitrary: p cs envs rule: less_induct)
  case less
  show ?case
  proof (cases "segment_count p < wanted")
    case False
    then show ?thesis using less.prems by (subst ensure_loop.simps) (simp add: max_def)
  next
    case True
    obtain r p1 cs1 where cs: "create_segment (envs 0) p cs = Some (r, p1, cs1)"
      "case r of Inl e \<Rightarrow> p1 = p \<and> core p cs1 A R | Inr (idx, sg) \<Rightarrow> created p cs1 R idx sg p1"
      using create_segment_spec [OF less.prems] by blast
    show ?thesis
    proof (cases r)
      case (Inl e)
      then show ?thesis using cs True by (subst ensure_loop.simps) simp
    next
      case (Inr x)
      obtain idx sg where x: "x = (idx, sg)" by force
      with Inr cs have "created p cs1 R idx sg p1" by simp
      from install_empty [OF less.prems this] obtain p2 where p2: "install_segment p1 idx sg = Some p2"
        "core p2 cs1 A R" "later p p2" "segment_count p2 = segment_count p + 1" by blast
      have "wanted - segment_count p2 < wanted - segment_count p" using p2(4) True by simp
      from less.hyps [OF this p2(2), of "\<lambda>i. envs (Suc i)"] obtain r' p' cs' where
        e: "ensure_loop (\<lambda>i. envs (Suc i)) wanted p2 cs1 = Some (r', p', cs')" "core p' cs' A R" "later p2 p'"
        "segment_count p2 \<le> segment_count p'"
        "if r' = Inr () then segment_count p' = max wanted (segment_count p2) else segment_count p' < wanted" by blast
      have "ensure_loop envs wanted p cs = Some (r', p', cs')"
        using cs(1) True Inr x p2(1) e(1) by (subst ensure_loop.simps) simp
      moreover have "later p p'" using p2(3) e(3) later_trans by blast
      moreover have "max wanted (segment_count p2) = max wanted (segment_count p)" using p2(4) True by simp
      ultimately show ?thesis using e p2(4) by (intro exI [of _ r'] exI [of _ p'] exI [of _ cs']) (simp split: if_splits)
    qed
  qed
qed

lemma ensure_spec:
  assumes "core p cs A R"
  shows "\<exists>r p' cs'. ensure_buddy_segments envs wanted p cs = Some (r, p', cs') \<and> core p' cs' A R \<and> later p p'"
  using ensure_loop_spec [OF assms, of envs wanted] assms by (auto simp: ensure_buddy_segments_def)

section \<open>Handles\<close>

fun file_guard :: "handle_backing \<Rightarrow> budget_reservation option" where
  "file_guard (ShmBacking _ _ _) = None"
| "file_guard (FileSpill g _ _) = g"

definition allocations :: "handle_backing list \<Rightarrow> pool_allocation list" where
  "allocations hs = List.map_filter shm_allocation hs"

definition file_guards :: "handle_backing list \<Rightarrow> budget_reservation multiset" where
  "file_guards hs = mset (List.map_filter file_guard hs)"

definition handle_ok :: "mem_pool \<Rightarrow> handle_backing \<Rightarrow> bool" where
  "handle_ok p h \<longleftrightarrow> (case h of
       ShmBacking a owner n \<Rightarrow> owner = mp_incarnation p \<and> n \<le> unat (pa_actual_size a)
     | FileSpill g _ _ \<Rightarrow> (\<exists>bytes. g = Some (File, bytes)))"

definition pool_inv :: "pool_world \<Rightarrow> bool" where
  "pool_inv w \<longleftrightarrow> core (w_pool w) (w_cells w) (allocations (w_handles w)) (file_guards (w_handles w) + w_others w) \<and>
     (\<forall>h\<in>set (w_handles w). handle_ok (w_pool w) h)"

lemma allocations_simps [simp]:
  "allocations [] = []" "allocations (ShmBacking a owner n # hs) = a # allocations hs"
  "allocations (FileSpill g path n # hs) = allocations hs" "allocations (xs @ ys) = allocations xs @ allocations ys"
  by (simp_all add: allocations_def List.map_filter_def)

lemma file_guards_simps [simp]:
  "file_guards [] = {#}" "file_guards (ShmBacking a owner n # hs) = file_guards hs"
  "file_guards (FileSpill g path n # hs) = opt_mset g + file_guards hs" "file_guards (xs @ ys) = file_guards xs + file_guards ys"
  by (cases g; simp add: file_guards_def List.map_filter_def)+

lemma in_allocations: "a \<in> set (allocations hs) \<longleftrightarrow> (\<exists>h\<in>set hs. shm_allocation h = Some a)"
  by (auto simp: allocations_def List.map_filter_def image_iff)

lemma handle_ok_later: "later p p' \<Longrightarrow> handle_ok p' = handle_ok p"
  by (auto simp: handle_ok_def later_config fun_eq_iff split: handle_backing.splits)

lemma allocations_remove:
  assumes "distinct (allocations hs)" "ShmBacking a owner n \<in> set hs"
  shows "allocations (remove1 (ShmBacking a owner n) hs) = remove1 a (allocations hs)"
  using assms
proof (induction hs)
  case (Cons h hs)
  show ?case
  proof (cases "h = ShmBacking a owner n")
    case False
    then have mem: "ShmBacking a owner n \<in> set hs" using Cons.prems by simp
    then have "a \<in> set (allocations hs)" by (force simp: in_allocations)
    then show ?thesis using Cons.IH Cons.prems(1) mem False by (cases h) auto
  qed simp
qed simp

lemma file_guards_remove:
  "h \<in> set hs \<Longrightarrow> file_guards hs = opt_mset (file_guard h) + file_guards (remove1 h hs)"
proof (induction hs)
  case (Cons x hs)
  then show ?case by (cases "x = h"; cases x) (auto simp: ac_simps)
qed simp

lemma allocations_remove_file: "allocations (remove1 (FileSpill g path n) hs) = allocations hs"
proof (induction hs)
  case (Cons x hs)
  then show ?case by (cases x) auto
qed simp

lemma pool_inv_simps:
  "pool_inv \<lparr>w_pool = p, w_cells = cs, w_handles = hs, w_others = oth\<rparr> \<longleftrightarrow>
     core p cs (allocations hs) (file_guards hs + oth) \<and> (\<forall>h\<in>set hs. handle_ok p h)"
  by (simp add: pool_inv_def)

definition alloc_post :: "mem_pool \<Rightarrow> handle_backing list \<Rightarrow> budget_reservation multiset \<Rightarrow> usize \<Rightarrow>
    (pool_error + handle_backing) \<times> mem_pool \<times> budget_cells \<Rightarrow> bool" where
  "alloc_post p hs oth sz res \<longleftrightarrow> (case res of (r, p', cs') \<Rightarrow> later p p' \<and>
     (case r of
        Inl e \<Rightarrow> pool_inv \<lparr>w_pool = p', w_cells = cs', w_handles = hs, w_others = oth\<rparr>
      | Inr h \<Rightarrow> pool_inv \<lparr>w_pool = p', w_cells = cs', w_handles = h # hs, w_others = oth\<rparr> \<and> handle_len h = sz))"

lemma tier_handle:
  assumes "\<forall>h\<in>set hs. handle_ok p h" "tier_post p (allocations hs) (file_guards hs + oth) sz (r, p', cs')"
  shows "later p p'"
    "r = Inl e \<Longrightarrow> pool_inv \<lparr>w_pool = p', w_cells = cs', w_handles = hs, w_others = oth\<rparr>"
    "r = Inr a \<Longrightarrow> pool_inv \<lparr>w_pool = p', w_cells = cs', w_handles = into_handle a sz (mp_incarnation p') # hs, w_others = oth\<rparr>"
  using assms handle_ok_later [of p p'] by (auto simp: tier_post_def pool_inv_simps into_handle_def) (simp add: handle_ok_def later_config)

lemma reserve_kind: "budget_reserve cs k n = (Inr g, cs') \<Longrightarrow> fst g = k"
  by (cases "fst (cell_try_reserve (get_cell cs k) k n)") (auto simp: budget_reserve_def split: prod.splits)

lemma spill_spec:
  assumes "pool_inv \<lparr>w_pool = p, w_cells = cs, w_handles = hs, w_others = oth\<rparr>"
  shows "\<exists>r p' cs'. alloc_file_spill env sz p cs = Some (r, p', cs') \<and> alloc_post p hs oth sz (map_err into_message r, p', cs')"
proof -
  have c: "core p cs (allocations hs) (file_guards hs + oth)" "\<forall>h\<in>set hs. handle_ok p h"
    using assms by (auto simp: pool_inv_simps)
  have b: "mb.balanced cs (backing_guards p + (file_guards hs + oth))" "mp_has_budget p"
    using c(1) by (auto simp: core_def shape_def)
  obtain r cs1 where res: "budget_reserve cs File (word_of_nat sz) = (r, cs1)" by force
  note bal = reserve_balanced [OF b(1) res]
  show ?thesis
  proof (cases r)
    case (Inl e)
    then show ?thesis using res b c bal
      by (simp add: alloc_file_spill_def reserve_backing_def alloc_post_def map_err_def pool_inv_simps core_def)
  next
    case (Inr guard)
    then have kind: "\<exists>bytes. guard = (File, bytes)" using reserve_kind res by (cases guard) fastforce
    have g: "mb.balanced cs1 (add_mset guard (backing_guards p + (file_guards hs + oth)))" using bal Inr by auto
    show ?thesis
    proof (cases "os_spill_file env")
      case (Inl e)
      obtain cs2 where "budget_release cs1 guard = Some cs2" "mb.balanced cs2 (backing_guards p + (file_guards hs + oth))"
        using release_added [OF g] by blast
      then show ?thesis using res b(2) c Inr Inl
        by (simp add: alloc_file_spill_def reserve_backing_def alloc_post_def map_err_def pool_inv_simps core_def)
    next
      case (Inr path)
      let ?q = "p\<lparr>mp_counters := (mp_counters p)\<lparr>tc_file_spill_allocs :=
                        saturating_add (tc_file_spill_allocs (mp_counters p)) 1\<rparr>\<rparr>"
      have same: "same_backings p ?q" by (simp add: same_backings_def)
      have "core p cs1 (allocations hs) (add_mset guard (file_guards hs) + oth)" using c(1) g by (simp add: core_def)
      then have "core ?q cs1 (allocations hs) (add_mset guard (file_guards hs) + oth)" by (rule same_backings_core [OF same])
      moreover have "handle_ok ?q = handle_ok p" by (rule handle_ok_later [OF same_backings_later [OF same]])
      ultimately have "alloc_post p hs oth sz (Inr (FileSpill (Some guard) path sz), ?q, cs1)"
        using c(2) same_backings_later [OF same] kind by (simp add: alloc_post_def pool_inv_simps) (simp add: handle_ok_def)
      then show ?thesis using res b(2) Inr \<open>r = _\<close> by (simp add: alloc_file_spill_def reserve_backing_def map_err_def)
    qed
  qed
qed

lemma alloc_post_later:
  "later p q \<Longrightarrow> alloc_post q hs oth sz res \<Longrightarrow> alloc_post p hs oth sz res"
  using later_trans by (auto simp: alloc_post_def)

lemma alloc_calls_spec:
  assumes inv: "pool_inv \<lparr>w_pool = p, w_cells = cs, w_handles = hs, w_others = oth\<rparr>"
    and call: "call \<in> {alloc_handle, try_alloc_shm, alloc_shm_handle}"
  shows "\<exists>res. call env sz p cs = Some res \<and> alloc_post p hs oth sz res"
proof -
  have c: "core p cs (allocations hs) (file_guards hs + oth)" "\<forall>h\<in>set hs. handle_ok p h" "\<not> mp_is_peer p"
    using inv by (auto simp: pool_inv_simps core_def shape_def)
  show ?thesis
  proof (cases "sz = 0")
    case True
    then have "call env sz p cs = Some (Inl ZeroBytes, p, cs)"
      using call c(3) by (auto simp: alloc_handle_def try_alloc_shm_def alloc_shm_handle_def pool_alloc_def)
    then show ?thesis using inv by (simp add: alloc_post_def)
  next
    case False
    obtain r p' cs' where r: "alloc_shm env sz p cs = Some (r, p', cs')"
      "tier_post p (allocations hs) (file_guards hs + oth) sz (r, p', cs')"
      using alloc_shm_spec [OF c(1), of sz env] False by auto
    note t = tier_handle [OF c(2) r(2)]
    show ?thesis
    proof (cases r)
      case (Inr a)
      then have "call env sz p cs = Some (Inr (into_handle a sz (mp_incarnation p')), p', cs')"
        using call c(3) r(1) False
        by (auto simp: alloc_handle_def try_alloc_shm_def alloc_shm_handle_def pool_alloc_def map_err_def)
      then show ?thesis using t(1) t(3) [OF Inr] by (simp add: alloc_post_def into_handle_def)
    next
      case (Inl e)
      then have inv': "pool_inv \<lparr>w_pool = p', w_cells = cs', w_handles = hs, w_others = oth\<rparr>" using t(2) by blast
      obtain r2 p2 cs2 where s: "alloc_file_spill env sz p' cs' = Some (r2, p2, cs2)"
        "alloc_post p' hs oth sz (map_err into_message r2, p2, cs2)" using spill_spec [OF inv'] by blast
      show ?thesis
      proof (cases "call = alloc_handle")
        case True
        then show ?thesis using c(3) r(1) Inl False s alloc_post_later [OF t(1) s(2)] by (simp add: alloc_handle_def)
      next
        case False
        then have "\<exists>e'. call env sz p cs = Some (Inl e', p', cs')"
          using call c(3) r(1) Inl \<open>sz \<noteq> 0\<close>
          by (auto simp: try_alloc_shm_def alloc_shm_handle_def pool_alloc_def map_err_def)
        then show ?thesis using t(1) inv' by (auto simp: alloc_post_def)
      qed
    qed
  qed
qed

lemma release_spec:
  assumes inv: "pool_inv \<lparr>w_pool = p, w_cells = cs, w_handles = hs, w_others = oth\<rparr>" and h: "h \<in> set hs"
  shows "\<exists>p' cs'. release_handle now h p cs = Some (p', cs') \<and> later p p' \<and>
    pool_inv \<lparr>w_pool = p', w_cells = cs', w_handles = remove1 h hs, w_others = oth\<rparr>"
proof -
  have c: "core p cs (allocations hs) (file_guards hs + oth)" "\<forall>h\<in>set hs. handle_ok p h" "\<not> mp_is_peer p"
    using inv by (auto simp: pool_inv_simps core_def shape_def)
  have rest: "\<forall>x\<in>set (remove1 h hs). handle_ok p x" using c(2) set_remove1_subset [of h hs] by blast
  show ?thesis
  proof (cases h)
    case (ShmBacking a owner n)
    have own: "validate_handle_owner p h = Inr ()"
      using c(2,3) h ShmBacking by (auto simp: handle_ok_def validate_handle_owner_def)
    have "a \<in> set (allocations hs)" using h ShmBacking by (force simp: in_allocations)
    from pool_free_spec [OF c(1) this, of now] obtain p' cs' where
      f: "pool_free now a p cs = Some (Inr (), p', cs')" "core p' cs' (remove1 a (allocations hs)) (file_guards hs + oth)"
      "later p p'" by blast
    have "allocations (remove1 h hs) = remove1 a (allocations hs)"
      using allocations_remove [OF core_distinct [OF c(1)]] h ShmBacking by simp
    moreover have "file_guards hs = file_guards (remove1 h hs)" using file_guards_remove [OF h] ShmBacking by simp
    ultimately show ?thesis using f own rest ShmBacking handle_ok_later [OF f(3)]
      by (simp add: release_handle_def pool_inv_simps)
  next
    case (FileSpill g path n)
    then obtain r where r: "g = Some r" using bspec [OF c(2) h] by (auto simp: handle_ok_def)
    have "file_guards hs = add_mset r (file_guards (remove1 h hs))" using file_guards_remove [OF h] FileSpill r by simp
    then have "mb.balanced cs (add_mset r (backing_guards p + (file_guards (remove1 h hs) + oth)))"
      using c(1) by (simp add: core_def)
    then obtain cs' where "budget_release cs r = Some cs'"
      "mb.balanced cs' (backing_guards p + (file_guards (remove1 h hs) + oth))" using release_added by blast
    then show ?thesis using c(1) rest FileSpill r allocations_remove_file [of g path n hs]
      by (simp add: release_handle_def validate_handle_owner_def drop_reservation_def pool_inv_simps core_def)
  qed
qed

lemma trim_spec:
  assumes "pool_inv \<lparr>w_pool = p, w_cells = cs, w_handles = before @ h # after, w_others = oth\<rparr>" "trim_to h n = (r, h')"
  shows "pool_inv \<lparr>w_pool = p, w_cells = cs, w_handles = before @ h' # after, w_others = oth\<rparr>"
  using assms by (cases h) (auto simp: trim_to_def pool_inv_simps handle_ok_def split: if_splits)

end
