(* ===== verification/Pool_Props.thy ===== *)
theory Pool_Props
  imports Pool_Handles
begin

text \<open>
  Whole executions of the memory pool: no call panics, live handles never share a byte, a generation that was
  unmapped is never valid again, the budget is charged with exactly what is mapped, the slot bounds hold, and
  prewarming ends.
\<close>

section \<open>Every execution\<close>

lemma pool_step_inv:
  assumes "pool_step w w'" "pool_inv w"
  shows "pool_inv w' \<and> later (w_pool w) (w_pool w')"
  using assms
proof (induction rule: pool_step.induct)
  case (step_alloc call env sz p cs h p' cs' hs oth)
  from alloc_calls_spec [OF step_alloc(3,1), of env sz] step_alloc(2) show ?case by (simp add: alloc_post_def)
next
  case (step_refused call env sz p cs e p' cs' hs oth)
  from alloc_calls_spec [OF step_refused(3,1), of env sz] step_refused(2) show ?case by (simp add: alloc_post_def)
next
  case (step_release h hs now p cs p' cs' oth)
  from release_spec [OF step_release(3,1), of now] step_release(2) show ?case by simp
next
  case (step_trim hs before h after n r h' p cs oth)
  from trim_spec [OF step_trim(3) [unfolded step_trim(1)] step_trim(2)] show ?case by simp
next
  case (step_gc now p cs n p' cs' hs oth)
  then have c: "core p cs (allocations hs) (file_guards hs + oth)" by (simp add: pool_inv_simps)
  from gc_buddy_spec [OF c, of now] step_gc show ?case by (auto simp: pool_inv_simps handle_ok_later)
next
  case (step_retention retain p cs p' cs' hs oth)
  then have c: "core p cs (allocations hs) (file_guards hs + oth)" by (simp add: pool_inv_simps)
  from retention_spec [OF c, of retain] step_retention show ?case by (auto simp: pool_inv_simps handle_ok_later)
next
  case (step_ensure envs wanted p cs r p' cs' hs oth)
  then have c: "core p cs (allocations hs) (file_guards hs + oth)" by (simp add: pool_inv_simps)
  from ensure_spec [OF c, of envs wanted] step_ensure show ?case by (auto simp: pool_inv_simps handle_ok_later)
next
  case (step_other_admit cs kind bytes r cs' p hs oth)
  have b: "mb.balanced cs (backing_guards p + (file_guards hs + oth))"
    using step_other_admit(2) by (simp add: pool_inv_simps core_def)
  from reserve_balanced [OF b step_other_admit(1)] step_other_admit(2) show ?case by (auto simp: pool_inv_simps core_def)
next
  case (step_other_reject cs kind bytes e cs' p hs oth)
  have b: "mb.balanced cs (backing_guards p + (file_guards hs + oth))"
    using step_other_reject(2) by (simp add: pool_inv_simps core_def)
  from reserve_balanced [OF b step_other_reject(1)] step_other_reject(2) show ?case by (simp add: pool_inv_simps core_def)
next
  case (step_other_drop r oth cs cs' p hs)
  obtain oth' where oth: "oth = add_mset r oth'" using step_other_drop(1) by (rule mset_add)
  have b: "mb.balanced cs (add_mset r (backing_guards p + (file_guards hs + oth')))"
    using step_other_drop(3) oth by (simp add: pool_inv_simps core_def)
  from release_added [OF b] step_other_drop(2,3) oth show ?case by (simp add: pool_inv_simps core_def)
qed

lemma new_pool_inv:
  assumes "new_with_prefix_and_budget config prefix pid uuid incarnation = Inr p" "mb.balanced cs oth"
  shows "pool_inv \<lparr>w_pool = p, w_cells = cs, w_handles = [], w_others = oth\<rparr>"
proof -
  have p: "validate_config config = Inr ()" "p = \<lparr>mp_config = config, mp_segments = [], mp_generations = [], mp_is_peer = False,
         mp_dedicated = Map.empty, mp_name_prefix = prefix @ [0x5F] @ pid_hex pid @ uuid, mp_incarnation = incarnation,
         mp_dedicated_generations = [], mp_idle_since = [], mp_retain_idle_backing = True, mp_has_budget = True,
         mp_counters = \<lparr>tc_buddy_reused_allocs = 0, tc_buddy_expanded_allocs = 0,
                        tc_dedicated_allocs = 0, tc_file_spill_allocs = 0\<rparr>\<rparr>"
    using assms(1) by (auto simp: new_with_prefix_and_budget_def with_identity_def and_then_def split: if_splits sum.splits)
  have "segment p i = None" for i by (simp add: p(2) segment_def)
  then have s: "segs_ok p" "allocators p = (\<lambda>i. None)" "seg_guard p = (\<lambda>i. None)"
    by (simp_all add: segs_ok_def allocators_def seg_guard_def fun_eq_iff)
  have "ded_guard p = (\<lambda>i. None)" by (simp add: ded_guard_def fun_eq_iff p(2))
  then have "backing_guards p = {#}" by (simp add: backing_guards_def s gsum_none)
  moreover have "shape p" using p(1) by (simp add: shape_def p(2))
  moreover have "deds_ok p []" by (simp add: deds_ok_def p(2) dedicated_live_def)
  moreover have "bb.table_ok (allocators p) (buddy_live [])"
    by (simp add: bb.table_ok_def s bb.blocks_of_def buddy_live_def)
  ultimately show ?thesis using s assms(2) by (simp add: pool_inv_simps core_def gens_ok_def)
qed

lemma core_mapped_high:
  assumes "core p cs A R" "mapped p d i = Some g" shows "unat g = high p d i"
proof (cases d)
  case True
  then obtain e where e: "mp_dedicated p (word_of_nat i) = Some e" "g = dn_generation e" "i < 2 ^ 32"
    using assms(2) by (auto simp: mapped_def split: if_splits)
  have "ded_ok p (word_of_nat i) e" using assms(1) e(1) by (simp add: core_def deds_ok_def)
  moreover have "unat (word_of_nat i :: u32) = i" using e(3) by (simp add: unat_of_nat take_bit_eq_mod)
  ultimately show ?thesis using e(2) True by (simp add: ded_ok_def high_def slot_generation_def)
next
  case False
  then show ?thesis using assms(2)
    by (auto simp: mapped_def segment_generation_def high_def slot_generation_def split: bind_splits if_splits)
qed

lemma pool_run_inv:
  assumes "pool_run w gone"
  shows "pool_inv w \<and> (\<forall>d i g. (d, i, g) \<in> gone \<longrightarrow> mapped (w_pool w) d i \<noteq> Some g \<and> unat g \<le> high (w_pool w) d i)"
  using assms
proof (induction rule: pool_run.induct)
  case (run_new config prefix incarnation p shm_limit file_limit reassembly_limit cs oth)
  then show ?case using new_pool_inv budget_reach_balanced by blast
next
  case (run_step w gone w')
  have st: "pool_inv w'" "later (w_pool w) (w_pool w')" using pool_step_inv [OF run_step.hyps(2)] run_step.IH by blast+
  have c: "core (w_pool w) (w_cells w) (allocations (w_handles w)) (file_guards (w_handles w) + w_others w)"
    using run_step.IH by (simp add: pool_inv_def)
  have hi: "high (w_pool w) d i \<le> high (w_pool w') d i" for d i using st(2) by (simp add: later_def)
  have new: "mapped (w_pool w') d i = Some g \<Longrightarrow> mapped (w_pool w) d i = Some g \<or> high (w_pool w) d i < unat g" for d i g
    using st(2) by (simp add: later_def)
  have "mapped (w_pool w') d i \<noteq> Some g \<and> unat g \<le> high (w_pool w') d i"
    if "(d, i, g) \<in> gone \<union> {(d, i, g). mapped (w_pool w) d i = Some g \<and> mapped (w_pool w') d i \<noteq> Some g}" for d i g
  proof (cases "(d, i, g) \<in> gone")
    case True
    then have old: "mapped (w_pool w) d i \<noteq> Some g" "unat g \<le> high (w_pool w) d i" using run_step.IH by blast+
    then show ?thesis using new [of d i g] hi [of d i] by fastforce
  next
    case False
    then have "mapped (w_pool w) d i = Some g" "mapped (w_pool w') d i \<noteq> Some g" using that by auto
    then show ?thesis using core_mapped_high [OF c, of d i g] hi [of d i] by simp
  qed
  then show ?case using st(1) by blast
qed

lemma pool_run_core:
  assumes "pool_run w gone"
  shows "core (w_pool w) (w_cells w) (allocations (w_handles w)) (file_guards (w_handles w) + w_others w)"
  using pool_run_inv [OF assms] by (simp add: pool_inv_def)

section \<open>Properties\<close>

definition footprint :: "handle_backing \<Rightarrow> (bool \<times> u32 \<times> nat) set" where
  "footprint h = (case shm_allocation h of
       None \<Rightarrow> {}
     | Some a \<Rightarrow> {(pa_is_dedicated a, pa_seg_idx a, x) | x. x \<in> alloc_range (alloc_of a)})"

definition backing_size :: "mem_pool \<Rightarrow> pool_allocation \<Rightarrow> usize option" where
  "backing_size p a =
     (if pa_is_dedicated a then map_option dn_size (mp_dedicated p (pa_seg_idx a))
      else map_option sg_size (segment p (unat (pa_seg_idx a))))"

lemma in_buddy_live:
  "a \<in> set A \<Longrightarrow> \<not> pa_is_dedicated a \<Longrightarrow> (unat (pa_seg_idx a), alloc_of a) \<in> set (buddy_live A)"
  by (force simp: buddy_live_def)

lemma pool_live_apart:
  assumes c: "core p cs A R" and ab: "a \<in> set A" "b \<in> set A" "a \<noteq> b"
    and same: "pa_is_dedicated a = pa_is_dedicated b" "pa_seg_idx a = pa_seg_idx b"
  shows "alloc_range (alloc_of a) \<inter> alloc_range (alloc_of b) = {}"
proof (cases "pa_is_dedicated a")
  case True
  then have "a \<in> set (dedicated_live (pa_seg_idx a) A)" "b \<in> set (dedicated_live (pa_seg_idx a) A)"
    using ab same by (simp_all add: dedicated_live_def)
  moreover have "deds_ok p A" using c by (simp add: core_def)
  ultimately have "a = b" by (cases "mp_dedicated p (pa_seg_idx a)") (auto simp: deds_ok_def)
  then show ?thesis using ab(3) by simp
next
  case False
  have c': "gens_ok p A" "bb.table_ok (allocators p) (buddy_live A)" using c by (auto simp: core_def)
  have "(unat (pa_seg_idx a), alloc_of a) \<in> set (buddy_live A)" "(unat (pa_seg_idx a), alloc_of b) \<in> set (buddy_live A)"
    using in_buddy_live [OF ab(1)] in_buddy_live [OF ab(2)] same False by auto
  moreover have "alloc_of a \<noteq> alloc_of b" using buddy_key_inj [OF c'(1) ab(1,2)] False same ab(3) by auto
  ultimately show ?thesis by (rule bb.table_apart [OF c'(2)])
qed

lemma live_within:
  assumes c: "core p cs A R" and a: "a \<in> set A"
  shows "\<exists>n. backing_size p a = Some n \<and> alloc_range (alloc_of a) \<subseteq> {..<n}"
proof (cases "pa_is_dedicated a")
  case True
  then have "a \<in> set (dedicated_live (pa_seg_idx a) A)" using a by (simp add: dedicated_live_def)
  moreover have "deds_ok p A" using c by (simp add: core_def)
  ultimately obtain e where e: "mp_dedicated p (pa_seg_idx a) = Some e" "ded_ok p (pa_seg_idx a) e"
    "a = dedicated_allocation (pa_seg_idx a) e"
    by (cases "mp_dedicated p (pa_seg_idx a)") (auto simp: deds_ok_def)
  have "pa_offset a = 0" "pa_actual_size a = word_of_nat (dn_size e)"
    by (subst e(3), simp add: dedicated_allocation_def)+
  then show ?thesis using True e(1,2) unat_u32 [of "dn_size e"]
    by (auto simp: backing_size_def ded_ok_def alloc_range_def alloc_of_def)
next
  case False
  then obtain sg where sg: "segment p (unat (pa_seg_idx a)) = Some sg" using live_index [OF c a] by blast
  have c': "segs_ok p" "bb.table_ok (allocators p) (buddy_live A)" using c by (auto simp: core_def)
  have "seg_ok p (unat (pa_seg_idx a)) sg" using c'(1) sg unfolding segs_ok_def by blast
  then have size: "sg_size sg = ba_data_size (sg_allocator sg)" by (simp add: seg_ok_def)
  have "(unat (pa_seg_idx a), alloc_of a) \<in> set (buddy_live A)" using a False by (force simp: buddy_live_def)
  from bb.table_inside [OF c'(2) this, of "sg_allocator sg"] sg
  have sub: "alloc_range (alloc_of a) \<subseteq> {..<sg_size sg}" by (simp add: allocators_def size)
  then show ?thesis using False sg by (simp add: backing_size_def)
qed

lemma map_filter_apart:
  assumes "distinct (List.map_filter f xs)" "i < j" "j < length xs" "f (xs ! i) = Some a" "f (xs ! j) = Some b"
  shows "a \<noteq> b"
  using assms
proof (induction xs arbitrary: i j)
  case (Cons x xs)
  obtain j' where j: "j = Suc j'" using Cons.prems(2) by (cases j) auto
  have b: "b \<in> set (List.map_filter f xs)"
    using Cons.prems(3,5) j nth_mem [of j' xs] by (force simp: List.map_filter_def image_iff)
  show ?case
  proof (cases i)
    case 0
    then show ?thesis using Cons.prems(1,4) b by (auto simp: List.map_filter_simps)
  next
    case (Suc i')
    have "distinct (List.map_filter f xs)" using Cons.prems(1) by (auto simp: List.map_filter_simps split: option.splits)
    from Cons.IH [OF this, of i' j'] Cons.prems(2-) j Suc show ?thesis by simp
  qed
qed simp

lemma held_handle_valid:
  assumes run: "pool_run w gone" and h: "h \<in> set (w_handles w)"
  shows "validate_handle (w_pool w) h = Inr () \<and>
       (\<forall>a. shm_allocation h = Some a \<longrightarrow> handle_len h \<le> unat (pa_actual_size a) \<and>
          (\<exists>n. backing_size (w_pool w) a = Some n \<and> alloc_range (alloc_of a) \<subseteq> {..<n}))"
proof -
  let ?hs = "w_handles w" and ?p = "w_pool w"
  note c = pool_run_core [OF run]
  have ok: "\<forall>h\<in>set ?hs. handle_ok ?p h" and np: "\<not> mp_is_peer ?p"
    using pool_run_inv [OF run] by (auto simp: pool_inv_def core_def shape_def)
  show ?thesis
  proof (cases h)
    case (ShmBacking a owner n)
    then have a: "a \<in> set (allocations ?hs)" using h by (force simp: in_allocations)
    obtain k where k: "backing_size ?p a = Some k" "alloc_range (alloc_of a) \<subseteq> {..<k}" using live_within [OF c a] by blast
    then show ?thesis using ShmBacking bspec [OF ok h] np live_validates [OF c a]
      by (auto simp: validate_handle_def validate_handle_owner_def handle_ok_def and_then_def pool_data_ptr_def
          backing_size_def split: option.splits if_splits)
  qed (simp add: validate_handle_def validate_handle_owner_def and_then_def)
qed

text \<open>C3: In every execution of a memory pool (its calls in any order, with any answers of the operating
  system, beside any other users of its budget), the shared-memory blocks of the handles its callers hold
  are pairwise disjoint, each lies inside the backing that is mapped under its index and generation, is at
  least as long as the handle, and the pool accepts every one of these handles.\<close>

theorem live_handles_disjoint:
  assumes "pool_run w gone"
  shows "(\<forall>i j. i < j \<and> j < length (w_handles w) \<longrightarrow> footprint (w_handles w ! i) \<inter> footprint (w_handles w ! j) = {}) \<and>
    (\<forall>h\<in>set (w_handles w). validate_handle (w_pool w) h = Inr () \<and>
       (\<forall>a. shm_allocation h = Some a \<longrightarrow> handle_len h \<le> unat (pa_actual_size a) \<and>
          (\<exists>n. backing_size (w_pool w) a = Some n \<and> alloc_range (alloc_of a) \<subseteq> {..<n})))"
proof -
  let ?hs = "w_handles w" and ?p = "w_pool w"
  note c = pool_run_core [OF assms]
  have "footprint (?hs ! i) \<inter> footprint (?hs ! j) = {}" if ij: "i < j" "j < length ?hs" for i j
  proof (cases "shm_allocation (?hs ! i) = None \<or> shm_allocation (?hs ! j) = None")
    case False
    then obtain a b where ab: "shm_allocation (?hs ! i) = Some a" "shm_allocation (?hs ! j) = Some b" by auto
    have "a \<noteq> b" using map_filter_apart [OF core_distinct [OF c, unfolded allocations_def] ij ab] .
    moreover have "a \<in> set (allocations ?hs)" "b \<in> set (allocations ?hs)"
      using ab ij nth_mem [of i ?hs] nth_mem [of j ?hs] by (auto simp: in_allocations)
    ultimately show ?thesis using pool_live_apart [OF c, of a b] ab by (auto simp: footprint_def)
  qed (auto simp: footprint_def)
  moreover note held_handle_valid [OF assms]
  ultimately show ?thesis by blast
qed

text \<open>C4: Once a backing (a buddy or dedicated segment, named by kind, slot and generation) has been
  unmapped, that name is never valid again, whatever happens afterwards, even when the slot is reused: a
  later lookup or release with it is refused as stale and changes nothing.\<close>

theorem unmapped_generation_stale:
  assumes "pool_run w gone" "(pa_is_dedicated a, unat (pa_seg_idx a), pa_generation a) \<in> gone"
  shows "pool_data_ptr (w_pool w) a = Inl StaleGeneration \<and>
    pool_free now a (w_pool w) (w_cells w) = Some (Inl StaleGeneration, w_pool w, w_cells w)"
proof -
  have "\<not> mp_is_peer (w_pool w)" using pool_run_core [OF assms(1)] by (simp add: core_def shape_def)
  moreover have "mapped (w_pool w) (pa_is_dedicated a) (unat (pa_seg_idx a)) \<noteq> Some (pa_generation a)"
    using pool_run_inv [OF assms(1)] assms(2) by blast
  then have "validate_generation (w_pool w) (pa_seg_idx a) (pa_generation a) (pa_is_dedicated a) = Inl StaleGeneration"
    using unat_bound [of "pa_seg_idx a"] by (auto simp: validate_generation_def mapped_def)
  ultimately show ?thesis by (simp add: pool_data_ptr_def pool_free_def and_then_def)
qed

text \<open>C5: No call on a pool panics, in any state it can reach and for any answers of the operating system:
  the three ways to allocate, the release of a held handle, reclamation and a change of retention all
  return; an allocation that succeeds gives a handle of exactly the requested length.\<close>

theorem pool_calls_total:
  assumes "pool_run w gone"
  shows "(\<forall>call\<in>{alloc_handle, try_alloc_shm, alloc_shm_handle}. \<forall>env sz. \<exists>r p' cs'.
        call env sz (w_pool w) (w_cells w) = Some (r, p', cs') \<and> (\<forall>h. r = Inr h \<longrightarrow> handle_len h = sz)) \<and>
    (\<forall>h\<in>set (w_handles w). \<forall>now. release_handle now h (w_pool w) (w_cells w) \<noteq> None) \<and>
    (\<forall>now. gc_buddy now (w_pool w) (w_cells w) \<noteq> None) \<and>
    (\<forall>retain. set_idle_backing_retention retain (w_pool w) (w_cells w) \<noteq> None)"
proof -
  have inv: "pool_inv \<lparr>w_pool = w_pool w, w_cells = w_cells w, w_handles = w_handles w, w_others = w_others w\<rparr>"
    using pool_run_inv [OF assms] by (simp add: pool_inv_def)
  have "\<exists>r p' cs'. call env sz (w_pool w) (w_cells w) = Some (r, p', cs') \<and> (\<forall>h. r = Inr h \<longrightarrow> handle_len h = sz)"
    if "call \<in> {alloc_handle, try_alloc_shm, alloc_shm_handle}" for call env sz
    using alloc_calls_spec [OF inv that, of env sz] by (auto simp: alloc_post_def)
  moreover have "release_handle now h (w_pool w) (w_cells w) \<noteq> None" if "h \<in> set (w_handles w)" for h now
    using release_spec [OF inv that, of now] by auto
  moreover note c = pool_run_core [OF assms]
  have "gc_buddy now (w_pool w) (w_cells w) \<noteq> None" for now using gc_buddy_spec [OF c, of now] by auto
  moreover have "set_idle_backing_retention retain (w_pool w) (w_cells w) \<noteq> None" for retain
    using retention_spec [OF c, of retain] by auto
  ultimately show ?thesis by blast
qed

definition segment_bytes :: "mem_pool \<Rightarrow> nat \<Rightarrow> nat" where
  "segment_bytes p i = (case segment p i of None \<Rightarrow> 0 | Some sg \<Rightarrow> sg_size sg)"

definition dedicated_bytes :: "mem_pool \<Rightarrow> nat \<Rightarrow> nat" where
  "dedicated_bytes p i = (case mp_dedicated p (word_of_nat i) of None \<Rightarrow> 0 | Some e \<Rightarrow> dn_size e)"

lemma total_cost_union: "total_cost cost (A + B) d = total_cost cost A d + total_cost cost B d"
  by (simp add: total_cost_def)

lemma total_cost_gsum:
  "(\<And>i. i < n \<Longrightarrow> total_cost cost (opt_mset (f i)) d = size_of i) \<Longrightarrow>
     total_cost cost (gsum f n) d = (\<Sum>i<n. size_of i)"
proof (induction n)
  case (Suc n)
  then show ?case by (simp add: gsum_def total_cost_union)
qed (simp add: gsum_def)

lemma shm_cost: "n < 2 ^ 64 \<Longrightarrow> reservation_cost (Shm, word_of_nat n) k = (if k = Shm then n else 0)"
  by (simp add: reservation_cost_def unat_u64)

lemma backing_cost:
  assumes c: "core p cs A R"
  shows "total_cost reservation_cost (backing_guards p) k = (if k = Shm then
    (\<Sum>i<pc_max_segments (mp_config p). segment_bytes p i) +
    (\<Sum>i<pc_max_dedicated_segments (mp_config p). dedicated_bytes p i) else 0)"
proof -
  have c': "shape p" "segs_ok p" "deds_ok p A" using c by (auto simp: core_def)
  have "total_cost reservation_cost (opt_mset (seg_guard p i)) k = (if k = Shm then segment_bytes p i else 0)" for i
  proof (cases "segment p i")
    case (Some sg)
    then have "seg_ok p i sg" using c'(2) unfolding segs_ok_def by blast
    then have "sg_size sg < 2 ^ 32" using shape_bounds(5) [OF c'(1)] by (auto simp: seg_ok_def)
    then show ?thesis using Some guard_of_segment(6) [OF c Some] shm_cost [of "sg_size sg" k]
      by (simp add: segment_bytes_def)
  qed (simp add: seg_guard_def segment_bytes_def)
  moreover have "total_cost reservation_cost (opt_mset (ded_guard p i)) k = (if k = Shm then dedicated_bytes p i else 0)" for i
  proof (cases "mp_dedicated p (word_of_nat i)")
    case (Some e)
    then have e: "ded_ok p (word_of_nat i) e" using c'(3) by (simp add: deds_ok_def)
    then have "dn_size e < 2 ^ 64" by (simp add: ded_ok_def u32_max_def)
    then show ?thesis using Some e shm_cost [of "dn_size e" k] by (simp add: ded_guard_def ded_ok_def dedicated_bytes_def)
  qed (simp add: ded_guard_def dedicated_bytes_def)
  ultimately show ?thesis
    by (simp add: backing_guards_def total_cost_union
        total_cost_gsum [where size_of = "\<lambda>i. if k = Shm then segment_bytes p i else 0"]
        total_cost_gsum [where size_of = "\<lambda>i. if k = Shm then dedicated_bytes p i else 0"])
qed

fun spilled_bytes :: "handle_backing \<Rightarrow> nat" where
  "spilled_bytes (ShmBacking _ _ _) = 0"
| "spilled_bytes (FileSpill g _ _) = (case g of None \<Rightarrow> 0 | Some r \<Rightarrow> unat (snd r))"

lemma spill_cost:
  "\<forall>h\<in>set hs. handle_ok p h \<Longrightarrow>
     total_cost reservation_cost (file_guards hs) k = (if k = File then \<Sum>h\<leftarrow>hs. spilled_bytes h else 0)"
proof (induction hs)
  case (Cons h hs)
  then show ?case
    by (cases h) (auto simp: handle_ok_def total_cost_union reservation_cost_def total_cost_def)
qed (simp add: total_cost_def)

text \<open>C6: The shared budget is exact in every execution: the bytes charged for shared memory are the sizes of
  the buddy and dedicated segments that are mapped, plus what the other users of the budget hold; the bytes
  charged for files are the bytes reserved by the spill handles that are held, plus the others'; the bytes charged
  for reassembly are the others' alone; a spill handle holds a reservation of kind File and charges nothing else;
  and no kind passes its limit.\<close>

theorem pool_budget_exact:
  assumes "pool_run w gone"
  shows "budget_used (w_cells w) Shm =
      (\<Sum>i<pc_max_segments (mp_config (w_pool w)). segment_bytes (w_pool w) i) +
      (\<Sum>i<pc_max_dedicated_segments (mp_config (w_pool w)). dedicated_bytes (w_pool w) i) +
      total_cost reservation_cost (w_others w) Shm \<and>
    budget_used (w_cells w) File = (\<Sum>h\<leftarrow>w_handles w. spilled_bytes h) + total_cost reservation_cost (w_others w) File \<and>
    budget_used (w_cells w) Reassembly = total_cost reservation_cost (w_others w) Reassembly \<and>
    (\<forall>g path n. FileSpill g path n \<in> set (w_handles w) \<longrightarrow> (\<exists>bytes. g = Some (File, bytes))) \<and>
    (\<forall>k. budget_used (w_cells w) k \<le> budget_limit (w_cells w) k)"
proof -
  note c = pool_run_core [OF assms]
  have ok: "\<forall>h\<in>set (w_handles w). handle_ok (w_pool w) h" using pool_run_inv [OF assms] by (simp add: pool_inv_def)
  have "mb.balanced (w_cells w) (backing_guards (w_pool w) + (file_guards (w_handles w) + w_others w))"
    using c by (simp add: core_def)
  then have b: "budget_used (w_cells w) k = total_cost reservation_cost (backing_guards (w_pool w)) k +
      (total_cost reservation_cost (file_guards (w_handles w)) k + total_cost reservation_cost (w_others w) k) \<and>
      budget_used (w_cells w) k \<le> budget_limit (w_cells w) k" for k
    unfolding mb.balanced_def total_cost_union by blast
  have used: "budget_used (w_cells w) Shm =
      (\<Sum>i<pc_max_segments (mp_config (w_pool w)). segment_bytes (w_pool w) i) +
      (\<Sum>i<pc_max_dedicated_segments (mp_config (w_pool w)). dedicated_bytes (w_pool w) i) +
      total_cost reservation_cost (w_others w) Shm"
    "budget_used (w_cells w) File = (\<Sum>h\<leftarrow>w_handles w. spilled_bytes h) + total_cost reservation_cost (w_others w) File"
    "budget_used (w_cells w) Reassembly = total_cost reservation_cost (w_others w) Reassembly"
    using b [of Shm] b [of File] b [of Reassembly] by (simp_all add: backing_cost [OF c] spill_cost [OF ok])
  have "\<exists>bytes. g = Some (File, bytes)" if "FileSpill g path n \<in> set (w_handles w)" for g path n
    using bspec [OF ok that] by (auto simp: handle_ok_def)
  then show ?thesis using used b by blast
qed

text \<open>C8: The bounds of the pool hold in every execution: at most \<open>max_segments\<close> buddy segments and
  \<open>max_dedicated_segments\<close> dedicated ones are mapped, each no larger than \<open>u32\<close> coordinates reach, and every
  block a caller holds has an index that fits the 16-bit field of the wire format and a non-zero generation.\<close>

theorem pool_bounds:
  assumes "pool_run w gone"
  shows "segment_count (w_pool w) \<le> pc_max_segments (mp_config (w_pool w)) \<and>
    card (dom (mp_dedicated (w_pool w))) \<le> pc_max_dedicated_segments (mp_config (w_pool w)) \<and>
    (\<forall>i. segment_bytes (w_pool w) i \<le> u32_max \<and> dedicated_bytes (w_pool w) i \<le> u32_max) \<and>
    (\<forall>h\<in>set (w_handles w). \<forall>a. shm_allocation h = Some a \<longrightarrow> unat (pa_seg_idx a) \<le> 65535 \<and> pa_generation a \<noteq> 0)"
proof -
  let ?p = "w_pool w"
  note c = pool_run_core [OF assms]
  have c': "shape ?p" "segs_ok ?p" "deds_ok ?p (allocations (w_handles w))" using c by (auto simp: core_def)
  have "segment_bytes ?p i \<le> u32_max" for i
  proof (cases "segment ?p i")
    case (Some sg)
    then have "seg_ok ?p i sg" using c'(2) unfolding segs_ok_def by blast
    then have "sg_size sg < 2 ^ 32" using shape_bounds(5) [OF c'(1)] by (auto simp: seg_ok_def)
    then show ?thesis using Some by (simp add: segment_bytes_def u32_max_def)
  qed (simp add: segment_bytes_def)
  moreover have "dedicated_bytes ?p i \<le> u32_max" for i
    using c'(3) by (cases "mp_dedicated ?p (word_of_nat i)") (auto simp: dedicated_bytes_def deds_ok_def ded_ok_def)
  moreover have "dom (mp_dedicated ?p) \<subseteq> word_of_nat ` {..<pc_max_dedicated_segments (mp_config ?p)}"
  proof
    fix i assume "i \<in> dom (mp_dedicated ?p)"
    then have "unat i < pc_max_dedicated_segments (mp_config ?p)"
      using c'(1,3) by (force simp: deds_ok_def ded_ok_def shape_def)
    then show "i \<in> word_of_nat ` {..<pc_max_dedicated_segments (mp_config ?p)}" by (intro image_eqI [of _ _ "unat i"]) simp_all
  qed
  then have "card (dom (mp_dedicated ?p)) \<le> pc_max_dedicated_segments (mp_config ?p)"
    using surj_card_le [of "{..<pc_max_dedicated_segments (mp_config ?p)}"] by fastforce
  moreover have "unat (pa_seg_idx a) \<le> 65535 \<and> pa_generation a \<noteq> 0"
    if "h \<in> set (w_handles w)" "shm_allocation h = Some a" for h a
  proof -
    have "a \<in> set (allocations (w_handles w))" using that by (auto simp: in_allocations)
    from live_validates [OF c this] show ?thesis by (auto simp: validate_generation_def Let_def split: if_splits)
  qed
  ultimately show ?thesis using segment_count_le [OF c'(1)] by blast
qed

text \<open>C7: The \<open>while\<close> loop of prewarming ends, for every reachable pool, every wanted count and every
  sequence of answers of the operating system, without a panic; when it succeeds the pool has exactly the
  wanted number of segments (or the larger number it had), and when it fails it has fewer.\<close>

theorem ensure_segments_terminates:
  assumes "pool_run w gone"
  shows "\<exists>r p' cs'. ensure_loop envs wanted (w_pool w) (w_cells w) = Some (r, p', cs') \<and>
    segment_count (w_pool w) \<le> segment_count p' \<and>
    (if r = Inr () then segment_count p' = max wanted (segment_count (w_pool w)) else segment_count p' < wanted)"
  using ensure_loop_spec [OF pool_run_core [OF assms], of envs wanted] by blast

section \<open>A concrete execution\<close>

text \<open>A pool of 16-byte segments serves 3 and then 5 bytes from one new segment; in a second execution the
  pool stops retaining idle segments and the only block is released, which unmaps the segment.\<close>

definition demo_config :: pool_config where
  "demo_config = \<lparr>pc_segment_size = 16, pc_min_block_size = 4, pc_max_segments = 2, pc_max_dedicated_segments = 1,
     pc_buddy_idle_decay_secs = 0, pc_spill_threshold = 0, pc_buddy_enabled = True, pc_min_retained_segments = 0\<rparr>"

definition demo_env :: os_env where
  "demo_env = \<lparr>os_now = 5, os_page_size = Some 4096, os_buddy_pressure = None, os_buddy_region = Inr 4096,
     os_dedicated_pressure = None, os_dedicated_region = Inr 65536, os_spill_file = Inl []\<rparr>"

definition demo_name :: str where
  "demo_name = str_of ''c2_0000002a'' @ replicate 32 0x30"

definition demo_pool :: "buddy_segment option list \<Rightarrow> u32 list \<Rightarrow> nat option list \<Rightarrow> bool \<Rightarrow> u64 \<Rightarrow> mem_pool" where
  "demo_pool segs gens idle retain n =
     \<lparr>mp_config = demo_config, mp_segments = segs, mp_generations = gens, mp_is_peer = False, mp_dedicated = Map.empty,
      mp_name_prefix = demo_name, mp_incarnation = 7, mp_dedicated_generations = [], mp_idle_since = idle,
      mp_retain_idle_backing = retain, mp_has_budget = True,
      mp_counters = \<lparr>tc_buddy_reused_allocs = 0, tc_buddy_expanded_allocs = n, tc_dedicated_allocs = 0,
                     tc_file_spill_allocs = 0\<rparr>\<rparr>"

definition demo_segment :: buddy_segment where
  "demo_segment = \<lparr>sg_base = 4096, sg_size = 16, sg_allocator = sample 0 2 2 1 12, sg_budget_guard = Some (Shm, 16)\<rparr>"

definition demo_handle :: handle_backing where
  "demo_handle = ShmBacking (buddy_allocation 0 1 sample_a1) 7 3"

definition demo_cells :: "u64 \<Rightarrow> u64 \<Rightarrow> budget_cells" where
  "demo_cells n m = \<lparr>cells_shm = \<lparr>bc_limit_bytes = 64, bc_used_bytes = n, bc_peak_bytes = m, bc_rejected_allocations = 0, bc_rejected_bytes = 0\<rparr>,
     cells_file = new_cell 64, cells_reassembly = new_cell 64\<rparr>"

lemma decay_zero: "f64_lt 0 0 = False" "try_from_secs_f64 0 = Some 0" "f64_is_finite 0"
  by (simp_all add: f64_lt_def try_from_secs_f64_def f64_is_finite_def f64_scaled_def f64_mag_def f64_exp_def f64_frac_def F64_UNIT_def Let_def)

lemma demo_name_eq: "str_of ''c2'' @ [0x5F] @ pid_hex 42 @ replicate 32 0x30 = demo_name" "length demo_name = 43"
  by code_simp+

lemma demo_new: "new_with_prefix_and_budget demo_config (str_of ''c2'') 42 (replicate 32 0x30) 7 = Inr (demo_pool [] [] [] True 0)"
  unfolding new_with_prefix_and_budget_def demo_name_eq
  by (simp add: demo_name_eq new_with_prefix_and_budget_def with_identity_def demo_pool_def demo_config_def validate_config_def
      MAX_SHM_PREFIX_LEN_def Let_def usize_max_def sample_layout validate_duration_secs_def decay_zero and_then_def is_power_of_two_def pow_eval)

lemma demo_reserve: "budget_reserve (demo_cells 0 0) Shm 16 = (Inr (Shm, 16), demo_cells 16 16)"
  by (simp add: budget_reserve_def cell_try_reserve_def demo_cells_def get_cell_def set_cell_def checked_add_def)

lemma demo_drop: "budget_release (demo_cells 16 16) (Shm, 16) = Some (demo_cells 0 16)"
  by (simp add: budget_release_def cell_release_def demo_cells_def get_cell_def set_cell_def checked_sub_def)

lemma demo_create:
  assumes "budget_reserve cs Shm 16 = (Inr (Shm, 16), cs')"
  shows "create_segment demo_env (demo_pool [] [] [] True 0) cs =
     Some (Inr (0, demo_segment\<lparr>sg_allocator := sample 1 0 0 0 16\<rparr>), demo_pool [] [1] [] True 0, cs')"
  using assms
  by (simp add: create_segment_def demo_pool_def demo_config_def demo_env_def segment_def Let_def upt_conv_Cons
      slot_generation_def checked_add_def sample_layout reserve_backing_def buddy_segment_create_def
      sample_init vec_resize_def demo_segment_def)

lemma demo_alloc_shm:
  assumes "budget_reserve cs Shm 16 = (Inr (Shm, 16), cs')"
  shows "alloc_shm demo_env 3 (demo_pool [] [] [] True 0) cs =
     Some (Inr (buddy_allocation 0 1 sample_a1), demo_pool [Some demo_segment] [1] [None] True 1, cs')"
proof -
  have "buddy_block_limit (demo_pool [] [] [] True 0) = Some 16"
    by (simp add: buddy_block_limit_def demo_pool_def demo_config_def Let_def sample_layout)
  moreover have "try_buddy_reuse 3 (demo_pool [] [] [] True 0) = Some (None, demo_pool [] [] [] True 0)"
    by (simp add: try_buddy_reuse_def demo_pool_def)
  moreover have "gc_buddy 5 (demo_pool [] [] [] True 0) cs = Some (0, demo_pool [] [] [] True 0, cs)"
    by (simp add: gc_buddy_def demo_pool_def demo_config_def idle_delay_def decay_zero)
  moreover have "expand_buddy demo_env 3 (demo_pool [] [] [] True 0) cs =
      Some (Some (buddy_allocation 0 1 sample_a1), demo_pool [Some demo_segment] [1] [None] True 1, cs')"
    by (simp add: expand_buddy_def demo_create [OF assms] demo_segment_def sample_alloc1)
      (simp add: install_segment_def demo_pool_def Let_def vec_resize_def saturating_add_def)
  ultimately show ?thesis by (simp add: alloc_shm_def) (simp add: demo_env_def)
qed

lemma demo_alloc:
  "try_alloc_shm demo_env 3 (demo_pool [] [] [] True 0) (demo_cells 0 0) =
     Some (Inr demo_handle, demo_pool [Some demo_segment] [1] [None] True 1, demo_cells 16 16)"
  by (simp add: try_alloc_shm_def demo_alloc_shm [OF demo_reserve] demo_handle_def into_handle_def) (simp add: demo_pool_def)

definition demo_handle2 :: handle_backing where
  "demo_handle2 = ShmBacking (buddy_allocation 0 1 sample_a2) 7 5"

definition demo_pool2 :: mem_pool where
  "demo_pool2 = (demo_pool [Some (demo_segment\<lparr>sg_allocator := sample 0 0 2 2 4\<rparr>)] [1] [None] True 1)
     \<lparr>mp_counters := \<lparr>tc_buddy_reused_allocs = 1, tc_buddy_expanded_allocs = 1, tc_dedicated_allocs = 0,
                      tc_file_spill_allocs = 0\<rparr>\<rparr>"

lemma demo_alloc2:
  "try_alloc_shm demo_env 5 (demo_pool [Some demo_segment] [1] [None] True 1) (demo_cells 16 16) =
     Some (Inr demo_handle2, demo_pool2, demo_cells 16 16)"
proof -
  have "buddy_block_limit (demo_pool [Some demo_segment] [1] [None] True 1) = Some 16"
    by (simp add: buddy_block_limit_def demo_pool_def demo_config_def Let_def sample_layout)
  moreover have "try_buddy_reuse 5 (demo_pool [Some demo_segment] [1] [None] True 1) =
      Some (Some (buddy_allocation 0 1 sample_a2), demo_pool2)"
    by (simp add: try_buddy_reuse_def demo_pool_def demo_pool2_def demo_segment_def sample_alloc2 Let_def saturating_add_def)
  ultimately show ?thesis
    by (simp add: try_alloc_shm_def alloc_shm_def demo_handle2_def into_handle_def)
      (simp add: demo_pool_def demo_pool2_def)
qed

lemma demo_retain:
  "set_idle_backing_retention False (demo_pool [Some demo_segment] [1] [None] True 1) (demo_cells 16 16) =
     Some (demo_pool [Some demo_segment] [1] [None] False 1, demo_cells 16 16)"
  by (simp add: set_idle_backing_retention_def demo_pool_def Let_def demo_segment_def alloc_count_def sample_def)

lemma demo_release:
  "release_handle 9 demo_handle (demo_pool [Some demo_segment] [1] [None] False 1) (demo_cells 16 16) =
     Some (demo_pool [None] [1] [None] False 1, demo_cells 0 16)"
proof -
  have "validate_generation (demo_pool [Some demo_segment] [1] [None] False 1) 0 1 False = Inr ()"
    by (simp add: validate_generation_def segment_generation_def segment_def demo_pool_def)
  moreover have "free_buddy 9 (buddy_allocation 0 1 sample_a1) (demo_pool [Some demo_segment] [1] [None] False 1) (demo_cells 16 16) =
      Some (demo_pool [None] [1] [None] False 1, demo_cells 0 16)"
    by (simp add: free_buddy_def Let_def buddy_allocation_def sample_a1_def segment_def demo_pool_def demo_segment_def
        sample_free1 take_segment_def drop_reservation_def demo_drop)
      (simp add: alloc_count_def sample_def)
  ultimately show ?thesis
    by (simp add: release_handle_def demo_handle_def validate_handle_owner_def pool_free_def)
      (simp add: demo_pool_def)
qed

lemma demo_cells_new: "demo_cells 0 0 = new_cells 64 64 64"
  by (simp add: demo_cells_def new_cells_def new_cell_def)

lemma demo_run1: "\<exists>gone. pool_run \<lparr>w_pool = demo_pool [Some demo_segment] [1] [None] True 1, w_cells = demo_cells 16 16,
    w_handles = [demo_handle], w_others = {#}\<rparr> gone"
  by (rule exI, rule run_step [OF run_new [OF demo_new budget_new [of 64 64 64, folded demo_cells_new]]],
      rule step_alloc [of try_alloc_shm, OF _ demo_alloc]) simp

lemma demo_run2: "\<exists>gone. pool_run \<lparr>w_pool = demo_pool2, w_cells = demo_cells 16 16,
    w_handles = [demo_handle2, demo_handle], w_others = {#}\<rparr> gone"
proof -
  obtain gone where g: "pool_run \<lparr>w_pool = demo_pool [Some demo_segment] [1] [None] True 1, w_cells = demo_cells 16 16,
    w_handles = [demo_handle], w_others = {#}\<rparr> gone" using demo_run1 by blast
  show ?thesis by (rule exI, rule run_step [OF g], rule step_alloc [of try_alloc_shm, OF _ demo_alloc2]) simp
qed

lemma demo_run3: "\<exists>gone. pool_run \<lparr>w_pool = demo_pool [None] [1] [None] False 1, w_cells = demo_cells 0 16,
    w_handles = [], w_others = {#}\<rparr> gone \<and> (False, 0, 1) \<in> gone"
proof -
  let ?w = "\<lparr>w_pool = demo_pool [Some demo_segment] [1] [None] False 1, w_cells = demo_cells 16 16,
    w_handles = [demo_handle], w_others = {#}\<rparr>"
  obtain gone where g: "pool_run \<lparr>w_pool = demo_pool [Some demo_segment] [1] [None] True 1, w_cells = demo_cells 16 16,
    w_handles = [demo_handle], w_others = {#}\<rparr> gone" using demo_run1 by blast
  obtain gone' where g': "pool_run ?w gone'" using run_step [OF g step_retention [OF demo_retain]] by blast
  have "pool_step ?w \<lparr>w_pool = demo_pool [None] [1] [None] False 1, w_cells = demo_cells 0 16,
      w_handles = remove1 demo_handle [demo_handle], w_others = {#}\<rparr>"
    by (rule step_release [OF _ demo_release]) simp
  from run_step [OF g' this] show ?thesis
    by (intro exI conjI, simp) (simp add: mapped_def segment_generation_def segment_def demo_pool_def)
qed

theorem live_handles_disjoint_witness:
  "\<exists>gone. pool_run \<lparr>w_pool = demo_pool2, w_cells = demo_cells 16 16, w_handles = [demo_handle2, demo_handle], w_others = {#}\<rparr> gone \<and>
     footprint demo_handle2 \<inter> footprint demo_handle = {}"
proof -
  obtain gone where g: "pool_run \<lparr>w_pool = demo_pool2, w_cells = demo_cells 16 16,
    w_handles = [demo_handle2, demo_handle], w_others = {#}\<rparr> gone" using demo_run2 by blast
  have "0 < (1 :: nat) \<and> 1 < length [demo_handle2, demo_handle]" by simp
  with conjunct1 [OF live_handles_disjoint [OF g]]
  have "footprint ([demo_handle2, demo_handle] ! 0) \<inter> footprint ([demo_handle2, demo_handle] ! 1) = {}"
    unfolding pool_world.select_convs by blast
  with g show ?thesis by auto
qed

theorem unmapped_generation_stale_witness:
  "pool_data_ptr (demo_pool [None] [1] [None] False 1) (buddy_allocation 0 1 sample_a1) = Inl StaleGeneration"
proof -
  obtain gone where g: "pool_run \<lparr>w_pool = demo_pool [None] [1] [None] False 1, w_cells = demo_cells 0 16,
    w_handles = [], w_others = {#}\<rparr> gone" "(False, 0, 1) \<in> gone" using demo_run3 by blast
  from unmapped_generation_stale [OF g(1), of "buddy_allocation 0 1 sample_a1"] g(2) show ?thesis by simp
qed

theorem pool_calls_total_witness:
  "release_handle 3 demo_handle demo_pool2 (demo_cells 16 16) \<noteq> None \<and> gc_buddy 3 demo_pool2 (demo_cells 16 16) \<noteq> None"
proof -
  obtain gone where g: "pool_run \<lparr>w_pool = demo_pool2, w_cells = demo_cells 16 16,
    w_handles = [demo_handle2, demo_handle], w_others = {#}\<rparr> gone" using demo_run2 by blast
  from pool_calls_total [OF g] show ?thesis unfolding pool_world.select_convs by simp
qed

theorem pool_budget_exact_witness: "budget_used (demo_cells 16 16) Shm = 16"
proof -
  obtain gone where g: "pool_run \<lparr>w_pool = demo_pool2, w_cells = demo_cells 16 16,
    w_handles = [demo_handle2, demo_handle], w_others = {#}\<rparr> gone" using demo_run2 by blast
  from conjunct1 [OF pool_budget_exact [OF g]] show ?thesis
    by (simp add: demo_pool2_def demo_pool_def demo_config_def segment_bytes_def dedicated_bytes_def segment_def
        demo_segment_def demo_handle_def demo_handle2_def numeral_2_eq_2)
qed

theorem pool_bounds_witness: "segment_count demo_pool2 \<le> 2"
proof -
  obtain gone where g: "pool_run \<lparr>w_pool = demo_pool2, w_cells = demo_cells 16 16,
    w_handles = [demo_handle2, demo_handle], w_others = {#}\<rparr> gone" using demo_run2 by blast
  from conjunct1 [OF pool_bounds [OF g]] show ?thesis by (simp add: demo_pool2_def demo_pool_def demo_config_def)
qed

theorem ensure_segments_terminates_witness:
  "\<exists>r p' cs'. ensure_loop (\<lambda>i. demo_env) 2 demo_pool2 (demo_cells 16 16) = Some (r, p', cs')"
proof -
  obtain gone where g: "pool_run \<lparr>w_pool = demo_pool2, w_cells = demo_cells 16 16,
    w_handles = [demo_handle2, demo_handle], w_others = {#}\<rparr> gone" using demo_run2 by blast
  from ensure_segments_terminates [OF g, of "\<lambda>i. demo_env" 2] show ?thesis unfolding pool_world.select_convs by blast
qed

section \<open>Statistics are exact\<close>

lemma sum_blocks:
  assumes "\<forall>x\<in>set live. fst x < n"
  shows "(\<Sum>j<n. sum_list (map f (bb.blocks_of j live))) = (\<Sum>x\<leftarrow>live. f (snd x))"
  using assms
proof (induction live)
  case Nil
  then show ?case by (simp add: bb.blocks_of_def)
next
  case (Cons x live)
  obtain i a where x: "x = (i, a)" by force
  have "sum_list (map f (bb.blocks_of j (x # live))) = (if j = i then f a else 0) + sum_list (map f (bb.blocks_of j live))" for j
    by (simp add: x bb.blocks_of_Cons)
  then have "(\<Sum>j<n. sum_list (map f (bb.blocks_of j (x # live)))) = f a + (\<Sum>j<n. sum_list (map f (bb.blocks_of j live)))"
    using Cons.prems x by (simp add: sum.distrib)
  then show ?case using Cons x by simp
qed

definition seg_total :: "(buddy_segment \<Rightarrow> nat) \<Rightarrow> buddy_segment option list \<Rightarrow> nat" where
  "seg_total f segs = (\<Sum>s\<leftarrow>segs. case s of None \<Rightarrow> 0 | Some sg \<Rightarrow> f sg)"

lemma add_segment_stats_spec:
  assumes "unat d + seg_total sg_size segs < 2 ^ 64" "\<forall>sg. Some sg \<in> set segs \<longrightarrow> sg_size sg < 2 ^ 64"
    and "unat i + seg_total (\<lambda>sg. unat (free_bytes (sg_allocator sg))) segs < 2 ^ 64"
    and "unat n + seg_total (\<lambda>sg. unat (alloc_count (sg_allocator sg))) segs < 2 ^ 32"
  shows "\<exists>d' i' n'. add_segment_stats segs (d, i, n) = Some (d', i', n') \<and> unat d' = unat d + seg_total sg_size segs \<and>
    unat i' = unat i + seg_total (\<lambda>sg. unat (free_bytes (sg_allocator sg))) segs \<and>
    unat n' = unat n + seg_total (\<lambda>sg. unat (alloc_count (sg_allocator sg))) segs"
  using assms
proof (induction segs arbitrary: d i n)
  case Nil
  then show ?case by (simp add: seg_total_def)
next
  case (Cons s segs)
  show ?case
  proof (cases s)
    case None
    then show ?thesis using Cons.IH [of d i n] Cons.prems by (simp add: seg_total_def)
  next
    case (Some sg)
    let ?d = "d + word_of_nat (sg_size sg)" and ?i = "i + free_bytes (sg_allocator sg)" and ?n = "n + alloc_count (sg_allocator sg)"
    have sz: "unat (word_of_nat (sg_size sg) :: u64) = sg_size sg" using Cons.prems(2) Some by (simp add: unat_u64)
    have u: "unat ?d = unat d + sg_size sg" "unat ?i = unat i + unat (free_bytes (sg_allocator sg))"
      "unat ?n = unat n + unat (alloc_count (sg_allocator sg))"
      using Cons.prems Some sz by (simp_all add: seg_total_def unat_add_bounded)
    have c: "checked_add d (word_of_nat (sg_size sg)) = Some ?d" "checked_add i (free_bytes (sg_allocator sg)) = Some ?i"
      "checked_add n (alloc_count (sg_allocator sg)) = Some ?n"
      using Cons.prems Some sz by (simp_all add: seg_total_def checked_add_def)
    show ?thesis using Cons.IH [of ?d ?i ?n] Cons.prems Some c u by (simp add: seg_total_def add.assoc)
  qed
qed

lemma sum_dedicated_spec:
  assumes "\<forall>i\<in>set slots. \<exists>e. m i = Some e \<and> dn_size e \<le> u32_max" "unat acc + length slots * u32_max < 2 ^ 64"
  shows "\<exists>t. sum_dedicated m slots acc = Some t \<and> unat t = unat acc + (\<Sum>i\<leftarrow>slots. dn_size (the (m i)))"
  using assms
proof (induction slots arbitrary: acc)
  case (Cons i slots)
  then obtain e where e: "m i = Some e" "dn_size e \<le> u32_max" by auto
  have sz: "unat (word_of_nat (dn_size e) :: u64) = dn_size e" using e(2) by (simp add: unat_u64 u32_max_def)
  have fit: "unat acc + dn_size e + length slots * u32_max < 2 ^ 64" using Cons.prems(2) e(2) by simp
  then have u: "unat (acc + word_of_nat (dn_size e)) = unat acc + dn_size e"
    using sz by (simp add: unat_add_bounded)
  have "checked_add acc (word_of_nat (dn_size e)) = Some (acc + word_of_nat (dn_size e))"
    using fit sz by (simp add: checked_add_def)
  then show ?case using Cons.IH [of "acc + word_of_nat (dn_size e)"] Cons.prems(1) fit e(1) u by (simp add: add.assoc)
qed simp

lemma seg_total_nth: "seg_total f segs = (\<Sum>j<length segs. case segs ! j of None \<Rightarrow> 0 | Some sg \<Rightarrow> f sg)"
  by (simp add: seg_total_def sum_list_sum_nth atLeast0LessThan)

lemma buddy_live_sum: "(\<Sum>x\<leftarrow>buddy_live A. f (snd x)) = (\<Sum>a\<leftarrow>filter (\<lambda>a. \<not> pa_is_dedicated a) A. f (alloc_of a))"
  by (simp add: buddy_live_def comp_def)

lemma segment_totals:
  assumes c: "core p cs A R"
  shows "seg_total (\<lambda>sg. unat (alloc_count (sg_allocator sg))) (mp_segments p) = length (filter (\<lambda>a. \<not> pa_is_dedicated a) A)"
    "seg_total (\<lambda>sg. unat (free_bytes (sg_allocator sg))) (mp_segments p) +
       (\<Sum>a\<leftarrow>filter (\<lambda>a. \<not> pa_is_dedicated a) A. unat (pa_actual_size a)) = seg_total sg_size (mp_segments p)"
    "seg_total sg_size (mp_segments p) < 2 ^ 49" "\<forall>sg. Some sg \<in> set (mp_segments p) \<longrightarrow> sg_size sg < 2 ^ 32"
proof -
  have c': "shape p" "segs_ok p" "bb.table_ok (allocators p) (buddy_live A)" using c by (auto simp: core_def)
  have size: "sg_size sg = ba_data_size (sg_allocator sg) \<and> sg_size sg < 2 ^ 32" if "segment p j = Some sg" for j sg
  proof -
    have "seg_ok p j sg" using c'(2) that unfolding segs_ok_def by blast
    then show ?thesis using shape_bounds(5) [OF c'(1)] by (auto simp: seg_ok_def)
  qed
  have acc: "case mp_segments p ! j of None \<Rightarrow> bb.blocks_of j (buddy_live A) = []
      | Some sg \<Rightarrow> unat (free_bytes (sg_allocator sg)) + (\<Sum>a\<leftarrow>bb.blocks_of j (buddy_live A). unat (al_actual_size a)) = sg_size sg \<and>
          unat (alloc_count (sg_allocator sg)) = length (bb.blocks_of j (buddy_live A))" if "j < length (mp_segments p)" for j
  proof (cases "mp_segments p ! j")
    case None
    then show ?thesis using bb.table_empty [OF c'(3), of j] that by (simp add: allocators_def segment_def)
  next
    case (Some sg)
    then have s: "segment p j = Some sg" using that by (simp add: segment_def)
    then show ?thesis using reach_accounting [OF guard_of_segment(7) [OF c s refl]] size [OF s] Some by simp
  qed
  have idx: "\<forall>x\<in>set (buddy_live A). fst x < length (mp_segments p)"
  proof
    fix x assume "x \<in> set (buddy_live A)"
    then obtain b where "allocators p (fst x) = Some b" using bb.table_owner [OF c'(3), of "fst x" "snd x"] by auto
    then show "fst x < length (mp_segments p)" using segment_bound by (auto simp: allocators_def)
  qed
  have "seg_total (\<lambda>sg. unat (alloc_count (sg_allocator sg))) (mp_segments p) =
      (\<Sum>j<length (mp_segments p). sum_list (map (\<lambda>a. 1) (bb.blocks_of j (buddy_live A))))"
    unfolding seg_total_nth
  proof (rule sum.cong [OF refl])
    fix j assume "j \<in> {..<length (mp_segments p)}"
    then show "(case mp_segments p ! j of None \<Rightarrow> 0 | Some sg \<Rightarrow> unat (alloc_count (sg_allocator sg))) =
        sum_list (map (\<lambda>a. 1) (bb.blocks_of j (buddy_live A)))"
      using acc [of j] by (cases "mp_segments p ! j") (simp_all add: sum_list_triv)
  qed
  also have "\<dots> = length (filter (\<lambda>a. \<not> pa_is_dedicated a) A)"
    using sum_blocks [OF idx, of "\<lambda>a. 1 :: nat"] buddy_live_sum [of "\<lambda>a. 1 :: nat" A] by (simp add: sum_list_triv)
  finally show "seg_total (\<lambda>sg. unat (alloc_count (sg_allocator sg))) (mp_segments p) =
      length (filter (\<lambda>a. \<not> pa_is_dedicated a) A)" .
  have "seg_total sg_size (mp_segments p) = (\<Sum>j<length (mp_segments p).
      (case mp_segments p ! j of None \<Rightarrow> 0 | Some sg \<Rightarrow> unat (free_bytes (sg_allocator sg))) +
      (\<Sum>a\<leftarrow>bb.blocks_of j (buddy_live A). unat (al_actual_size a)))"
    unfolding seg_total_nth
  proof (rule sum.cong [OF refl])
    fix j assume "j \<in> {..<length (mp_segments p)}"
    then show "(case mp_segments p ! j of None \<Rightarrow> 0 | Some sg \<Rightarrow> sg_size sg) =
        (case mp_segments p ! j of None \<Rightarrow> 0 | Some sg \<Rightarrow> unat (free_bytes (sg_allocator sg))) +
        (\<Sum>a\<leftarrow>bb.blocks_of j (buddy_live A). unat (al_actual_size a))"
      using acc [of j] by (cases "mp_segments p ! j") simp_all
  qed
  also have "\<dots> = seg_total (\<lambda>sg. unat (free_bytes (sg_allocator sg))) (mp_segments p) +
       (\<Sum>a\<leftarrow>filter (\<lambda>a. \<not> pa_is_dedicated a) A. unat (pa_actual_size a))"
    using sum_blocks [OF idx, of "\<lambda>a. unat (al_actual_size a)"] buddy_live_sum [of "\<lambda>a. unat (al_actual_size a)" A]
    by (simp add: sum.distrib seg_total_nth [symmetric] alloc_of_def)
  finally show "seg_total (\<lambda>sg. unat (free_bytes (sg_allocator sg))) (mp_segments p) +
       (\<Sum>a\<leftarrow>filter (\<lambda>a. \<not> pa_is_dedicated a) A. unat (pa_actual_size a)) = seg_total sg_size (mp_segments p)" by simp
  show small: "\<forall>sg. Some sg \<in> set (mp_segments p) \<longrightarrow> sg_size sg < 2 ^ 32"
  proof (intro allI impI)
    fix sg assume "Some sg \<in> set (mp_segments p)"
    then obtain j where "j < length (mp_segments p)" "mp_segments p ! j = Some sg" by (auto simp: in_set_conv_nth)
    then show "sg_size sg < 2 ^ 32" using size [of j sg] by (simp add: segment_def)
  qed
  have "seg_total sg_size (mp_segments p) \<le> (\<Sum>j<length (mp_segments p). 2 ^ 32)"
    unfolding seg_total_nth
  proof (rule sum_mono)
    fix j assume "j \<in> {..<length (mp_segments p)}"
    then have j: "j < length (mp_segments p)" by simp
    show "(case mp_segments p ! j of None \<Rightarrow> 0 | Some sg \<Rightarrow> sg_size sg) \<le> 2 ^ 32"
    proof (cases "mp_segments p ! j")
      case (Some sg)
      then have "sg_size sg < 2 ^ 32" using small nth_mem [OF j] by simp
      then show ?thesis using Some by simp
    qed simp
  qed
  moreover have "length (mp_segments p) \<le> 65536" using shape_bounds(1,2) [OF c'(1)] by linarith
  ultimately show "seg_total sg_size (mp_segments p) < 2 ^ 49" by simp
qed

lemma sum_list_mset: "mset xs = mset ys \<Longrightarrow> sum_list (map f xs) = (sum_list (map f ys) :: nat)"
  by (metis mset_map sum_mset_sum_list)

lemma dedicated_totals:
  assumes c: "core p cs A R" and slots: "distinct slots" "set slots = dom (mp_dedicated p)"
  shows "length (filter pa_is_dedicated A) = length slots"
    "(\<Sum>a\<leftarrow>filter pa_is_dedicated A. unat (pa_actual_size a)) = (\<Sum>i\<leftarrow>slots. dn_size (the (mp_dedicated p i)))"
proof -
  let ?D = "filter pa_is_dedicated A" and ?f = "\<lambda>i. dedicated_allocation i (the (mp_dedicated p i))"
  have d: "deds_ok p A" using c by (simp add: core_def)
  have "set ?D = ?f ` set slots"
  proof (intro set_eqI iffI)
    fix a assume "a \<in> set ?D"
    then have "a \<in> set (dedicated_live (pa_seg_idx a) A)" by (simp add: dedicated_live_def)
    then obtain e where "mp_dedicated p (pa_seg_idx a) = Some e" "a = dedicated_allocation (pa_seg_idx a) e"
      using d by (cases "mp_dedicated p (pa_seg_idx a)") (auto simp: deds_ok_def)
    then show "a \<in> ?f ` set slots" using slots(2) by (intro image_eqI [of _ _ "pa_seg_idx a"]) auto
  next
    fix a assume "a \<in> ?f ` set slots"
    then obtain i e where i: "mp_dedicated p i = Some e" "a = dedicated_allocation i e" using slots(2) by auto
    then have "a \<in> set (dedicated_live i A)" using d by (simp add: deds_ok_def)
    then show "a \<in> set ?D" by (simp add: dedicated_live_def)
  qed
  moreover have inj: "inj_on ?f (set slots)" by (rule inj_onI) (simp add: dedicated_allocation_def)
  moreover have D: "distinct ?D" using core_distinct [OF c] by simp
  ultimately have m: "mset ?D = mset (map ?f slots)"
    using slots(1) by (intro set_eq_iff_mset_eq_distinct [THEN iffD1]) (simp_all add: distinct_map)
  show "length ?D = length slots" using mset_eq_length [OF m] by simp
  have "(\<Sum>a\<leftarrow>?D. unat (pa_actual_size a)) = (\<Sum>a\<leftarrow>map ?f slots. unat (pa_actual_size a))"
    by (rule sum_list_mset [OF m])
  also have "\<dots> = (\<Sum>i\<leftarrow>slots. dn_size (the (mp_dedicated p i)))"
  proof -
    have "unat (pa_actual_size (?f i)) = dn_size (the (mp_dedicated p i))" if "i \<in> set slots" for i
      using that slots(2) d unat_u32 by (auto simp: dedicated_allocation_def deds_ok_def ded_ok_def)
    then show ?thesis by (simp add: comp_def cong: map_cong)
  qed
  finally show "(\<Sum>a\<leftarrow>?D. unat (pa_actual_size a)) = (\<Sum>i\<leftarrow>slots. dn_size (the (mp_dedicated p i)))" .
qed

text \<open>The statistics of a pool are exact and their sums do not overflow: with fewer than two to the 32 blocks
  held, \<open>alloc_count\<close> is the number of blocks the callers hold, the occupied and the dedicated bytes are the sizes
  of those blocks, and occupied and idle bytes add up to the mapped buddy capacity.\<close>

lemma pool_stats_exact:
  assumes "pool_run w gone" "distinct slots" "set slots = dom (mp_dedicated (w_pool w))"
    and "length (allocations (w_handles w)) < 2 ^ 32"
  shows "\<exists>s. stats slots (w_pool w) = Some s \<and> ps_total_segments s = segment_count (w_pool w) \<and>
    ps_dedicated_segments s = length slots \<and>
    unat (ps_alloc_count s) = length (allocations (w_handles w)) \<and>
    unat (ps_buddy_occupied_bytes s) =
      (\<Sum>a\<leftarrow>filter (\<lambda>a. \<not> pa_is_dedicated a) (allocations (w_handles w)). unat (pa_actual_size a)) \<and>
    unat (ps_dedicated_mapped_bytes s) =
      (\<Sum>a\<leftarrow>filter pa_is_dedicated (allocations (w_handles w)). unat (pa_actual_size a)) \<and>
    unat (ps_buddy_data_bytes s) = unat (ps_buddy_occupied_bytes s) + unat (ps_buddy_idle_bytes s)"
proof -
  let ?p = "w_pool w" and ?A = "allocations (w_handles w)"
  note c = pool_run_core [OF assms(1)]
  note st = segment_totals [OF c] and dt = dedicated_totals [OF c assms(2,3)]
  have split: "length ?A = length (filter (\<lambda>a. \<not> pa_is_dedicated a) ?A) + length (filter pa_is_dedicated ?A)"
    using sum_length_filter_compl [of pa_is_dedicated ?A] by simp
  obtain d i n where acc: "add_segment_stats (mp_segments ?p) (0, 0, 0) = Some (d, i, n)"
    "unat d = seg_total sg_size (mp_segments ?p)"
    "unat i = seg_total (\<lambda>sg. unat (free_bytes (sg_allocator sg))) (mp_segments ?p)"
    "unat n = length (filter (\<lambda>a. \<not> pa_is_dedicated a) ?A)"
    using add_segment_stats_spec [of 0 "mp_segments ?p" 0 0] st assms(4) split by fastforce
  have ded: "\<forall>i\<in>set slots. \<exists>e. mp_dedicated ?p i = Some e \<and> dn_size e \<le> u32_max"
    using c assms(3) by (force simp: core_def deds_ok_def ded_ok_def)
  have len: "length slots < 2 ^ 32" using dt(1) split assms(4) by linarith
  then have "length slots * u32_max < 2 ^ 64" by (simp add: u32_max_def)
  then obtain t where t: "sum_dedicated (mp_dedicated ?p) slots 0 = Some t"
    "unat t = (\<Sum>i\<leftarrow>slots. dn_size (the (mp_dedicated ?p i)))" using sum_dedicated_spec [OF ded, of 0] by auto
  have act: "filter (\<lambda>i. mp_dedicated ?p i \<noteq> None) slots = slots" using ded by (auto simp: filter_id_conv)
  have w: "unat (word_of_nat (length slots) :: u32) = length slots" using len by (simp add: unat_of_nat take_bit_eq_mod)
  have "unat n + length slots < 2 ^ 32" using acc(4) dt(1) split assms(4) by linarith
  then have add: "checked_add n (word_of_nat (length slots)) = Some (n + word_of_nat (length slots))"
    "unat (n + word_of_nat (length slots)) = length ?A"
    using w acc(4) dt(1) split by (simp_all add: checked_add_def unat_add_bounded)
  have le: "i \<le> d" using acc(2,3) st(2) by (simp add: word_le_nat_alt)
  then have sub: "checked_sub d i = Some (d - i)" "unat (d - i) = unat d - unat i"
    by (simp_all add: checked_sub_def word_le_nat_alt unat_sub)
  show ?thesis
    using acc t act add sub le st(2) dt by (simp add: stats_def Let_def word_le_nat_alt)
qed

section \<open>Peers, raw releases and identities\<close>

lemma peer_pool_refuses:
  assumes "open_peer config prefix incarnation = Inr p"
  shows "alloc_handle env sz p cs = Some (Inl PeerCannotAllocate, p, cs)"
    "try_alloc_shm env sz p cs = Some (Inl PeerCannotAllocate, p, cs)"
    "alloc_shm_handle env sz p cs = Some (Inl PeerCannotAllocate, p, cs)"
    "pool_free now a p cs = Some (Inl PeerCannotFree, p, cs)"
    "ensure_buddy_segments envs wanted p cs = Some (Inl PeerCannotCreate, p, cs)"
    "checked_handle_slice p (ShmBacking a owner n) = Inl PeerNeverOwns"
proof -
  have peer: "mp_is_peer p"
    using assms by (auto simp: open_peer_def with_identity_def and_then_def split: if_splits sum.splits)
  then show "alloc_handle env sz p cs = Some (Inl PeerCannotAllocate, p, cs)"
    "try_alloc_shm env sz p cs = Some (Inl PeerCannotAllocate, p, cs)"
    "alloc_shm_handle env sz p cs = Some (Inl PeerCannotAllocate, p, cs)"
    "pool_free now a p cs = Some (Inl PeerCannotFree, p, cs)"
    "ensure_buddy_segments envs wanted p cs = Some (Inl PeerCannotCreate, p, cs)"
    "checked_handle_slice p (ShmBacking a owner n) = Inl PeerNeverOwns"
    by (simp_all add: alloc_handle_def try_alloc_shm_def alloc_shm_handle_def pool_alloc_def pool_free_def
        ensure_buddy_segments_def checked_handle_slice_def validate_handle_owner_def and_then_def)
qed

text \<open>The raw release by coordinates is the release of the allocation with these coordinates.\<close>

lemma free_at_is_free:
  "free_at now (pa_seg_idx a) (pa_generation a) (pa_offset a) (pa_level a) (pa_is_dedicated a) p cs = pool_free now a p cs"
  unfolding free_at_def pool_free_def free_buddy_def by (simp only: pool_allocation.simps)

text \<open>Incarnations of pools are never reused: the counter only grows, and its exhaustion is a panic.\<close>

lemma incarnation_fresh: "incarnation_new counter = Some (i, counter') \<Longrightarrow> i = counter \<and> unat counter' = unat i + 1"
  by (auto simp: incarnation_new_def dest!: checked_add_SomeD split: bind_splits)

text \<open>A handle of another pool is refused before anything is touched.\<close>

lemma foreign_handle_refused:
  "\<not> mp_is_peer p \<Longrightarrow> owner \<noteq> mp_incarnation p \<Longrightarrow>
     checked_handle_slice p (ShmBacking a owner n) = Inl IncarnationMismatch \<and>
     release_handle now (ShmBacking a owner n) p cs = None"
  by (simp add: checked_handle_slice_def validate_handle_owner_def and_then_def release_handle_def)

end
