(* ===== verification/Assembler.thy ===== *)
theory Assembler
  imports Pool_Props
begin

text \<open>
  Chunked reassembly: \<open>c2-wire/src/chunk/backing.rs\<close> and \<open>c2-wire/src/assembler.rs\<close>, over the memory pool.

  A live carrier owns the bytes its handle points at exclusively (the pool hands out disjoint blocks), so those
  bytes are a list of the carrier, \<open>bk_data\<close>. What the block holds when it is handed out is not known: it is the
  argument \<open>fill\<close>. The operations that take the pool's lock take the pool as an argument and return it.
\<close>

section \<open>The carrier\<close>

datatype chunk_error =
    ForeignGuard
  | NoChunks
  | NoChunkBytes
  | GeometryOverflow nat nat
  | MetadataOverflow
  | NoOwnerBudget
  | BudgetRefused budget_error
  | TrackingFailed
  | PoolRefused pool_error
  | AlreadyReleased
  | WriteOverflow
  | WriteOutside nat nat nat
  | WriteInvalid pool_error
  | CopyInvalid pool_error
  | TrimGrows nat nat
  | IndexOutside nat nat
  | DuplicateChunk nat
  | ChunkTooLong nat nat
  | OverLimit nat u64
  | Incomplete nat nat

record backing_state =
  bk_received_flags :: "bool list"
  bk_handle :: handle_backing
  bk_reservation :: budget_reservation
  bk_data :: "u8 list"

record reassembly_backing =
  rb_state :: "backing_state option"

definition checked_capacity :: "usize \<Rightarrow> usize \<Rightarrow> chunk_error + usize" where
  "checked_capacity total_chunks chunk_size =
     (if total_chunks = 0 then Inl NoChunks
      else if chunk_size = 0 then Inl NoChunkBytes
      else if total_chunks * chunk_size > usize_max then Inl (GeometryOverflow total_chunks chunk_size)
      else Inr (total_chunks * chunk_size))"

text \<open>\<open>own_guard\<close>: the write guard that was passed belongs to the carrier's own pool (the comparison of addresses);
  \<open>flags_ok\<close> is the outcome of allocating the receipt flags.\<close>

definition admit_with_guard :: "bool \<Rightarrow> os_env \<Rightarrow> bool \<Rightarrow> (nat \<Rightarrow> u8) \<Rightarrow> usize \<Rightarrow> usize \<Rightarrow> usize \<Rightarrow> mem_pool \<Rightarrow> budget_cells \<Rightarrow>
    ((chunk_error + reassembly_backing) \<times> mem_pool \<times> budget_cells) run" where
  "admit_with_guard own_guard env flags_ok fill total_chunks chunk_size tracked_chunks p cs =
     (if \<not> own_guard then Some (Inl ForeignGuard, p, cs) else
      case checked_capacity total_chunks chunk_size of
        Inl e \<Rightarrow> Some (Inl e, p, cs)
      | Inr capacity \<Rightarrow>
          (if capacity + tracked_chunks > usize_max then Some (Inl MetadataOverflow, p, cs)
           else if \<not> mp_has_budget p then Some (Inl NoOwnerBudget, p, cs)
           else
             (case budget_reserve cs Reassembly (word_of_nat (capacity + tracked_chunks)) of
                (Inl e, cs1) \<Rightarrow> Some (Inl (BudgetRefused e), p, cs1)
              | (Inr reservation, cs1) \<Rightarrow>
                  (if \<not> flags_ok then
                     do { cs2 \<leftarrow> budget_release cs1 reservation; Some (Inl TrackingFailed, p, cs2) }
                   else do {
                     (r, p2, cs2) \<leftarrow> alloc_handle env capacity p cs1;
                     case r of
                       Inl e \<Rightarrow> do { cs3 \<leftarrow> budget_release cs2 reservation; Some (Inl (PoolRefused e), p2, cs3) }
                     | Inr h \<Rightarrow>
                         Some (Inr \<lparr>rb_state = Some \<lparr>bk_received_flags = replicate tracked_chunks False, bk_handle = h,
                                    bk_reservation = reservation, bk_data = map fill [0..<capacity]\<rparr>\<rparr>, p2, cs2)
                   }))))"

definition admit :: "os_env \<Rightarrow> bool \<Rightarrow> (nat \<Rightarrow> u8) \<Rightarrow> usize \<Rightarrow> usize \<Rightarrow> mem_pool \<Rightarrow> budget_cells \<Rightarrow>
    ((chunk_error + reassembly_backing) \<times> mem_pool \<times> budget_cells) run" where
  "admit env flags_ok fill total_chunks chunk_size p cs =
     (case checked_capacity total_chunks chunk_size of
        Inl e \<Rightarrow> Some (Inl e, p, cs)
      | Inr _ \<Rightarrow> admit_with_guard True env flags_ok fill total_chunks chunk_size 0 p cs)"

definition live_state :: "reassembly_backing \<Rightarrow> chunk_error + backing_state" where
  "live_state b = (case rb_state b of None \<Rightarrow> Inl AlreadyReleased | Some s \<Rightarrow> Inr s)"

definition chunk_received :: "reassembly_backing \<Rightarrow> nat \<Rightarrow> (chunk_error + bool) run" where
  "chunk_received b index =
     (case live_state b of
        Inl e \<Rightarrow> Some (Inl e)
      | Inr s \<Rightarrow> do { flag \<leftarrow> nth_run (bk_received_flags s) index; Some (Inr flag) })"

definition mark_chunk_received :: "reassembly_backing \<Rightarrow> nat \<Rightarrow> ((chunk_error + unit) \<times> reassembly_backing) run" where
  "mark_chunk_received b index =
     (case live_state b of
        Inl e \<Rightarrow> Some (Inl e, b)
      | Inr s \<Rightarrow>
          do {
            flags \<leftarrow> upd_run (bk_received_flags s) index True;
            Some (Inr (), b\<lparr>rb_state := Some (s\<lparr>bk_received_flags := flags\<rparr>)\<rparr>)
          })"

definition backing_len :: "reassembly_backing \<Rightarrow> usize" where
  "backing_len b = (case rb_state b of None \<Rightarrow> 0 | Some s \<Rightarrow> handle_len (bk_handle s))"

definition capacity_bytes :: "reassembly_backing \<Rightarrow> u64" where
  "capacity_bytes b = (case rb_state b of None \<Rightarrow> 0 | Some s \<Rightarrow> snd (bk_reservation s))"

definition is_released :: "reassembly_backing \<Rightarrow> bool" where
  "is_released b \<longleftrightarrow> rb_state b = None"

definition write_at :: "mem_pool \<Rightarrow> usize \<Rightarrow> u8 list \<Rightarrow> reassembly_backing \<Rightarrow> ((chunk_error + unit) \<times> reassembly_backing) run" where
  "write_at p offset data b =
     (case live_state b of
        Inl e \<Rightarrow> Some (Inl e, b)
      | Inr s \<Rightarrow>
          (let stop = offset + length data
           in if stop > usize_max then Some (Inl WriteOverflow, b)
              else if stop > handle_len (bk_handle s)
                then Some (Inl (WriteOutside offset stop (handle_len (bk_handle s))), b)
              else
                (case validate_handle p (bk_handle s) of
                   Inl e \<Rightarrow> Some (Inl (WriteInvalid e), b)
                 | Inr _ \<Rightarrow>
                     do {
                       ensure (stop \<le> length (bk_data s));
                       Some (Inr (), b\<lparr>rb_state := Some (s\<lparr>bk_data :=
                         take offset (bk_data s) @ data @ drop stop (bk_data s)\<rparr>)\<rparr>)
                     })))"

definition copy_bytes :: "mem_pool \<Rightarrow> reassembly_backing \<Rightarrow> chunk_error + u8 list" where
  "copy_bytes p b =
     and_then (live_state b) (\<lambda>s.
       map_sum CopyInvalid (\<lambda>_. take (handle_len (bk_handle s)) (bk_data s)) (validate_handle p (bk_handle s)))"

definition backing_trim_to :: "usize \<Rightarrow> reassembly_backing \<Rightarrow> (chunk_error + unit) \<times> reassembly_backing" where
  "backing_trim_to new_len b =
     (case live_state b of
        Inl e \<Rightarrow> (Inl e, b)
      | Inr s \<Rightarrow>
          (if new_len > handle_len (bk_handle s) then (Inl (TrimGrows new_len (handle_len (bk_handle s))), b)
           else
             (case trim_to (bk_handle s) new_len of
                (Inl e, h) \<Rightarrow> (Inl (PoolRefused e), b\<lparr>rb_state := Some (s\<lparr>bk_handle := h\<rparr>)\<rparr>)
              | (Inr _, h) \<Rightarrow> (Inr (), b\<lparr>rb_state := Some (s\<lparr>bk_handle := h\<rparr>)\<rparr>))))"

definition release_storage_with_pool :: "nat \<Rightarrow> reassembly_backing \<Rightarrow> mem_pool \<Rightarrow> budget_cells \<Rightarrow>
    (reassembly_backing \<times> mem_pool \<times> budget_cells) run" where
  "release_storage_with_pool now b p cs =
     (case rb_state b of
        None \<Rightarrow> Some (b, p, cs)
      | Some s \<Rightarrow>
          do {
            (p', cs1) \<leftarrow> release_handle now (bk_handle s) p cs;
            cs2 \<leftarrow> budget_release cs1 (bk_reservation s);
            Some (b\<lparr>rb_state := None\<rparr>, p', cs2)
          })"

definition backing_release :: "nat \<Rightarrow> reassembly_backing \<Rightarrow> mem_pool \<Rightarrow> budget_cells \<Rightarrow>
    (reassembly_backing \<times> mem_pool \<times> budget_cells) run" where
  "backing_release now b p cs =
     (if rb_state b = None then Some (b, p, cs) else release_storage_with_pool now b p cs)"

text \<open>\<open>busy\<close>: another thread holds the pool's lock.\<close>

definition backing_try_release :: "bool \<Rightarrow> nat \<Rightarrow> reassembly_backing \<Rightarrow> mem_pool \<Rightarrow> budget_cells \<Rightarrow>
    (bool \<times> reassembly_backing \<times> mem_pool \<times> budget_cells) run" where
  "backing_try_release busy now b p cs =
     (if rb_state b = None then Some (True, b, p, cs)
      else if busy then Some (False, b, p, cs)
      else do { (b', p', cs') \<leftarrow> release_storage_with_pool now b p cs; Some (True, b', p', cs') })"

section \<open>The assembler\<close>

record chunk_assembler =
  ca_total_chunks :: usize
  ca_chunk_size :: usize
  ca_received :: usize
  ca_written_end :: usize
  ca_backing :: reassembly_backing

datatype chunk_admission_error = AdmitProtocol chunk_error | AdmitDuplicate u64 u64 | AdmitCapacity chunk_error

definition check_geometry :: "usize \<Rightarrow> usize \<Rightarrow> u64 \<Rightarrow> chunk_admission_error + (usize \<times> usize)" where
  "check_geometry total_chunks chunk_size max_reassembly_bytes =
     and_then (map_err AdmitProtocol (checked_capacity total_chunks chunk_size)) (\<lambda>capacity.
       if capacity > unat max_reassembly_bytes then Inl (AdmitCapacity (OverLimit capacity max_reassembly_bytes))
       else Inr (total_chunks, chunk_size))"

definition new_with_guard :: "bool \<Rightarrow> os_env \<Rightarrow> bool \<Rightarrow> (nat \<Rightarrow> u8) \<Rightarrow> usize \<times> usize \<Rightarrow> mem_pool \<Rightarrow> budget_cells \<Rightarrow>
    ((chunk_admission_error + chunk_assembler) \<times> mem_pool \<times> budget_cells) run" where
  "new_with_guard own_guard env flags_ok fill geom p cs =
     (let (total_chunks, chunk_size) = geom
      in do {
           (r, p', cs') \<leftarrow> admit_with_guard own_guard env flags_ok fill total_chunks chunk_size total_chunks p cs;
           Some (map_sum AdmitCapacity (\<lambda>b. \<lparr>ca_total_chunks = total_chunks, ca_chunk_size = chunk_size, ca_received = 0,
                   ca_written_end = 0, ca_backing = b\<rparr>) r, p', cs')
         })"

definition assembler_new :: "os_env \<Rightarrow> bool \<Rightarrow> (nat \<Rightarrow> u8) \<Rightarrow> usize \<Rightarrow> usize \<Rightarrow> u64 \<Rightarrow> mem_pool \<Rightarrow> budget_cells \<Rightarrow>
    ((chunk_admission_error + chunk_assembler) \<times> mem_pool \<times> budget_cells) run" where
  "assembler_new env flags_ok fill total_chunks chunk_size max_reassembly_bytes p cs =
     (case check_geometry total_chunks chunk_size max_reassembly_bytes of
        Inl e \<Rightarrow> Some (Inl e, p, cs)
      | Inr geom \<Rightarrow> new_with_guard True env flags_ok fill geom p cs)"

definition feed_chunk :: "mem_pool \<Rightarrow> usize \<Rightarrow> u8 list \<Rightarrow> chunk_assembler \<Rightarrow> ((chunk_error + bool) \<times> chunk_assembler) run" where
  "feed_chunk p chunk_idx data a =
     (if chunk_idx \<ge> ca_total_chunks a then Some (Inl (IndexOutside chunk_idx (ca_total_chunks a)), a)
      else do {
        received \<leftarrow> chunk_received (ca_backing a) chunk_idx;
        case received of
          Inl e \<Rightarrow> Some (Inl e, a)
        | Inr True \<Rightarrow> Some (Inl (DuplicateChunk chunk_idx), a)
        | Inr False \<Rightarrow>
            if length data > ca_chunk_size a then Some (Inl (ChunkTooLong (length data) (ca_chunk_size a)), a)
            else do {
              let offset = chunk_idx * ca_chunk_size a;
              ensure (offset \<le> usize_max);
              (w, b1) \<leftarrow> write_at p offset data (ca_backing a);
              case w of
                Inl e \<Rightarrow> Some (Inl e, a\<lparr>ca_backing := b1\<rparr>)
              | Inr _ \<Rightarrow>
                  do {
                    (m, b2) \<leftarrow> mark_chunk_received b1 chunk_idx;
                    case m of
                      Inl e \<Rightarrow> Some (Inl e, a\<lparr>ca_backing := b2\<rparr>)
                    | Inr _ \<Rightarrow>
                        do {
                          ensure (ca_received a + 1 \<le> usize_max \<and> offset + length data \<le> usize_max);
                          let stop = offset + length data;
                          let a' = a\<lparr>ca_backing := b2, ca_received := ca_received a + 1,
                                     ca_written_end := (if stop > ca_written_end a then stop else ca_written_end a)\<rparr>;
                          Some (Inr (ca_received a' = ca_total_chunks a'), a')
                        }
                  }
            }
      })"

definition is_complete :: "chunk_assembler \<Rightarrow> bool" where
  "is_complete a \<longleftrightarrow> ca_received a = ca_total_chunks a"

text \<open>\<open>finish\<close> consumes the assembler: on an error its carrier is dropped, which releases it.\<close>

definition finish :: "nat \<Rightarrow> chunk_assembler \<Rightarrow> mem_pool \<Rightarrow> budget_cells \<Rightarrow>
    ((chunk_error + reassembly_backing) \<times> mem_pool \<times> budget_cells) run" where
  "finish now a p cs =
     (if \<not> is_complete a then
        do {
          (_, p', cs') \<leftarrow> backing_release now (ca_backing a) p cs;
          Some (Inl (Incomplete (ca_received a) (ca_total_chunks a)), p', cs')
        }
      else
        (case backing_trim_to (ca_written_end a) (ca_backing a) of
           (Inl e, b) \<Rightarrow> do { (_, p', cs') \<leftarrow> backing_release now b p cs; Some (Inl e, p', cs') }
         | (Inr _, b) \<Rightarrow> Some (Inr b, p, cs)))"

definition assembler_abort :: "nat \<Rightarrow> chunk_assembler \<Rightarrow> mem_pool \<Rightarrow> budget_cells \<Rightarrow> (mem_pool \<times> budget_cells) run" where
  "assembler_abort now a p cs = do { (_, p', cs') \<leftarrow> backing_release now (ca_backing a) p cs; Some (p', cs') }"

definition assembler_try_release :: "bool \<Rightarrow> nat \<Rightarrow> chunk_assembler \<Rightarrow> mem_pool \<Rightarrow> budget_cells \<Rightarrow>
    (bool \<times> chunk_assembler \<times> mem_pool \<times> budget_cells) run" where
  "assembler_try_release busy now a p cs =
     do {
       (released, b, p', cs') \<leftarrow> backing_try_release busy now (ca_backing a) p cs;
       Some (released, a\<lparr>ca_backing := b\<rparr>, p', cs')
     }"

end
