(* ===== verification/Assembler_Proofs.thy ===== *)
theory Assembler_Proofs
  imports Assembler
begin

text \<open>
  Reassembly is correct: chunks fed in any order give back the payload, exactly the well-formed chunks are
  accepted and nothing is written outside the allocation, and admission and release are steps of the memory pool,
  so that everything shown of the pool holds of its reassemblies.
\<close>

section \<open>One chunk\<close>

definition asm_handle :: "chunk_assembler \<Rightarrow> handle_backing" where
  "asm_handle a = (case rb_state (ca_backing a) of Some s \<Rightarrow> bk_handle s)"

definition asm_flags :: "chunk_assembler \<Rightarrow> bool list" where
  "asm_flags a = (case rb_state (ca_backing a) of None \<Rightarrow> [] | Some s \<Rightarrow> bk_received_flags s)"

definition asm_data :: "chunk_assembler \<Rightarrow> u8 list" where
  "asm_data a = (case rb_state (ca_backing a) of None \<Rightarrow> [] | Some s \<Rightarrow> bk_data s)"

definition asm_ok :: "chunk_assembler \<Rightarrow> bool" where
  "asm_ok a \<longleftrightarrow> (case rb_state (ca_backing a) of
       None \<Rightarrow> False
     | Some s \<Rightarrow> length (bk_received_flags s) = ca_total_chunks a \<and>
         handle_len (bk_handle s) = ca_total_chunks a * ca_chunk_size a \<and>
         length (bk_data s) = ca_total_chunks a * ca_chunk_size a \<and>
         ca_received a = length (filter id (bk_received_flags s))) \<and>
     0 < ca_total_chunks a \<and> 0 < ca_chunk_size a \<and>
     ca_total_chunks a * ca_chunk_size a + ca_total_chunks a \<le> usize_max \<and>
     ca_written_end a \<le> ca_total_chunks a * ca_chunk_size a"

text \<open>What an accepted chunk does.\<close>

definition after_chunk :: "nat \<Rightarrow> u8 list \<Rightarrow> chunk_assembler \<Rightarrow> chunk_assembler" where
  "after_chunk i data a =
     (case rb_state (ca_backing a) of
        None \<Rightarrow> a
      | Some s \<Rightarrow> a\<lparr>ca_backing := (ca_backing a)\<lparr>rb_state := Some (s\<lparr>bk_received_flags := (bk_received_flags s)[i := True],
          bk_data := take (i * ca_chunk_size a) (bk_data s) @ data @ drop (i * ca_chunk_size a + length data) (bk_data s)\<rparr>)\<rparr>,
          ca_received := ca_received a + 1,
          ca_written_end := max (i * ca_chunk_size a + length data) (ca_written_end a)\<rparr>)"

lemma chunk_span:
  assumes "i < n" "len \<le> c" shows "i * c + len \<le> n * (c :: nat)"
proof -
  have "i * c + c \<le> n * c" using assms(1) by (metis Suc_leI add.commute mult_Suc mult_le_mono1)
  then show ?thesis using assms(2) by linarith
qed

lemma filter_id_set:
  "i < length xs \<Longrightarrow> \<not> xs ! i \<Longrightarrow> length (filter id (xs[i := True])) = length (filter id xs) + 1"
proof (induction xs arbitrary: i)
  case (Cons x xs)
  then show ?case by (cases i) auto
qed simp

lemma feed_chunk_exact:
  assumes ok: "asm_ok a" and v: "validate_handle p (asm_handle a) = Inr ()"
  shows "feed_chunk p i data a =
    (if i \<ge> ca_total_chunks a then Some (Inl (IndexOutside i (ca_total_chunks a)), a)
     else if asm_flags a ! i then Some (Inl (DuplicateChunk i), a)
     else if length data > ca_chunk_size a then Some (Inl (ChunkTooLong (length data) (ca_chunk_size a)), a)
     else Some (Inr (ca_received a + 1 = ca_total_chunks a), after_chunk i data a))"
proof -
  obtain s where s: "rb_state (ca_backing a) = Some s" using ok by (auto simp: asm_ok_def split: option.splits)
  note k = ok [unfolded asm_ok_def s option.case]
  show ?thesis
  proof (cases "i < ca_total_chunks a \<and> \<not> asm_flags a ! i \<and> length data \<le> ca_chunk_size a")
    case True
    then have span: "i * ca_chunk_size a + length data \<le> ca_total_chunks a * ca_chunk_size a"
      by (intro chunk_span) simp_all
    have "length (filter id (bk_received_flags s)) \<le> ca_total_chunks a"
      using k length_filter_le [of id "bk_received_flags s"] by simp
    moreover have "ca_total_chunks a \<le> ca_total_chunks a * ca_chunk_size a" using k by simp
    ultimately have fits: "i * ca_chunk_size a \<le> usize_max" "i * ca_chunk_size a + length data \<le> usize_max"
      "length (filter id (bk_received_flags s)) + 1 \<le> usize_max" using span k by linarith+
    then show ?thesis using True k span s v
      by (simp add: feed_chunk_def chunk_received_def live_state_def write_at_def mark_chunk_received_def after_chunk_def
          asm_flags_def asm_handle_def Let_def max_def)
  next
    case False
    then show ?thesis using k s
      by (auto simp: feed_chunk_def chunk_received_def live_state_def asm_flags_def)
  qed
qed

lemma after_chunk_ok:
  assumes ok: "asm_ok a" and i: "i < ca_total_chunks a" "\<not> asm_flags a ! i" "length data \<le> ca_chunk_size a"
  shows "asm_ok (after_chunk i data a)"
    "asm_handle (after_chunk i data a) = asm_handle a" "asm_flags (after_chunk i data a) = (asm_flags a)[i := True]"
    "asm_data (after_chunk i data a) =
       take (i * ca_chunk_size a) (asm_data a) @ data @ drop (i * ca_chunk_size a + length data) (asm_data a)"
    "ca_total_chunks (after_chunk i data a) = ca_total_chunks a" "ca_chunk_size (after_chunk i data a) = ca_chunk_size a"
    "ca_written_end (after_chunk i data a) = max (i * ca_chunk_size a + length data) (ca_written_end a)"
    "ca_received (after_chunk i data a) = ca_received a + 1"
    "capacity_bytes (ca_backing (after_chunk i data a)) = capacity_bytes (ca_backing a)"
proof -
  obtain s where s: "rb_state (ca_backing a) = Some s" using ok by (auto simp: asm_ok_def split: option.splits)
  note k = ok [unfolded asm_ok_def s option.case]
  have span: "i * ca_chunk_size a + length data \<le> ca_total_chunks a * ca_chunk_size a"
    using i by (intro chunk_span) simp_all
  show "asm_ok (after_chunk i data a)"
    using k s i span filter_id_set [of i "bk_received_flags s"]
    by (simp add: asm_ok_def after_chunk_def asm_flags_def min_def)
qed (use assms in \<open>auto simp: asm_ok_def after_chunk_def asm_handle_def asm_flags_def asm_data_def capacity_bytes_def
      split: option.splits\<close>)

section \<open>Sequences of chunks\<close>

text \<open>A sequence of frames, each fed under its own view of the pool.\<close>

fun feed_seq :: "(mem_pool \<times> usize \<times> u8 list) list \<Rightarrow> chunk_assembler \<Rightarrow> ((chunk_error + bool) list \<times> chunk_assembler) run" where
  "feed_seq [] a = Some ([], a)"
| "feed_seq ((p, i, data) # rest) a =
     do {
       (r, a1) \<leftarrow> feed_chunk p i data a;
       (rs, a2) \<leftarrow> feed_seq rest a1;
       Some (r # rs, a2)
     }"

text \<open>The indices a sequence of frames gets accepted, in order: well-formed and not seen before.\<close>

fun accepted :: "nat \<Rightarrow> nat \<Rightarrow> nat set \<Rightarrow> (mem_pool \<times> usize \<times> u8 list) list \<Rightarrow> bool list" where
  "accepted n c seen [] = []"
| "accepted n c seen ((p, i, data) # rest) =
     (let good = i < n \<and> i \<notin> seen \<and> length data \<le> c
      in good # accepted n c (if good then insert i seen else seen) rest)"

definition seen_set :: "chunk_assembler \<Rightarrow> nat set" where
  "seen_set a = {i. i < length (asm_flags a) \<and> asm_flags a ! i}"

lemma asm_flags_length: "asm_ok a \<Longrightarrow> length (asm_flags a) = ca_total_chunks a"
  by (auto simp: asm_ok_def asm_flags_def split: option.splits)

lemma seen_received: "asm_ok a \<Longrightarrow> ca_received a = card (seen_set a)"
  by (auto simp: asm_ok_def seen_set_def asm_flags_def length_filter_conv_card split: option.splits)

lemma seen_after:
  "asm_ok a \<Longrightarrow> i < ca_total_chunks a \<Longrightarrow> \<not> asm_flags a ! i \<Longrightarrow> length data \<le> ca_chunk_size a \<Longrightarrow>
     seen_set (after_chunk i data a) = insert i (seen_set a)"
  by (auto simp: seen_set_def after_chunk_ok(3) asm_flags_length nth_list_update)

lemma feed_seq_spec:
  assumes "asm_ok a" "\<forall>p\<in>fst ` set frames. validate_handle p (asm_handle a) = Inr ()"
  shows "\<exists>rs a'. feed_seq frames a = Some (rs, a') \<and> asm_ok a' \<and> asm_handle a' = asm_handle a \<and>
    ca_total_chunks a' = ca_total_chunks a \<and> ca_chunk_size a' = ca_chunk_size a \<and>
    capacity_bytes (ca_backing a') = capacity_bytes (ca_backing a) \<and>
    map (\<lambda>r. \<exists>x. r = Inr x) rs = accepted (ca_total_chunks a) (ca_chunk_size a) (seen_set a) frames"
  using assms
proof (induction frames arbitrary: a)
  case (Cons f frames)
  obtain p i data where f: "f = (p, i, data)" by (cases f)
  have v: "validate_handle p (asm_handle a) = Inr ()" using Cons.prems(2) f by simp
  note ex = feed_chunk_exact [OF Cons.prems(1) v, of i data]
  show ?case
  proof (cases "i < ca_total_chunks a \<and> \<not> asm_flags a ! i \<and> length data \<le> ca_chunk_size a")
    case True
    then have t: "i < ca_total_chunks a" "\<not> asm_flags a ! i" "length data \<le> ca_chunk_size a" by auto
    note ac = after_chunk_ok [OF Cons.prems(1) t] seen_after [OF Cons.prems(1) t]
    have pr: "\<forall>p\<in>fst ` set frames. validate_handle p (asm_handle (after_chunk i data a)) = Inr ()"
      using Cons.prems(2) unfolding ac(2) by simp
    obtain rs a' where r: "feed_seq frames (after_chunk i data a) = Some (rs, a')" "asm_ok a'"
      "asm_handle a' = asm_handle (after_chunk i data a)" "ca_total_chunks a' = ca_total_chunks (after_chunk i data a)"
      "ca_chunk_size a' = ca_chunk_size (after_chunk i data a)"
      "capacity_bytes (ca_backing a') = capacity_bytes (ca_backing (after_chunk i data a))"
      "map (\<lambda>r. \<exists>x. r = Inr x) rs = accepted (ca_total_chunks a) (ca_chunk_size a) (insert i (seen_set a)) frames"
      using Cons.IH [OF ac(1) pr] unfolding ac by blast
    have "i \<notin> seen_set a" using t(2) by (simp add: seen_set_def)
    then show ?thesis using r ex t f ac by (simp add: Let_def)
  next
    case False
    then have nf: "\<exists>e. feed_chunk p i data a = Some (Inl e, a)" using ex by auto
    obtain rs a' where r: "feed_seq frames a = Some (rs, a')" "asm_ok a'" "asm_handle a' = asm_handle a"
      "ca_total_chunks a' = ca_total_chunks a" "ca_chunk_size a' = ca_chunk_size a"
      "capacity_bytes (ca_backing a') = capacity_bytes (ca_backing a)"
      "map (\<lambda>r. \<exists>x. r = Inr x) rs = accepted (ca_total_chunks a) (ca_chunk_size a) (seen_set a) frames"
      using Cons.IH [OF Cons.prems(1)] Cons.prems(2) by auto
    have "\<not> (i < ca_total_chunks a \<and> i \<notin> seen_set a \<and> length data \<le> ca_chunk_size a)"
      using False asm_flags_length [OF Cons.prems(1)] by (auto simp: seen_set_def)
    then show ?thesis using r nf f by (auto simp: Let_def)
  qed
qed simp

section \<open>The payload\<close>

text \<open>How a sender cuts a payload: every chunk is full but possibly the last.\<close>

definition chunk_of :: "usize \<Rightarrow> u8 list \<Rightarrow> usize \<Rightarrow> u8 list" where
  "chunk_of c payload i = take c (drop (i * c) payload)"

definition chunk_frames :: "usize \<Rightarrow> u8 list \<Rightarrow> (mem_pool \<times> usize) list \<Rightarrow> (mem_pool \<times> usize \<times> u8 list) list" where
  "chunk_frames c payload calls = map (\<lambda>(p, i). (p, i, chunk_of c payload i)) calls"

definition agrees :: "u8 list \<Rightarrow> chunk_assembler \<Rightarrow> bool" where
  "agrees payload a \<longleftrightarrow>
     (\<forall>x<length payload. x div ca_chunk_size a \<in> seen_set a \<longrightarrow> asm_data a ! x = payload ! x) \<and>
     (\<forall>i\<in>seen_set a. i * ca_chunk_size a + length (chunk_of (ca_chunk_size a) payload i) \<le> ca_written_end a) \<and>
     ca_written_end a \<le> length payload"

lemma chunk_of_end:
  assumes "(n - 1) * c \<le> length payload" "i < n"
  shows "i * c + length (chunk_of c payload i) \<le> length payload"
proof -
  have "i * c \<le> (n - 1) * c" using assms(2) by (intro mult_right_mono) linarith+
  then have "i * c \<le> length payload" using assms(1) by linarith
  then show ?thesis by (simp add: chunk_of_def)
qed

lemma asm_data_length: "asm_ok a \<Longrightarrow> length (asm_data a) = ca_total_chunks a * ca_chunk_size a"
  by (auto simp: asm_ok_def asm_data_def split: option.splits)

lemma splice_nth:
  assumes "k + length d \<le> length xs" "x < length xs"
  shows "(take k xs @ d @ drop (k + length d) xs) ! x = (if k \<le> x \<and> x < k + length d then d ! (x - k) else xs ! x)"
  using assms by (auto simp: nth_append)

lemma agrees_after:
  assumes ok: "asm_ok a" and ag: "agrees payload a" and i: "i < ca_total_chunks a" "\<not> asm_flags a ! i"
    and len: "(ca_total_chunks a - 1) * ca_chunk_size a \<le> length payload" "length payload \<le> ca_total_chunks a * ca_chunk_size a"
  shows "agrees payload (after_chunk i (chunk_of (ca_chunk_size a) payload i) a)"
proof -
  let ?c = "ca_chunk_size a" and ?d = "chunk_of (ca_chunk_size a) payload i"
  let ?a = "after_chunk i ?d a"
  have c: "0 < ?c" using ok by (simp add: asm_ok_def)
  have d: "length ?d \<le> ?c" by (simp add: chunk_of_def)
  note ac = after_chunk_ok [OF ok i d] seen_after [OF ok i d]
  have span: "i * ?c + length ?d \<le> length (asm_data a)"
    using chunk_span [OF i(1) d] asm_data_length [OF ok] by simp
  have "asm_data ?a ! x = payload ! x" if x: "x < length payload" "x div ?c \<in> insert i (seen_set a)" for x
  proof (cases "i * ?c \<le> x \<and> x < i * ?c + length ?d")
    case True
    then have "x < length (asm_data a)" using span by linarith
    then have "asm_data ?a ! x = ?d ! (x - i * ?c)" using splice_nth [OF span] True by (simp add: ac(4))
    also have "\<dots> = drop (i * ?c) payload ! (x - i * ?c)"
    proof -
      have "x - i * ?c < ?c" using True d by linarith
      then show ?thesis by (simp add: chunk_of_def)
    qed
    also have "\<dots> = payload ! x" using True x(1) by simp
    finally show ?thesis .
  next
    case False
    have "x div ?c \<noteq> i"
    proof
      assume "x div ?c = i"
      then have "i * ?c \<le> x" "x < i * ?c + ?c" using c by (metis div_times_less_eq_dividend, metis add.commute div_less_iff_less_mult lessI mult_Suc)
      then show False using False x(1) by (auto simp: chunk_of_def)
    qed
    then have "asm_data a ! x = payload ! x" using ag x by (simp add: agrees_def)
    moreover have "x < length (asm_data a)" using x(1) len(2) asm_data_length [OF ok] by simp
    ultimately show ?thesis using splice_nth [OF span, of x] False by (auto simp: ac(4))
  qed
  moreover have "i * ?c + length ?d \<le> length payload" using chunk_of_end [OF len(1) i(1)] .
  ultimately show ?thesis using ag unfolding agrees_def ac by auto
qed

lemma feed_payload:
  assumes "asm_ok a" "agrees payload a" "distinct (map snd calls)" "snd ` set calls \<subseteq> {..<ca_total_chunks a} - seen_set a"
    and "\<forall>p\<in>fst ` set calls. validate_handle p (asm_handle a) = Inr ()"
    and "(ca_total_chunks a - 1) * ca_chunk_size a \<le> length payload" "length payload \<le> ca_total_chunks a * ca_chunk_size a"
  shows "\<exists>a'. feed_seq (chunk_frames (ca_chunk_size a) payload calls) a =
      Some (map (\<lambda>k. Inr (ca_received a + k + 1 = ca_total_chunks a)) [0..<length calls], a') \<and>
    asm_ok a' \<and> agrees payload a' \<and> seen_set a' = seen_set a \<union> snd ` set calls \<and> asm_handle a' = asm_handle a \<and>
    ca_total_chunks a' = ca_total_chunks a \<and> ca_chunk_size a' = ca_chunk_size a \<and>
    capacity_bytes (ca_backing a') = capacity_bytes (ca_backing a)"
  using assms
proof (induction calls arbitrary: a)
  case Nil
  then show ?case by (simp add: chunk_frames_def)
next
  case (Cons x calls)
  obtain p i where x: "x = (p, i)" by force
  let ?d = "chunk_of (ca_chunk_size a) payload i"
  let ?a = "after_chunk i ?d a"
  have i: "i < ca_total_chunks a" "\<not> asm_flags a ! i"
    using Cons.prems(4) x asm_flags_length [OF Cons.prems(1)] by (auto simp: seen_set_def)
  have d: "length ?d \<le> ca_chunk_size a" by (simp add: chunk_of_def)
  note ac = after_chunk_ok [OF Cons.prems(1) i d] seen_after [OF Cons.prems(1) i d]
  have v: "validate_handle p (asm_handle a) = Inr ()" using Cons.prems(5) x by simp
  have fed: "feed_chunk p i ?d a = Some (Inr (ca_received a + 1 = ca_total_chunks a), ?a)"
    using feed_chunk_exact [OF Cons.prems(1) v, of i ?d] i d by simp
  have sub: "snd ` set calls \<subseteq> {..<ca_total_chunks ?a} - seen_set ?a"
    using Cons.prems(3,4) x unfolding ac by force
  have "\<exists>a'. feed_seq (chunk_frames (ca_chunk_size ?a) payload calls) ?a =
      Some (map (\<lambda>k. Inr (ca_received ?a + k + 1 = ca_total_chunks ?a)) [0..<length calls], a') \<and>
    asm_ok a' \<and> agrees payload a' \<and> seen_set a' = seen_set ?a \<union> snd ` set calls \<and> asm_handle a' = asm_handle ?a \<and>
    ca_total_chunks a' = ca_total_chunks ?a \<and> ca_chunk_size a' = ca_chunk_size ?a \<and>
    capacity_bytes (ca_backing a') = capacity_bytes (ca_backing ?a)"
    by (rule Cons.IH [OF ac(1) agrees_after [OF Cons.prems(1,2) i Cons.prems(6,7)] _ sub])
      (use Cons.prems ac in auto)
  then obtain a' where a': "feed_seq (chunk_frames (ca_chunk_size a) payload calls) ?a =
      Some (map (\<lambda>k. Inr (ca_received a + 1 + k + 1 = ca_total_chunks a)) [0..<length calls], a')"
    "asm_ok a'" "agrees payload a'" "seen_set a' = insert i (seen_set a) \<union> snd ` set calls" "asm_handle a' = asm_handle a"
    "ca_total_chunks a' = ca_total_chunks a" "ca_chunk_size a' = ca_chunk_size a"
    "capacity_bytes (ca_backing a') = capacity_bytes (ca_backing a)" unfolding ac by blast
  have "map (\<lambda>k. Inr (ca_received a + k + 1 = ca_total_chunks a)) [0..<length (x # calls)] =
      Inr (ca_received a + 1 = ca_total_chunks a) #
      map (\<lambda>k. Inr (ca_received a + 1 + k + 1 = ca_total_chunks a) :: chunk_error + bool) [0..<length calls]"
    by (simp add: map_upt_Suc del: upt_Suc)
  then show ?case using a' fed x by (intro exI [of _ a']) (auto simp: chunk_frames_def)
qed

section \<open>Admission and release are steps of the pool\<close>

lemma world_eta: "w = \<lparr>w_pool = w_pool w, w_cells = w_cells w, w_handles = w_handles w, w_others = w_others w\<rparr>"
  by simp

text \<open>An admitted assembler: empty, of the requested shape, its handle held and its reservation alive.\<close>

definition admitted :: "nat \<Rightarrow> nat \<Rightarrow> pool_world \<Rightarrow> chunk_assembler \<Rightarrow> mem_pool \<Rightarrow> budget_cells \<Rightarrow> bool" where
  "admitted n c w a p' cs' \<longleftrightarrow> asm_ok a \<and> seen_set a = {} \<and> ca_total_chunks a = n \<and> ca_chunk_size a = c \<and>
     ca_written_end a = 0 \<and> capacity_bytes (ca_backing a) = word_of_nat (n * c + n) \<and>
     (\<exists>gone'. pool_run \<lparr>w_pool = p', w_cells = cs', w_handles = asm_handle a # w_handles w,
        w_others = add_mset (Reassembly, word_of_nat (n * c + n)) (w_others w)\<rparr> gone')"

lemma admit_spec:
  assumes run: "pool_run w gone" and cap: "checked_capacity n c = Inr m"
  shows "\<exists>r p' cs'. new_with_guard True env flags_ok fill (n, c) (w_pool w) (w_cells w) = Some (r, p', cs') \<and>
    (case r of
       Inl e \<Rightarrow> \<exists>gone'. pool_run \<lparr>w_pool = p', w_cells = cs', w_handles = w_handles w, w_others = w_others w\<rparr> gone'
     | Inr a \<Rightarrow> admitted n c w a p' cs')"
proof -
  let ?p = "w_pool w" and ?cs = "w_cells w" and ?hs = "w_handles w" and ?oth = "w_others w"
  have run': "pool_run \<lparr>w_pool = ?p, w_cells = ?cs, w_handles = ?hs, w_others = ?oth\<rparr> gone"
    using run by (simp only: world_eta [symmetric])
  have m: "m = n * c" "0 < n" "0 < c" using cap by (auto simp: checked_capacity_def split: if_splits)
  have hb: "mp_has_budget ?p" using pool_run_core [OF run] by (simp add: core_def shape_def)
  show ?thesis
  proof (cases "m + n \<le> usize_max")
    case False
    then show ?thesis using run' cap by (auto simp: new_with_guard_def admit_with_guard_def)
  next
    case True
    obtain r cs1 where res: "budget_reserve ?cs Reassembly (word_of_nat (m + n)) = (r, cs1)" by force
    note unf = new_with_guard_def admit_with_guard_def
    show ?thesis
    proof (cases r)
      case (Inl e)
      then have "\<exists>gone'. pool_run \<lparr>w_pool = ?p, w_cells = cs1, w_handles = ?hs, w_others = ?oth\<rparr> gone'"
        using run_step [OF run' step_other_reject] res by blast
      then show ?thesis using Inl res cap True hb by (simp add: unf)
    next
      case (Inr g)
      then have g: "g = (Reassembly, word_of_nat (m + n))" using reserve_as_charge(1) res by blast
      obtain gone1 where run1: "pool_run \<lparr>w_pool = ?p, w_cells = cs1, w_handles = ?hs, w_others = add_mset g ?oth\<rparr> gone1"
        using run_step [OF run' step_other_admit] res Inr by blast
      have drop: "\<exists>cs3 gone'. budget_release cs2 g = Some cs3 \<and>
          pool_run \<lparr>w_pool = p2, w_cells = cs3, w_handles = ?hs, w_others = ?oth\<rparr> gone'"
        if r2: "pool_run \<lparr>w_pool = p2, w_cells = cs2, w_handles = ?hs, w_others = add_mset g ?oth\<rparr> gone2" for p2 cs2 gone2
      proof -
        have "mb.balanced cs2 (add_mset g (backing_guards p2 + (file_guards ?hs + ?oth)))"
          using pool_run_core [OF r2] by (simp add: core_def)
        then obtain cs3 where "budget_release cs2 g = Some cs3" using release_added by blast
        with run_step [OF r2 step_other_drop, of g cs3] show ?thesis by fastforce
      qed
      show ?thesis
      proof (cases flags_ok)
        case False
        obtain cs3 gone' where d: "budget_release cs1 g = Some cs3"
          "pool_run \<lparr>w_pool = ?p, w_cells = cs3, w_handles = ?hs, w_others = ?oth\<rparr> gone'" using drop [OF run1] by blast
        then have "\<exists>gone'. pool_run \<lparr>w_pool = ?p, w_cells = cs3, w_handles = ?hs, w_others = ?oth\<rparr> gone'" by blast
        then show ?thesis using False Inr res cap True hb d(1) by (simp add: unf)
      next
        case flags: True
        have inv: "pool_inv \<lparr>w_pool = ?p, w_cells = cs1, w_handles = ?hs, w_others = add_mset g ?oth\<rparr>"
          using pool_run_inv [OF run1] by blast
        obtain x p2 cs2 where al: "alloc_handle env m ?p cs1 = Some (x, p2, cs2)"
          "alloc_post ?p ?hs (add_mset g ?oth) m (x, p2, cs2)"
          using alloc_calls_spec [OF inv, of alloc_handle env m] by auto
        show ?thesis
        proof (cases x)
          case (Inl e)
          obtain gone2 where "pool_run \<lparr>w_pool = p2, w_cells = cs2, w_handles = ?hs, w_others = add_mset g ?oth\<rparr> gone2"
            using run_step [OF run1 step_refused [of alloc_handle, OF _ al(1) [unfolded Inl]]] by blast
          from drop [OF this] obtain cs3 where d: "budget_release cs2 g = Some cs3"
            "\<exists>gone'. pool_run \<lparr>w_pool = p2, w_cells = cs3, w_handles = ?hs, w_others = ?oth\<rparr> gone'" by blast
          then show ?thesis using Inl flags Inr res cap True hb al(1) by (simp add: unf)
        next
          case (Inr h)
          have "\<exists>gone2. pool_run \<lparr>w_pool = p2, w_cells = cs2, w_handles = h # ?hs, w_others = add_mset g ?oth\<rparr> gone2"
            using run_step [OF run1 step_alloc [of alloc_handle, OF _ al(1) [unfolded Inr]]] by blast
          moreover have "handle_len h = m" using al(2) Inr by (simp add: alloc_post_def)
          ultimately show ?thesis using Inr flags \<open>r = Inr g\<close> res cap True hb al(1) m g
            by (simp add: unf admitted_def asm_ok_def seen_set_def asm_flags_def asm_handle_def capacity_bytes_def)
        qed
      qed
    qed
  qed
qed

lemma release_backing_spec:
  assumes run: "pool_run w gone" and s: "rb_state b = Some s" and h: "bk_handle s \<in> set (w_handles w)"
    and g: "bk_reservation s \<in># w_others w"
  shows "\<exists>p' cs' gone'. backing_release now b (w_pool w) (w_cells w) = Some (b\<lparr>rb_state := None\<rparr>, p', cs') \<and>
    pool_run \<lparr>w_pool = p', w_cells = cs', w_handles = remove1 (bk_handle s) (w_handles w),
      w_others = w_others w - {#bk_reservation s#}\<rparr> gone'"
proof -
  let ?p = "w_pool w" and ?cs = "w_cells w" and ?hs = "w_handles w" and ?oth = "w_others w"
  have run': "pool_run \<lparr>w_pool = ?p, w_cells = ?cs, w_handles = ?hs, w_others = ?oth\<rparr> gone"
    using run by (simp only: world_eta [symmetric])
  then have inv: "pool_inv \<lparr>w_pool = ?p, w_cells = ?cs, w_handles = ?hs, w_others = ?oth\<rparr>" using pool_run_inv by blast
  obtain p1 cs1 where r1: "release_handle now (bk_handle s) ?p ?cs = Some (p1, cs1)" using release_spec [OF inv h] by blast
  obtain gone1 where run1: "pool_run \<lparr>w_pool = p1, w_cells = cs1, w_handles = remove1 (bk_handle s) ?hs, w_others = ?oth\<rparr> gone1"
    using run_step [OF run' step_release [OF h r1]] by blast
  obtain oth' where oth: "?oth = add_mset (bk_reservation s) oth'" using g by (rule mset_add)
  have "mb.balanced cs1 (add_mset (bk_reservation s) (backing_guards p1 + (file_guards (remove1 (bk_handle s) ?hs) + oth')))"
    using pool_run_core [OF run1] oth by (simp add: core_def)
  then obtain cs2 where c2: "budget_release cs1 (bk_reservation s) = Some cs2" using release_added by blast
  obtain gone2 where "pool_run \<lparr>w_pool = p1, w_cells = cs2, w_handles = remove1 (bk_handle s) ?hs,
      w_others = ?oth - {#bk_reservation s#}\<rparr> gone2" using run_step [OF run1 step_other_drop [OF g c2]] by blast
  then show ?thesis using r1 c2 s by (auto simp: backing_release_def release_storage_with_pool_def)
qed

section \<open>Properties\<close>

lemma new_admitted:
  assumes "pool_run w gone"
    "assembler_new env flags_ok fill n c limit (w_pool w) (w_cells w) = Some (Inr a, p', cs')"
  shows "admitted n c w a p' cs'"
proof -
  obtain m where m: "checked_capacity n c = Inr m" "check_geometry n c limit = Inr (n, c)"
    using assms(2) by (auto simp: assembler_new_def check_geometry_def and_then_def map_err_def split: sum.splits if_splits)
  have "new_with_guard True env flags_ok fill (n, c) (w_pool w) (w_cells w) = Some (Inr a, p', cs')"
    using assms(2) m(2) by (simp add: assembler_new_def)
  with admit_spec [OF assms(1) m(1), of env flags_ok fill] show ?thesis by simp
qed

lemma last_completes:
  "0 < n \<Longrightarrow> map (\<lambda>k. Inr (k + 1 = n)) [0..<n] = replicate (n - 1) (Inr False) @ [Inr True]"
  by (cases n) (auto simp: map_replicate_const [symmetric] intro!: nth_equalityI)

lemma validate_with_len: "validate_handle p (with_len h n) = validate_handle p h"
  by (cases h) (simp_all add: validate_handle_def validate_handle_owner_def)

lemma finish_complete:
  assumes ok: "asm_ok a" and full: "seen_set a = {..<ca_total_chunks a}" and ag: "agrees payload a"
    and len: "(ca_total_chunks a - 1) * ca_chunk_size a \<le> length payload" "length payload \<le> ca_total_chunks a * ca_chunk_size a"
    and v: "validate_handle p (asm_handle a) = Inr ()"
  shows "\<exists>b. finish now a p cs = Some (Inr b, p, cs) \<and> copy_bytes p b = Inr payload \<and>
    capacity_bytes b = capacity_bytes (ca_backing a)"
proof -
  obtain s where s: "rb_state (ca_backing a) = Some s" using ok by (auto simp: asm_ok_def split: option.splits)
  note k = ok [unfolded asm_ok_def s option.case]
  let ?n = "ca_total_chunks a" and ?c = "ca_chunk_size a"
  have n: "0 < ?n" "0 < ?c" using k by auto
  have "?n - 1 \<in> seen_set a" using full n by simp
  then have "(?n - 1) * ?c + length (chunk_of ?c payload (?n - 1)) \<le> ca_written_end a" using ag by (simp add: agrees_def)
  moreover have "length payload \<le> (?n - 1) * ?c + ?c" using len(2) n by (cases ?n) (simp_all add: add.commute)
  then have "(?n - 1) * ?c + length (chunk_of ?c payload (?n - 1)) = length payload" using len(1) by (simp add: chunk_of_def)
  ultimately have we: "ca_written_end a = length payload" using ag by (simp add: agrees_def)
  have comp: "is_complete a" using seen_received [OF ok] full by (simp add: is_complete_def)
  have "payload ! x = bk_data s ! x" if "x < length payload" for x
  proof -
    have "x div ?c < ?n" using that len(2) n by (simp add: div_less_iff_less_mult)
    then have "x div ?c \<in> seen_set a" by (simp add: full)
    then show ?thesis using ag that by (simp add: agrees_def asm_data_def s)
  qed
  then have data: "take (length payload) (bk_data s) = payload" using k len(2) by (intro nth_equalityI) simp_all
  let ?b = "(ca_backing a)\<lparr>rb_state := Some (s\<lparr>bk_handle := with_len (bk_handle s) (length payload)\<rparr>)\<rparr>"
  have "finish now a p cs = Some (Inr ?b, p, cs)"
    using comp we k s len(2) by (simp add: finish_def backing_trim_to_def live_state_def trim_to_def)
  moreover have "handle_len (with_len (bk_handle s) (length payload)) = length payload" by (cases "bk_handle s") simp_all
  then have "copy_bytes p ?b = Inr payload"
    using v data s by (simp add: copy_bytes_def live_state_def and_then_def asm_handle_def validate_with_len)
  ultimately show ?thesis using s by (auto simp: capacity_bytes_def)
qed

text \<open>C9: Reassembly is the inverse of cutting a payload into chunks: for an assembler admitted by any reachable
  pool, whatever its block held before, feeding the chunks of the payload in any order (each while the pool still
  accepts the handle) accepts all of them, reports completion with the last one only, and the finished carrier
  holds exactly the payload, still charged with the whole capacity and the receipt flags.\<close>

theorem reassembly_roundtrip:
  assumes "pool_run w gone"
    and "assembler_new env flags_ok fill n c limit (w_pool w) (w_cells w) = Some (Inr a, p', cs')"
    and "(n - 1) * c \<le> length payload" "length payload \<le> n * c"
    and "distinct (map snd calls)" "snd ` set calls = {..<n}"
    and "\<forall>p\<in>insert p2 (fst ` set calls). validate_handle p (asm_handle a) = Inr ()"
  shows "\<exists>a' b. feed_seq (chunk_frames c payload calls) a = Some (replicate (n - 1) (Inr False) @ [Inr True], a') \<and>
    finish now a' p2 cs2 = Some (Inr b, p2, cs2) \<and> copy_bytes p2 b = Inr payload \<and>
    capacity_bytes b = word_of_nat (n * c + n)"
proof -
  note ad = new_admitted [OF assms(1,2), unfolded admitted_def]
  have ok: "asm_ok a" and seen: "seen_set a = {}" and nc: "ca_total_chunks a = n" "ca_chunk_size a = c" using ad by auto
  have n: "0 < n" using ok nc by (simp add: asm_ok_def)
  have rec: "ca_received a = 0" using seen_received [OF ok] seen by simp
  have ag: "agrees payload a" using ad by (simp add: agrees_def)
  have "card (snd ` set calls) = length (map snd calls)" using distinct_card [OF assms(5)] by simp
  then have len: "length calls = n" using assms(6) by simp
  obtain a' where a': "feed_seq (chunk_frames c payload calls) a = Some (map (\<lambda>k. Inr (k + 1 = n)) [0..<n], a')"
    "asm_ok a'" "agrees payload a'" "seen_set a' = {..<n}" "asm_handle a' = asm_handle a" "ca_total_chunks a' = n"
    "ca_chunk_size a' = c" "capacity_bytes (ca_backing a') = capacity_bytes (ca_backing a)"
    using feed_payload [OF ok ag assms(5)] assms(3,4,6,7) len rec unfolding seen nc by auto
  obtain b where "finish now a' p2 cs2 = Some (Inr b, p2, cs2)" "copy_bytes p2 b = Inr payload"
    "capacity_bytes b = capacity_bytes (ca_backing a')"
    using finish_complete [OF a'(2) _ a'(3), of p2 now cs2] a' assms(3,4,7) by auto
  then show ?thesis using a'(1,8) ad last_completes [OF n] by auto
qed

text \<open>C10: An assembler accepts exactly the well-formed chunks, whatever a peer sends: for any sequence of frames
  with any indices and bytes, no feed panics, a frame is accepted if and only if its index is in range, its data
  is not longer than a chunk and no earlier frame with that index was accepted, and all that is ever written lies
  inside the allocation.\<close>

theorem feed_accepts_exactly:
  assumes "pool_run w gone"
    and "assembler_new env flags_ok fill n c limit (w_pool w) (w_cells w) = Some (Inr a, p', cs')"
    and "\<forall>p\<in>fst ` set frames. validate_handle p (asm_handle a) = Inr ()"
  shows "\<exists>rs a'. feed_seq frames a = Some (rs, a') \<and> map (\<lambda>r. \<exists>x. r = Inr x) rs = accepted n c {} frames \<and>
    ca_written_end a' \<le> n * c \<and> length (asm_data a') = n * c \<and> ca_received a' \<le> n \<and> n * c + n \<le> usize_max"
proof -
  note ad = new_admitted [OF assms(1,2), unfolded admitted_def]
  then have ok: "asm_ok a" by blast
  obtain rs a' where r: "feed_seq frames a = Some (rs, a')" "asm_ok a'" "ca_total_chunks a' = n" "ca_chunk_size a' = c"
    "map (\<lambda>r. \<exists>x. r = Inr x) rs = accepted n c {} frames"
    using feed_seq_spec [OF ok assms(3)] ad by auto
  have "ca_received a' \<le> n" using seen_received [OF r(2)] asm_flags_length [OF r(2)] r(3)
    card_mono [of "{..<n}" "seen_set a'"] by (auto simp: seen_set_def)
  then show ?thesis using r asm_data_length [OF r(2)] by (auto simp: asm_ok_def)
qed

text \<open>C11: Admission and release of a reassembly are steps of the memory pool and never panic: a refused admission
  leaves the handles and reservations of the pool as they were, an admitted assembler holds one handle and one
  reservation for the payload and its receipt flags, and dropping any live carrier gives both back.\<close>

theorem reassembly_refines_pool:
  assumes "pool_run w gone"
  shows "(\<exists>r p' cs'. assembler_new env flags_ok fill n c limit (w_pool w) (w_cells w) = Some (r, p', cs') \<and>
      (case r of
         Inl e \<Rightarrow> \<exists>gone'. pool_run \<lparr>w_pool = p', w_cells = cs', w_handles = w_handles w, w_others = w_others w\<rparr> gone'
       | Inr a \<Rightarrow> \<exists>gone'. pool_run \<lparr>w_pool = p', w_cells = cs', w_handles = asm_handle a # w_handles w,
           w_others = add_mset (Reassembly, word_of_nat (n * c + n)) (w_others w)\<rparr> gone')) \<and>
    (\<forall>a s now. rb_state (ca_backing a) = Some s \<and> bk_handle s \<in> set (w_handles w) \<and> bk_reservation s \<in># w_others w \<longrightarrow>
      (\<exists>p' cs' gone'. assembler_abort now a (w_pool w) (w_cells w) = Some (p', cs') \<and>
        pool_run \<lparr>w_pool = p', w_cells = cs', w_handles = remove1 (bk_handle s) (w_handles w),
          w_others = w_others w - {#bk_reservation s#}\<rparr> gone'))"
proof -
  have run': "pool_run \<lparr>w_pool = w_pool w, w_cells = w_cells w, w_handles = w_handles w, w_others = w_others w\<rparr> gone"
    using assms by (simp only: world_eta [symmetric])
  have "\<exists>r p' cs'. assembler_new env flags_ok fill n c limit (w_pool w) (w_cells w) = Some (r, p', cs') \<and>
      (case r of
         Inl e \<Rightarrow> \<exists>gone'. pool_run \<lparr>w_pool = p', w_cells = cs', w_handles = w_handles w, w_others = w_others w\<rparr> gone'
       | Inr a \<Rightarrow> \<exists>gone'. pool_run \<lparr>w_pool = p', w_cells = cs', w_handles = asm_handle a # w_handles w,
           w_others = add_mset (Reassembly, word_of_nat (n * c + n)) (w_others w)\<rparr> gone')"
  proof (cases "check_geometry n c limit")
    case (Inl e)
    then show ?thesis using run' by (auto simp: assembler_new_def)
  next
    case (Inr g)
    then obtain m where "checked_capacity n c = Inr m" and g: "g = (n, c)"
      by (auto simp: check_geometry_def and_then_def map_err_def split: sum.splits if_splits)
    from admit_spec [OF assms this(1), of env flags_ok fill] obtain r p' cs' where
      r: "new_with_guard True env flags_ok fill (n, c) (w_pool w) (w_cells w) = Some (r, p', cs')"
      "case r of
         Inl e \<Rightarrow> \<exists>gone'. pool_run \<lparr>w_pool = p', w_cells = cs', w_handles = w_handles w, w_others = w_others w\<rparr> gone'
       | Inr a \<Rightarrow> admitted n c w a p' cs'" by blast
    then show ?thesis using Inr g by (cases r) (auto simp: assembler_new_def admitted_def)
  qed
  moreover have "\<exists>p' cs' gone'. assembler_abort now a (w_pool w) (w_cells w) = Some (p', cs') \<and>
        pool_run \<lparr>w_pool = p', w_cells = cs', w_handles = remove1 (bk_handle s) (w_handles w),
          w_others = w_others w - {#bk_reservation s#}\<rparr> gone'"
    if "rb_state (ca_backing a) = Some s" "bk_handle s \<in> set (w_handles w)" "bk_reservation s \<in># w_others w" for a s now
    using release_backing_spec [OF assms that, of now] by (auto simp: assembler_abort_def)
  ultimately show ?thesis by blast
qed

section \<open>Chunks that are cut short\<close>

lemma new_data:
  "assembler_new env flags_ok fill n c limit p cs = Some (Inr a, p', cs') \<Longrightarrow> asm_data a = map fill [0..<n * c]"
  by (auto simp: assembler_new_def check_geometry_def checked_capacity_def and_then_def map_err_def new_with_guard_def
      admit_with_guard_def asm_data_def split: sum.splits if_splits prod.splits bind_splits)

text \<open>Only the last chunk may be short for the round trip. A first chunk that is short is accepted all the same,
  and the finished carrier then exposes, between its two chunks, bytes that were never received: what the pool's
  block held before.\<close>

lemma short_first_chunk_exposes_block:
  assumes run: "pool_run w gone"
    and new: "assembler_new env flags_ok fill 2 c limit (w_pool w) (w_cells w) = Some (Inr a, p', cs')"
    and v: "validate_handle p (asm_handle a) = Inr ()" and d: "length d0 < c" "length d1 = c"
  shows "\<exists>a' b. feed_seq [(p, 0, d0), (p, 1, d1)] a = Some ([Inr False, Inr True], a') \<and>
    finish now a' p cs = Some (Inr b, p, cs) \<and> copy_bytes p b = Inr (d0 @ map fill [length d0..<c] @ d1)"
proof -
  note ad = new_admitted [OF run new, unfolded admitted_def]
  have ok: "asm_ok a" and seen: "seen_set a = {}" and nc: "ca_total_chunks a = 2" "ca_chunk_size a = c" using ad by auto
  have fl: "\<not> asm_flags a ! i" if "i < 2" for i
    using seen that asm_flags_length [OF ok] nc by (auto simp: seen_set_def)
  have rec: "ca_received a = 0" using seen_received [OF ok] seen by simp
  let ?a1 = "after_chunk 0 d0 a"
  note a1 = after_chunk_ok [OF ok, of 0 d0, unfolded nc, OF _ fl less_imp_le [OF d(1)], simplified]
  have f1: "\<not> asm_flags ?a1 ! 1" using a1(3) fl [of 1] by simp
  let ?a2 = "after_chunk 1 d1 ?a1"
  have a2: "asm_ok ?a2" "asm_data ?a2 = take c (asm_data ?a1) @ d1 @ drop (c + c) (asm_data ?a1)"
    "ca_written_end ?a2 = max (c + c) (ca_written_end ?a1)" "ca_received ?a2 = 2" "ca_total_chunks ?a2 = 2"
    "asm_handle ?a2 = asm_handle a" "ca_chunk_size ?a2 = c"
    using after_chunk_ok [OF a1(1), of 1 d1] a1 f1 d(2) rec nc by simp_all
  have data: "asm_data ?a2 = d0 @ map fill [length d0..<c] @ d1"
    using a1(4) a2(2) new_data [OF new] d by (simp add: drop_map take_map drop_upt take_upt mult_2)
  have fed: "feed_seq [(p, 0, d0), (p, 1, d1)] a = Some ([Inr False, Inr True], ?a2)"
    using feed_chunk_exact [OF ok v, of 0 d0] feed_chunk_exact [OF a1(1), of p 1 d1] a1 v nc fl d rec f1 by simp
  obtain s where s: "rb_state (ca_backing ?a2) = Some s" using a2(1) by (auto simp: asm_ok_def split: option.splits)
  note k = a2(1) [unfolded asm_ok_def s option.case a2(5,7)]
  have we: "ca_written_end ?a2 = c + c" using a2(3) k by simp
  let ?b = "(ca_backing ?a2)\<lparr>rb_state := Some (s\<lparr>bk_handle := with_len (bk_handle s) (c + c)\<rparr>)\<rparr>"
  have "finish now ?a2 p cs = Some (Inr ?b, p, cs)"
    using a2(4,5) we k s by (simp add: finish_def is_complete_def backing_trim_to_def live_state_def trim_to_def)
  moreover have "handle_len (with_len (bk_handle s) (c + c)) = c + c" by (cases "bk_handle s") simp_all
  then have "copy_bytes p ?b = Inr (d0 @ map fill [length d0..<c] @ d1)"
    using v a2(6) data s d
    by (simp add: copy_bytes_def live_state_def and_then_def asm_handle_def asm_data_def validate_with_len)
  ultimately show ?thesis using fed by blast
qed

section \<open>A concrete reassembly\<close>

text \<open>Three one-byte chunks in a 16-byte segment, fed in the order 2, 0, 1.\<close>

definition demo_charged :: "u64 \<Rightarrow> u64 \<Rightarrow> budget_cells" where
  "demo_charged n m = (demo_cells n m)\<lparr>cells_reassembly := \<lparr>bc_limit_bytes = 64, bc_used_bytes = 6, bc_peak_bytes = 6,
     bc_rejected_allocations = 0, bc_rejected_bytes = 0\<rparr>\<rparr>"

definition demo_asm :: chunk_assembler where
  "demo_asm = \<lparr>ca_total_chunks = 3, ca_chunk_size = 1, ca_received = 0, ca_written_end = 0,
     ca_backing = \<lparr>rb_state = Some \<lparr>bk_received_flags = [False, False, False], bk_handle = demo_handle,
       bk_reservation = (Reassembly, 6), bk_data = [9, 9, 9]\<rparr>\<rparr>\<rparr>"

definition demo_live :: mem_pool where
  "demo_live = demo_pool [Some demo_segment] [1] [None] True 1"

lemma demo_new_asm:
  "assembler_new demo_env True (\<lambda>i. 9) 3 1 100 (demo_pool [] [] [] True 0) (demo_cells 0 0) =
     Some (Inr demo_asm, demo_live, demo_charged 16 16)"
proof -
  have "budget_reserve (demo_cells 0 0) Reassembly 6 = (Inr (Reassembly, 6), demo_charged 0 0)"
    by (simp add: budget_reserve_def cell_try_reserve_def demo_cells_def demo_charged_def new_cell_def get_cell_def
        set_cell_def checked_add_def)
  moreover have "budget_reserve (demo_charged 0 0) Shm 16 = (Inr (Shm, 16), demo_charged 16 16)"
    by (simp add: budget_reserve_def cell_try_reserve_def demo_cells_def demo_charged_def get_cell_def
        set_cell_def checked_add_def)
  then have "alloc_handle demo_env 3 (demo_pool [] [] [] True 0) (demo_charged 0 0) =
      Some (Inr demo_handle, demo_live, demo_charged 16 16)"
    by (simp add: alloc_handle_def demo_alloc_shm demo_handle_def into_handle_def demo_live_def) (simp add: demo_pool_def)
  moreover have "mp_has_budget (demo_pool [] [] [] True 0)" by (simp add: demo_pool_def)
  ultimately show ?thesis
    by (simp add: assembler_new_def check_geometry_def checked_capacity_def and_then_def map_err_def usize_max_def
        new_with_guard_def admit_with_guard_def demo_asm_def numeral_3_eq_3)
qed

lemma demo_valid: "validate_handle demo_live (asm_handle demo_asm) = Inr ()"
  by (simp add: demo_live_def asm_handle_def demo_asm_def demo_handle_def validate_handle_def validate_handle_owner_def
      and_then_def pool_data_ptr_def validate_generation_def segment_generation_def segment_def demo_pool_def buddy_allocation_def)

lemma demo_run0: "pool_run \<lparr>w_pool = demo_pool [] [] [] True 0, w_cells = demo_cells 0 0, w_handles = [], w_others = {#}\<rparr> {}"
  by (rule run_new [OF demo_new budget_new [of 64 64 64, folded demo_cells_new]])

theorem reassembly_roundtrip_witness:
  "\<exists>a' b. feed_seq (chunk_frames 1 [5, 6, 7] [(demo_live, 2), (demo_live, 0), (demo_live, 1)]) demo_asm =
      Some ([Inr False, Inr False, Inr True], a') \<and>
    finish 1 a' demo_live (demo_charged 16 16) = Some (Inr b, demo_live, demo_charged 16 16) \<and>
    copy_bytes demo_live b = Inr [5, 6, 7]"
proof -
  have "snd ` set [(demo_live, 2), (demo_live, 0), (demo_live, 1)] = {..<(3 :: nat)}" by auto
  from reassembly_roundtrip [OF demo_run0, of demo_env True "\<lambda>i. 9" 3 1 100 demo_asm demo_live "demo_charged 16 16" "[5, 6, 7]"
      "[(demo_live, 2), (demo_live, 0), (demo_live, 1)]" demo_live 1 "demo_charged 16 16"] this demo_new_asm demo_valid
  show ?thesis by (simp add: numeral_2_eq_2) blast
qed

theorem feed_accepts_exactly_witness:
  "\<exists>rs a'. feed_seq [(demo_live, 1, [5]), (demo_live, 1, [6]), (demo_live, 3, [7]), (demo_live, 0, [8, 9])] demo_asm = Some (rs, a') \<and>
    map (\<lambda>r. \<exists>x. r = Inr x) rs = [True, False, False, False]"
proof -
  let ?f = "[(demo_live, 1, [5]), (demo_live, 1, [6]), (demo_live, 3, [7]), (demo_live, 0, [8, 9])]"
  have acc: "accepted 3 1 {} ?f = [True, False, False, False]" by (simp add: Let_def)
  have new: "assembler_new demo_env True (\<lambda>i. 9) 3 1 100 (w_pool \<lparr>w_pool = demo_pool [] [] [] True 0, w_cells = demo_cells 0 0,
      w_handles = [], w_others = {#}\<rparr>) (w_cells \<lparr>w_pool = demo_pool [] [] [] True 0, w_cells = demo_cells 0 0,
      w_handles = [], w_others = {#}\<rparr>) = Some (Inr demo_asm, demo_live, demo_charged 16 16)"
    using demo_new_asm by simp
  have "\<forall>p\<in>fst ` set ?f. validate_handle p (asm_handle demo_asm) = Inr ()" using demo_valid by simp
  from feed_accepts_exactly [OF demo_run0 new this] show ?thesis
    unfolding acc by (elim exE conjE) (intro exI conjI)
qed

theorem reassembly_refines_pool_witness:
  "\<exists>gone'. pool_run \<lparr>w_pool = demo_live, w_cells = demo_charged 16 16, w_handles = [demo_handle], w_others = {#(Reassembly, 6)#}\<rparr> gone'"
  using conjunct1 [OF reassembly_refines_pool [OF demo_run0, of demo_env True "\<lambda>i. 9" 3 1 100]] demo_new_asm
  by (simp add: asm_handle_def demo_asm_def)

end
