(* ===== verification/Retention.thy ===== *)
theory Retention
  imports Ledger
begin

text \<open>
  The retention budget of \<open>c2-mem/src/retention.rs\<close>: operation slots and retained bytes, admitted
  together or not at all, with growth of a live permit and a close that stops admissions.

  A permit is the number of bytes it charges. \<open>retention_reach\<close> is every interleaving of
  \<open>reserve\<close>, \<open>try_grow\<close>, \<open>close\<close> and permit drops over all clones of the budget, with the multiset
  of live permits.
\<close>

datatype retention_reject_reason = OperationsExhausted | RetainedBytesExhausted | RetentionClosed

record retention_error =
  re_reason :: retention_reject_reason
  re_requested_bytes :: u64
  re_used_operations :: u64
  re_used_retained_bytes :: u64
  re_max_operations :: u64
  re_max_retained_bytes :: u64

record retention_inner =
  ri_max_operations :: u64
  ri_max_retained_bytes :: u64
  ri_used_operations :: u64
  ri_used_retained_bytes :: u64
  ri_peak_operations :: u64
  ri_peak_retained_bytes :: u64
  ri_rejected_reservations :: u64
  ri_closed :: bool

definition reject_reason_message :: "retention_reject_reason \<Rightarrow> string" where
  "reject_reason_message r =
     (case r of OperationsExhausted \<Rightarrow> ''no operation slot available''
        | RetainedBytesExhausted \<Rightarrow> ''retained-byte limit exceeded''
        | RetentionClosed \<Rightarrow> ''retention budget is closed'')"

definition retention_new :: "u64 \<Rightarrow> u64 \<Rightarrow> retention_inner" where
  "retention_new max_operations max_retained_bytes =
     \<lparr>ri_max_operations = max_operations, ri_max_retained_bytes = max_retained_bytes,
      ri_used_operations = 0, ri_used_retained_bytes = 0, ri_peak_operations = 0,
      ri_peak_retained_bytes = 0, ri_rejected_reservations = 0, ri_closed = False\<rparr>"

definition retention_rejected :: "retention_inner \<Rightarrow> u64 \<Rightarrow> retention_reject_reason \<Rightarrow> (retention_error + 'a) \<times> retention_inner" where
  "retention_rejected s bytes reason =
     (Inl \<lparr>re_reason = reason, re_requested_bytes = bytes, re_used_operations = ri_used_operations s,
           re_used_retained_bytes = ri_used_retained_bytes s, re_max_operations = ri_max_operations s,
           re_max_retained_bytes = ri_max_retained_bytes s\<rparr>,
      s\<lparr>ri_rejected_reservations := saturating_add (ri_rejected_reservations s) 1\<rparr>)"

definition retention_try_reserve :: "retention_inner \<Rightarrow> u64 \<Rightarrow> (retention_error + unit) \<times> retention_inner" where
  "retention_try_reserve s bytes =
     (if ri_closed s then retention_rejected s bytes RetentionClosed
      else if ri_used_operations s \<ge> ri_max_operations s then retention_rejected s bytes OperationsExhausted
      else case checked_add (ri_used_retained_bytes s) bytes of
          Some new_bytes \<Rightarrow>
            (if new_bytes \<le> ri_max_retained_bytes s then
               (let ops = ri_used_operations s + 1
                in (Inr (), s\<lparr>ri_used_retained_bytes := new_bytes,
                     ri_peak_retained_bytes := (if new_bytes > ri_peak_retained_bytes s then new_bytes else ri_peak_retained_bytes s),
                     ri_used_operations := ops,
                     ri_peak_operations := (if ops > ri_peak_operations s then ops else ri_peak_operations s)\<rparr>))
             else retention_rejected s bytes RetainedBytesExhausted)
        | None \<Rightarrow> retention_rejected s bytes RetainedBytesExhausted)"

definition retention_release :: "retention_inner \<Rightarrow> u64 \<Rightarrow> retention_inner run" where
  "retention_release s bytes =
     do {
       ops \<leftarrow> checked_sub (ri_used_operations s) 1;
       used \<leftarrow> checked_sub (ri_used_retained_bytes s) bytes;
       Some (s\<lparr>ri_used_operations := ops, ri_used_retained_bytes := used\<rparr>)
     }"

definition retention_close :: "retention_inner \<Rightarrow> retention_inner" where
  "retention_close s = s\<lparr>ri_closed := True\<rparr>"

definition retention_reserve :: "retention_inner \<Rightarrow> u64 \<Rightarrow> (retention_error + u64) \<times> retention_inner" where
  "retention_reserve s bytes =
     (let (attempt, s') = retention_try_reserve s bytes in (map_sum id (\<lambda>_. bytes) attempt, s'))"

definition retention_try_grow :: "retention_inner \<Rightarrow> u64 \<Rightarrow> u64 \<Rightarrow> ((retention_error + u64) \<times> retention_inner) run" where
  "retention_try_grow s permit additional_bytes =
     (if additional_bytes = 0 then Some (Inr permit, s)
      else
        (let total = checked_add (ri_used_retained_bytes s) additional_bytes
         in if ri_closed s then Some (retention_rejected s additional_bytes RetentionClosed)
            else if (case total of None \<Rightarrow> True | Some t \<Rightarrow> t > ri_max_retained_bytes s)
              then Some (retention_rejected s additional_bytes RetainedBytesExhausted)
            else do {
              t \<leftarrow> total;
              grown \<leftarrow> checked_add permit additional_bytes;
              Some (Inr grown, s\<lparr>ri_used_retained_bytes := t,
                                ri_peak_retained_bytes := max (ri_peak_retained_bytes s) t\<rparr>)
            }))"

inductive retention_reach :: "u64 \<Rightarrow> u64 \<Rightarrow> retention_inner \<Rightarrow> u64 multiset \<Rightarrow> bool" for ops bytes where
  ret_new: "retention_reach ops bytes (retention_new ops bytes) {#}"
| ret_admit: "retention_reach ops bytes s live \<Longrightarrow> retention_reserve s n = (Inr p, s') \<Longrightarrow>
     retention_reach ops bytes s' (add_mset p live)"
| ret_reject: "retention_reach ops bytes s live \<Longrightarrow> retention_reserve s n = (Inl e, s') \<Longrightarrow>
     retention_reach ops bytes s' live"
| ret_grow: "retention_reach ops bytes s live \<Longrightarrow> p \<in># live \<Longrightarrow>
     retention_try_grow s p n = Some (Inr p', s') \<Longrightarrow>
     retention_reach ops bytes s' (add_mset p' (live - {#p#}))"
| ret_grow_reject: "retention_reach ops bytes s live \<Longrightarrow> p \<in># live \<Longrightarrow>
     retention_try_grow s p n = Some (Inl e, s') \<Longrightarrow> retention_reach ops bytes s' live"
| ret_close: "retention_reach ops bytes s live \<Longrightarrow> retention_reach ops bytes (retention_close s) live"
| ret_drop: "retention_reach ops bytes s live \<Longrightarrow> p \<in># live \<Longrightarrow>
     retention_release s p = Some s' \<Longrightarrow> retention_reach ops bytes s' (live - {#p#})"

section \<open>The retention budget is a two-dimensional ledger\<close>

datatype retention_dim = Operations | RetainedBytes

definition retention_used :: "retention_inner \<Rightarrow> retention_dim \<Rightarrow> nat" where
  "retention_used s d = (case d of Operations \<Rightarrow> unat (ri_used_operations s) | RetainedBytes \<Rightarrow> unat (ri_used_retained_bytes s))"

definition retention_limit :: "retention_inner \<Rightarrow> retention_dim \<Rightarrow> nat" where
  "retention_limit s d = (case d of Operations \<Rightarrow> unat (ri_max_operations s) | RetainedBytes \<Rightarrow> unat (ri_max_retained_bytes s))"

definition permit_cost :: "u64 \<Rightarrow> retention_dim \<Rightarrow> nat" where
  "permit_cost n d = (case d of Operations \<Rightarrow> 1 | RetainedBytes \<Rightarrow> unat n)"

lemma slot_taken:
  fixes a m :: u64
  assumes "a < m" shows "unat (a + 1) = Suc (unat a)" "a + 1 \<le> m"
  using checked_add_within(1) [of a 1 m] assms by (auto simp: word_less_nat_alt)

definition retention_admits :: "retention_inner \<Rightarrow> u64 \<Rightarrow> bool" where
  "retention_admits s n \<longleftrightarrow> \<not> ri_closed s \<and> unat (ri_used_operations s) < unat (ri_max_operations s) \<and>
     unat (ri_used_retained_bytes s) + unat n \<le> unat (ri_max_retained_bytes s)"

lemma retention_admit:
  assumes "retention_admits s n"
  shows "retention_try_reserve s n = (Inr (), s\<lparr>ri_used_retained_bytes := ri_used_retained_bytes s + n,
       ri_peak_retained_bytes := max (ri_peak_retained_bytes s) (ri_used_retained_bytes s + n),
       ri_used_operations := ri_used_operations s + 1,
       ri_peak_operations := max (ri_peak_operations s) (ri_used_operations s + 1)\<rparr>)"
proof -
  have "\<not> ri_max_operations s \<le> ri_used_operations s"
    using assms by (simp add: retention_admits_def word_le_nat_alt)
  then show ?thesis
    using assms checked_add_within(1) [of "ri_used_retained_bytes s" n "ri_max_retained_bytes s"]
    by (simp add: retention_admits_def retention_try_reserve_def if_less_max Let_def)
qed

lemma retention_refuse:
  assumes "\<not> retention_admits s n"
  shows "\<exists>reason. retention_try_reserve s n = retention_rejected s n reason"
  using assms checked_add_within(2) [of "ri_max_retained_bytes s" "ri_used_retained_bytes s" n]
  by (auto simp: retention_admits_def retention_try_reserve_def word_le_nat_alt split: option.splits)

interpretation rb: ledger retention_used retention_limit permit_cost retention_try_reserve retention_release
proof unfold_locales
  fix s c s' and d :: retention_dim
  assume a: "retention_try_reserve s c = (Inr (), s')"
  have adm: "retention_admits s c"
    using retention_refuse [of s c] a by (auto simp: retention_rejected_def)
  note facts = adm [unfolded retention_admits_def]
  from facts show "retention_used s' d = retention_used s d + permit_cost c d \<and>
        retention_used s' d \<le> retention_limit s' d \<and> retention_limit s' d = retention_limit s d"
    using retention_admit [OF adm] a slot_taken [of "ri_used_operations s" "ri_max_operations s"]
      checked_add_within(1) [of "ri_used_retained_bytes s" c "ri_max_retained_bytes s"]
    by (cases d) (auto simp: retention_used_def retention_limit_def permit_cost_def word_less_nat_alt word_le_nat_alt)
next
  fix s c e s' and d :: retention_dim
  assume a: "retention_try_reserve s c = (Inl e, s')"
  then have "\<not> retention_admits s c" using retention_admit [of s c] by auto
  with retention_refuse a show "retention_used s' d = retention_used s d \<and> retention_limit s' d = retention_limit s d"
    by (cases d) (fastforce simp: retention_rejected_def retention_used_def retention_limit_def)+
next
  fix c s assume le: "\<forall>d. permit_cost c d \<le> retention_used s d"
  have "1 \<le> ri_used_operations s" "c \<le> ri_used_retained_bytes s"
    using le [rule_format, of Operations] le [rule_format, of RetainedBytes]
    by (simp_all add: permit_cost_def retention_used_def word_le_nat_alt)
  then show "\<exists>s'. retention_release s c = Some s' \<and>
      (\<forall>d. retention_used s' d = retention_used s d - permit_cost c d \<and> retention_limit s' d = retention_limit s d)"
    by (auto simp: retention_release_def retention_used_def retention_limit_def permit_cost_def
        unat_sub word_le_nat_alt split: retention_dim.splits)
qed

section \<open>Growth\<close>

definition retention_grows :: "retention_inner \<Rightarrow> u64 \<Rightarrow> bool" where
  "retention_grows s n \<longleftrightarrow>
     n = 0 \<or> \<not> ri_closed s \<and> unat (ri_used_retained_bytes s) + unat n \<le> unat (ri_max_retained_bytes s)"

lemma grow_spec:
  assumes bal: "rb.balanced s live" and p: "p \<in># live"
  shows "retention_grows s n \<Longrightarrow> \<exists>s'. retention_try_grow s p n = Some (Inr (p + n), s') \<and>
      unat (p + n) = unat p + unat n \<and> rb.balanced s' (add_mset (p + n) (live - {#p#}))"
    and "\<not> retention_grows s n \<Longrightarrow> \<exists>reason. retention_try_grow s p n = Some (retention_rejected s n reason)"
proof -
  have used: "unat (ri_used_retained_bytes s) = unat p + total_cost permit_cost (live - {#p#}) RetainedBytes"
    and ops: "unat (ri_used_operations s) = Suc (total_cost permit_cost (live - {#p#}) Operations)"
    and lim: "unat (ri_used_retained_bytes s) \<le> unat (ri_max_retained_bytes s)"
       "unat (ri_used_operations s) \<le> unat (ri_max_operations s)"
    using bal total_remove [OF p, of permit_cost]
    unfolding rb.balanced_def retention_used_def retention_limit_def
    by (metis permit_cost_def retention_dim.simps(3,4) plus_1_eq_Suc)+
  {
    assume g: "retention_grows s n"
    show "\<exists>s'. retention_try_grow s p n = Some (Inr (p + n), s') \<and>
      unat (p + n) = unat p + unat n \<and> rb.balanced s' (add_mset (p + n) (live - {#p#}))"
    proof (cases "n = 0")
      case True
      with bal p show ?thesis by (simp add: retention_try_grow_def)
    next
      case False
      with g have le: "unat (ri_used_retained_bytes s) + unat n \<le> unat (ri_max_retained_bytes s)"
        and open_: "\<not> ri_closed s" by (auto simp: retention_grows_def)
      note t = checked_add_within(1) [OF le]
      note q = checked_add_within(1) [of p n "ri_max_retained_bytes s"]
      have q': "checked_add p n = Some (p + n)" "unat (p + n) = unat p + unat n" using q le used by simp_all
      let ?s = "s\<lparr>ri_used_retained_bytes := ri_used_retained_bytes s + n,
        ri_peak_retained_bytes := max (ri_peak_retained_bytes s) (ri_used_retained_bytes s + n)\<rparr>"
      have "rb.balanced ?s (add_mset (p + n) (live - {#p#}))"
        by (rule rb.balancedI, case_tac d)
          (use t le used ops lim q' in \<open>simp_all add: retention_used_def retention_limit_def permit_cost_def\<close>)
      with False open_ t q' show ?thesis by (auto simp: retention_try_grow_def Let_def)
    qed
  next
    assume "\<not> retention_grows s n"
    then show "\<exists>reason. retention_try_grow s p n = Some (retention_rejected s n reason)"
      using checked_add_within(2) [of "ri_max_retained_bytes s" "ri_used_retained_bytes s" n]
      by (auto simp: retention_grows_def retention_try_grow_def Let_def not_le split: option.splits)
  }
qed

lemma balanced_cong:
  assumes "rb.balanced s live" "ri_used_operations s' = ri_used_operations s"
    "ri_used_retained_bytes s' = ri_used_retained_bytes s" "ri_max_operations s' = ri_max_operations s"
    "ri_max_retained_bytes s' = ri_max_retained_bytes s"
  shows "rb.balanced s' live"
proof -
  have "retention_used s' = retention_used s" "retention_limit s' = retention_limit s"
    using assms(2-5) by (auto simp: fun_eq_iff retention_used_def retention_limit_def split: retention_dim.splits)
  then show ?thesis using assms(1) unfolding rb.balanced_def by metis
qed

lemma retention_reserve_cases:
  "retention_reserve s n = (Inr p, s') \<Longrightarrow> p = n \<and> retention_try_reserve s n = (Inr (), s')"
  "retention_reserve s n = (Inl e, s') \<Longrightarrow> retention_try_reserve s n = (Inl e, s')"
  by (auto simp: retention_reserve_def map_sum_def split: prod.splits sum.splits)

lemma retention_reach_balanced:
  assumes "retention_reach ops bytes s live"
  shows "rb.balanced s live"
  using assms
proof induction
  case ret_new
  show ?case by (rule rb.balancedI, case_tac d) (simp_all add: retention_used_def retention_new_def)
next
  case (ret_admit s live n p s')
  then show ?case using retention_reserve_cases(1) rb.balanced_admit by metis
next
  case (ret_reject s live n e s')
  then show ?case using retention_reserve_cases(2) rb.balanced_reject by metis
next
  case (ret_grow s live p n p' s')
  then show ?case using grow_spec [of s live p n]
    by (cases "retention_grows s n") (auto simp: retention_rejected_def)
next
  case (ret_grow_reject s live p n e s')
  then show ?case using grow_spec [of s live p n]
    by (cases "retention_grows s n") (auto simp: retention_rejected_def intro: balanced_cong)
next
  case (ret_close s live)
  then show ?case by (auto simp: retention_close_def intro: balanced_cong)
next
  case (ret_drop s live p s')
  then show ?case using rb.balanced_refundD by blast
qed

lemma retention_limits_const:
  assumes "retention_reach ops bytes s live"
  shows "ri_max_operations s = ops \<and> ri_max_retained_bytes s = bytes"
  using assms
proof induction
  case (ret_admit s live n p s')
  then show ?case by (auto simp: retention_reserve_def retention_try_reserve_def retention_rejected_def Let_def
      split: prod.splits option.splits if_splits)
next
  case (ret_reject s live n e s')
  then show ?case by (auto simp: retention_reserve_def retention_try_reserve_def retention_rejected_def Let_def
      split: prod.splits option.splits if_splits)
next
  case (ret_grow s live p n p' s')
  then show ?case by (auto simp: retention_try_grow_def retention_rejected_def Let_def split: if_splits bind_splits)
next
  case (ret_grow_reject s live p n e s')
  then show ?case by (auto simp: retention_try_grow_def retention_rejected_def Let_def split: if_splits bind_splits)
next
  case (ret_drop s live p s')
  then show ?case by (auto simp: retention_release_def split: bind_splits)
qed (simp_all add: retention_new_def retention_close_def)

text \<open>C22: Retention admission is exact. After any interleaving of reservations, growth, close and
  permit drops, the used operation slots are the number of live permits and the used bytes the sum
  of their charges, neither passes its limit, and a reservation succeeds exactly when the budget is
  open, a slot is free and the bytes fit. A rejected attempt changes only the rejection counter.\<close>

theorem retention_admission_exact:
  assumes "retention_reach ops bytes s live"
  shows "ri_max_operations s = ops \<and> ri_max_retained_bytes s = bytes \<and>
    unat (ri_used_operations s) = size live \<and> size live \<le> unat ops \<and>
    unat (ri_used_retained_bytes s) = (\<Sum>p\<in>#live. unat p) \<and> (\<Sum>p\<in>#live. unat p) \<le> unat bytes \<and>
    (\<forall>n. \<not> isl (fst (retention_reserve s n)) \<longleftrightarrow>
       \<not> ri_closed s \<and> size live < unat ops \<and> (\<Sum>p\<in>#live. unat p) + unat n \<le> unat bytes) \<and>
    (\<forall>n e s'. retention_reserve s n = (Inl e, s') \<longrightarrow>
       s' = s\<lparr>ri_rejected_reservations := saturating_add (ri_rejected_reservations s) 1\<rparr>)"
proof -
  have bal: "rb.balanced s live" by (rule retention_reach_balanced [OF assms])
  have lim: "ri_max_operations s = ops" "ri_max_retained_bytes s = bytes"
    using retention_limits_const [OF assms] by auto
  have tot: "total_cost permit_cost live Operations = size live"
     "total_cost permit_cost live RetainedBytes = (\<Sum>p\<in>#live. unat p)"
    by (simp_all add: total_cost_def permit_cost_def)
  have used: "unat (ri_used_operations s) = size live" "unat (ri_used_retained_bytes s) = (\<Sum>p\<in>#live. unat p)"
     "size live \<le> unat ops" "(\<Sum>p\<in>#live. unat p) \<le> unat bytes"
    using bal tot lim unfolding rb.balanced_def retention_used_def retention_limit_def
    by (metis retention_dim.simps(3,4))+
  have "\<not> isl (fst (retention_reserve s n)) \<longleftrightarrow> retention_admits s n" for n
    using retention_admit [of s n] retention_refuse [of s n]
    by (cases "retention_admits s n") (auto simp: retention_reserve_def retention_rejected_def)
  moreover have "s' = s\<lparr>ri_rejected_reservations := saturating_add (ri_rejected_reservations s) 1\<rparr>"
    if "retention_reserve s n = (Inl e, s')" for n e s'
    using that retention_admit [of s n] retention_refuse [of s n]
    by (cases "retention_admits s n") (auto simp: retention_reserve_def retention_rejected_def)
  ultimately show ?thesis using lim used by (simp add: retention_admits_def)
qed

text \<open>A live permit can always be grown or dropped without a panic. Growth succeeds exactly when
  it is zero or the budget is open and the additional bytes fit; the permit then charges exactly the
  sum. A drop, also after close, returns its slot and exactly its bytes.\<close>

lemma retention_permit_total:
  assumes "retention_reach ops bytes s live" "p \<in># live"
  shows "(\<exists>s'. retention_release s p = Some s' \<and> unat (ri_used_operations s') + 1 = size live \<and>
            unat (ri_used_retained_bytes s') + unat p = (\<Sum>p\<in>#live. unat p)) \<and>
    (\<forall>n. \<exists>r s'. retention_try_grow s p n = Some (r, s') \<and>
       (isl r \<longleftrightarrow> n \<noteq> 0 \<and> (ri_closed s \<or> unat bytes < (\<Sum>p\<in>#live. unat p) + unat n)) \<and>
       (\<forall>p'. r = Inr p' \<longrightarrow> unat p' = unat p + unat n))"
proof -
  have bal: "rb.balanced s live" by (rule retention_reach_balanced [OF assms(1)])
  have lim: "ri_max_retained_bytes s = bytes" using retention_limits_const [OF assms(1)] by simp
  have tot: "total_cost permit_cost l Operations = size l" "total_cost permit_cost l RetainedBytes = (\<Sum>p\<in>#l. unat p)" for l
    by (simp_all add: total_cost_def permit_cost_def)
  have used: "unat (ri_used_operations s) = size l" "unat (ri_used_retained_bytes s) = (\<Sum>p\<in>#l. unat p)"
    if "rb.balanced s l" for s l
    using that tot unfolding rb.balanced_def retention_used_def by (metis retention_dim.simps(3,4))+
  obtain s' where s': "retention_release s p = Some s'" "rb.balanced s' (live - {#p#})"
    using rb.balanced_refund [OF bal assms(2)] by blast
  have "live = add_mset p (live - {#p#})" using assms(2) by simp
  then have "size live = size (live - {#p#}) + 1" "(\<Sum>p\<in>#live. unat p) = unat p + (\<Sum>p\<in>#live - {#p#}. unat p)"
    by (metis size_add_mset Suc_eq_plus1, metis sum_mset.insert image_mset_add_mset)
  then have release: "\<exists>s'. retention_release s p = Some s' \<and> unat (ri_used_operations s') + 1 = size live \<and>
            unat (ri_used_retained_bytes s') + unat p = (\<Sum>p\<in>#live. unat p)"
    using s' used [OF s'(2)] by simp
  have "\<exists>r s'. retention_try_grow s p n = Some (r, s') \<and>
       (isl r \<longleftrightarrow> n \<noteq> 0 \<and> (ri_closed s \<or> unat bytes < (\<Sum>p\<in>#live. unat p) + unat n)) \<and>
       (\<forall>p'. r = Inr p' \<longrightarrow> unat p' = unat p + unat n)" for n
    using grow_spec [OF bal assms(2), of n] used(2) [OF bal] lim
    by (cases "retention_grows s n") (auto simp: retention_rejected_def retention_grows_def)
  with release show ?thesis by blast
qed

lemma sample_retention: "retention_reach 1 10 (snd (retention_reserve (retention_new 1 10) 4)) {#4#}"
  by (rule ret_admit [OF ret_new, of _ _ 4])
    (simp add: retention_reserve_def retention_new_def retention_try_reserve_def checked_add_def)

theorem retention_admission_exact_witness:
  "isl (fst (retention_reserve (snd (retention_reserve (retention_new 1 10) 4)) 1))"
  using retention_admission_exact [OF sample_retention] by auto

end
