(* ===== verification/Wire_Release.thy ===== *)
theory Wire_Release
  imports Wire_Frame
begin

text \<open>
  Release frames of \<open>c2-wire/src/release.rs\<close>: a nonempty batch of at most 64 loan ids, sent in the
  ordinary frame envelope as a control message. The batch is the fixed array with its count, as in
  the source. The capacity is \<open>IPC_RELEASE_BATCH_CAPACITY\<close> of \<open>c2-config/src/ipc.rs\<close>.
\<close>

datatype encode_error =
    FieldTooLong string usize usize
  | EncodeInvalidText string string
  | EncodeBufferTooShort string usize usize

definition IPC_RELEASE_BATCH_CAPACITY :: usize where
  "IPC_RELEASE_BATCH_CAPACITY = 64"

record release_batch =
  rb_ids :: "u64 list"
  rb_count :: usize

definition new_release_batch :: "u64 list \<Rightarrow> encode_error + release_batch" where
  "new_release_batch ids =
     (if ids = [] then Inl (EncodeInvalidText ''release count'' ''must be at least one'')
      else if length ids > IPC_RELEASE_BATCH_CAPACITY
        then Inl (FieldTooLong ''release count'' IPC_RELEASE_BATCH_CAPACITY (length ids))
      else Inr \<lparr>rb_ids = ids @ replicate (IPC_RELEASE_BATCH_CAPACITY - length ids) 0, rb_count = length ids\<rparr>)"

definition release_ids :: "release_batch \<Rightarrow> u64 list" where
  "release_ids b = take (rb_count b) (rb_ids b)"

definition release_flags :: "bool \<Rightarrow> u32" where
  "release_flags response = FLAG_CTRL OR (if response then FLAG_RESPONSE else 0)"

definition append_release_frame :: "bytes \<Rightarrow> u64 list \<Rightarrow> bool \<Rightarrow> bytes" where
  "append_release_frame bytes ids response =
     bytes @ to_le_bytes 4 (14 + 8 * (word_of_nat (length ids) :: u32)) @ to_le_bytes 8 (0 :: u64) @
     to_le_bytes 4 (release_flags response) @ [as_byte Release, word_of_nat (length ids)] @
     concat (map (to_le_bytes 8) ids)"

definition encode_release_frame :: "release_batch \<Rightarrow> bool \<Rightarrow> bytes" where
  "encode_release_frame batch response = append_release_frame [] (release_ids batch) response"

fun chunks_exact :: "nat \<Rightarrow> bytes \<Rightarrow> bytes list" where
  "chunks_exact 0 bs = []"
| "chunks_exact (Suc n) bs = take 8 bs # chunks_exact n (drop 8 bs)"

definition decode_release_frame :: "frame_header \<Rightarrow> bytes \<Rightarrow> bool \<Rightarrow> bool \<Rightarrow> decode_error + release_batch" where
  "decode_release_frame header payload response handshake_done =
     (if \<not> handshake_done then Inl (InvalidValue ''release before handshake'' 0)
      else if fh_request_id header \<noteq> 0 then Inl (InvalidValue ''release request id'' (fh_request_id header))
      else if fh_flags header \<noteq> release_flags response
        then Inl (InvalidValue ''release flags'' (ucast (fh_flags header)))
      else if length payload < 2 then Inl (BufferTooShort 2 (length payload))
      else if payload ! 0 \<noteq> as_byte Release then Inl (InvalidValue ''release type'' (ucast (payload ! 0)))
      else
        (let count = unat (payload ! 1)
         in if \<not> (1 \<le> count \<and> count \<le> IPC_RELEASE_BATCH_CAPACITY)
            then Inl (InvalidValue ''release count'' (word_of_nat count))
            else
              (let expected = 2 + 8 * count
               in if length payload \<noteq> expected \<or> unat (fh_total_len header) \<noteq> 12 + expected
                  then Inl (InvalidValue ''release length'' (ucast (fh_total_len header)))
                  else Inr \<lparr>rb_ids = map from_le_bytes (chunks_exact count (drop 2 payload)) @
                                      replicate (IPC_RELEASE_BATCH_CAPACITY - count) 0,
                            rb_count = count\<rparr>)))"

section \<open>Batches\<close>

definition release_batch_ok :: "release_batch \<Rightarrow> bool" where
  "release_batch_ok b \<longleftrightarrow>
     1 \<le> rb_count b \<and> rb_count b \<le> 64 \<and>
     (\<exists>ids. length ids = rb_count b \<and> rb_ids b = ids @ replicate (64 - rb_count b) 0)"

lemma release_batch_okE:
  assumes "release_batch_ok b"
  obtains ids where "1 \<le> length ids" "length ids \<le> 64" "b = \<lparr>rb_ids = ids @ replicate (64 - length ids) 0, rb_count = length ids\<rparr>"
    "release_ids b = ids"
  using assms by (cases b) (auto simp: release_batch_ok_def release_ids_def)

lemma new_batch_ok:
  "new_release_batch ids = Inr b \<longleftrightarrow> release_batch_ok b \<and> release_ids b = ids"
  by (cases b) (auto simp: new_release_batch_def release_batch_ok_def release_ids_def
      IPC_RELEASE_BATCH_CAPACITY_def Suc_le_eq split: if_splits)

lemma chunks_concat [simp]:
  "chunks_exact (length ids) (concat (map (to_le_bytes 8) ids)) = map (to_le_bytes 8) (ids :: u64 list)"
  by (induction ids) simp_all

lemma length_ids_bytes [simp]: "length (concat (map (to_le_bytes 8) (ids :: u64 list))) = 8 * length ids"
  by (induction ids) simp_all

lemma concat_chunks: "length bs = 8 * n \<Longrightarrow>
    concat (map (\<lambda>c. to_le_bytes 8 (from_le_bytes c :: u64)) (chunks_exact n bs)) = bs"
proof (induction n arbitrary: bs)
  case (Suc n)
  have "to_le_bytes 8 (from_le_bytes (take 8 bs) :: u64) = take 8 bs"
    using Suc.prems by (intro to_from_le_bytes) simp_all
  then show ?case using Suc by simp
qed simp

lemma length_chunks [simp]: "length (chunks_exact n bs) = n"
  by (induction n arbitrary: bs) simp_all

lemma release_frame_is_frame:
  assumes "length ids \<le> 64"
  shows "append_release_frame [] ids response =
    encode_frame 0 (release_flags response) ([as_byte Release, word_of_nat (length ids)] @ concat (map (to_le_bytes 8) ids))"
proof -
  have "(14 + 8 * word_of_nat (length ids) :: u32) = word_of_nat (12 + (2 + 8 * length ids))"
    by simp
  then show ?thesis by (simp add: append_release_frame_def encode_frame_eq add.commute)
qed

text \<open>C19: A release batch survives the wire: encoding a constructed batch as a frame and decoding it at
  a peer that finished its handshake and expects that direction gives back the same batch, with the
  same ids in the same order.\<close>

theorem release_frame_roundtrip:
  assumes "new_release_batch ids = Inr b"
  shows "\<exists>h p. decode_frame (encode_release_frame b response) = Inr (h, p) \<and>
    decode_release_frame h p response True = Inr b \<and> release_ids b = ids"
proof -
  have ok: "release_batch_ok b" and ids: "release_ids b = ids" using assms new_batch_ok by auto
  obtain l where l: "1 \<le> length ids" "length ids \<le> 64" "b = \<lparr>rb_ids = ids @ replicate (64 - length ids) 0, rb_count = length ids\<rparr>"
    using release_batch_okE [OF ok] ids by metis
  let ?p = "[as_byte Release, word_of_nat (length ids)] @ concat (map (to_le_bytes 8) ids)"
  have len: "length ?p = 2 + 8 * length ids" by simp
  have fl: "frame_len ?p = 12 + length ?p" using l(2) by (simp add: frame_len_def)
  have "decode_frame (encode_release_frame b response) =
    Inr (\<lparr>fh_total_len = word_of_nat (12 + length ?p), fh_request_id = 0, fh_flags = release_flags response\<rparr>, ?p)"
    using decode_encoded [of ?p "[]" 0 "release_flags response"] fl l(2)
    by (simp add: encode_release_frame_def ids release_frame_is_frame)
  moreover have "unat (word_of_nat (12 + length ?p) :: u32) = 14 + 8 * length ids"
    unfolding unat_frame_len using fl len by simp
  moreover have "unat (word_of_nat (length ids) :: u8) = length ids"
    using l(2) by (simp add: unat_of_nat take_bit_nat_eq_self)
  ultimately show ?thesis using l ids
    by (auto simp: decode_release_frame_def IPC_RELEASE_BATCH_CAPACITY_def Let_def comp_def)
qed

text \<open>C20: Release decoding is strict: it accepts only after the handshake, with request id zero and
  exactly the expected direction flags, and then the accepted payload is exactly the encoding of the
  returned batch, which has between 1 and 64 ids.\<close>

theorem decode_release_strict:
  assumes "decode_release_frame h p response ready = Inr b"
  shows "ready \<and> fh_request_id h = 0 \<and> fh_flags h = release_flags response \<and>
    new_release_batch (release_ids b) = Inr b \<and> unat (fh_total_len h) = 12 + length p \<and>
    encode_frame 0 (fh_flags h) p = encode_release_frame b response"
proof -
  define n where "n = unat (p ! 1)"
  define ids :: "u64 list" where "ids = map from_le_bytes (chunks_exact n (drop 2 p))"
  have d: "ready" "fh_request_id h = 0" "fh_flags h = release_flags response" "p ! 0 = as_byte Release"
    "1 \<le> n" "n \<le> 64" "length p = 2 + 8 * n" "unat (fh_total_len h) = 12 + length p"
    "b = \<lparr>rb_ids = ids @ replicate (64 - n) 0, rb_count = n\<rparr>"
    using assms by (auto simp: decode_release_frame_def Let_def IPC_RELEASE_BATCH_CAPACITY_def n_def ids_def split: if_splits)
  have len: "length ids = n" by (simp add: ids_def)
  then have ids: "release_ids b = ids" using d(9) by (simp add: release_ids_def)
  have "concat (map (to_le_bytes 8) ids) = drop 2 p"
    using concat_chunks [of "drop 2 p" n] d(7) by (simp add: ids_def comp_def)
  moreover have "p = [p ! 0, p ! 1] @ drop 2 p"
    using d(7) by (cases p; cases "tl p") auto
  moreover have "word_of_nat (length ids) = p ! 1" unfolding len n_def by simp
  ultimately have "p = [as_byte Release, word_of_nat (length ids)] @ concat (map (to_le_bytes 8) ids)"
    using d(4) by metis
  then have "encode_frame 0 (fh_flags h) p = encode_release_frame b response"
    using d(3,6) len ids by (simp add: encode_release_frame_def release_frame_is_frame)
  moreover have "new_release_batch (release_ids b) = Inr b"
    using d(5,6,9) len ids by (auto simp: new_release_batch_def IPC_RELEASE_BATCH_CAPACITY_def)
  ultimately show ?thesis using d by blast
qed

theorem release_frame_roundtrip_witness:
  "\<exists>b h p. new_release_batch [7, 9] = Inr b \<and> decode_frame (encode_release_frame b True) = Inr (h, p) \<and>
     decode_release_frame h p True True = Inr b"
proof -
  obtain b where b: "new_release_batch [7, 9] = Inr b"
    by (simp add: new_release_batch_def IPC_RELEASE_BATCH_CAPACITY_def)
  show ?thesis using release_frame_roundtrip [OF b, of True] b by blast
qed

theorem decode_release_strict_witness:
  "\<exists>b. decode_release_frame \<lparr>fh_total_len = 22, fh_request_id = 0, fh_flags = FLAG_CTRL\<rparr>
         [0x17, 1, 5, 0, 0, 0, 0, 0, 0, 0] False True = Inr b \<and> new_release_batch (release_ids b) = Inr b"
proof -
  obtain b where b: "decode_release_frame \<lparr>fh_total_len = 22, fh_request_id = 0, fh_flags = FLAG_CTRL\<rparr>
         [0x17, 1, 5, 0, 0, 0, 0, 0, 0, 0] False True = Inr b"
    by (simp add: decode_release_frame_def release_flags_def as_byte_def IPC_RELEASE_BATCH_CAPACITY_def)
  from decode_release_strict [OF b] b show ?thesis by blast
qed

end
