(* ===== verification/Connection.thy ===== *)
theory Connection
  imports Wire_Release
begin

text \<open>
  The control state of one physical IPC connection, \<open>c2-wire/src/connection/mod.rs\<close>.

  \<^item> \<open>conn_state\<close> is the state behind the mutex. Every locked section is one function of it; a
    function that the source follows by \<open>drop(self.deactivate())\<close> has the handler beside it that
    performs both. An allocation is its pool handle (of any type) with the publication flag; it is
    released exactly when it leaves the books of the connection.
  \<^item> The outcomes of \<open>try_reserve\<close> (heap exhaustion) are boolean arguments. Counters of live objects
    are unbounded, since each of those objects occupies memory; the subtractions are checked.
  \<^item> \<open>world\<close> puts the owners of tokens, batches and reclamation objects beside the state, and
    \<open>conn_step\<close> performs one locked section (or one \<open>Drop\<close>) at a time, so every interleaving of
    the drivers, the reader, the writer and token drops is a run of it.
\<close>

datatype connection_side = Client | Server

datatype connection_error =
    ProtocolViolation string
  | BeforeHandshake
  | Deactivated
  | PeerEnded
  | Closed
  | WriterBusy
  | WriterBroken
  | LoanIdExhausted
  | Capacity string

definition connection_error_message :: "connection_error \<Rightarrow> string" where
  "connection_error_message e =
     (case e of
        ProtocolViolation message \<Rightarrow> ''ProtocolViolation: '' @ message
      | BeforeHandshake \<Rightarrow> ''frame before handshake''
      | Deactivated \<Rightarrow> ''physical connection is deactivated''
      | PeerEnded \<Rightarrow> ''peer has ended''
      | Closed \<Rightarrow> ''physical connection is closed''
      | WriterBusy \<Rightarrow> ''a write submission is already in progress''
      | WriterBroken \<Rightarrow> ''write framing can no longer be continued''
      | LoanIdExhausted \<Rightarrow> ''process loan ID space exhausted''
      | Capacity scope \<Rightarrow> ''connection storage exhausted: '' @ scope)"

record 'h conn_alloc =
  ca_handle :: 'h
  ca_published :: bool

datatype writer_state = WIdle | WReserved | WInFrame | WAwaitingFlush | WBroken

record 'h conn_state =
  cs_handshake_done :: bool
  cs_deactivated :: bool
  cs_peer_ended :: bool
  cs_closed :: bool
  cs_prepared :: "u64 \<rightharpoonup> 'h conn_alloc"
  cs_published :: "u64 \<rightharpoonup> 'h conn_alloc"
  cs_settling :: usize
  cs_remote_reads :: usize
  cs_releases :: "u64 list"
  cs_inflight_releases :: usize
  cs_pending_controls :: usize
  cs_writer :: writer_state

definition conn_new :: "'h conn_state" where
  "conn_new =
     \<lparr>cs_handshake_done = False, cs_deactivated = False, cs_peer_ended = False, cs_closed = False,
      cs_prepared = Map.empty, cs_published = Map.empty, cs_settling = 0, cs_remote_reads = 0,
      cs_releases = [], cs_inflight_releases = 0, cs_pending_controls = 0, cs_writer = WIdle\<rparr>"

text \<open>Owned reclamation actions: whole books taken by a stop or a peer end, and single records.\<close>

record 'h reclaims =
  rc_prepared :: "u64 \<rightharpoonup> 'h conn_alloc"
  rc_published :: "u64 \<rightharpoonup> 'h conn_alloc"
  rc_records :: "'h conn_alloc list"

definition reclaims_new :: "'h reclaims" where
  "reclaims_new = \<lparr>rc_prepared = Map.empty, rc_published = Map.empty, rc_records = []\<rparr>"

definition reclaims_is_empty :: "'h reclaims \<Rightarrow> bool" where
  "reclaims_is_empty r \<longleftrightarrow> dom (rc_prepared r) = {} \<and> dom (rc_published r) = {} \<and> rc_records r = []"

definition check_writable :: "'h conn_state \<Rightarrow> connection_error + unit" where
  "check_writable st =
     (if cs_closed st then Inl Closed else if cs_peer_ended st then Inl PeerEnded
      else if cs_writer st = WBroken then Inl WriterBroken else Inr ())"

definition check_live :: "'h conn_state \<Rightarrow> connection_error + unit" where
  "check_live st =
     (if cs_closed st then Inl Closed else if cs_peer_ended st then Inl PeerEnded
      else if cs_deactivated st then Inl Deactivated else Inr ())"

definition check_business :: "'h conn_state \<Rightarrow> connection_error + unit" where
  "check_business st =
     (case check_live st of Inl e \<Rightarrow> Inl e
        | Inr _ \<Rightarrow> if \<not> cs_handshake_done st then Inl BeforeHandshake else Inr ())"

definition stop_locked :: "'h conn_state \<Rightarrow> 'h reclaims \<Rightarrow> 'h conn_state \<times> 'h reclaims" where
  "stop_locked st r =
     (st\<lparr>cs_deactivated := True, cs_prepared := Map.empty,
         cs_settling := cs_settling st + card (dom (cs_prepared st))\<rparr>,
      r\<lparr>rc_prepared := cs_prepared st\<rparr>)"

definition deactivate :: "'h conn_state \<Rightarrow> 'h conn_state \<times> 'h reclaims" where
  "deactivate st = stop_locked st reclaims_new"

definition peer_end :: "'h conn_state \<Rightarrow> 'h conn_state \<times> 'h reclaims" where
  "peer_end st =
     (let (st', r) = stop_locked st reclaims_new
      in (st'\<lparr>cs_peer_ended := True, cs_published := Map.empty,
              cs_settling := cs_settling st' + card (dom (cs_published st')), cs_releases := []\<rparr>,
          r\<lparr>rc_published := cs_published st'\<rparr>))"

definition finish_handshake_locked :: "'h conn_state \<Rightarrow> (connection_error + unit) \<times> 'h conn_state" where
  "finish_handshake_locked st =
     (if cs_handshake_done st then (Inl (ProtocolViolation ''duplicate handshake''), st)
      else (case check_live st of Inl e \<Rightarrow> (Inl e, st) | Inr _ \<Rightarrow> (Inr (), st\<lparr>cs_handshake_done := True\<rparr>)))"

definition finish_handshake :: "'h conn_state \<Rightarrow> (connection_error + unit) \<times> 'h conn_state \<times> 'h reclaims" where
  "finish_handshake st =
     (if cs_handshake_done st then (Inl (ProtocolViolation ''duplicate handshake''), deactivate st)
      else (fst (finish_handshake_locked st), snd (finish_handshake_locked st), reclaims_new))"

definition prepare_loan_locked :: "'h conn_state \<Rightarrow> u64 \<Rightarrow> 'h \<Rightarrow> bool \<Rightarrow> bool \<Rightarrow>
    (connection_error + u64) \<times> 'h conn_state \<times> u64" where
  "prepare_loan_locked st sequence handle reserve_prepared reserve_published =
     (case check_business st of
        Inl e \<Rightarrow> (Inl e, st, sequence)
      | Inr _ \<Rightarrow>
          if \<not> reserve_prepared then (Inl (Capacity ''loan book''), st, sequence)
          else if \<not> reserve_published then (Inl (Capacity ''published loan book''), st, sequence)
          else (case checked_add sequence 1 of
              None \<Rightarrow> (Inl LoanIdExhausted, st, sequence)
            | Some loan \<Rightarrow>
                (Inr loan, st\<lparr>cs_prepared := (cs_prepared st)(loan \<mapsto> \<lparr>ca_handle = handle, ca_published = False\<rparr>)\<rparr>, loan)))"

definition prepare_loan_from :: "'h conn_state \<Rightarrow> u64 \<Rightarrow> 'h \<Rightarrow> bool \<Rightarrow> bool \<Rightarrow>
    (connection_error + u64) \<times> 'h conn_state \<times> u64 \<times> 'h reclaims" where
  "prepare_loan_from st sequence handle reserve_prepared reserve_published =
     (case prepare_loan_locked st sequence handle reserve_prepared reserve_published of (result, st', sequence') \<Rightarrow>
        (case result of
           Inl (Capacity _) \<Rightarrow> (result, fst (deactivate st'), sequence', snd (deactivate st'))
         | Inl LoanIdExhausted \<Rightarrow> (result, fst (deactivate st'), sequence', snd (deactivate st'))
         | _ \<Rightarrow> (result, st', sequence', reclaims_new)))"

definition admit_remote_loan_locked :: "'h conn_state \<Rightarrow> u64 \<Rightarrow> bool \<Rightarrow> (connection_error + u64) \<times> 'h conn_state" where
  "admit_remote_loan_locked st loan_id reserve_releases =
     (if cs_closed st then (Inl Closed, st)
      else if cs_peer_ended st then (Inl PeerEnded, st)
      else if \<not> cs_handshake_done st then (Inl BeforeHandshake, st)
      else if loan_id = 0 then (Inl (ProtocolViolation ''zero remote loan ID''), st)
      else if cs_remote_reads st + cs_inflight_releases st + 1 > usize_max then (Inl (Capacity ''release queue''), st)
      else if \<not> reserve_releases then (Inl (Capacity ''release queue''), st)
      else (Inr loan_id, st\<lparr>cs_remote_reads := cs_remote_reads st + 1\<rparr>))"

text \<open>The rejections after which a handler stops the connection.\<close>

fun stops_connection :: "(connection_error + 'a) \<Rightarrow> bool" where
  "stops_connection (Inl (Capacity _)) = True"
| "stops_connection (Inl (ProtocolViolation _)) = True"
| "stops_connection (Inl BeforeHandshake) = True"
| "stops_connection _ = False"

definition admit_remote_loan :: "'h conn_state \<Rightarrow> u64 \<Rightarrow> bool \<Rightarrow>
    (connection_error + u64) \<times> 'h conn_state \<times> 'h reclaims" where
  "admit_remote_loan st loan_id reserve_releases =
     (case admit_remote_loan_locked st loan_id reserve_releases of (result, st') \<Rightarrow>
        if stops_connection result then (result, deactivate st') else (result, st', reclaims_new))"

definition prepare_control_frame :: "'h conn_state \<Rightarrow> (connection_error + unit) \<times> 'h conn_state" where
  "prepare_control_frame st =
     (case check_writable st of Inl e \<Rightarrow> (Inl e, st)
        | Inr _ \<Rightarrow> (Inr (), st\<lparr>cs_pending_controls := cs_pending_controls st + 1\<rparr>))"

definition drop_control_frame :: "'h conn_state \<Rightarrow> 'h conn_state run" where
  "drop_control_frame st =
     do { n \<leftarrow> sub_run (cs_pending_controls st) 1; Some (st\<lparr>cs_pending_controls := n\<rparr>) }"

definition drop_prepared_loan :: "'h conn_state \<Rightarrow> u64 \<Rightarrow> 'h conn_state \<times> 'h reclaims" where
  "drop_prepared_loan st loan =
     (case cs_prepared st loan of
        Some allocation \<Rightarrow>
          (st\<lparr>cs_prepared := (cs_prepared st)(loan := None), cs_settling := cs_settling st + 1\<rparr>,
           reclaims_new\<lparr>rc_records := [allocation]\<rparr>)
      | None \<Rightarrow> (st, reclaims_new))"

definition drop_remote_loan :: "'h conn_state \<Rightarrow> u64 \<Rightarrow> 'h conn_state run" where
  "drop_remote_loan st loan_id =
     (let st' = (if \<not> cs_peer_ended st \<and> \<not> cs_closed st then st\<lparr>cs_releases := cs_releases st @ [loan_id]\<rparr> else st)
      in do { n \<leftarrow> sub_run (cs_remote_reads st') 1; Some (st'\<lparr>cs_remote_reads := n\<rparr>) })"

definition try_close :: "'h conn_state \<Rightarrow> bool \<times> 'h conn_state" where
  "try_close st =
     (let st' = (if cs_deactivated st \<and> (cs_writer st = WIdle \<or> cs_writer st = WBroken) \<and>
                    cs_pending_controls st = 0 \<and> cs_remote_reads st = 0 \<and> dom (cs_prepared st) = {} \<and>
                    dom (cs_published st) = {} \<and> cs_settling st = 0
                 then st\<lparr>cs_closed := True, cs_releases := []\<rparr> else st)
      in (cs_closed st', st'))"

section \<open>Writing\<close>

record conn_core =
  cc_ptr :: nat
  cc_side :: connection_side

text \<open>Tokens carry the identity of the connection they were prepared on (\<open>Arc::ptr_eq\<close>).\<close>

record prepared_loan =
  pl_ptr :: nat
  pl_id :: u64

record control_frame =
  cf_ptr :: nat

datatype write_request = Business "prepared_loan list" | Control control_frame | Releases

record write_batch =
  wb_loans :: "prepared_loan list"
  wb_prefix :: bytes
  wb_release_count :: usize
  wb_frames_remaining :: usize
  wb_business :: bool
  wb_control :: "control_frame option"
  wb_attempted :: bool
  wb_finished :: bool

function release_frames :: "bool \<Rightarrow> u64 list \<Rightarrow> bytes \<Rightarrow> bytes" where
  "release_frames response ids prefix =
     (if ids = [] then prefix
      else release_frames response (drop IPC_RELEASE_BATCH_CAPACITY ids)
             (append_release_frame prefix (take IPC_RELEASE_BATCH_CAPACITY ids) response))"
  by pat_completeness auto
termination
  by (relation "measure (\<lambda>(response, ids, prefix). length ids)") (auto simp: IPC_RELEASE_BATCH_CAPACITY_def)

declare release_frames.simps [simp del]

definition release_frame_count :: "usize \<Rightarrow> usize" where
  "release_frame_count n = (n + IPC_RELEASE_BATCH_CAPACITY - 1) div IPC_RELEASE_BATCH_CAPACITY"

definition request_parts :: "write_request \<Rightarrow> prepared_loan list \<times> control_frame option \<times> bool" where
  "request_parts request =
     (case request of Business loans \<Rightarrow> (loans, None, True) | Control control \<Rightarrow> ([], Some control, False)
        | Releases \<Rightarrow> ([], None, False))"

definition begin_write_locked :: "conn_core \<Rightarrow> 'h conn_state \<Rightarrow> write_request \<Rightarrow> bool \<Rightarrow>
    (connection_error + write_batch option) \<times> 'h conn_state" where
  "begin_write_locked core st request reserve_prefix =
     (case request_parts request of (loans, control, business) \<Rightarrow>
        (let has_frame = (business \<or> control \<noteq> None)
         in case check_writable st of
              Inl e \<Rightarrow> (Inl e, st)
            | Inr _ \<Rightarrow>
                if \<not> cs_handshake_done st \<and> control = None then (Inl BeforeHandshake, st)
                else if business \<and> cs_deactivated st then (Inl Deactivated, st)
                else if cs_writer st \<noteq> WIdle then (Inl WriterBusy, st)
                else if (case control of None \<Rightarrow> False | Some c \<Rightarrow> cf_ptr c \<noteq> cc_ptr core) \<or>
                        list_ex (\<lambda>loan. pl_ptr loan \<noteq> cc_ptr core) loans
                  then (Inl (ProtocolViolation ''preparation token belongs to another connection''), st)
                else if \<not> has_frame \<and> cs_releases st = [] then (Inr None, st)
                else
                  (let count = length (cs_releases st); frames = release_frame_count count
                   in if count * 8 > usize_max \<or> frames * (HEADER_SIZE + 2) > usize_max \<or>
                         frames * (HEADER_SIZE + 2) + count * 8 > usize_max \<or> \<not> reserve_prefix
                      then (Inl (Capacity ''release frames''), st)
                      else
                        (Inr (Some \<lparr>wb_loans = loans,
                                    wb_prefix = release_frames (cc_side core = Server) (cs_releases st) [],
                                    wb_release_count = count,
                                    wb_frames_remaining = frames + (if has_frame then 1 else 0),
                                    wb_business = business, wb_control = control, wb_attempted = False,
                                    wb_finished = False\<rparr>),
                         st\<lparr>cs_releases := [], cs_inflight_releases := cs_inflight_releases st + count,
                            cs_writer := WReserved\<rparr>))))"

definition begin_write :: "conn_core \<Rightarrow> 'h conn_state \<Rightarrow> write_request \<Rightarrow> bool \<Rightarrow>
    (connection_error + write_batch option) \<times> 'h conn_state \<times> 'h reclaims" where
  "begin_write core st request reserve_prefix =
     (case begin_write_locked core st request reserve_prefix of (result, st') \<Rightarrow>
        if stops_connection result then (result, deactivate st') else (result, st', reclaims_new))"

fun publish_loans :: "prepared_loan list \<Rightarrow> 'h conn_state \<Rightarrow> 'h conn_state run" where
  "publish_loans [] st = Some st"
| "publish_loans (loan # loans) st =
     do {
       allocation \<leftarrow> cs_prepared st (pl_id loan);
       publish_loans loans
         (st\<lparr>cs_prepared := (cs_prepared st)(pl_id loan := None),
             cs_published := (cs_published st)(pl_id loan \<mapsto> allocation\<lparr>ca_published := True\<rparr>)\<rparr>)
     }"

definition begin_io :: "write_batch \<Rightarrow> 'h conn_state \<Rightarrow> ((connection_error + unit) \<times> write_batch \<times> 'h conn_state) run" where
  "begin_io b st =
     do {
       ensure (wb_frames_remaining b > 0);
       ensure (\<not> wb_attempted b);
       if cs_closed st then Some (Inl Closed, b, st)
       else if cs_peer_ended st then Some (Inl PeerEnded, b, st)
       else if wb_business b \<and> cs_deactivated st then Some (Inl Deactivated, b, st)
       else if cs_writer st = WBroken then Some (Inl WriterBroken, b, st)
       else do {
         st' \<leftarrow> publish_loans (wb_loans b) st;
         Some (Inr (), b\<lparr>wb_attempted := True\<rparr>, st'\<lparr>cs_writer := WInFrame\<rparr>)
       }
     }"

definition frame_completed :: "write_batch \<Rightarrow> 'h conn_state \<Rightarrow> (write_batch \<times> 'h conn_state) run" where
  "frame_completed b st =
     do {
       ensure (wb_attempted b \<and> wb_frames_remaining b > 0);
       let b' = b\<lparr>wb_frames_remaining := wb_frames_remaining b - 1\<rparr>;
       if wb_frames_remaining b' = 0 then
         do {
           let st' = (if cs_writer st \<noteq> WBroken then st\<lparr>cs_writer := WAwaitingFlush\<rparr> else st);
           n \<leftarrow> sub_run (cs_inflight_releases st') (wb_release_count b');
           Some (b'\<lparr>wb_release_count := 0\<rparr>, st'\<lparr>cs_inflight_releases := n\<rparr>)
         }
       else Some (b', st)
     }"

definition flush_completed :: "write_batch \<Rightarrow> 'h conn_state \<Rightarrow> 'h conn_state run" where
  "flush_completed b st =
     do {
       ensure (wb_attempted b \<and> wb_frames_remaining b = 0);
       ensure (cs_writer st = WAwaitingFlush);
       Some (st\<lparr>cs_writer := WIdle\<rparr>)
     }"

definition write_failed :: "write_batch \<Rightarrow> 'h conn_state \<Rightarrow> write_batch \<times> 'h conn_state \<times> 'h reclaims" where
  "write_failed b st =
     (let (st', r) = stop_locked (st\<lparr>cs_writer := WBroken\<rparr>) reclaims_new
      in (b\<lparr>wb_control := None\<rparr>, st', r))"

text \<open>Where record \<open>index\<close> stands in a serialized release prefix.\<close>

definition release_offset :: "usize \<Rightarrow> usize" where
  "release_offset index =
     index div IPC_RELEASE_BATCH_CAPACITY * (HEADER_SIZE + 2 + IPC_RELEASE_BATCH_CAPACITY * 8) +
     HEADER_SIZE + 2 + index mod IPC_RELEASE_BATCH_CAPACITY * 8"

fun restore_releases :: "usize \<Rightarrow> bytes \<Rightarrow> u64 list \<Rightarrow> u64 list run" where
  "restore_releases 0 prefix queue = Some queue"
| "restore_releases (Suc index) prefix queue =
     do {
       let offset = release_offset index;
       ensure (offset + 8 \<le> length prefix);
       restore_releases index prefix (from_le_bytes (subslice offset (offset + 8) prefix) # queue)
     }"

definition drop_write_batch :: "write_batch \<Rightarrow> 'h conn_state \<Rightarrow> ('h conn_state \<times> 'h reclaims) run" where
  "drop_write_batch b st =
     (if wb_finished b then Some (st, reclaims_new)
      else do {
        let st1 = (if cs_writer st \<noteq> WBroken then st\<lparr>cs_writer := WIdle\<rparr> else st);
        n \<leftarrow> sub_run (cs_inflight_releases st1) (wb_release_count b);
        let st2 = st1\<lparr>cs_inflight_releases := n\<rparr>;
        if wb_attempted b then Some (stop_locked (st2\<lparr>cs_writer := WBroken\<rparr>) reclaims_new)
        else if \<not> cs_closed st2 \<and> \<not> cs_peer_ended st2 then
          do {
            q \<leftarrow> restore_releases (wb_release_count b) (wb_prefix b) (cs_releases st2);
            Some (st2\<lparr>cs_releases := q\<rparr>, reclaims_new)
          }
        else Some (st2, reclaims_new)
      })"

section \<open>Receiving releases and reclamation\<close>

fun settle_ids :: "u64 list \<Rightarrow> 'h conn_state \<Rightarrow> 'h conn_alloc list \<Rightarrow>
    connection_error option \<times> 'h conn_state \<times> 'h conn_alloc list" where
  "settle_ids [] st records = (None, st, records)"
| "settle_ids (loan # ids) st records =
     (case cs_published st loan of
        Some allocation \<Rightarrow>
          settle_ids ids (st\<lparr>cs_published := (cs_published st)(loan := None), cs_settling := cs_settling st + 1\<rparr>)
            (records @ [allocation])
      | None \<Rightarrow>
          (Some (ProtocolViolation (''unknown or unpublished loan ID '' @ show_nat (unat loan))), st, records))"

definition receive_release :: "conn_core \<Rightarrow> 'h conn_state \<Rightarrow> frame_header \<Rightarrow> bytes \<Rightarrow>
    connection_error option \<times> 'h conn_state \<times> 'h reclaims" where
  "receive_release core st header payload =
     (let (err, st', records) =
        (case decode_release_frame header payload (cc_side core = Client) (cs_handshake_done st) of
           Inl e \<Rightarrow> (Some (ProtocolViolation (decode_error_message e)), st, [])
         | Inr batch \<Rightarrow> settle_ids (release_ids batch) st []);
          r = reclaims_new\<lparr>rc_records := records\<rparr>
      in if err \<noteq> None then (err, stop_locked st' r) else (err, st', r))"

definition reclaimed :: "'h reclaims \<Rightarrow> 'h conn_alloc multiset" where
  "reclaimed r = map_vals (rc_prepared r) + map_vals (rc_published r) + mset (rc_records r)"

definition drop_reclaims :: "'h conn_state \<Rightarrow> 'h reclaims \<Rightarrow> ('h conn_state \<times> 'h multiset) run" where
  "drop_reclaims st r =
     (let settled = card (dom (rc_prepared r)) + card (dom (rc_published r)) + length (rc_records r);
          freed = image_mset ca_handle (reclaimed r)
      in if settled > 0 then do { n \<leftarrow> sub_run (cs_settling st) settled; Some (st\<lparr>cs_settling := n\<rparr>, freed) }
         else Some (st, freed))"

section \<open>All interleavings\<close>

text \<open>
  The world holds, beside the state and the process-wide loan sequence, who owns what: tokens held
  by the driver and tokens being dropped, live remote reads, control tokens, the write batch (with
  the release ids it took), reclamation objects, the handles given to the connection and returned
  to their pools, the remote loans in the order their reads finished, and the release records
  handed to I/O.
\<close>

record 'h world =
  w_st :: "'h conn_state"
  w_seq :: u64
  w_tokens :: "u64 multiset"
  w_dropping :: "u64 multiset"
  w_loans :: "u64 multiset"
  w_controls :: nat
  w_batch :: "(write_batch \<times> u64 list) option"
  w_reclaims :: "'h reclaims multiset"
  w_handed :: "'h multiset"
  w_freed :: "'h multiset"
  w_finished :: "u64 list"
  w_submitted :: "u64 list"

definition world_new :: "u64 \<Rightarrow> 'h world" where
  "world_new sequence =
     \<lparr>w_st = conn_new, w_seq = sequence, w_tokens = {#}, w_dropping = {#}, w_loans = {#}, w_controls = 0,
      w_batch = None, w_reclaims = {#}, w_handed = {#}, w_freed = {#}, w_finished = [], w_submitted = []\<rparr>"

definition own_loans :: "conn_core \<Rightarrow> write_request \<Rightarrow> u64 multiset" where
  "own_loans core request =
     mset (map pl_id (filter (\<lambda>loan. pl_ptr loan = cc_ptr core) (fst (request_parts request))))"

definition own_control :: "conn_core \<Rightarrow> write_request \<Rightarrow> nat" where
  "own_control core request =
     (case fst (snd (request_parts request)) of
        Some c \<Rightarrow> if cf_ptr c = cc_ptr core then 1 else 0
      | None \<Rightarrow> 0)"

definition batch_loans :: "write_batch \<Rightarrow> u64 multiset" where
  "batch_loans b = mset (map pl_id (wb_loans b))"

definition batch_control :: "write_batch \<Rightarrow> nat" where
  "batch_control b = (if wb_control b = None then 0 else 1)"

datatype conn_label =
    LHandshake | LPrepare | LAbandon | LDropLoan | LAdmit | LDropRemote | LControl | LDropControl
  | LBeginWrite | LBeginIo | LFrame | LFlush | LFail | LDropBatch | LReceive | LDeactivate | LPeerEnd
  | LTryClose | LSettle | LSequence

inductive conn_step :: "conn_core \<Rightarrow> 'h world \<Rightarrow> conn_label \<Rightarrow> 'h world \<Rightarrow> bool" for core where
  handshake: "finish_handshake_locked (w_st w) = (r, st) \<Longrightarrow> conn_step core w LHandshake (w\<lparr>w_st := st\<rparr>)"
| prepare: "prepare_loan_locked (w_st w) (w_seq w) h ok1 ok2 = (Inr loan, st, sequence) \<Longrightarrow>
     conn_step core w LPrepare
       (w\<lparr>w_st := st, w_seq := sequence, w_tokens := add_mset loan (w_tokens w), w_handed := add_mset h (w_handed w)\<rparr>)"
| prepare_rejected: "prepare_loan_locked (w_st w) (w_seq w) h ok1 ok2 = (Inl e, st, sequence) \<Longrightarrow>
     conn_step core w LPrepare
       (w\<lparr>w_st := st, w_seq := sequence, w_handed := add_mset h (w_handed w), w_freed := add_mset h (w_freed w)\<rparr>)"
| abandon: "loan \<in># w_tokens w \<Longrightarrow>
     conn_step core w LAbandon (w\<lparr>w_tokens := w_tokens w - {#loan#}, w_dropping := add_mset loan (w_dropping w)\<rparr>)"
| drop_loan: "loan \<in># w_dropping w \<Longrightarrow> drop_prepared_loan (w_st w) loan = (st, rc) \<Longrightarrow>
     conn_step core w LDropLoan
       (w\<lparr>w_st := st, w_dropping := w_dropping w - {#loan#}, w_reclaims := add_mset rc (w_reclaims w)\<rparr>)"
| admit: "admit_remote_loan_locked (w_st w) loan ok1 = (Inr loan', st) \<Longrightarrow>
     conn_step core w LAdmit (w\<lparr>w_st := st, w_loans := add_mset loan' (w_loans w)\<rparr>)"
| admit_rejected: "admit_remote_loan_locked (w_st w) loan ok1 = (Inl e, st) \<Longrightarrow>
     conn_step core w LAdmit (w\<lparr>w_st := st\<rparr>)"
| drop_remote: "loan \<in># w_loans w \<Longrightarrow> drop_remote_loan (w_st w) loan = Some st \<Longrightarrow>
     conn_step core w LDropRemote
       (w\<lparr>w_st := st, w_loans := w_loans w - {#loan#}, w_finished := w_finished w @ [loan]\<rparr>)"
| control: "prepare_control_frame (w_st w) = (Inr u, st) \<Longrightarrow>
     conn_step core w LControl (w\<lparr>w_st := st, w_controls := w_controls w + 1\<rparr>)"
| control_rejected: "prepare_control_frame (w_st w) = (Inl e, st) \<Longrightarrow>
     conn_step core w LControl (w\<lparr>w_st := st\<rparr>)"
| drop_control: "w_controls w > 0 \<Longrightarrow> drop_control_frame (w_st w) = Some st \<Longrightarrow>
     conn_step core w LDropControl (w\<lparr>w_st := st, w_controls := w_controls w - 1\<rparr>)"
| begin_write: "own_loans core request \<subseteq># w_tokens w \<Longrightarrow> own_control core request \<le> w_controls w \<Longrightarrow>
     begin_write_locked core (w_st w) request ok1 = (Inr (Some b), st) \<Longrightarrow>
     conn_step core w LBeginWrite
       (w\<lparr>w_st := st, w_tokens := w_tokens w - own_loans core request,
          w_controls := w_controls w - own_control core request, w_batch := Some (b, cs_releases (w_st w))\<rparr>)"
| begin_write_none: "own_loans core request \<subseteq># w_tokens w \<Longrightarrow> own_control core request \<le> w_controls w \<Longrightarrow>
     begin_write_locked core (w_st w) request ok1 = (r, st) \<Longrightarrow> r = Inr None \<or> isl r \<Longrightarrow>
     conn_step core w LBeginWrite
       (w\<lparr>w_st := st, w_tokens := w_tokens w - own_loans core request,
          w_dropping := w_dropping w + own_loans core request\<rparr>)"
| begin_io: "w_batch w = Some (b, ids) \<Longrightarrow> begin_io b (w_st w) = Some (r, b', st) \<Longrightarrow>
     conn_step core w LBeginIo (w\<lparr>w_st := st, w_batch := Some (b', ids)\<rparr>)"
| frame: "w_batch w = Some (b, ids) \<Longrightarrow> frame_completed b (w_st w) = Some (b', st) \<Longrightarrow>
     conn_step core w LFrame
       (if wb_frames_remaining b' = 0
        then w\<lparr>w_st := st, w_batch := Some (b', []), w_submitted := w_submitted w @ ids\<rparr>
        else w\<lparr>w_st := st, w_batch := Some (b', ids)\<rparr>)"
| flush: "w_batch w = Some (b, ids) \<Longrightarrow> flush_completed b (w_st w) = Some st \<Longrightarrow>
     conn_step core w LFlush
       (w\<lparr>w_st := st, w_batch := None, w_dropping := w_dropping w + batch_loans b,
          w_controls := w_controls w + batch_control b\<rparr>)"
| fail: "w_batch w = Some (b, ids) \<Longrightarrow> write_failed b (w_st w) = (b', st, rc) \<Longrightarrow>
     conn_step core w LFail
       (w\<lparr>w_st := st, w_batch := Some (b', ids), w_controls := w_controls w + batch_control b,
          w_reclaims := add_mset rc (w_reclaims w)\<rparr>)"
| drop_batch: "w_batch w = Some (b, ids) \<Longrightarrow> drop_write_batch b (w_st w) = Some (st, rc) \<Longrightarrow>
     conn_step core w LDropBatch
       (w\<lparr>w_st := st, w_batch := None, w_dropping := w_dropping w + batch_loans b,
          w_controls := w_controls w + batch_control b, w_reclaims := add_mset rc (w_reclaims w),
          w_submitted := (if wb_attempted b then w_submitted w @ ids else w_submitted w)\<rparr>)"
| receive: "receive_release core (w_st w) header payload = (err, st, rc) \<Longrightarrow>
     conn_step core w LReceive (w\<lparr>w_st := st, w_reclaims := add_mset rc (w_reclaims w)\<rparr>)"
| deactivated: "deactivate (w_st w) = (st, rc) \<Longrightarrow>
     conn_step core w LDeactivate (w\<lparr>w_st := st, w_reclaims := add_mset rc (w_reclaims w)\<rparr>)"
| peer_ended: "peer_end (w_st w) = (st, rc) \<Longrightarrow>
     conn_step core w LPeerEnd (w\<lparr>w_st := st, w_reclaims := add_mset rc (w_reclaims w)\<rparr>)"
| close: "try_close (w_st w) = (c, st) \<Longrightarrow> conn_step core w LTryClose (w\<lparr>w_st := st\<rparr>)"
| settle: "rc \<in># w_reclaims w \<Longrightarrow> drop_reclaims (w_st w) rc = Some (st, freed) \<Longrightarrow>
     conn_step core w LSettle
       (w\<lparr>w_st := st, w_reclaims := w_reclaims w - {#rc#}, w_freed := w_freed w + freed\<rparr>)"
| other_connections: "w_seq w \<le> sequence \<Longrightarrow> conn_step core w LSequence (w\<lparr>w_seq := sequence\<rparr>)"

inductive conn_reach :: "conn_core \<Rightarrow> 'h world \<Rightarrow> bool" for core where
  reach_new: "conn_reach core (world_new sequence)"
| reach_step: "conn_reach core w \<Longrightarrow> conn_step core w label w' \<Longrightarrow> conn_reach core w'"

section \<open>Books, counters and phases\<close>

definition pend :: "'h world \<Rightarrow> 'h conn_alloc multiset" where
  "pend w = (\<Sum>r\<in>#w_reclaims w. reclaimed r)"

definition inv_books :: "'h world \<Rightarrow> bool" where
  "inv_books w \<longleftrightarrow>
     finite (dom (cs_prepared (w_st w))) \<and> finite (dom (cs_published (w_st w))) \<and>
     dom (cs_prepared (w_st w)) \<inter> dom (cs_published (w_st w)) = {} \<and>
     (\<forall>i\<in>dom (cs_prepared (w_st w)) \<union> dom (cs_published (w_st w)). i \<le> w_seq w) \<and>
     (\<forall>r\<in>#w_reclaims w. finite (dom (rc_prepared r)) \<and> finite (dom (rc_published r)))"

definition inv_conservation :: "'h world \<Rightarrow> bool" where
  "inv_conservation w \<longleftrightarrow>
     w_handed w = image_mset ca_handle (map_vals (cs_prepared (w_st w)) + map_vals (cs_published (w_st w)) + pend w)
       + w_freed w"

type_synonym batch_slot = "(write_batch \<times> u64 list) option"

definition slot_loans :: "batch_slot \<Rightarrow> u64 multiset" where
  "slot_loans s = (case s of None \<Rightarrow> {#} | Some (b, _) \<Rightarrow> batch_loans b)"

definition slot_control :: "batch_slot \<Rightarrow> nat" where
  "slot_control s = (case s of None \<Rightarrow> 0 | Some (b, _) \<Rightarrow> batch_control b)"

definition slot_ids :: "batch_slot \<Rightarrow> u64 list" where
  "slot_ids s = (case s of None \<Rightarrow> [] | Some (_, ids) \<Rightarrow> ids)"

text \<open>A batch that has not started I/O still has all its loans in the given prepared book.\<close>

definition slot_ready :: "batch_slot \<Rightarrow> u64 set \<Rightarrow> bool" where
  "slot_ready s prepared =
     (case s of None \<Rightarrow> True | Some (b, _) \<Rightarrow> wb_attempted b \<or> set_mset (batch_loans b) \<subseteq> prepared)"

definition slot_writer :: "conn_core \<Rightarrow> batch_slot \<Rightarrow> writer_state \<Rightarrow> bool" where
  "slot_writer core s writer =
     (case s of
        None \<Rightarrow> writer = WIdle \<or> writer = WBroken
      | Some (b, ids) \<Rightarrow>
          \<not> wb_finished b \<and> (wb_loans b \<noteq> [] \<longrightarrow> wb_business b) \<and> wb_release_count b = length ids \<and>
          (ids \<noteq> [] \<longrightarrow> wb_prefix b = release_frames (cc_side core = Server) ids []) \<and>
          (wb_frames_remaining b = 0 \<longrightarrow> ids = []) \<and>
          (writer = WBroken \<or>
           (if \<not> wb_attempted b then writer = WReserved
            else writer = (if wb_frames_remaining b = 0 then WAwaitingFlush else WInFrame))) \<and>
          (\<not> wb_attempted b \<longrightarrow> wb_frames_remaining b > 0))"

definition inv_counters :: "'h world \<Rightarrow> bool" where
  "inv_counters w \<longleftrightarrow>
     cs_settling (w_st w) = size (pend w) \<and> cs_remote_reads (w_st w) = size (w_loans w) \<and>
     cs_pending_controls (w_st w) = w_controls w + slot_control (w_batch w) \<and>
     cs_inflight_releases (w_st w) = length (slot_ids (w_batch w))"

definition inv_phases :: "'h world \<Rightarrow> bool" where
  "inv_phases w \<longleftrightarrow>
     (cs_deactivated (w_st w) \<longrightarrow> cs_prepared (w_st w) = Map.empty) \<and>
     (cs_peer_ended (w_st w) \<longrightarrow> cs_deactivated (w_st w) \<and> cs_published (w_st w) = Map.empty \<and> cs_releases (w_st w) = []) \<and>
     (cs_closed (w_st w) \<longrightarrow> cs_deactivated (w_st w) \<and> cs_published (w_st w) = Map.empty \<and> cs_settling (w_st w) = 0 \<and>
        cs_remote_reads (w_st w) = 0 \<and> cs_pending_controls (w_st w) = 0 \<and> cs_releases (w_st w) = []) \<and>
     (cs_writer (w_st w) = WBroken \<longrightarrow> cs_deactivated (w_st w))"

definition inv_writer :: "conn_core \<Rightarrow> 'h world \<Rightarrow> bool" where
  "inv_writer core w \<longleftrightarrow> slot_writer core (w_batch w) (cs_writer (w_st w))"

definition tokens_ok :: "u64 multiset \<Rightarrow> u64 multiset \<Rightarrow> batch_slot \<Rightarrow> u64 \<Rightarrow> u64 set \<Rightarrow> bool \<Rightarrow> bool" where
  "tokens_ok tokens dropping s sequence prepared deact \<longleftrightarrow>
     (\<forall>x. count (tokens + dropping + slot_loans s) x \<le> 1) \<and>
     (\<forall>x\<in>#tokens + dropping + slot_loans s. x \<le> sequence) \<and>
     prepared \<subseteq> set_mset (tokens + dropping + slot_loans s) \<and>
     (\<not> deact \<longrightarrow> set_mset tokens \<subseteq> prepared \<and> slot_ready s prepared)"

definition inv_tokens :: "'h world \<Rightarrow> bool" where
  "inv_tokens w \<longleftrightarrow>
     tokens_ok (w_tokens w) (w_dropping w) (w_batch w) (w_seq w) (dom (cs_prepared (w_st w))) (cs_deactivated (w_st w))"

definition inv_fifo :: "'h world \<Rightarrow> bool" where
  "inv_fifo w \<longleftrightarrow>
     (\<not> cs_peer_ended (w_st w) \<and> \<not> cs_closed (w_st w) \<longrightarrow>
        w_finished w = w_submitted w @ slot_ids (w_batch w) @ cs_releases (w_st w))"

definition conn_inv :: "conn_core \<Rightarrow> 'h world \<Rightarrow> bool" where
  "conn_inv core w \<longleftrightarrow> inv_books w \<and> inv_conservation w \<and> inv_counters w \<and> inv_phases w \<and> inv_writer core w \<and>
     inv_tokens w \<and> inv_fifo w"

end
