(* ===== verification/Connection_Proofs.thy ===== *)
theory Connection_Proofs
  imports Connection
begin

text \<open>
  The invariants of a physical connection under every interleaving, and what they give: no
  allocation is lost or freed twice, published allocations are released only by a release record or
  the peer's end, release records keep their order, the writer is unique, and nothing panics.
\<close>

section \<open>What each locked section does\<close>

lemmas check_defs = check_writable_def check_live_def check_business_def

lemma prepare_ok:
  assumes "prepare_loan_locked st sq h ok1 ok2 = (Inr loan, st', sq')"
  shows "\<not> cs_closed st" "\<not> cs_peer_ended st" "\<not> cs_deactivated st" "unat loan = unat sq + 1" "sq' = loan"
    "st' = st\<lparr>cs_prepared := (cs_prepared st)(loan \<mapsto> \<lparr>ca_handle = h, ca_published = False\<rparr>)\<rparr>"
  using assms checked_add_SomeD [of sq 1 loan]
  by (auto simp: prepare_loan_locked_def check_defs split: sum.splits if_splits option.splits)

lemma prepare_err:
  assumes "prepare_loan_locked st sq h ok1 ok2 = (Inl e, st', sq')"
  shows "st' = st" "sq' = sq"
  using assms by (auto simp: prepare_loan_locked_def split: sum.splits if_splits option.splits)

lemma admit_ok:
  assumes "admit_remote_loan_locked st loan ok1 = (Inr loan', st')"
  shows "\<not> cs_closed st" "\<not> cs_peer_ended st" "loan' = loan" "st' = st\<lparr>cs_remote_reads := cs_remote_reads st + 1\<rparr>"
  using assms by (auto simp: admit_remote_loan_locked_def split: if_splits)

lemma admit_err: "admit_remote_loan_locked st loan ok1 = (Inl e, st') \<Longrightarrow> st' = st"
  by (auto simp: admit_remote_loan_locked_def split: if_splits)

lemma handshake_effect:
  "finish_handshake_locked st = (r, st') \<Longrightarrow> st' = st \<or> st' = st\<lparr>cs_handshake_done := True\<rparr>"
  by (auto simp: finish_handshake_locked_def split: if_splits sum.splits)

lemma control_effect:
  "prepare_control_frame st = (Inr u, st') \<Longrightarrow>
     \<not> cs_closed st \<and> \<not> cs_peer_ended st \<and> st' = st\<lparr>cs_pending_controls := cs_pending_controls st + 1\<rparr>"
  "prepare_control_frame st = (Inl e, st') \<Longrightarrow> st' = st"
  by (auto simp: prepare_control_frame_def check_defs split: if_splits sum.splits)

lemma begin_write_ok:
  assumes "begin_write_locked core st request ok1 = (Inr (Some b), st')"
  shows "\<not> cs_closed st" "\<not> cs_peer_ended st" "cs_writer st = WIdle"
    "wb_business b \<longrightarrow> \<not> cs_deactivated st"
    "st' = st\<lparr>cs_releases := [], cs_inflight_releases := cs_inflight_releases st + length (cs_releases st),
        cs_writer := WReserved\<rparr>"
    "wb_prefix b = release_frames (cc_side core = Server) (cs_releases st) []"
    "wb_release_count b = length (cs_releases st)" "wb_frames_remaining b > 0"
    "\<not> wb_attempted b" "\<not> wb_finished b" "wb_loans b \<noteq> [] \<longrightarrow> wb_business b"
    "batch_loans b = own_loans core request" "batch_control b = own_control core request"
proof -
  obtain loans control business where p: "request_parts request = (loans, control, business)" by (metis prod_cases3)
  have ctl: "loans \<noteq> [] \<longrightarrow> business" using p by (auto simp: request_parts_def split: write_request.splits)
  note d = assms [unfolded begin_write_locked_def p, simplified]
  have own: "\<forall>l\<in>set loans. pl_ptr l = cc_ptr core" "\<And>c. control = Some c \<Longrightarrow> cf_ptr c = cc_ptr core"
    "wb_loans b = loans" "wb_control b = control" "wb_business b = business"
    using d by (auto simp: check_writable_def Let_def list_ex_iff split: if_splits option.splits)
  have "filter (\<lambda>loan. pl_ptr loan = cc_ptr core) loans = loans" using own(1) by simp
  then show "batch_loans b = own_loans core request" "batch_control b = own_control core request"
    using own by (auto simp: batch_loans_def own_loans_def batch_control_def own_control_def p split: option.splits)
  show "wb_loans b \<noteq> [] \<longrightarrow> wb_business b" using own ctl by simp
  have "0 < length (cs_releases st) \<Longrightarrow> 0 < release_frame_count (length (cs_releases st))"
    unfolding release_frame_count_def IPC_RELEASE_BATCH_CAPACITY_def
    by (simp only: div_greater_zero_iff) linarith
  then show "wb_frames_remaining b > 0"
    using d by (auto simp: check_writable_def Let_def split: if_splits)
  show "\<not> cs_closed st" "\<not> cs_peer_ended st" "cs_writer st = WIdle"
    "wb_business b \<longrightarrow> \<not> cs_deactivated st"
    "st' = st\<lparr>cs_releases := [], cs_inflight_releases := cs_inflight_releases st + length (cs_releases st),
        cs_writer := WReserved\<rparr>"
    "wb_prefix b = release_frames (cc_side core = Server) (cs_releases st) []"
    "wb_release_count b = length (cs_releases st)" "\<not> wb_attempted b" "\<not> wb_finished b"
    using d by (auto simp: check_writable_def Let_def split: if_splits)
qed

lemma begin_write_none:
  "begin_write_locked core st request ok1 = (r, st') \<Longrightarrow> r = Inr None \<or> isl r \<Longrightarrow> st' = st"
  by (auto simp: begin_write_locked_def Let_def split: prod.splits sum.splits if_splits)

definition handles :: "(u64 \<rightharpoonup> 'h conn_alloc) \<Rightarrow> 'h multiset" where
  "handles m = image_mset ca_handle (map_vals m)"

lemma handles_empty [simp]: "handles Map.empty = {#}"
  by (simp add: handles_def)

lemma handles_insert: "finite (dom m) \<Longrightarrow> m k = None \<Longrightarrow> handles (m(k \<mapsto> a)) = add_mset (ca_handle a) (handles m)"
  by (simp add: handles_def)

lemma handles_remove: "finite (dom m) \<Longrightarrow> m k = Some a \<Longrightarrow> handles m = add_mset (ca_handle a) (handles (m(k := None)))"
  using map_vals_remove [of m k a] by (simp add: handles_def)

lemma publish_effect:
  assumes "publish_loans loans st = Some st'" "finite (dom (cs_prepared st))" "finite (dom (cs_published st))"
    "dom (cs_prepared st) \<inter> dom (cs_published st) = {}"
  shows "\<exists>P Q. st' = st\<lparr>cs_prepared := P, cs_published := Q\<rparr> \<and> finite (dom P) \<and> finite (dom Q) \<and>
    dom P = dom (cs_prepared st) - pl_id ` set loans \<and> dom Q = dom (cs_published st) \<union> pl_id ` set loans \<and>
    cs_published st \<subseteq>\<^sub>m Q \<and> dom P \<inter> dom Q = {} \<and> pl_id ` set loans \<subseteq> dom (cs_prepared st) \<and>
    handles P + handles Q = handles (cs_prepared st) + handles (cs_published st)"
  using assms
proof (induction loans arbitrary: st)
  case Nil
  then show ?case by (intro exI [of _ "cs_prepared st"] exI [of _ "cs_published st"]) simp
next
  case (Cons l ls)
  then obtain a where a: "cs_prepared st (pl_id l) = Some a" by (auto split: bind_splits)
  define st1 where "st1 = st\<lparr>cs_prepared := (cs_prepared st)(pl_id l := None),
             cs_published := (cs_published st)(pl_id l \<mapsto> a\<lparr>ca_published := True\<rparr>)\<rparr>"
  have fresh: "cs_published st (pl_id l) = None" using Cons.prems(4) a by auto
  have run: "publish_loans ls st1 = Some st'" using Cons.prems(1) a by (simp add: st1_def)
  have pre: "finite (dom (cs_prepared st1))" "finite (dom (cs_published st1))" "dom (cs_prepared st1) \<inter> dom (cs_published st1) = {}"
    using Cons.prems a by (auto simp: st1_def)
  obtain P Q where PQ: "st' = st1\<lparr>cs_prepared := P, cs_published := Q\<rparr>" "finite (dom P)" "finite (dom Q)"
    "dom P = dom (cs_prepared st1) - pl_id ` set ls" "dom Q = dom (cs_published st1) \<union> pl_id ` set ls"
    "cs_published st1 \<subseteq>\<^sub>m Q" "dom P \<inter> dom Q = {}" "pl_id ` set ls \<subseteq> dom (cs_prepared st1)"
    "handles P + handles Q = handles (cs_prepared st1) + handles (cs_published st1)"
    using Cons.IH [OF run pre] by (elim exE conjE) (rule that)
  have "cs_published st \<subseteq>\<^sub>m cs_published st1" using fresh by (auto simp: st1_def map_le_def)
  then have le: "cs_published st \<subseteq>\<^sub>m Q" using PQ(6) map_le_trans by blast
  have hs: "handles P + handles Q = handles (cs_prepared st) + handles (cs_published st)"
    using PQ(9) handles_remove [OF Cons.prems(2) a] handles_insert [OF Cons.prems(3) fresh, of "a\<lparr>ca_published := True\<rparr>"]
    by (simp add: st1_def)
  have st': "st' = st\<lparr>cs_prepared := P, cs_published := Q\<rparr>" using PQ(1) by (simp add: st1_def)
  have dP: "dom P = dom (cs_prepared st) - pl_id ` set (l # ls)" using PQ(4) by (auto simp: st1_def)
  have dQ: "dom Q = dom (cs_published st) \<union> pl_id ` set (l # ls)" using PQ(5) by (auto simp: st1_def)
  have sub: "pl_id ` set (l # ls) \<subseteq> dom (cs_prepared st)" 
  proof -
    have "dom (cs_prepared st1) \<subseteq> dom (cs_prepared st)" by (auto simp: st1_def)
    with PQ(8) have "pl_id ` set ls \<subseteq> dom (cs_prepared st)" by (rule subset_trans)
    moreover have "pl_id l \<in> dom (cs_prepared st)" using a by (rule domI)
    ultimately show ?thesis unfolding list.set image_insert insert_subset by (intro conjI)
  qed
  show ?case
    by (rule exI [of _ P], rule exI [of _ Q], intro conjI)
      (rule st', rule PQ(2), rule PQ(3), rule dP, rule dQ, rule le, rule PQ(7), rule sub, rule hs)
qed

lemma publish_total:
  assumes "distinct (map pl_id loans)" "pl_id ` set loans \<subseteq> dom (cs_prepared st)"
  shows "\<exists>st'. publish_loans loans st = Some st'"
  using assms
proof (induction loans arbitrary: st)
  case (Cons l ls)
  then obtain a where a: "cs_prepared st (pl_id l) = Some a" by auto
  have "pl_id ` set ls \<subseteq> dom ((cs_prepared st)(pl_id l := None))"
    using Cons.prems by (force simp: image_subset_iff image_iff)
  then show ?case using Cons.IH Cons.prems(1) a by simp
qed simp

lemma settle_effect:
  assumes "settle_ids ids st recs = (e, st', recs')" "finite (dom (cs_published st))"
  shows "\<exists>Q new. st' = st\<lparr>cs_published := Q, cs_settling := cs_settling st + length new\<rparr> \<and> recs' = recs @ new \<and>
    Q \<subseteq>\<^sub>m cs_published st \<and> finite (dom Q) \<and> map_vals (cs_published st) = mset new + map_vals Q"
  using assms
proof (induction ids arbitrary: st recs)
  case Nil
  then show ?case by (intro exI [of _ "cs_published st"] exI [of _ "[]"]) simp
next
  case (Cons i ids)
  show ?case
  proof (cases "cs_published st i")
    case None
    with Cons.prems show ?thesis by (intro exI [of _ "cs_published st"] exI [of _ "[]"]) auto
  next
    case (Some a)
    define st1 where "st1 = st\<lparr>cs_published := (cs_published st)(i := None), cs_settling := cs_settling st + 1\<rparr>"
    have run: "settle_ids ids st1 (recs @ [a]) = (e, st', recs')" using Cons.prems(1) Some by (simp add: st1_def)
    have fin: "finite (dom (cs_published st1))" using Cons.prems(2) by (simp add: st1_def)
    obtain Q new where Q: "st' = st1\<lparr>cs_published := Q, cs_settling := cs_settling st1 + length new\<rparr>"
      "recs' = (recs @ [a]) @ new" "Q \<subseteq>\<^sub>m cs_published st1" "finite (dom Q)"
      "map_vals (cs_published st1) = mset new + map_vals Q"
      using Cons.IH [OF run fin] by (elim exE conjE) (rule that)
    have "cs_published st1 \<subseteq>\<^sub>m cs_published st" by (auto simp: st1_def map_le_def)
    then have "Q \<subseteq>\<^sub>m cs_published st" using Q(3) map_le_trans by blast
    moreover have "map_vals (cs_published st) = mset (a # new) + map_vals Q"
      using map_vals_remove [OF Cons.prems(2) Some] Q(5) by (simp add: st1_def)
    moreover have "st' = st\<lparr>cs_published := Q, cs_settling := cs_settling st + length (a # new)\<rparr>"
      using Q(1) by (simp add: st1_def)
    ultimately show ?thesis using Q(2,4) by (intro exI [of _ Q] exI [of _ "a # new"]) simp
  qed
qed

section \<open>The serialized release prefix\<close>

lemma append_release_eq: "append_release_frame pre xs response = pre @ append_release_frame [] xs response"
  by (simp add: append_release_frame_def)

lemma release_frames_append: "release_frames response ids pre = pre @ release_frames response ids []"
proof (induction ids arbitrary: pre rule: length_induct)
  case (1 ids)
  show ?case
  proof (cases "ids = []")
    case True
    then show ?thesis by (simp add: release_frames.simps)
  next
    case False
    let ?f = "append_release_frame [] (take IPC_RELEASE_BATCH_CAPACITY ids) response"
    let ?rest = "release_frames response (drop IPC_RELEASE_BATCH_CAPACITY ids)"
    have "length (drop IPC_RELEASE_BATCH_CAPACITY ids) < length ids"
      using False by (simp add: IPC_RELEASE_BATCH_CAPACITY_def)
    with 1 have ih: "?rest p = p @ ?rest []" for p by blast
    have step: "release_frames response ids p = ?rest (append_release_frame p (take IPC_RELEASE_BATCH_CAPACITY ids) response)" for p
      using False by (subst release_frames.simps) simp
    have "release_frames response ids pre = (pre @ ?f) @ ?rest []"
      unfolding step append_release_eq [of pre] by (rule ih)
    moreover have "release_frames response ids [] = ?f @ ?rest []"
      unfolding step by (rule ih)
    ultimately show ?thesis by simp
  qed
qed

lemma release_frames_step:
  "ids \<noteq> [] \<Longrightarrow> release_frames response ids [] =
     append_release_frame [] (take 64 ids) response @ release_frames response (drop 64 ids) []"
  by (subst release_frames.simps, subst release_frames_append) (simp add: IPC_RELEASE_BATCH_CAPACITY_def)

lemma length_release_frame: "length (append_release_frame [] ids response) = 18 + 8 * length ids"
  by (simp add: append_release_frame_def)

lemma record_in_frame:
  assumes "i < length ids"
  shows "subslice (18 + 8 * i) (18 + 8 * i + 8) (append_release_frame [] ids response @ rest) = to_le_bytes 8 (ids ! i)"
proof -
  have split: "concat (map (to_le_bytes 8) ids) =
      concat (map (to_le_bytes 8) (take i ids)) @ to_le_bytes 8 (ids ! i) @ concat (map (to_le_bytes 8) (drop (Suc i) ids))"
    using assms by (subst id_take_nth_drop [OF assms]) simp
  have len: "length (concat (map (to_le_bytes 8) (take i ids))) = 8 * i" using assms by simp
  show ?thesis
    unfolding append_release_frame_def split using len
    by (simp add: codec_simps slice_Cons slice_skip slice_head)
qed

lemma record_at_offset:
  assumes "i < length ids"
  shows "release_offset i + 8 \<le> length (release_frames response ids []) \<and>
    subslice (release_offset i) (release_offset i + 8) (release_frames response ids []) = to_le_bytes 8 (ids ! i)"
  using assms
proof (induction ids arbitrary: i rule: length_induct)
  case (1 ids)
  then have ne: "ids \<noteq> []" by auto
  let ?f = "append_release_frame [] (take 64 ids) response"
  show ?case
  proof (cases "i < 64")
    case True
    have off: "release_offset i = 18 + 8 * i"
      using True by (simp add: release_offset_def IPC_RELEASE_BATCH_CAPACITY_def HEADER_SIZE_def)
    have "i < length (take 64 ids)" using True 1(2) by simp
    then show ?thesis
      using record_in_frame [of i "take 64 ids" response] True 1(2)
      unfolding off release_frames_step [OF ne] by (simp add: length_release_frame)
  next
    case False
    then obtain j where j: "i = 64 + j" using le_Suc_ex not_less by blast
    have "(64 + j) div 64 = Suc (j div 64)" "(64 + j) mod 64 = j mod 64" by simp_all
    then have off: "release_offset i = 530 + release_offset j"
      unfolding j release_offset_def IPC_RELEASE_BATCH_CAPACITY_def HEADER_SIZE_def by simp
    have len: "length ?f = 530" using 1(2) j by (simp add: length_release_frame)
    have ih: "release_offset j + 8 \<le> length (release_frames response (drop 64 ids) []) \<and>
      subslice (release_offset j) (release_offset j + 8) (release_frames response (drop 64 ids) []) = to_le_bytes 8 (drop 64 ids ! j)"
      using 1(1) [rule_format, of "drop 64 ids" j] 1(2) j ne by simp
    then show ?thesis
      unfolding off release_frames_step [OF ne] using len 1(2) j by (simp add: slice_skip add.commute [of 8])
  qed
qed

lemma restore_effect:
  assumes "n \<le> length ids"
  shows "restore_releases n (release_frames response ids []) q = Some (take n ids @ q)"
  using assms
proof (induction n arbitrary: q)
  case (Suc n)
  then show ?case using record_at_offset [of n ids response]
    by (simp add: take_Suc_conv_app_nth Let_def)
qed simp

section \<open>Effects of the writer and the reader\<close>

lemma begin_io_effect:
  assumes "begin_io b st = Some (r, b', st')"
  obtains (rejected) "isl r" "b' = b" "st' = st"
  | (started) st1 where "r = Inr ()" "\<not> cs_closed st" "\<not> cs_peer_ended st" "wb_business b \<longrightarrow> \<not> cs_deactivated st"
      "cs_writer st \<noteq> WBroken" "\<not> wb_attempted b" "b' = b\<lparr>wb_attempted := True\<rparr>"
      "publish_loans (wb_loans b) st = Some st1" "st' = st1\<lparr>cs_writer := WInFrame\<rparr>"
  using assms by (auto simp: begin_io_def split: if_splits bind_splits)

lemma frame_effect:
  assumes "frame_completed b st = Some (b', st')"
  obtains (more) "wb_attempted b" "wb_frames_remaining b > 1"
      "b' = b\<lparr>wb_frames_remaining := wb_frames_remaining b - 1\<rparr>" "st' = st"
  | (last) "wb_attempted b" "wb_frames_remaining b = 1" "wb_release_count b \<le> cs_inflight_releases st"
      "b' = b\<lparr>wb_frames_remaining := 0, wb_release_count := 0\<rparr>"
      "st' = st\<lparr>cs_writer := (if cs_writer st = WBroken then WBroken else WAwaitingFlush),
                cs_inflight_releases := cs_inflight_releases st - wb_release_count b\<rparr>"
  using assms by (auto simp: frame_completed_def Let_def run_simps split: if_splits bind_splits)

lemma flush_effect:
  "flush_completed b st = Some st' \<Longrightarrow>
     wb_attempted b \<and> wb_frames_remaining b = 0 \<and> cs_writer st = WAwaitingFlush \<and> st' = st\<lparr>cs_writer := WIdle\<rparr>"
  by (auto simp: flush_completed_def run_simps split: bind_splits)

lemma fail_effect:
  "write_failed b st = (b', st', r) \<Longrightarrow>
     b' = b\<lparr>wb_control := None\<rparr> \<and> r = reclaims_new\<lparr>rc_prepared := cs_prepared st\<rparr> \<and>
     st' = st\<lparr>cs_writer := WBroken, cs_deactivated := True, cs_prepared := Map.empty,
             cs_settling := cs_settling st + card (dom (cs_prepared st))\<rparr>"
  by (auto simp: write_failed_def stop_locked_def)

lemma drop_batch_effect:
  assumes "drop_write_batch b st = Some (st', r)" "\<not> wb_finished b"
    "wb_release_count b = length ids" "ids \<noteq> [] \<longrightarrow> wb_prefix b = release_frames resp ids []"
  obtains (uncertain) "wb_attempted b" "length ids \<le> cs_inflight_releases st"
      "r = reclaims_new\<lparr>rc_prepared := cs_prepared st\<rparr>"
      "st' = st\<lparr>cs_writer := WBroken, cs_deactivated := True, cs_prepared := Map.empty,
             cs_settling := cs_settling st + card (dom (cs_prepared st)),
             cs_inflight_releases := cs_inflight_releases st - length ids\<rparr>"
  | (restored) "\<not> wb_attempted b" "\<not> cs_closed st" "\<not> cs_peer_ended st" "length ids \<le> cs_inflight_releases st"
      "r = reclaims_new"
      "st' = st\<lparr>cs_writer := (if cs_writer st = WBroken then WBroken else WIdle),
                cs_inflight_releases := cs_inflight_releases st - length ids, cs_releases := ids @ cs_releases st\<rparr>"
  | (ended) "\<not> wb_attempted b" "cs_closed st \<or> cs_peer_ended st" "length ids \<le> cs_inflight_releases st"
      "r = reclaims_new"
      "st' = st\<lparr>cs_writer := (if cs_writer st = WBroken then WBroken else WIdle),
                cs_inflight_releases := cs_inflight_releases st - length ids\<rparr>"
proof -
  have restore: "restore_releases (length ids) (wb_prefix b) q = Some (ids @ q)" for q
    using restore_effect [of "length ids" ids resp q] assms(4) by (cases "ids = []") auto
  show thesis
  proof (cases "wb_attempted b")
    case True
    with assms(1-3) uncertain show thesis
      by (auto simp: drop_write_batch_def stop_locked_def run_simps Let_def split: bind_splits if_splits)
  next
    case False
    with assms(1-3) restore restored ended show thesis
      by (auto simp: drop_write_batch_def run_simps Let_def split: bind_splits if_splits)
  qed
qed

lemma receive_effect:
  assumes "receive_release core st header payload = (e, st', r)" "finite (dom (cs_published st))"
  obtains Q new where "Q \<subseteq>\<^sub>m cs_published st" "finite (dom Q)" "map_vals (cs_published st) = mset new + map_vals Q"
    "(st' = st\<lparr>cs_published := Q, cs_settling := cs_settling st + length new\<rparr> \<and>
        r = reclaims_new\<lparr>rc_records := new\<rparr>) \<or>
     (st' = st\<lparr>cs_published := Q, cs_deactivated := True, cs_prepared := Map.empty,
        cs_settling := cs_settling st + length new + card (dom (cs_prepared st))\<rparr> \<and>
      r = reclaims_new\<lparr>rc_records := new, rc_prepared := cs_prepared st\<rparr>)"
proof -
  have "\<exists>Q new err. Q \<subseteq>\<^sub>m cs_published st \<and> finite (dom Q) \<and> map_vals (cs_published st) = mset new + map_vals Q \<and>
     (e, st', r) = (let s = st\<lparr>cs_published := Q, cs_settling := cs_settling st + length new\<rparr>;
                        rc = reclaims_new\<lparr>rc_records := new\<rparr>
                    in if err \<noteq> None then (err, stop_locked s rc) else (err, s, rc))"
  proof (cases "decode_release_frame header payload (cc_side core = Client) (cs_handshake_done st)")
    case (Inl x)
    then show ?thesis using assms
      by (intro exI [of _ "cs_published st"] exI [of _ "[]"]
          exI [of _ "Some (ProtocolViolation (decode_error_message x))"]) (auto simp: receive_release_def)
  next
    case (Inr batch)
    obtain err s recs where s: "settle_ids (release_ids batch) st [] = (err, s, recs)" by (metis prod_cases3)
    obtain Q new where Q: "s = st\<lparr>cs_published := Q, cs_settling := cs_settling st + length new\<rparr>" "recs = [] @ new"
      "Q \<subseteq>\<^sub>m cs_published st" "finite (dom Q)" "map_vals (cs_published st) = mset new + map_vals Q"
      using settle_effect [OF s assms(2)] by (elim exE conjE) (rule that)
    show ?thesis
      by (rule exI [of _ Q], rule exI [of _ new], rule exI [of _ err])
        (use Q s Inr assms(1) in \<open>simp add: receive_release_def\<close>)
  qed
  then show thesis
    by (elim exE conjE) (rule that, assumption+, auto simp: stop_locked_def Let_def split: if_splits)
qed

section \<open>What each invariant depends on\<close>

text \<open>Each invariant ignores the updates of the fields it does not mention.\<close>

lemma w_st_same [simp]: "w\<lparr>w_st := w_st w\<rparr> = w"
  by simp

lemma pend_frame [simp]:
  "pend (w_st_update f0 w) = pend w"
  "pend (w_seq_update f1 w) = pend w"
  "pend (w_tokens_update f2 w) = pend w"
  "pend (w_dropping_update f3 w) = pend w"
  "pend (w_loans_update f4 w) = pend w"
  "pend (w_controls_update f5 w) = pend w"
  "pend (w_batch_update f6 w) = pend w"
  "pend (w_handed_update f8 w) = pend w"
  "pend (w_freed_update f9 w) = pend w"
  "pend (w_finished_update f10 w) = pend w"
  "pend (w_submitted_update f11 w) = pend w"
  by (simp_all add: pend_def)

lemma inv_books_frame [simp]:
  "inv_books (w_tokens_update f1 w) \<longleftrightarrow> inv_books w"
  "inv_books (w_dropping_update f2 w) \<longleftrightarrow> inv_books w"
  "inv_books (w_loans_update f3 w) \<longleftrightarrow> inv_books w"
  "inv_books (w_controls_update f4 w) \<longleftrightarrow> inv_books w"
  "inv_books (w_batch_update f5 w) \<longleftrightarrow> inv_books w"
  "inv_books (w_handed_update f7 w) \<longleftrightarrow> inv_books w"
  "inv_books (w_freed_update f8 w) \<longleftrightarrow> inv_books w"
  "inv_books (w_finished_update f9 w) \<longleftrightarrow> inv_books w"
  "inv_books (w_submitted_update f10 w) \<longleftrightarrow> inv_books w"
  "inv_books (w\<lparr>w_st := cs_handshake_done_update g0 st\<rparr>) \<longleftrightarrow> inv_books (w\<lparr>w_st := st\<rparr>)"
  "inv_books (w\<lparr>w_st := cs_deactivated_update g1 st\<rparr>) \<longleftrightarrow> inv_books (w\<lparr>w_st := st\<rparr>)"
  "inv_books (w\<lparr>w_st := cs_peer_ended_update g2 st\<rparr>) \<longleftrightarrow> inv_books (w\<lparr>w_st := st\<rparr>)"
  "inv_books (w\<lparr>w_st := cs_closed_update g3 st\<rparr>) \<longleftrightarrow> inv_books (w\<lparr>w_st := st\<rparr>)"
  "inv_books (w\<lparr>w_st := cs_settling_update g6 st\<rparr>) \<longleftrightarrow> inv_books (w\<lparr>w_st := st\<rparr>)"
  "inv_books (w\<lparr>w_st := cs_remote_reads_update g7 st\<rparr>) \<longleftrightarrow> inv_books (w\<lparr>w_st := st\<rparr>)"
  "inv_books (w\<lparr>w_st := cs_releases_update g8 st\<rparr>) \<longleftrightarrow> inv_books (w\<lparr>w_st := st\<rparr>)"
  "inv_books (w\<lparr>w_st := cs_inflight_releases_update g9 st\<rparr>) \<longleftrightarrow> inv_books (w\<lparr>w_st := st\<rparr>)"
  "inv_books (w\<lparr>w_st := cs_pending_controls_update g10 st\<rparr>) \<longleftrightarrow> inv_books (w\<lparr>w_st := st\<rparr>)"
  "inv_books (w\<lparr>w_st := cs_writer_update g11 st\<rparr>) \<longleftrightarrow> inv_books (w\<lparr>w_st := st\<rparr>)"
  by (simp_all add: inv_books_def)

lemma inv_conservation_frame [simp]:
  "inv_conservation (w_seq_update f0 w) \<longleftrightarrow> inv_conservation w"
  "inv_conservation (w_tokens_update f1 w) \<longleftrightarrow> inv_conservation w"
  "inv_conservation (w_dropping_update f2 w) \<longleftrightarrow> inv_conservation w"
  "inv_conservation (w_loans_update f3 w) \<longleftrightarrow> inv_conservation w"
  "inv_conservation (w_controls_update f4 w) \<longleftrightarrow> inv_conservation w"
  "inv_conservation (w_batch_update f5 w) \<longleftrightarrow> inv_conservation w"
  "inv_conservation (w_finished_update f9 w) \<longleftrightarrow> inv_conservation w"
  "inv_conservation (w_submitted_update f10 w) \<longleftrightarrow> inv_conservation w"
  "inv_conservation (w\<lparr>w_st := cs_handshake_done_update g0 st\<rparr>) \<longleftrightarrow> inv_conservation (w\<lparr>w_st := st\<rparr>)"
  "inv_conservation (w\<lparr>w_st := cs_deactivated_update g1 st\<rparr>) \<longleftrightarrow> inv_conservation (w\<lparr>w_st := st\<rparr>)"
  "inv_conservation (w\<lparr>w_st := cs_peer_ended_update g2 st\<rparr>) \<longleftrightarrow> inv_conservation (w\<lparr>w_st := st\<rparr>)"
  "inv_conservation (w\<lparr>w_st := cs_closed_update g3 st\<rparr>) \<longleftrightarrow> inv_conservation (w\<lparr>w_st := st\<rparr>)"
  "inv_conservation (w\<lparr>w_st := cs_settling_update g6 st\<rparr>) \<longleftrightarrow> inv_conservation (w\<lparr>w_st := st\<rparr>)"
  "inv_conservation (w\<lparr>w_st := cs_remote_reads_update g7 st\<rparr>) \<longleftrightarrow> inv_conservation (w\<lparr>w_st := st\<rparr>)"
  "inv_conservation (w\<lparr>w_st := cs_releases_update g8 st\<rparr>) \<longleftrightarrow> inv_conservation (w\<lparr>w_st := st\<rparr>)"
  "inv_conservation (w\<lparr>w_st := cs_inflight_releases_update g9 st\<rparr>) \<longleftrightarrow> inv_conservation (w\<lparr>w_st := st\<rparr>)"
  "inv_conservation (w\<lparr>w_st := cs_pending_controls_update g10 st\<rparr>) \<longleftrightarrow> inv_conservation (w\<lparr>w_st := st\<rparr>)"
  "inv_conservation (w\<lparr>w_st := cs_writer_update g11 st\<rparr>) \<longleftrightarrow> inv_conservation (w\<lparr>w_st := st\<rparr>)"
  by (simp_all add: inv_conservation_def)

lemma inv_counters_frame [simp]:
  "inv_counters (w_seq_update f0 w) \<longleftrightarrow> inv_counters w"
  "inv_counters (w_tokens_update f1 w) \<longleftrightarrow> inv_counters w"
  "inv_counters (w_dropping_update f2 w) \<longleftrightarrow> inv_counters w"
  "inv_counters (w_handed_update f7 w) \<longleftrightarrow> inv_counters w"
  "inv_counters (w_freed_update f8 w) \<longleftrightarrow> inv_counters w"
  "inv_counters (w_finished_update f9 w) \<longleftrightarrow> inv_counters w"
  "inv_counters (w_submitted_update f10 w) \<longleftrightarrow> inv_counters w"
  "inv_counters (w\<lparr>w_st := cs_handshake_done_update g0 st\<rparr>) \<longleftrightarrow> inv_counters (w\<lparr>w_st := st\<rparr>)"
  "inv_counters (w\<lparr>w_st := cs_deactivated_update g1 st\<rparr>) \<longleftrightarrow> inv_counters (w\<lparr>w_st := st\<rparr>)"
  "inv_counters (w\<lparr>w_st := cs_peer_ended_update g2 st\<rparr>) \<longleftrightarrow> inv_counters (w\<lparr>w_st := st\<rparr>)"
  "inv_counters (w\<lparr>w_st := cs_closed_update g3 st\<rparr>) \<longleftrightarrow> inv_counters (w\<lparr>w_st := st\<rparr>)"
  "inv_counters (w\<lparr>w_st := cs_prepared_update g4 st\<rparr>) \<longleftrightarrow> inv_counters (w\<lparr>w_st := st\<rparr>)"
  "inv_counters (w\<lparr>w_st := cs_published_update g5 st\<rparr>) \<longleftrightarrow> inv_counters (w\<lparr>w_st := st\<rparr>)"
  "inv_counters (w\<lparr>w_st := cs_releases_update g8 st\<rparr>) \<longleftrightarrow> inv_counters (w\<lparr>w_st := st\<rparr>)"
  "inv_counters (w\<lparr>w_st := cs_writer_update g11 st\<rparr>) \<longleftrightarrow> inv_counters (w\<lparr>w_st := st\<rparr>)"
  by (simp_all add: inv_counters_def)

lemma inv_phases_frame [simp]:
  "inv_phases (w_seq_update f0 w) \<longleftrightarrow> inv_phases w"
  "inv_phases (w_tokens_update f1 w) \<longleftrightarrow> inv_phases w"
  "inv_phases (w_dropping_update f2 w) \<longleftrightarrow> inv_phases w"
  "inv_phases (w_loans_update f3 w) \<longleftrightarrow> inv_phases w"
  "inv_phases (w_controls_update f4 w) \<longleftrightarrow> inv_phases w"
  "inv_phases (w_batch_update f5 w) \<longleftrightarrow> inv_phases w"
  "inv_phases (w_reclaims_update f6 w) \<longleftrightarrow> inv_phases w"
  "inv_phases (w_handed_update f7 w) \<longleftrightarrow> inv_phases w"
  "inv_phases (w_freed_update f8 w) \<longleftrightarrow> inv_phases w"
  "inv_phases (w_finished_update f9 w) \<longleftrightarrow> inv_phases w"
  "inv_phases (w_submitted_update f10 w) \<longleftrightarrow> inv_phases w"
  "inv_phases (w\<lparr>w_st := cs_handshake_done_update g0 st\<rparr>) \<longleftrightarrow> inv_phases (w\<lparr>w_st := st\<rparr>)"
  "inv_phases (w\<lparr>w_st := cs_inflight_releases_update g9 st\<rparr>) \<longleftrightarrow> inv_phases (w\<lparr>w_st := st\<rparr>)"
  by (simp_all add: inv_phases_def)

lemma inv_writer_frame [simp]:
  "inv_writer core (w_seq_update f0 w) \<longleftrightarrow> inv_writer core w"
  "inv_writer core (w_tokens_update f1 w) \<longleftrightarrow> inv_writer core w"
  "inv_writer core (w_dropping_update f2 w) \<longleftrightarrow> inv_writer core w"
  "inv_writer core (w_loans_update f3 w) \<longleftrightarrow> inv_writer core w"
  "inv_writer core (w_controls_update f4 w) \<longleftrightarrow> inv_writer core w"
  "inv_writer core (w_reclaims_update f6 w) \<longleftrightarrow> inv_writer core w"
  "inv_writer core (w_handed_update f7 w) \<longleftrightarrow> inv_writer core w"
  "inv_writer core (w_freed_update f8 w) \<longleftrightarrow> inv_writer core w"
  "inv_writer core (w_finished_update f9 w) \<longleftrightarrow> inv_writer core w"
  "inv_writer core (w_submitted_update f10 w) \<longleftrightarrow> inv_writer core w"
  "inv_writer core (w\<lparr>w_st := cs_handshake_done_update g0 st\<rparr>) \<longleftrightarrow> inv_writer core (w\<lparr>w_st := st\<rparr>)"
  "inv_writer core (w\<lparr>w_st := cs_deactivated_update g1 st\<rparr>) \<longleftrightarrow> inv_writer core (w\<lparr>w_st := st\<rparr>)"
  "inv_writer core (w\<lparr>w_st := cs_peer_ended_update g2 st\<rparr>) \<longleftrightarrow> inv_writer core (w\<lparr>w_st := st\<rparr>)"
  "inv_writer core (w\<lparr>w_st := cs_closed_update g3 st\<rparr>) \<longleftrightarrow> inv_writer core (w\<lparr>w_st := st\<rparr>)"
  "inv_writer core (w\<lparr>w_st := cs_prepared_update g4 st\<rparr>) \<longleftrightarrow> inv_writer core (w\<lparr>w_st := st\<rparr>)"
  "inv_writer core (w\<lparr>w_st := cs_published_update g5 st\<rparr>) \<longleftrightarrow> inv_writer core (w\<lparr>w_st := st\<rparr>)"
  "inv_writer core (w\<lparr>w_st := cs_settling_update g6 st\<rparr>) \<longleftrightarrow> inv_writer core (w\<lparr>w_st := st\<rparr>)"
  "inv_writer core (w\<lparr>w_st := cs_remote_reads_update g7 st\<rparr>) \<longleftrightarrow> inv_writer core (w\<lparr>w_st := st\<rparr>)"
  "inv_writer core (w\<lparr>w_st := cs_releases_update g8 st\<rparr>) \<longleftrightarrow> inv_writer core (w\<lparr>w_st := st\<rparr>)"
  "inv_writer core (w\<lparr>w_st := cs_inflight_releases_update g9 st\<rparr>) \<longleftrightarrow> inv_writer core (w\<lparr>w_st := st\<rparr>)"
  "inv_writer core (w\<lparr>w_st := cs_pending_controls_update g10 st\<rparr>) \<longleftrightarrow> inv_writer core (w\<lparr>w_st := st\<rparr>)"
  by (simp_all add: inv_writer_def)

lemma inv_tokens_frame [simp]:
  "inv_tokens (w_loans_update f3 w) \<longleftrightarrow> inv_tokens w"
  "inv_tokens (w_controls_update f4 w) \<longleftrightarrow> inv_tokens w"
  "inv_tokens (w_reclaims_update f6 w) \<longleftrightarrow> inv_tokens w"
  "inv_tokens (w_handed_update f7 w) \<longleftrightarrow> inv_tokens w"
  "inv_tokens (w_freed_update f8 w) \<longleftrightarrow> inv_tokens w"
  "inv_tokens (w_finished_update f9 w) \<longleftrightarrow> inv_tokens w"
  "inv_tokens (w_submitted_update f10 w) \<longleftrightarrow> inv_tokens w"
  "inv_tokens (w\<lparr>w_st := cs_handshake_done_update g0 st\<rparr>) \<longleftrightarrow> inv_tokens (w\<lparr>w_st := st\<rparr>)"
  "inv_tokens (w\<lparr>w_st := cs_peer_ended_update g2 st\<rparr>) \<longleftrightarrow> inv_tokens (w\<lparr>w_st := st\<rparr>)"
  "inv_tokens (w\<lparr>w_st := cs_closed_update g3 st\<rparr>) \<longleftrightarrow> inv_tokens (w\<lparr>w_st := st\<rparr>)"
  "inv_tokens (w\<lparr>w_st := cs_published_update g5 st\<rparr>) \<longleftrightarrow> inv_tokens (w\<lparr>w_st := st\<rparr>)"
  "inv_tokens (w\<lparr>w_st := cs_settling_update g6 st\<rparr>) \<longleftrightarrow> inv_tokens (w\<lparr>w_st := st\<rparr>)"
  "inv_tokens (w\<lparr>w_st := cs_remote_reads_update g7 st\<rparr>) \<longleftrightarrow> inv_tokens (w\<lparr>w_st := st\<rparr>)"
  "inv_tokens (w\<lparr>w_st := cs_releases_update g8 st\<rparr>) \<longleftrightarrow> inv_tokens (w\<lparr>w_st := st\<rparr>)"
  "inv_tokens (w\<lparr>w_st := cs_inflight_releases_update g9 st\<rparr>) \<longleftrightarrow> inv_tokens (w\<lparr>w_st := st\<rparr>)"
  "inv_tokens (w\<lparr>w_st := cs_pending_controls_update g10 st\<rparr>) \<longleftrightarrow> inv_tokens (w\<lparr>w_st := st\<rparr>)"
  "inv_tokens (w\<lparr>w_st := cs_writer_update g11 st\<rparr>) \<longleftrightarrow> inv_tokens (w\<lparr>w_st := st\<rparr>)"
  by (simp_all add: inv_tokens_def)

lemma inv_fifo_frame [simp]:
  "inv_fifo (w_seq_update f0 w) \<longleftrightarrow> inv_fifo w"
  "inv_fifo (w_tokens_update f1 w) \<longleftrightarrow> inv_fifo w"
  "inv_fifo (w_dropping_update f2 w) \<longleftrightarrow> inv_fifo w"
  "inv_fifo (w_loans_update f3 w) \<longleftrightarrow> inv_fifo w"
  "inv_fifo (w_controls_update f4 w) \<longleftrightarrow> inv_fifo w"
  "inv_fifo (w_reclaims_update f6 w) \<longleftrightarrow> inv_fifo w"
  "inv_fifo (w_handed_update f7 w) \<longleftrightarrow> inv_fifo w"
  "inv_fifo (w_freed_update f8 w) \<longleftrightarrow> inv_fifo w"
  "inv_fifo (w\<lparr>w_st := cs_handshake_done_update g0 st\<rparr>) \<longleftrightarrow> inv_fifo (w\<lparr>w_st := st\<rparr>)"
  "inv_fifo (w\<lparr>w_st := cs_deactivated_update g1 st\<rparr>) \<longleftrightarrow> inv_fifo (w\<lparr>w_st := st\<rparr>)"
  "inv_fifo (w\<lparr>w_st := cs_prepared_update g4 st\<rparr>) \<longleftrightarrow> inv_fifo (w\<lparr>w_st := st\<rparr>)"
  "inv_fifo (w\<lparr>w_st := cs_published_update g5 st\<rparr>) \<longleftrightarrow> inv_fifo (w\<lparr>w_st := st\<rparr>)"
  "inv_fifo (w\<lparr>w_st := cs_settling_update g6 st\<rparr>) \<longleftrightarrow> inv_fifo (w\<lparr>w_st := st\<rparr>)"
  "inv_fifo (w\<lparr>w_st := cs_remote_reads_update g7 st\<rparr>) \<longleftrightarrow> inv_fifo (w\<lparr>w_st := st\<rparr>)"
  "inv_fifo (w\<lparr>w_st := cs_inflight_releases_update g9 st\<rparr>) \<longleftrightarrow> inv_fifo (w\<lparr>w_st := st\<rparr>)"
  "inv_fifo (w\<lparr>w_st := cs_pending_controls_update g10 st\<rparr>) \<longleftrightarrow> inv_fifo (w\<lparr>w_st := st\<rparr>)"
  "inv_fifo (w\<lparr>w_st := cs_writer_update g11 st\<rparr>) \<longleftrightarrow> inv_fifo (w\<lparr>w_st := st\<rparr>)"
  by (simp_all add: inv_fifo_def)

section \<open>Every step keeps the invariant\<close>

lemma conn_invI:
  "inv_books w \<Longrightarrow> inv_conservation w \<Longrightarrow> inv_counters w \<Longrightarrow> inv_phases w \<Longrightarrow> inv_writer core w \<Longrightarrow>
     inv_tokens w \<Longrightarrow> inv_fifo w \<Longrightarrow> conn_inv core w"
  by (simp add: conn_inv_def)

lemma conn_invD:
  assumes "conn_inv core w"
  shows "inv_books w" "inv_conservation w" "inv_counters w" "inv_phases w" "inv_writer core w" "inv_tokens w" "inv_fifo w"
  using assms by (simp_all add: conn_inv_def)

lemmas slot_defs = slot_loans_def slot_control_def slot_ids_def slot_ready_def slot_writer_def

lemma tokens_sequence: "tokens_ok T D s sq P d \<Longrightarrow> sq \<le> sq' \<Longrightarrow> tokens_ok T D s sq' P d"
  unfolding tokens_ok_def using order_trans by blast

lemma tokens_new:
  assumes ok: "tokens_ok T D s sq P False" and gt: "sq < loan"
  shows "tokens_ok (add_mset loan T) D s loan (insert loan P) False"
proof -
  let ?H = "T + D + slot_loans s"
  have "loan \<notin># ?H" using ok gt unfolding tokens_ok_def by (meson leD)
  then have "count ?H loan = 0" by (simp only: not_in_iff)
  then have "\<forall>x. count (add_mset loan T + D + slot_loans s) x \<le> 1"
    using ok by (auto simp: tokens_ok_def)
  moreover have "slot_ready s (insert loan P)"
    using ok by (auto simp: tokens_ok_def slot_ready_def split: option.splits)
  moreover have "\<forall>x\<in>#add_mset loan T + D + slot_loans s. x \<le> loan"
    using ok gt unfolding tokens_ok_def by (auto intro: order_trans less_imp_le)
  ultimately show ?thesis using ok by (auto simp: tokens_ok_def)
qed

lemma tokens_move:
  assumes ok: "tokens_ok T D s sq P d" and sub: "X \<subseteq># T"
  shows "tokens_ok (T - X) (D + X) s sq P d"
proof -
  have eq: "T - X + (D + X) + slot_loans s = T + D + slot_loans s"
    using sub by (metis add.assoc add.commute subset_mset.diff_add)
  have "set_mset (T - X) \<subseteq> set_mset T" by (meson in_diffD subsetI)
  then show ?thesis using ok unfolding tokens_ok_def eq by blast
qed

lemma tokens_drop:
  assumes ok: "tokens_ok T D s sq P d" and mem: "loan \<in># D"
  shows "tokens_ok T (D - {#loan#}) s sq (P - {loan}) d"
proof -
  have eq: "T + D + slot_loans s = add_mset loan (T + (D - {#loan#}) + slot_loans s)" using mem by simp
  have cnt: "count (add_mset loan (T + (D - {#loan#}) + slot_loans s)) x \<le> 1" for x
    using ok unfolding tokens_ok_def eq by blast
  have "count (T + (D - {#loan#}) + slot_loans s) loan = 0" using cnt [of loan] by simp
  then have once: "loan \<notin># T" "loan \<notin># slot_loans s" by (auto simp: not_in_iff)
  have "count (T + (D - {#loan#}) + slot_loans s) x \<le> 1" for x using cnt [of x] by (auto split: if_splits)
  moreover have "slot_ready s P \<Longrightarrow> slot_ready s (P - {loan})"
    using once(2) by (auto simp: slot_ready_def slot_loans_def split: option.splits)
  ultimately show ?thesis using ok once(1) unfolding tokens_ok_def eq by auto
qed

lemma tokens_stop: "tokens_ok T D s sq P d \<Longrightarrow> tokens_ok T D s sq {} True"
  by (simp add: tokens_ok_def)

lemma tokens_begin:
  assumes ok: "tokens_ok T D None sq P d" and sub: "batch_loans b \<subseteq># T"
  shows "tokens_ok (T - batch_loans b) D (Some (b, ids)) sq P d"
proof -
  have eq: "T - batch_loans b + D + batch_loans b = T + D"
    using sub by (metis add.assoc add.commute subset_mset.diff_add)
  have "set_mset (T - batch_loans b) \<subseteq> set_mset T" by (meson in_diffD subsetI)
  moreover have "set_mset (batch_loans b) \<subseteq> set_mset T" using sub by (rule set_mset_mono)
  ultimately show ?thesis using ok unfolding tokens_ok_def by (auto simp: slot_defs eq)
qed

lemma tokens_started:
  assumes ok: "tokens_ok T D (Some (b, ids)) sq P d" and "wb_loans b' = wb_loans b" "wb_attempted b'"
  shows "tokens_ok T D (Some (b', ids')) sq (P - set_mset (batch_loans b)) d"
proof -
  have same: "slot_loans (Some (b', ids')) = batch_loans b" "slot_loans (Some (b, ids)) = batch_loans b"
    using assms(2) by (simp_all add: slot_loans_def batch_loans_def)
  have "set_mset T \<inter> set_mset (batch_loans b) = {}"
  proof (rule ccontr)
    assume "set_mset T \<inter> set_mset (batch_loans b) \<noteq> {}"
    then obtain x where "x \<in># T" "x \<in># batch_loans b" by auto
    then have "count T x \<ge> 1" "count (batch_loans b) x \<ge> 1" by (simp_all add: Suc_le_eq)
    then have "\<not> count (T + D + batch_loans b) x \<le> 1" unfolding count_union by linarith
    with ok show False unfolding tokens_ok_def same by blast
  qed
  then show ?thesis using ok assms(3) unfolding tokens_ok_def same by (auto simp: slot_ready_def)
qed

lemma tokens_finish:
  assumes "tokens_ok T D (Some (b, ids)) sq P d"
  shows "tokens_ok T (D + batch_loans b) None sq P d"
  using assms by (auto simp: tokens_ok_def slot_defs add.assoc)

lemma inv_initial: "conn_inv core (world_new sq)"
  by (rule conn_invI) (simp_all add: inv_books_def inv_conservation_def inv_counters_def inv_phases_def
      inv_writer_def inv_tokens_def inv_fifo_def world_new_def conn_new_def pend_def slot_defs tokens_ok_def)

lemma step_handshake:
  assumes "conn_inv core w" "finish_handshake_locked (w_st w) = (r, st)"
  shows "conn_inv core (w\<lparr>w_st := st\<rparr>)"
  using handshake_effect [OF assms(2)] assms(1) by (auto simp: conn_inv_def)

lemma step_admit:
  assumes inv: "conn_inv core w" and "admit_remote_loan_locked (w_st w) loan ok1 = (Inr loan', st)"
  shows "conn_inv core (w\<lparr>w_st := st, w_loans := add_mset loan' (w_loans w)\<rparr>)"
proof -
  note eff = admit_ok [OF assms(2)] and I = conn_invD [OF inv]
  show ?thesis
    by (rule conn_invI) (use I eff in \<open>simp_all add: inv_counters_def inv_phases_def\<close>)
qed

lemma step_drop_remote:
  assumes inv: "conn_inv core w" and mem: "loan \<in># w_loans w" and step: "drop_remote_loan (w_st w) loan = Some st"
  shows "conn_inv core (w\<lparr>w_st := st, w_loans := w_loans w - {#loan#}, w_finished := w_finished w @ [loan]\<rparr>)"
proof -
  note I = conn_invD [OF inv]
  have pos: "size (w_loans w) \<noteq> 0" using mem by auto
  have reads: "cs_remote_reads (w_st w) = size (w_loans w)" using I(3) by (simp add: inv_counters_def)
  then have open_: "\<not> cs_closed (w_st w)" using I(4) pos by (auto simp: inv_phases_def)
  have st: "st = (w_st w)\<lparr>cs_releases := cs_releases (w_st w) @ (if cs_peer_ended (w_st w) then [] else [loan]),
      cs_remote_reads := size (w_loans w) - 1\<rparr>"
    using step open_ reads by (auto simp: drop_remote_loan_def run_simps Let_def split: bind_splits if_splits)
  show ?thesis
    by (rule conn_invI) (use I st open_ mem in \<open>simp_all add: inv_counters_def inv_phases_def inv_fifo_def size_Diff_singleton\<close>)
qed

lemma step_control:
  assumes inv: "conn_inv core w" and step: "prepare_control_frame (w_st w) = (Inr u, st)"
  shows "conn_inv core (w\<lparr>w_st := st, w_controls := w_controls w + 1\<rparr>)"
proof -
  note eff = control_effect(1) [OF step] and I = conn_invD [OF inv]
  show ?thesis
    by (rule conn_invI) (use I eff in \<open>simp_all add: inv_counters_def inv_phases_def\<close>)
qed

lemma step_drop_control:
  assumes inv: "conn_inv core w" and pos: "w_controls w > 0" and step: "drop_control_frame (w_st w) = Some st"
  shows "conn_inv core (w\<lparr>w_st := st, w_controls := w_controls w - 1\<rparr>)"
proof -
  note I = conn_invD [OF inv]
  have st: "st = (w_st w)\<lparr>cs_pending_controls := cs_pending_controls (w_st w) - 1\<rparr>"
    using step by (auto simp: drop_control_frame_def run_simps split: bind_splits)
  show ?thesis
    by (rule conn_invI) (use I st pos in \<open>simp_all add: inv_counters_def inv_phases_def\<close>)
qed

lemma step_sequence:
  assumes inv: "conn_inv core w" and le: "w_seq w \<le> sq"
  shows "conn_inv core (w\<lparr>w_seq := sq\<rparr>)"
proof -
  note I = conn_invD [OF inv]
  have "inv_books (w\<lparr>w_seq := sq\<rparr>)" "inv_tokens (w\<lparr>w_seq := sq\<rparr>)"
    using I(1,6) order_trans [OF _ le] tokens_sequence [OF _ le] by (auto simp: inv_books_def inv_tokens_def)
  with I show ?thesis by (intro conn_invI) simp_all
qed

lemma step_abandon:
  assumes inv: "conn_inv core w" and mem: "loan \<in># w_tokens w"
  shows "conn_inv core (w\<lparr>w_tokens := w_tokens w - {#loan#}, w_dropping := add_mset loan (w_dropping w)\<rparr>)"
proof -
  note I = conn_invD [OF inv]
  have "inv_tokens (w\<lparr>w_tokens := w_tokens w - {#loan#}, w_dropping := add_mset loan (w_dropping w)\<rparr>)"
    using I(6) mem tokens_move [of "w_tokens w" _ _ _ _ _ "{#loan#}"] by (simp add: inv_tokens_def)
  with I show ?thesis by (intro conn_invI) simp_all
qed

lemma conservation_alt:
  "inv_conservation w \<longleftrightarrow>
     w_handed w = handles (cs_prepared (w_st w)) + handles (cs_published (w_st w)) + image_mset ca_handle (pend w) + w_freed w"
  by (simp add: inv_conservation_def handles_def)

lemma reclaimed_simps [simp]:
  "reclaimed reclaims_new = {#}"
  "reclaimed (reclaims_new\<lparr>rc_records := rs\<rparr>) = mset rs"
  "reclaimed (reclaims_new\<lparr>rc_prepared := P\<rparr>) = map_vals P"
  "reclaimed (reclaims_new\<lparr>rc_records := rs, rc_prepared := P\<rparr>) = map_vals P + mset rs"
  "reclaimed (reclaims_new\<lparr>rc_prepared := P, rc_published := Q\<rparr>) = map_vals P + map_vals Q"
  by (simp_all add: reclaimed_def reclaims_new_def)

lemma pend_add [simp]: "pend (w_reclaims_update (\<lambda>_. add_mset r (w_reclaims w)) v) = reclaimed r + pend w"
  by (simp add: pend_def)

lemma books_finite:
  "inv_books w \<Longrightarrow> finite (dom (cs_prepared (w_st w)))" "inv_books w \<Longrightarrow> finite (dom (cs_published (w_st w)))"
  by (simp_all add: inv_books_def)

lemma size_handles [simp]: "size (handles m) = card (dom m)"
  by (simp add: handles_def)

lemma step_prepare:
  assumes inv: "conn_inv core w" and step: "prepare_loan_locked (w_st w) (w_seq w) h ok1 ok2 = (Inr loan, st, sq)"
  shows "conn_inv core (w\<lparr>w_st := st, w_seq := sq, w_tokens := add_mset loan (w_tokens w), w_handed := add_mset h (w_handed w)\<rparr>)"
    (is "conn_inv core ?w")
proof -
  note eff = prepare_ok [OF step] and I = conn_invD [OF inv]
  have gt: "\<not> loan \<le> w_seq w" "w_seq w \<le> loan" "w_seq w < loan"
    using eff(4) by (simp_all add: word_le_nat_alt word_less_nat_alt)
  have none: "cs_prepared (w_st w) loan = None" "cs_published (w_st w) loan = None"
    using I(1) gt(1) by (auto simp: inv_books_def domIff)
  have "inv_books ?w"
    using I(1) none order_trans [OF _ gt(2)] by (auto simp: inv_books_def eff)
  moreover have "inv_conservation ?w"
    using I(2) none handles_insert [OF books_finite(1) [OF I(1)]] by (simp add: conservation_alt eff)
  moreover have "inv_phases ?w" using I(4) eff by (simp add: inv_phases_def)
  moreover have "inv_tokens ?w"
    using I(6) eff(3) gt tokens_new [of "w_tokens w" _ _ "w_seq w" _ loan] by (simp add: inv_tokens_def eff)
  ultimately show ?thesis using I by (intro conn_invI) (simp_all add: eff)
qed

lemma step_prepare_rejected:
  assumes inv: "conn_inv core w" and step: "prepare_loan_locked (w_st w) (w_seq w) h ok1 ok2 = (Inl e, st, sq)"
  shows "conn_inv core (w\<lparr>w_st := st, w_seq := sq, w_handed := add_mset h (w_handed w), w_freed := add_mset h (w_freed w)\<rparr>)"
  using conn_invD [OF inv] prepare_err [OF step] by (intro conn_invI) (simp_all add: conservation_alt)

lemma step_drop_loan:
  assumes inv: "conn_inv core w" and mem: "loan \<in># w_dropping w" and step: "drop_prepared_loan (w_st w) loan = (st, rc)"
  shows "conn_inv core (w\<lparr>w_st := st, w_dropping := w_dropping w - {#loan#}, w_reclaims := add_mset rc (w_reclaims w)\<rparr>)"
    (is "conn_inv core ?w")
proof -
  note I = conn_invD [OF inv] and fin = books_finite [OF conn_invD(1) [OF inv]]
  have tok: "tokens_ok (w_tokens w) (w_dropping w - {#loan#}) (w_batch w) (w_seq w)
      (dom (cs_prepared (w_st w)) - {loan}) (cs_deactivated (w_st w))"
    using I(6) mem by (auto simp: inv_tokens_def intro: tokens_drop)
  show ?thesis
  proof (cases "cs_prepared (w_st w) loan")
    case None
    then have eff: "st = w_st w" "rc = reclaims_new" using step by (simp_all add: drop_prepared_loan_def)
    have "dom (cs_prepared (w_st w)) - {loan} = dom (cs_prepared (w_st w))" using None by auto
    then have "inv_tokens ?w" using tok by (simp add: inv_tokens_def eff)
    moreover have "inv_books ?w" using I(1) by (simp add: inv_books_def eff reclaims_new_def)
    ultimately show ?thesis using I
      by (intro conn_invI) (simp_all add: eff conservation_alt inv_counters_def)
  next
    case (Some a)
    then have eff: "st = (w_st w)\<lparr>cs_prepared := (cs_prepared (w_st w))(loan := None), cs_settling := cs_settling (w_st w) + 1\<rparr>"
      "rc = reclaims_new\<lparr>rc_records := [a]\<rparr>" using step by (simp_all add: drop_prepared_loan_def)
    have open_: "\<not> cs_deactivated (w_st w)" using I(4) Some by (auto simp: inv_phases_def)
    have "inv_tokens ?w" using tok by (simp add: inv_tokens_def eff)
    moreover have "inv_books ?w" using I(1) by (auto simp: inv_books_def eff reclaims_new_def)
    moreover have "inv_conservation ?w"
      using I(2) handles_remove [OF fin(1) Some] by (simp add: conservation_alt eff)
    ultimately show ?thesis using I open_
      by (intro conn_invI) (simp_all add: eff inv_counters_def inv_phases_def)
  qed
qed


lemma books_disjoint: "inv_books w \<Longrightarrow> dom (cs_prepared (w_st w)) \<inter> dom (cs_published (w_st w)) = {}"
  by (simp add: inv_books_def)

lemma books_shrink:
  assumes "inv_books w" "finite (dom P)" "finite (dom Q)" "dom P \<inter> dom Q = {}"
    "dom P \<union> dom Q \<subseteq> dom (cs_prepared (w_st w)) \<union> dom (cs_published (w_st w))"
    "cs_prepared (w_st v) = P" "cs_published (w_st v) = Q" "w_seq v = w_seq w"
    "\<forall>r\<in>#w_reclaims v. finite (dom (rc_prepared r)) \<and> finite (dom (rc_published r))"
  shows "inv_books v"
proof -
  have "\<forall>i\<in>dom P \<union> dom Q. i \<le> w_seq w" using assms(1,5) unfolding inv_books_def by blast
  then show ?thesis using assms(2-4,9) unfolding inv_books_def assms(6-8) by (intro conjI)
qed

lemma books_reclaims: "inv_books w \<Longrightarrow> \<forall>r\<in>#w_reclaims w. finite (dom (rc_prepared r)) \<and> finite (dom (rc_published r))"
  by (simp add: inv_books_def)

lemma step_begin_write:
  assumes inv: "conn_inv core w" and sub: "own_loans core request \<subseteq># w_tokens w" "own_control core request \<le> w_controls w"
    and step: "begin_write_locked core (w_st w) request ok1 = (Inr (Some b), st)"
  shows "conn_inv core (w\<lparr>w_st := st, w_tokens := w_tokens w - own_loans core request,
          w_controls := w_controls w - own_control core request, w_batch := Some (b, cs_releases (w_st w))\<rparr>)"
    (is "conn_inv core ?w")
proof -
  note eff = begin_write_ok [OF step] and I = conn_invD [OF inv]
  have none: "w_batch w = None" using I(5) eff(3) by (auto simp: inv_writer_def slot_writer_def split: option.splits if_splits)
  have "inv_tokens ?w"
    using I(6) sub(1) tokens_begin [of "w_tokens w" _ _ _ _ b] by (simp add: inv_tokens_def eff none)
  moreover have "inv_counters ?w" using I(3) sub(2) by (simp add: inv_counters_def eff none slot_defs)
  moreover have "inv_writer core ?w" using eff by (simp add: inv_writer_def slot_writer_def)
  moreover have "inv_fifo ?w" using I(7) eff none by (simp add: inv_fifo_def slot_ids_def)
  moreover have "inv_phases ?w" using I(4) eff by (simp add: inv_phases_def)
  ultimately show ?thesis using I by (intro conn_invI) (simp_all add: eff)
qed

lemma step_begin_write_none:
  assumes inv: "conn_inv core w" and sub: "own_loans core request \<subseteq># w_tokens w"
    and step: "begin_write_locked core (w_st w) request ok1 = (r, st)" "r = Inr None \<or> isl r"
  shows "conn_inv core (w\<lparr>w_st := st, w_tokens := w_tokens w - own_loans core request,
          w_dropping := w_dropping w + own_loans core request\<rparr>)" (is "conn_inv core ?w")
proof -
  note I = conn_invD [OF inv]
  have st: "st = w_st w" by (rule begin_write_none [OF step])
  have "inv_tokens ?w" using I(6) sub tokens_move by (simp add: inv_tokens_def st)
  then show ?thesis using I by (intro conn_invI) (simp_all add: st)
qed

lemma step_begin_io:
  assumes inv: "conn_inv core w" and b: "w_batch w = Some (b, ids)" and step: "begin_io b (w_st w) = Some (r, b', st)"
  shows "conn_inv core (w\<lparr>w_st := st, w_batch := Some (b', ids)\<rparr>)" (is "conn_inv core ?w")
proof -
  note I = conn_invD [OF inv]
  from step show ?thesis
  proof (cases rule: begin_io_effect)
    case rejected
    then have "?w = w" using b by (cases w) simp
    with inv show ?thesis by simp
  next
    case (started st1)
    obtain P Q where eff: "st1 = (w_st w)\<lparr>cs_prepared := P, cs_published := Q\<rparr>" "finite (dom P)" "finite (dom Q)"
      "dom P = dom (cs_prepared (w_st w)) - pl_id ` set (wb_loans b)"
      "dom Q = dom (cs_published (w_st w)) \<union> pl_id ` set (wb_loans b)"
      "cs_published (w_st w) \<subseteq>\<^sub>m Q" "dom P \<inter> dom Q = {}" "pl_id ` set (wb_loans b) \<subseteq> dom (cs_prepared (w_st w))"
      "handles P + handles Q = handles (cs_prepared (w_st w)) + handles (cs_published (w_st w))"
      using publish_effect [OF started(8) books_finite [OF I(1)] books_disjoint [OF I(1)]]
      by (elim exE conjE) (rule that)
    have st: "st = (w_st w)\<lparr>cs_prepared := P, cs_published := Q, cs_writer := WInFrame\<rparr>"
      using started(9) eff(1) by simp
    have loans: "set_mset (batch_loans b) = pl_id ` set (wb_loans b)" by (simp add: batch_loans_def)
    have "dom P \<union> dom Q \<subseteq> dom (cs_prepared (w_st w)) \<union> dom (cs_published (w_st w))" using eff(4,5,8) by blast
    then have "inv_books ?w"
      using books_reclaims [OF I(1)] by (intro books_shrink [OF I(1) eff(2,3,7)]) (simp_all add: st)
    moreover have "inv_conservation ?w" using I(2) eff(9) by (simp add: conservation_alt st)
    moreover have "inv_tokens ?w"
      using I(6) tokens_started [of "w_tokens w" "w_dropping w" b ids "w_seq w" _ _ b' ids] started(7) b
      by (simp add: inv_tokens_def st eff(4) loans)
    moreover have "inv_phases ?w" using I(4) eff(4,5,8) started(2,3) by (auto simp: inv_phases_def st)
    moreover have "inv_writer core ?w"
      using I(5) started(6,7) b by (auto simp: inv_writer_def slot_writer_def st)
    moreover have "inv_fifo ?w" "inv_counters ?w" using I(3,7) b started(7)
      by (auto simp: inv_fifo_def inv_counters_def slot_defs st batch_control_def)
    ultimately show ?thesis by (intro conn_invI)
  qed
qed

lemma step_frame:
  assumes inv: "conn_inv core w" and b: "w_batch w = Some (b, ids)" and step: "frame_completed b (w_st w) = Some (b', st)"
  shows "conn_inv core (if wb_frames_remaining b' = 0
        then w\<lparr>w_st := st, w_batch := Some (b', []), w_submitted := w_submitted w @ ids\<rparr>
        else w\<lparr>w_st := st, w_batch := Some (b', ids)\<rparr>)"
proof -
  note I = conn_invD [OF inv]
  from step show ?thesis
  proof (cases rule: frame_effect)
    case more
    let ?w = "w\<lparr>w_st := w_st w, w_batch := Some (b', ids)\<rparr>"
    have "inv_tokens ?w" using I(6) b more(1,3) by (simp add: inv_tokens_def tokens_ok_def slot_defs batch_loans_def)
    moreover have "inv_writer core ?w" using I(5) b more by (auto simp: inv_writer_def slot_writer_def)
    moreover have "inv_counters ?w" "inv_fifo ?w"
      using I(3,7) b more(3) by (simp_all add: inv_counters_def inv_fifo_def slot_defs batch_control_def)
    ultimately show ?thesis using I more by (simp add: conn_invI)
  next
    case last
    let ?w = "w\<lparr>w_st := st, w_batch := Some (b', []), w_submitted := w_submitted w @ ids\<rparr>"
    have cnt: "wb_release_count b = length ids" using I(5) b by (simp add: inv_writer_def slot_writer_def)
    have "inv_tokens ?w" using I(6) b last(1,4,5) by (simp add: inv_tokens_def tokens_ok_def slot_defs batch_loans_def)
    moreover have "inv_writer core ?w" using I(5) b last by (auto simp: inv_writer_def slot_writer_def)
    moreover have "inv_counters ?w" "inv_fifo ?w"
      using I(3,7) b last(4,5) cnt by (simp_all add: inv_counters_def inv_fifo_def slot_defs batch_control_def)
    moreover have "inv_phases ?w" using I(4) last(5) by (auto simp: inv_phases_def)
    moreover have "inv_books ?w" "inv_conservation ?w" using I(1,2) last(5) by simp_all
    ultimately show ?thesis using last(4) by (simp add: conn_invI)
  qed
qed

lemma step_flush:
  assumes inv: "conn_inv core w" and b: "w_batch w = Some (b, ids)" and step: "flush_completed b (w_st w) = Some st"
  shows "conn_inv core (w\<lparr>w_st := st, w_batch := None, w_dropping := w_dropping w + batch_loans b,
          w_controls := w_controls w + batch_control b\<rparr>)" (is "conn_inv core ?w")
proof -
  note I = conn_invD [OF inv]
  have eff: "wb_frames_remaining b = 0" "st = (w_st w)\<lparr>cs_writer := WIdle\<rparr>" "cs_writer (w_st w) = WAwaitingFlush"
    using flush_effect [OF step] by simp_all
  have ids: "ids = []" using I(5) b eff(1) by (simp add: inv_writer_def slot_writer_def)
  have "inv_tokens ?w" using I(6) b tokens_finish by (simp add: inv_tokens_def eff)
  moreover have "inv_writer core ?w" by (simp add: inv_writer_def slot_writer_def eff)
  moreover have "inv_counters ?w" "inv_fifo ?w" using I(3,7) b ids by (simp_all add: inv_counters_def inv_fifo_def slot_defs eff)
  moreover have "inv_phases ?w" using I(4) by (simp add: inv_phases_def eff)
  ultimately show ?thesis using I by (intro conn_invI) (simp_all add: eff)
qed


text \<open>
  Four operations end in \<open>stop_locked\<close>: they move the whole prepared book into a reclamation object.
\<close>

lemma step_stop:
  assumes inv: "conn_inv core w"
    and st: "st = (w_st w)\<lparr>cs_deactivated := True, cs_prepared := Map.empty,
               cs_settling := cs_settling (w_st w) + card (dom (cs_prepared (w_st w)))\<rparr>"
    and rc: "rc = reclaims_new\<lparr>rc_prepared := cs_prepared (w_st w)\<rparr>"
  shows "conn_inv core (w\<lparr>w_st := st, w_reclaims := add_mset rc (w_reclaims w)\<rparr>)" (is "conn_inv core ?w")
proof -
  note I = conn_invD [OF inv]
  have "inv_books ?w" using I(1) by (auto simp: inv_books_def st rc reclaims_new_def)
  moreover have "inv_conservation ?w" using I(2) by (simp add: conservation_alt st rc handles_def)
  moreover have "inv_counters ?w" using I(3) by (simp add: inv_counters_def st rc)
  moreover have "inv_phases ?w" using I(4) by (auto simp: inv_phases_def st)
  moreover have "inv_tokens ?w" using I(6) tokens_stop by (auto simp: inv_tokens_def st)
  ultimately show ?thesis using I by (intro conn_invI) (simp_all add: st)
qed

lemma step_deactivate:
  assumes "conn_inv core w" and "deactivate (w_st w) = (st, rc)"
  shows "conn_inv core (w\<lparr>w_st := st, w_reclaims := add_mset rc (w_reclaims w)\<rparr>)"
  using assms by (intro step_stop) (auto simp: deactivate_def stop_locked_def)

lemma step_peer_end:
  assumes inv: "conn_inv core w" and step: "peer_end (w_st w) = (st, rc)"
  shows "conn_inv core (w\<lparr>w_st := st, w_reclaims := add_mset rc (w_reclaims w)\<rparr>)" (is "conn_inv core ?w")
proof -
  note I = conn_invD [OF inv]
  have st: "st = (w_st w)\<lparr>cs_peer_ended := True, cs_deactivated := True, cs_prepared := Map.empty, cs_published := Map.empty,
      cs_releases := [],
      cs_settling := cs_settling (w_st w) + card (dom (cs_prepared (w_st w))) + card (dom (cs_published (w_st w)))\<rparr>"
    and rc: "rc = reclaims_new\<lparr>rc_prepared := cs_prepared (w_st w), rc_published := cs_published (w_st w)\<rparr>"
    using step by (auto simp: peer_end_def stop_locked_def Let_def reclaims_new_def)
  have "inv_books ?w" using I(1) by (auto simp: inv_books_def st rc reclaims_new_def)
  moreover have "inv_conservation ?w" using I(2) by (simp add: conservation_alt st rc handles_def)
  moreover have "inv_counters ?w" using I(3) by (simp add: inv_counters_def st rc)
  moreover have "inv_phases ?w" using I(4) by (auto simp: inv_phases_def st)
  moreover have "inv_tokens ?w" using I(6) tokens_stop by (auto simp: inv_tokens_def st)
  moreover have "inv_fifo ?w" by (simp add: inv_fifo_def st)
  ultimately show ?thesis using I by (intro conn_invI) (simp_all add: st)
qed

lemma step_fail:
  assumes inv: "conn_inv core w" and b: "w_batch w = Some (b, ids)" and step: "write_failed b (w_st w) = (b', st, rc)"
  shows "conn_inv core (w\<lparr>w_st := st, w_batch := Some (b', ids), w_controls := w_controls w + batch_control b,
          w_reclaims := add_mset rc (w_reclaims w)\<rparr>)" (is "conn_inv core ?w")
proof -
  note I = conn_invD [OF step_stop [OF inv refl refl]]
  have eff: "b' = b\<lparr>wb_control := None\<rparr>" "rc = reclaims_new\<lparr>rc_prepared := cs_prepared (w_st w)\<rparr>"
    "st = (w_st w)\<lparr>cs_writer := WBroken, cs_deactivated := True, cs_prepared := Map.empty,
             cs_settling := cs_settling (w_st w) + card (dom (cs_prepared (w_st w)))\<rparr>"
    using fail_effect [OF step] by simp_all
  have "inv_tokens ?w" using I(6) b by (simp add: inv_tokens_def tokens_ok_def slot_defs batch_loans_def eff)
  moreover have "inv_writer core ?w" using I(5) b by (auto simp: inv_writer_def slot_writer_def eff)
  moreover have "inv_counters ?w" using I(3) b by (simp add: inv_counters_def slot_defs batch_control_def eff)
  moreover have "inv_fifo ?w" using I(7) b by (simp add: inv_fifo_def slot_defs eff)
  moreover have "inv_phases ?w" using I(4) by (auto simp: inv_phases_def eff)
  moreover have "inv_books ?w" "inv_conservation ?w" using I(1,2) by (simp_all add: inv_books_def conservation_alt eff)
  ultimately show ?thesis by (intro conn_invI)
qed

lemma step_drop_batch:
  assumes inv: "conn_inv core w" and b: "w_batch w = Some (b, ids)" and step: "drop_write_batch b (w_st w) = Some (st, rc)"
  shows "conn_inv core (w\<lparr>w_st := st, w_batch := None, w_dropping := w_dropping w + batch_loans b,
          w_controls := w_controls w + batch_control b, w_reclaims := add_mset rc (w_reclaims w),
          w_submitted := (if wb_attempted b then w_submitted w @ ids else w_submitted w)\<rparr>)" (is "conn_inv core ?w")
proof -
  note I = conn_invD [OF inv]
  have pre: "\<not> wb_finished b" "wb_release_count b = length ids"
    "ids \<noteq> [] \<longrightarrow> wb_prefix b = release_frames (cc_side core = Server) ids []"
    using I(5) b by (simp_all add: inv_writer_def slot_writer_def)
  have tok: "tokens_ok (w_tokens w) (w_dropping w + batch_loans b) None (w_seq w) (dom (cs_prepared (w_st w))) (cs_deactivated (w_st w))"
    using I(6) b tokens_finish by (simp add: inv_tokens_def)
  from step pre show ?thesis
  proof (cases rule: drop_batch_effect)
    case uncertain
    have "inv_books ?w" using I(1) by (auto simp: inv_books_def uncertain reclaims_new_def)
    moreover have "inv_conservation ?w" using I(2) by (simp add: conservation_alt uncertain handles_def)
    moreover have "inv_counters ?w" using I(3) b by (simp add: inv_counters_def uncertain slot_defs)
    moreover have "inv_phases ?w" using I(4) by (auto simp: inv_phases_def uncertain)
    moreover have "inv_tokens ?w" using tokens_stop [OF tok] by (simp add: inv_tokens_def uncertain)
    moreover have "inv_fifo ?w" using I(7) b by (simp add: inv_fifo_def uncertain slot_defs)
    moreover have "inv_writer core ?w" by (simp add: inv_writer_def uncertain slot_defs)
    ultimately show ?thesis by (intro conn_invI)
  next
    case restored
    have "inv_books ?w" using I(1) by (auto simp: inv_books_def restored reclaims_new_def)
    moreover have "inv_conservation ?w" using I(2) by (simp add: conservation_alt restored)
    moreover have "inv_counters ?w" using I(3) b by (simp add: inv_counters_def restored slot_defs)
    moreover have "inv_phases ?w" using I(4) restored(2,3) by (simp add: inv_phases_def restored)
    moreover have "inv_tokens ?w" using tok by (simp add: inv_tokens_def restored)
    moreover have "inv_fifo ?w" using I(7) b restored(1) by (simp add: inv_fifo_def restored slot_defs)
    moreover have "inv_writer core ?w" by (simp add: inv_writer_def restored slot_defs)
    ultimately show ?thesis by (intro conn_invI)
  next
    case ended
    have "inv_books ?w" using I(1) by (auto simp: inv_books_def ended reclaims_new_def)
    moreover have "inv_conservation ?w" using I(2) by (simp add: conservation_alt ended)
    moreover have "inv_counters ?w" using I(3) b by (simp add: inv_counters_def ended slot_defs)
    moreover have "inv_phases ?w" using I(4) by (simp add: inv_phases_def ended)
    moreover have "inv_tokens ?w" using tok by (simp add: inv_tokens_def ended)
    moreover have "inv_fifo ?w" using ended(2) by (auto simp: inv_fifo_def ended(5))
    moreover have "inv_writer core ?w" by (simp add: inv_writer_def ended slot_defs)
    ultimately show ?thesis by (intro conn_invI)
  qed
qed

lemma step_receive:
  assumes inv: "conn_inv core w" and step: "receive_release core (w_st w) header payload = (err, st, rc)"
  shows "conn_inv core (w\<lparr>w_st := st, w_reclaims := add_mset rc (w_reclaims w)\<rparr>)" (is "conn_inv core ?w")
proof -
  note I = conn_invD [OF inv]
  from step books_finite(2) [OF I(1)] show ?thesis
  proof (cases rule: receive_effect)
    case (1 Q new)
    have sub: "dom Q \<subseteq> dom (cs_published (w_st w))" using 1(1) by (rule map_le_implies_dom_le)
    have hs: "handles (cs_published (w_st w)) = image_mset ca_handle (mset new) + handles Q"
      using 1(3) by (simp add: handles_def)
    have closed: "cs_closed (w_st w) \<or> cs_peer_ended (w_st w) \<Longrightarrow> new = [] \<and> Q = Map.empty"
      using I(4) 1(3) sub by (auto simp: inv_phases_def)
    from 1(4) show ?thesis
    proof (elim disjE conjE)
      assume st: "st = (w_st w)\<lparr>cs_published := Q, cs_settling := cs_settling (w_st w) + length new\<rparr>"
        and rc: "rc = reclaims_new\<lparr>rc_records := new\<rparr>"
      have "inv_books ?w"
        using books_reclaims [OF I(1)] sub books_disjoint [OF I(1)]
        by (intro books_shrink [OF I(1) books_finite(1) [OF I(1)] 1(2)]) (auto simp: st rc reclaims_new_def)
      moreover have "inv_conservation ?w" using I(2) hs by (simp add: conservation_alt st rc)
      moreover have "inv_counters ?w" using I(3) by (simp add: inv_counters_def st rc)
      moreover have "inv_phases ?w" using I(4) closed by (auto simp: inv_phases_def st)
      ultimately show ?thesis using I by (intro conn_invI) (simp_all add: st inv_tokens_def)
    next
      assume st: "st = (w_st w)\<lparr>cs_published := Q, cs_deactivated := True, cs_prepared := Map.empty,
          cs_settling := cs_settling (w_st w) + length new + card (dom (cs_prepared (w_st w)))\<rparr>"
        and rc: "rc = reclaims_new\<lparr>rc_records := new, rc_prepared := cs_prepared (w_st w)\<rparr>"
      have "inv_books ?w"
        using books_reclaims [OF I(1)] sub books_finite(1) [OF I(1)]
        by (intro books_shrink [OF I(1) _ 1(2), of Map.empty]) (auto simp: st rc reclaims_new_def)
      moreover have "inv_conservation ?w" using I(2) hs by (simp add: conservation_alt st rc handles_def)
      moreover have "inv_counters ?w" using I(3) by (simp add: inv_counters_def st rc)
      moreover have "inv_phases ?w" using I(4) closed by (auto simp: inv_phases_def st)
      moreover have "inv_tokens ?w" using I(6) tokens_stop by (auto simp: inv_tokens_def st)
      ultimately show ?thesis using I by (intro conn_invI) (simp_all add: st)
    qed
  qed
qed

lemma pend_remove: "rc \<in># w_reclaims w \<Longrightarrow> pend w = reclaimed rc + (\<Sum>r\<in>#w_reclaims w - {#rc#}. reclaimed r)"
  unfolding pend_def by (metis insert_DiffM image_mset_add_mset sum_mset.add_mset)

lemma size_pend_remove:
  "rc \<in># w_reclaims w \<Longrightarrow> size (pend w) = size (reclaimed rc) + size (\<Sum>r\<in>#w_reclaims w - {#rc#}. reclaimed r)"
  by (simp only: pend_remove size_union)

lemma step_settle:
  assumes inv: "conn_inv core w" and rc: "rc \<in># w_reclaims w" and step: "drop_reclaims (w_st w) rc = Some (st, freed)"
  shows "conn_inv core (w\<lparr>w_st := st, w_reclaims := w_reclaims w - {#rc#}, w_freed := w_freed w + freed\<rparr>)"
    (is "conn_inv core ?w")
proof -
  note I = conn_invD [OF inv]
  have size: "card (dom (rc_prepared rc)) + card (dom (rc_published rc)) + length (rc_records rc) = size (reclaimed rc)"
    by (simp add: reclaimed_def)
  have eff: "st = (w_st w)\<lparr>cs_settling := cs_settling (w_st w) - size (reclaimed rc)\<rparr>" "freed = image_mset ca_handle (reclaimed rc)"
    using step by (auto simp: drop_reclaims_def size Let_def run_simps split: if_splits bind_splits)
  have "inv_books ?w" using I(1) in_diffD by (fastforce simp: inv_books_def eff)
  moreover have "inv_conservation ?w" using I(2) pend_remove [OF rc]
    by (simp add: conservation_alt eff pend_def)
  moreover have "inv_counters ?w" using I(3) size_pend_remove [OF rc] by (simp add: inv_counters_def eff pend_def)
  moreover have "inv_phases ?w" using I(4) by (auto simp: inv_phases_def eff)
  ultimately show ?thesis using I by (intro conn_invI) (simp_all add: eff)
qed

lemma step_close:
  assumes inv: "conn_inv core w" and step: "try_close (w_st w) = (c, st)"
  shows "conn_inv core (w\<lparr>w_st := st\<rparr>)" (is "conn_inv core ?w")
proof -
  note I = conn_invD [OF inv]
  have "st = w_st w \<or> (st = (w_st w)\<lparr>cs_closed := True, cs_releases := []\<rparr> \<and> cs_deactivated (w_st w) \<and> cs_published (w_st w) = Map.empty \<and>
      cs_settling (w_st w) = 0 \<and> cs_remote_reads (w_st w) = 0 \<and> cs_pending_controls (w_st w) = 0)"
    using step by (auto simp: try_close_def Let_def split: if_splits)
  then show ?thesis
  proof (elim disjE conjE)
    assume st: "st = w_st w"
    show ?thesis using inv by (simp add: st)
  next
    assume st: "st = (w_st w)\<lparr>cs_closed := True, cs_releases := []\<rparr>" and c: "cs_deactivated (w_st w)" "cs_published (w_st w) = Map.empty"
      "cs_settling (w_st w) = 0" "cs_remote_reads (w_st w) = 0" "cs_pending_controls (w_st w) = 0"
    have "inv_phases ?w" using I(4) c by (simp add: inv_phases_def st)
    moreover have "inv_fifo ?w" by (simp add: inv_fifo_def st)
    ultimately show ?thesis using I by (intro conn_invI) (simp_all add: st)
  qed
qed


lemma step_admit_rejected: "conn_inv core w \<Longrightarrow> admit_remote_loan_locked (w_st w) loan ok1 = (Inl e, st) \<Longrightarrow>
    conn_inv core (w\<lparr>w_st := st\<rparr>)"
  by (drule admit_err) simp

lemma step_control_rejected: "conn_inv core w \<Longrightarrow> prepare_control_frame (w_st w) = (Inl e, st) \<Longrightarrow>
    conn_inv core (w\<lparr>w_st := st\<rparr>)"
  by (drule control_effect(2)) simp

lemmas step_preserves = step_handshake step_prepare step_prepare_rejected step_abandon step_drop_loan step_admit
  step_admit_rejected step_drop_remote step_control step_control_rejected step_drop_control step_begin_write
  step_begin_write_none step_begin_io step_frame step_flush step_fail step_drop_batch step_receive step_deactivate
  step_peer_end step_close step_settle step_sequence

lemma conn_step_inv: "conn_step core w label w' \<Longrightarrow> conn_inv core w \<Longrightarrow> conn_inv core w'"
  by (induction rule: conn_step.induct) (rule step_preserves; assumption)+

lemma conn_reach_inv: "conn_reach core w \<Longrightarrow> conn_inv core w"
  by (induction rule: conn_reach.induct) (use inv_initial conn_step_inv in blast)+

end
