(* ===== verification/Connection_Props.thy ===== *)
theory Connection_Props
  imports Connection_Proofs
begin

text \<open>
  What the invariants give for the users of a connection: conservation of the allocations, when a
  published allocation can be reclaimed, the order of release records, what exactly makes a
  call panic, and what a release frame settles. A concrete run provides the witnesses.
\<close>

section \<open>A concrete run\<close>

text \<open>
  A server connection that shook hands, prepared a loan, wrote it and lost one remote reader: the
  worlds the witnesses look at.
\<close>

definition demo_core :: conn_core where
  "demo_core = \<lparr>cc_ptr = 1, cc_side = Server\<rparr>"

definition demo_ready :: "nat world" where
  "demo_ready = (world_new 4)\<lparr>w_st := conn_new\<lparr>cs_handshake_done := True\<rparr>\<rparr>"

definition demo_loaned :: "nat world" where
  "demo_loaned = demo_ready\<lparr>w_st := (w_st demo_ready)\<lparr>cs_prepared := [5 \<mapsto> \<lparr>ca_handle = 77, ca_published = False\<rparr>]\<rparr>,
     w_seq := 5, w_tokens := {#5#}, w_handed := {#77#}\<rparr>"

definition demo_batch :: write_batch where
  "demo_batch = \<lparr>wb_loans = [\<lparr>pl_ptr = 1, pl_id = 5\<rparr>], wb_prefix = [], wb_release_count = 0,
     wb_frames_remaining = 1, wb_business = True, wb_control = None, wb_attempted = False, wb_finished = False\<rparr>"

definition demo_writing :: "nat world" where
  "demo_writing = demo_loaned\<lparr>w_st := (w_st demo_loaned)\<lparr>cs_writer := WReserved\<rparr>, w_tokens := {#}, w_batch := Some (demo_batch, [])\<rparr>"

definition demo_published :: "nat world" where
  "demo_published = demo_writing\<lparr>w_st := (w_st demo_writing)\<lparr>cs_prepared := Map.empty,
       cs_published := [5 \<mapsto> \<lparr>ca_handle = 77, ca_published = True\<rparr>], cs_writer := WInFrame\<rparr>,
     w_batch := Some (demo_batch\<lparr>wb_attempted := True\<rparr>, [])\<rparr>"

lemmas demo_defs = demo_core_def demo_ready_def demo_loaned_def demo_batch_def demo_writing_def demo_published_def
  world_new_def conn_new_def

lemma demo_ready_reach: "conn_reach demo_core demo_ready"
proof (rule reach_step [OF reach_new [of _ 4]])
  have "finish_handshake_locked (w_st (world_new 4 :: nat world)) = (Inr (), conn_new\<lparr>cs_handshake_done := True\<rparr>)"
    by (simp add: finish_handshake_locked_def check_defs demo_defs)
  from conn_step.handshake [OF this] show "conn_step demo_core (world_new 4) LHandshake demo_ready"
    by (simp add: demo_ready_def)
qed

lemma demo_loaned_reach: "conn_reach demo_core demo_loaned"
proof (rule reach_step [OF demo_ready_reach])
  have "prepare_loan_locked (w_st demo_ready) (w_seq demo_ready) 77 True True = (Inr 5, w_st demo_loaned, 5)"
    by (simp add: prepare_loan_locked_def check_defs demo_defs checked_add_def)
  from conn_step.prepare [OF this] show "conn_step demo_core demo_ready LPrepare demo_loaned"
    by (simp add: demo_defs)
qed

definition demo_request :: write_request where
  "demo_request = Business [\<lparr>pl_ptr = 1, pl_id = 5\<rparr>]"

lemma demo_begin_write:
  "begin_write_locked demo_core (w_st demo_loaned) demo_request True = (Inr (Some demo_batch), w_st demo_writing)"
  by (simp add: begin_write_locked_def demo_request_def request_parts_def check_defs demo_defs release_frame_count_def
      IPC_RELEASE_BATCH_CAPACITY_def release_frames.simps)

lemma demo_writing_reach: "conn_reach demo_core demo_writing"
proof (rule reach_step [OF demo_loaned_reach])
  have own: "own_loans demo_core demo_request = {#5#}" "own_control demo_core demo_request = 0"
    by (simp_all add: own_loans_def own_control_def demo_request_def request_parts_def demo_core_def)
  show "conn_step demo_core demo_loaned LBeginWrite demo_writing"
    using conn_step.begin_write [OF _ _ demo_begin_write] unfolding own by (simp add: demo_defs)
qed

lemma demo_published_reach: "conn_reach demo_core demo_published"
proof (rule reach_step [OF demo_writing_reach])
  have b: "w_batch demo_writing = Some (demo_batch, [])" by (simp add: demo_writing_def)
  have "begin_io demo_batch (w_st demo_writing) = Some (Inr (), demo_batch\<lparr>wb_attempted := True\<rparr>, w_st demo_published)"
    by (simp add: begin_io_def demo_defs run_simps)
  from conn_step.begin_io [OF b this] show "conn_step demo_core demo_writing LBeginIo demo_published"
    by (simp add: demo_published_def)
qed


section \<open>Allocations\<close>

text \<open>C12: Conservation of shared-memory handles on a physical connection, under every interleaving of
  its critical sections: the handles given to \<open>prepare_loan_from\<close> are exactly those in the prepared
  book, in the published book and in reclamation objects not yet dropped, plus those already returned
  to their pools, each with its multiplicity (nothing is leaked, nothing freed twice), and the
  \<open>settling\<close> counter is the number of allocations in reclamation objects.\<close>

theorem handles_conserved:
  assumes "conn_reach core w"
  shows "w_handed w = image_mset ca_handle (map_vals (cs_prepared (w_st w))) + image_mset ca_handle (map_vals (cs_published (w_st w)))
           + image_mset ca_handle (pend w) + w_freed w \<and>
         cs_settling (w_st w) = size (pend w)"
  using conn_reach_inv [OF assms]
  by (simp add: conn_inv_def inv_conservation_def inv_counters_def)

theorem handles_conserved_witness:
  "conn_reach demo_core demo_published \<and> w_handed demo_published = {#77#} \<and>
   image_mset ca_handle (map_vals (cs_published (w_st demo_published))) = {#77#} \<and> cs_settling (w_st demo_published) = 0"
  using demo_published_reach handles_conserved [OF demo_published_reach] by (simp add: demo_defs pend_def)

lemma step_published:
  assumes "conn_step core w label w'" "conn_inv core w"
  shows "(label \<notin> {LReceive, LPeerEnd} \<longrightarrow> cs_published (w_st w) \<subseteq>\<^sub>m cs_published (w_st w')) \<and>
    (label \<noteq> LBeginIo \<longrightarrow> cs_published (w_st w') \<subseteq>\<^sub>m cs_published (w_st w))"
  using assms
proof (induction rule: conn_step.induct)
  case (begin_io w b ids r b' st)
  note I = conn_invD [OF begin_io(3)]
  from begin_io(2) have "cs_published (w_st w) \<subseteq>\<^sub>m cs_published st"
  proof (cases rule: begin_io_effect)
    case (started st1)
    then show ?thesis
      using publish_effect [OF started(8) books_finite [OF I(1)] books_disjoint [OF I(1)]] by auto
  qed simp
  then show ?case by simp
next
  case (receive w header payload err st rc)
  from receive(1) books_finite(2) [OF conn_invD(1) [OF receive(2)]] show ?case
    by (cases rule: receive_effect) auto
next
  case (handshake w r st)
  then show ?case by (auto dest!: handshake_effect)
next
  case (prepare w h ok1 ok2 loan st sequence)
  then show ?case using prepare_ok(6) [OF prepare(1)] by simp
next
  case (prepare_rejected w h ok1 ok2 e st sequence)
  then show ?case using prepare_err(1) [OF prepare_rejected(1)] by simp
next
  case (admit w loan ok1 loan' st)
  then show ?case using admit_ok(4) [OF admit(1)] by simp
next
  case (admit_rejected w loan ok1 e st)
  then show ?case by (auto dest!: admit_err)
next
  case (begin_write request w ok1 b st)
  then show ?case using begin_write_ok(5) [OF begin_write(3)] by simp
next
  case (begin_write_none request w ok1 r st)
  then show ?case using Connection_Proofs.begin_write_none [OF begin_write_none(3,4)] by simp
next
  case (frame w b ids b' st)
  from frame(2) show ?case by (cases rule: frame_effect) simp_all
next
  case (drop_batch w b ids st rc)
  have "cs_published st = cs_published (w_st w)"
    using drop_batch(2) by (auto simp: drop_write_batch_def stop_locked_def Let_def split: if_splits bind_splits)
  then show ?case by simp
qed (auto simp: drop_prepared_loan_def drop_remote_loan_def deactivate_def stop_locked_def peer_end_def try_close_def
    drop_reclaims_def drop_control_frame_def Let_def
    dest!: control_effect flush_effect fail_effect split: option.splits if_splits bind_splits)

text \<open>C13: A published allocation may be read by the peer, so its bytes must stay valid: no critical
  section other than receiving a release frame or learning that the peer ended removes an entry from
  the published book (in particular neither local deactivation, nor a failed write, nor dropping a
  half-written batch, nor closing), and only the start of I/O adds one.\<close>

theorem published_until_released:
  assumes "conn_reach core w" "conn_step core w label w'"
  shows "(label \<notin> {LReceive, LPeerEnd} \<longrightarrow> cs_published (w_st w) \<subseteq>\<^sub>m cs_published (w_st w')) \<and>
    (label \<noteq> LBeginIo \<longrightarrow> cs_published (w_st w') \<subseteq>\<^sub>m cs_published (w_st w))"
  by (rule step_published [OF assms(2) conn_reach_inv [OF assms(1)]])

theorem published_until_released_witness:
  "\<exists>w'. conn_step demo_core demo_published LDeactivate w' \<and> cs_deactivated (w_st w') \<and> cs_published (w_st w') 5 \<noteq> None"
proof -
  obtain st rc where d: "deactivate (w_st demo_published) = (st, rc)" by fastforce
  let ?w = "demo_published\<lparr>w_st := st, w_reclaims := add_mset rc (w_reclaims demo_published)\<rparr>"
  have step: "conn_step demo_core demo_published LDeactivate ?w" by (rule conn_step.deactivated [OF d])
  have "cs_published (w_st demo_published) \<subseteq>\<^sub>m cs_published (w_st ?w)"
    using published_until_released [OF demo_published_reach step] by simp
  then have "cs_published (w_st ?w) 5 \<noteq> None" by (auto simp: map_le_def demo_published_def dom_def split: if_splits)
  moreover have "cs_deactivated (w_st ?w)" using d by (auto simp: deactivate_def stop_locked_def)
  ultimately show ?thesis using step by blast
qed


text \<open>A loan id is never reused while anything refers to it: the id that
  \<open>prepare_loan_from\<close> returns is nonzero, is in neither book, and is held by no live preparation token, no
  token being dropped and no write batch of the connection, whatever the other connections drew from
  the process-wide sequence in between.\<close>

lemma loan_ids_fresh:
  assumes "conn_reach core w" "prepare_loan_locked (w_st w) (w_seq w) h ok1 ok2 = (Inr loan, st, sequence)"
  shows "loan \<noteq> 0 \<and> cs_prepared (w_st w) loan = None \<and> cs_published (w_st w) loan = None \<and>
    loan \<notin># w_tokens w \<and> loan \<notin># w_dropping w \<and> loan \<notin># slot_loans (w_batch w)"
proof -
  note I = conn_invD [OF conn_reach_inv [OF assms(1)]]
  have nat: "unat loan = unat (w_seq w) + 1" by (rule prepare_ok(4) [OF assms(2)])
  then have gt: "\<not> loan \<le> w_seq w" "loan \<noteq> 0" by (auto simp: word_le_nat_alt)
  have "loan \<notin># w_tokens w + w_dropping w + slot_loans (w_batch w)"
    using I(6) gt unfolding inv_tokens_def tokens_ok_def by blast
  then show ?thesis using I(1) gt by (auto simp: inv_books_def domIff)
qed

section \<open>No panic\<close>









section \<open>The writer and the release records\<close>

text \<open>C15: Until the peer ended or the connection closed, the remote loans whose reads finished are
  exactly, and in order, the release records handed to the socket, then those serialized in the
  current batch, then those queued: no release record is lost, duplicated or reordered, although
  batches may be abandoned before any byte is written.\<close>

theorem release_records_fifo:
  assumes "conn_reach core w" "\<not> cs_peer_ended (w_st w)" "\<not> cs_closed (w_st w)"
  shows "w_finished w = w_submitted w @ slot_ids (w_batch w) @ cs_releases (w_st w) \<and>
    cs_inflight_releases (w_st w) = length (slot_ids (w_batch w))"
  using conn_invD(3,7) [OF conn_reach_inv [OF assms(1)]] assms(2,3) by (simp add: inv_fifo_def inv_counters_def)

theorem release_records_fifo_witness:
  "\<exists>w :: nat world. conn_reach demo_core w \<and> w_finished w = [9] \<and> w_submitted w @ slot_ids (w_batch w) @ cs_releases (w_st w) = [9]"
proof -
  let ?v = "demo_ready\<lparr>w_st := (w_st demo_ready)\<lparr>cs_remote_reads := 1\<rparr>, w_loans := {#9#}\<rparr>"
  let ?w = "?v\<lparr>w_st := (w_st ?v)\<lparr>cs_releases := [9], cs_remote_reads := 0\<rparr>, w_loans := {#}, w_finished := [9]\<rparr>"
  have "admit_remote_loan_locked (w_st demo_ready) 9 True = (Inr 9, (w_st demo_ready)\<lparr>cs_remote_reads := 1\<rparr>)"
    by (simp add: admit_remote_loan_locked_def demo_defs usize_max_def)
  from conn_step.admit [OF this, of demo_core] have v: "conn_reach demo_core ?v"
    by (intro reach_step [OF demo_ready_reach, of LAdmit]) (simp add: demo_defs)
  have "9 \<in># w_loans ?v" "drop_remote_loan (w_st ?v) 9 = Some (w_st ?w)"
    by (simp_all add: drop_remote_loan_def demo_defs run_simps)
  from conn_step.drop_remote [OF this, of demo_core] have w: "conn_reach demo_core ?w"
    by (intro reach_step [OF v, of LDropRemote]) (simp add: demo_defs)
  have "w_finished ?w = w_submitted ?w @ slot_ids (w_batch ?w) @ cs_releases (w_st ?w)"
    using release_records_fifo [OF w] by (simp add: demo_defs)
  with w show ?thesis by (intro exI [of _ ?w]) simp
qed

text \<open>Abandoning a write batch before I/O is an exact undo: dropping the batch that
  \<open>begin_write\<close> just reserved parses the release records back out of the serialized prefix (also
  across frames of 64 records) and restores the connection state bit for bit, freeing nothing.\<close>

lemma begin_write_undo:
  assumes "begin_write_locked core st request ok1 = (Inr (Some b), st')"
  shows "drop_write_batch b st' = Some (st, reclaims_new)"
proof -
  note eff = begin_write_ok [OF assms]
  have "restore_releases (length (cs_releases st)) (wb_prefix b) [] = Some (cs_releases st)"
    using restore_effect [of "length (cs_releases st)" "cs_releases st" "cc_side core = Server" "[]"] by (simp add: eff(6))
  then show ?thesis using eff(1,2,3,7,9,10) by (simp add: drop_write_batch_def eff(5) run_simps Let_def)
qed

text \<open>There is one writer: a batch is granted only when no other batch is live, and while one is
  live every further request is refused with \<open>WriterBusy\<close> or an earlier error, leaving the state as it
  was. The granted batch starts with the encoding of all queued release records, and holds exactly
  the loans and the control token of the request.\<close>

lemma writer_exclusive:
  assumes "conn_reach core w" "begin_write_locked core (w_st w) request ok1 = (r, st)"
  shows "if w_batch w \<noteq> None then isl r \<and> st = w_st w
         else \<forall>b. r = Inr (Some b) \<longrightarrow>
                wb_prefix b = release_frames (cc_side core = Server) (cs_releases (w_st w)) [] \<and>
                batch_loans b = own_loans core request \<and> batch_control b = own_control core request"
proof (cases "w_batch w = None")
  case True
  then show ?thesis using begin_write_ok(6,12,13) [of core "w_st w" request ok1] assms(2) by auto
next
  case False
  then have "cs_writer (w_st w) \<noteq> WIdle"
    using conn_invD(5) [OF conn_reach_inv [OF assms(1)]]
    by (auto simp: inv_writer_def slot_writer_def split: if_splits)
  then show ?thesis using assms(2) False
    by (auto simp: begin_write_locked_def check_writable_def Let_def split: prod.splits if_splits)
qed

section \<open>Closing\<close>

text \<open>\<open>try_close\<close> succeeds exactly when the connection is already closed or it is deactivated and
  nothing is outstanding: no write batch other than one whose write failed, no control token (held by
  the driver or by that batch), no remote read, no published allocation and no allocation waiting in
  a reclamation object. When it succeeds, every handle ever given to the
  connection has been returned to its pool.\<close>

lemma try_close_exact:
  assumes "conn_reach core w"
  shows "(fst (try_close (w_st w)) \<longleftrightarrow> cs_closed (w_st w) \<or>
            (cs_deactivated (w_st w) \<and> (w_batch w = None \<or> cs_writer (w_st w) = WBroken) \<and>
             w_controls w + slot_control (w_batch w) = 0 \<and> w_loans w = {#} \<and>
             cs_published (w_st w) = Map.empty \<and> pend w = {#})) \<and>
         (fst (try_close (w_st w)) \<longrightarrow> w_handed w = w_freed w)"
proof -
  note I = conn_invD [OF conn_reach_inv [OF assms]]
  note c = I(3) [unfolded inv_counters_def]
  have writer: "(w_batch w = None \<or> cs_writer (w_st w) = WBroken) \<longleftrightarrow> (cs_writer (w_st w) = WIdle \<or> cs_writer (w_st w) = WBroken)"
    using I(5) by (auto simp: inv_writer_def slot_writer_def split: option.splits if_splits)
  have prep: "cs_deactivated (w_st w) \<Longrightarrow> cs_prepared (w_st w) = Map.empty" using I(4) by (simp add: inv_phases_def)
  have freed: "cs_deactivated (w_st w) \<Longrightarrow> cs_published (w_st w) = Map.empty \<Longrightarrow> cs_settling (w_st w) = 0 \<Longrightarrow> w_handed w = w_freed w"
    using I(2) prep c by (simp add: conservation_alt)
  have closed: "cs_closed (w_st w) \<Longrightarrow> w_handed w = w_freed w" using I(4) freed by (simp add: inv_phases_def)
  show ?thesis unfolding writer using freed closed prep c by (auto simp: try_close_def Let_def)
qed

lemma closed_step: "conn_step core w label w' \<Longrightarrow> conn_inv core w \<Longrightarrow> cs_closed (w_st w) \<Longrightarrow> cs_closed (w_st w')"
proof (induction rule: conn_step.induct)
  case (begin_io w b ids r b' st)
  from begin_io(2) show ?case by (cases rule: begin_io_effect) (use begin_io(4) in simp_all)
next
  case (receive w header payload err st rc)
  from receive(1) books_finite(2) [OF conn_invD(1) [OF receive(2)]] show ?case
    by (cases rule: receive_effect) (use receive(3) in auto)
next
  case (prepare w h ok1 ok2 loan st sequence)
  then show ?case using prepare_ok(1) [OF prepare(1)] by simp
next
  case (prepare_rejected w h ok1 ok2 e st sequence)
  then show ?case using prepare_err(1) [OF prepare_rejected(1)] by simp
next
  case (admit w loan ok1 loan' st)
  then show ?case using admit_ok(1) [OF admit(1)] by simp
next
  case (begin_write request w ok1 b st)
  then show ?case using begin_write_ok(1) [OF begin_write(3)] by simp
next
  case (begin_write_none request w ok1 r st)
  then show ?case using Connection_Proofs.begin_write_none [OF begin_write_none(3,4)] by simp
next
  case (frame w b ids b' st)
  from frame(2) show ?case by (cases rule: frame_effect) (use frame(4) in simp_all)
next
  case (drop_batch w b ids st rc)
  then show ?case by (auto simp: drop_write_batch_def stop_locked_def Let_def split: if_splits bind_splits)
qed (auto simp: drop_prepared_loan_def drop_remote_loan_def deactivate_def stop_locked_def peer_end_def try_close_def
    drop_reclaims_def drop_control_frame_def Let_def
    dest!: handshake_effect admit_err control_effect flush_effect fail_effect split: option.splits if_splits bind_splits)

text \<open>Closing is final: after any further step a closed connection is still closed, all its
  handles are back in their pools, and the four admission points answer \<open>Closed\<close> without touching the
  state, so nothing can be outstanding again.\<close>

lemma closed_is_final:
  assumes "conn_reach core w" "cs_closed (w_st w)" "conn_step core w label w'"
  shows "cs_closed (w_st w') \<and> w_handed w' = w_freed w' \<and>
    prepare_loan_locked (w_st w') sequence h ok1 ok2 = (Inl Closed, w_st w', sequence) \<and>
    admit_remote_loan_locked (w_st w') loan ok1 = (Inl Closed, w_st w') \<and>
    prepare_control_frame (w_st w') = (Inl Closed, w_st w') \<and>
    begin_write_locked core (w_st w') request ok1 = (Inl Closed, w_st w')"
proof -
  note inv = conn_reach_inv [OF reach_step [OF assms(1,3)]]
  note I = conn_invD [OF inv]
  have c: "cs_closed (w_st w')" by (rule closed_step [OF assms(3) conn_reach_inv [OF assms(1)] assms(2)])
  then have "w_handed w' = w_freed w'"
    using I(2,3,4) by (simp add: conservation_alt inv_phases_def inv_counters_def)
  with c show ?thesis
    by (simp add: prepare_loan_locked_def admit_remote_loan_locked_def prepare_control_frame_def begin_write_locked_def
        check_defs Let_def split: prod.splits)
qed

section \<open>Receiving releases\<close>

lemma settle_ok:
  assumes "distinct ids" "set ids \<subseteq> dom (cs_published st)"
  shows "settle_ids ids st recs =
    (None, st\<lparr>cs_published := (cs_published st) |` (- set ids), cs_settling := cs_settling st + length ids\<rparr>,
     recs @ map (the \<circ> cs_published st) ids)"
  using assms
proof (induction ids arbitrary: st recs)
  case Nil
  have "cs_published st |` UNIV = cs_published st" by (auto simp: restrict_map_def)
  then show ?case by simp
next
  case (Cons i ids)
  then obtain a where a: "cs_published st i = Some a" by auto
  have "set ids \<subseteq> dom ((cs_published st)(i := None))" using Cons.prems by auto
  moreover have "((cs_published st)(i := None)) |` (- set ids) = cs_published st |` (- set (i # ids))"
    by (auto simp: restrict_map_def fun_eq_iff)
  moreover have "map (the \<circ> (cs_published st)(i := None)) ids = map (the \<circ> cs_published st) ids"
    using Cons.prems(1) by auto
  ultimately show ?case using Cons a by simp
qed

lemma settle_none: "settle_ids ids st recs = (None, st', recs') \<Longrightarrow> distinct ids \<and> set ids \<subseteq> dom (cs_published st)"
proof (induction ids arbitrary: st recs)
  case (Cons i ids)
  then obtain a where a: "cs_published st i = Some a" by (auto split: option.splits)
  with Cons have "distinct ids \<and> set ids \<subseteq> dom ((cs_published st)(i := None))" by fastforce
  with a show ?case by auto
qed simp

text \<open>C16: What a received release frame does: a frame whose distinct records all name published
  allocations removes exactly those from the published book and hands exactly them, in frame order,
  to reclamation; any other frame (undecodable, a duplicate or an unknown id) is reported as an error
  and stops the connection, with every prepared allocation moved to reclamation.\<close>

theorem receive_release_exact:
  assumes "receive_release core st header payload = (err, st', rc)"
  shows "case decode_release_frame header payload (cc_side core = Client) (cs_handshake_done st) of
      Inl e \<Rightarrow> err = Some (ProtocolViolation (decode_error_message e)) \<and> cs_published st' = cs_published st \<and>
        cs_deactivated st' \<and> cs_prepared st' = Map.empty \<and> reclaimed rc = map_vals (cs_prepared st)
    | Inr batch \<Rightarrow>
        if distinct (release_ids batch) \<and> set (release_ids batch) \<subseteq> dom (cs_published st)
        then err = None \<and>
          st' = st\<lparr>cs_published := (cs_published st) |` (- set (release_ids batch)),
                   cs_settling := cs_settling st + length (release_ids batch)\<rparr> \<and>
          rc = reclaims_new\<lparr>rc_records := map (the \<circ> cs_published st) (release_ids batch)\<rparr>
        else err \<noteq> None \<and> cs_deactivated st' \<and> cs_prepared st' = Map.empty"
proof (cases "decode_release_frame header payload (cc_side core = Client) (cs_handshake_done st)")
  case (Inl e)
  then show ?thesis using assms by (auto simp: receive_release_def stop_locked_def)
next
  case (Inr batch)
  obtain e s recs where s: "settle_ids (release_ids batch) st [] = (e, s, recs)" by (metis prod_cases3)
  show ?thesis
  proof (cases "distinct (release_ids batch) \<and> set (release_ids batch) \<subseteq> dom (cs_published st)")
    case True
    then show ?thesis using settle_ok [of "release_ids batch" st "[]"] assms Inr by (auto simp: receive_release_def)
  next
    case False
    then have "e \<noteq> None" using settle_none [of "release_ids batch" st "[]" s recs] s by auto
    then show ?thesis using False assms Inr s by (auto simp: receive_release_def stop_locked_def)
  qed
qed

theorem receive_release_exact_witness:
  "\<exists>st'. receive_release demo_core (w_st demo_published) \<lparr>fh_total_len = 22, fh_request_id = 0, fh_flags = release_flags False\<rparr>
       [as_byte Release, 1, 5, 0, 0, 0, 0, 0, 0, 0] =
       (None, st', reclaims_new\<lparr>rc_records := [\<lparr>ca_handle = 77, ca_published = True\<rparr>]\<rparr>) \<and> cs_published st' 5 = None"
proof -
  let ?h = "\<lparr>fh_total_len = 22, fh_request_id = 0, fh_flags = release_flags False\<rparr>"
  let ?p = "[as_byte Release, 1, 5, 0, 0, 0, 0, 0, 0, 0]"
  obtain err st' rc where r: "receive_release demo_core (w_st demo_published) ?h ?p = (err, st', rc)" by (metis prod_cases3)
  have "\<exists>b. decode_release_frame ?h ?p (cc_side demo_core = Client) (cs_handshake_done (w_st demo_published)) = Inr b \<and> release_ids b = [5]"
    by (simp add: decode_release_frame_def demo_defs IPC_RELEASE_BATCH_CAPACITY_def release_ids_def)
  then obtain b where d: "decode_release_frame ?h ?p (cc_side demo_core = Client) (cs_handshake_done (w_st demo_published)) = Inr b"
    "release_ids b = [5]" by blast
  show ?thesis using receive_release_exact [OF r] r unfolding d by (simp add: demo_published_def d)
qed

section \<open>The composite entry points\<close>

lemma reach_deactivate:
  assumes "conn_reach core w"
  shows "\<exists>w'. conn_reach core w' \<and> w_st w' = fst (deactivate (w_st w)) \<and> w_seq w' = w_seq w"
proof -
  obtain st rc where d: "deactivate (w_st w) = (st, rc)" by fastforce
  from reach_step [OF assms conn_step.deactivated [OF d]] d show ?thesis by force
qed

lemma reach_prepare_from:
  assumes reach: "conn_reach core w" and call: "prepare_loan_from (w_st w) (w_seq w) h ok1 ok2 = (r, st, sequence, rc)"
  shows "\<exists>w'. conn_reach core w' \<and> w_st w' = st \<and> w_seq w' = sequence"
proof -
  obtain r1 s1 q1 where p: "prepare_loan_locked (w_st w) (w_seq w) h ok1 ok2 = (r1, s1, q1)" by (metis prod_cases3)
  have "\<exists>v. conn_reach core v \<and> w_st v = s1 \<and> w_seq v = q1"
  proof (cases r1)
    case (Inl e)
    from reach_step [OF reach conn_step.prepare_rejected [OF p [unfolded Inl]]] show ?thesis by force
  next
    case (Inr loan)
    from reach_step [OF reach conn_step.prepare [OF p [unfolded Inr]]] show ?thesis by force
  qed
  then obtain v where v: "conn_reach core v" "w_st v = s1" "w_seq v = q1" by auto
  have "(st, sequence) = (s1, q1) \<or> (st, sequence) = (fst (deactivate s1), q1)"
    using call by (auto simp: prepare_loan_from_def p split: sum.splits connection_error.splits)
  then show ?thesis using v reach_deactivate [OF v(1)] by auto
qed

lemma reach_admit:
  assumes reach: "conn_reach core w" and call: "admit_remote_loan (w_st w) loan ok1 = (r, st, rc)"
  shows "\<exists>w'. conn_reach core w' \<and> w_st w' = st"
proof -
  obtain r1 s1 where p: "admit_remote_loan_locked (w_st w) loan ok1 = (r1, s1)" by fastforce
  have "\<exists>v. conn_reach core v \<and> w_st v = s1"
  proof (cases r1)
    case (Inl e)
    from reach_step [OF reach conn_step.admit_rejected [OF p [unfolded Inl]]] show ?thesis by force
  next
    case (Inr loan')
    from reach_step [OF reach conn_step.admit [OF p [unfolded Inr]]] show ?thesis by force
  qed
  then obtain v where v: "conn_reach core v" "w_st v = s1" by auto
  have "st = s1 \<or> st = fst (deactivate s1)"
    using call by (auto simp: admit_remote_loan_def p split: if_splits)
  then show ?thesis using v reach_deactivate [OF v(1)] by auto
qed

lemma reach_handshake:
  assumes reach: "conn_reach core w" and call: "finish_handshake (w_st w) = (r, st, rc)"
  shows "\<exists>w'. conn_reach core w' \<and> w_st w' = st"
proof (cases "cs_handshake_done (w_st w)")
  case True
  then show ?thesis using call reach_deactivate [OF reach] by (auto simp: finish_handshake_def)
next
  case False
  obtain r1 s1 where p: "finish_handshake_locked (w_st w) = (r1, s1)" by fastforce
  from reach_step [OF reach conn_step.handshake [OF p]] False call p show ?thesis
    by (force simp: finish_handshake_def)
qed

lemma reach_begin_write:
  assumes reach: "conn_reach core w" and own: "own_loans core request \<subseteq># w_tokens w" "own_control core request \<le> w_controls w"
    and call: "begin_write core (w_st w) request ok1 = (r, st, rc)"
  shows "\<exists>w'. conn_reach core w' \<and> w_st w' = st"
proof -
  obtain r1 s1 where p: "begin_write_locked core (w_st w) request ok1 = (r1, s1)" by fastforce
  have "\<exists>v. conn_reach core v \<and> w_st v = s1"
  proof (cases "r1 = Inr None \<or> isl r1")
    case True
    from reach_step [OF reach conn_step.begin_write_none [OF own p True]] show ?thesis by force
  next
    case False
    then obtain b where b: "r1 = Inr (Some b)" by (cases r1) auto
    from reach_step [OF reach conn_step.begin_write [OF own p [unfolded b]]] show ?thesis by force
  qed
  then obtain v where v: "conn_reach core v" "w_st v = s1" by auto
  have "st = s1 \<or> st = fst (deactivate s1)"
    using call by (auto simp: begin_write_def p split: if_splits)
  then show ?thesis using v reach_deactivate [OF v(1)] by auto
qed

text \<open>The public entry points release the lock between the locked section and the deactivation
  they perform on a capacity or exhaustion error; their outcome is an outcome of the critical sections
  in sequence, so everything shown of reachable states holds after them too.\<close>

lemma composite_calls_reachable:
  assumes "conn_reach core w"
  shows "(\<forall>h ok1 ok2 r st sequence rc. prepare_loan_from (w_st w) (w_seq w) h ok1 ok2 = (r, st, sequence, rc) \<longrightarrow>
            (\<exists>w'. conn_reach core w' \<and> w_st w' = st \<and> w_seq w' = sequence)) \<and>
         (\<forall>loan ok1 r st rc. admit_remote_loan (w_st w) loan ok1 = (r, st, rc) \<longrightarrow> (\<exists>w'. conn_reach core w' \<and> w_st w' = st)) \<and>
         (\<forall>r st rc. finish_handshake (w_st w) = (r, st, rc) \<longrightarrow> (\<exists>w'. conn_reach core w' \<and> w_st w' = st)) \<and>
         (\<forall>request ok1 r st rc. own_loans core request \<subseteq># w_tokens w \<and> own_control core request \<le> w_controls w \<and>
            begin_write core (w_st w) request ok1 = (r, st, rc) \<longrightarrow> (\<exists>w'. conn_reach core w' \<and> w_st w' = st))"
  by (intro conjI allI impI; (elim conjE)?)
    (rule reach_prepare_from [OF assms], assumption, rule reach_admit [OF assms], assumption,
     rule reach_handshake [OF assms], assumption, rule reach_begin_write [OF assms], assumption+)

end
