(* ===== verification/Admission.thy ===== *)
theory Admission
  imports C2_Prelude
begin

text \<open>
  The admission gate of a server host, \<open>c2-server/src/admission.rs\<close>: one generation counter and one
  phase shared by every route. Reservations remember the generation they were made in; the checks
  below decide whether new work may enter and whether admitted work may go on. The exhaustion of the
  generation counter is the panic of the model. The registry of pending routes is carried along with
  entries of any type.
\<close>

datatype scheduler_acquire_error = SA_Closed | SA_Unavailable | SA_Capacity string usize

datatype admission_phase = PhaseOpen | PhaseDraining | PhaseTerminal

record 'p admission_state =
  as_pending :: "string \<rightharpoonup> 'p"
  as_generation :: u64
  as_phase :: admission_phase

definition admission_new :: "'p admission_state" where
  "admission_new = \<lparr>as_pending = Map.empty, as_generation = 0, as_phase = PhaseOpen\<rparr>"

definition admission_is_closed :: "'p admission_state \<Rightarrow> bool" where
  "admission_is_closed a \<longleftrightarrow> as_phase a \<noteq> PhaseOpen"

definition admission_check :: "'p admission_state \<Rightarrow> u64 \<Rightarrow> scheduler_acquire_error + unit" where
  "admission_check a generation =
     (if as_phase a = PhaseTerminal then Inl SA_Closed
      else if as_generation a \<noteq> generation then Inl SA_Unavailable
      else if as_phase a = PhaseDraining then Inl SA_Closed
      else Inr ())"

definition admission_check_accepted :: "'p admission_state \<Rightarrow> u64 \<Rightarrow> scheduler_acquire_error + unit" where
  "admission_check_accepted a generation =
     (if as_phase a = PhaseTerminal then Inl SA_Closed
      else if as_generation a \<noteq> generation then Inl SA_Unavailable
      else Inr ())"

definition begin_drain :: "'p admission_state \<Rightarrow> 'p admission_state" where
  "begin_drain a = (if as_phase a = PhaseOpen then a\<lparr>as_phase := PhaseDraining\<rparr> else a)"

definition terminate :: "'p admission_state \<Rightarrow> 'p admission_state run" where
  "terminate a =
     (if as_phase a \<noteq> PhaseTerminal
      then do { g \<leftarrow> checked_add (as_generation a) 1; Some (a\<lparr>as_generation := g, as_phase := PhaseTerminal\<rparr>) }
      else Some a)"

definition begin_start :: "'p admission_state \<Rightarrow> 'p admission_state run" where
  "begin_start a = do { g \<leftarrow> checked_add (as_generation a) 1; Some (a\<lparr>as_generation := g, as_phase := PhaseOpen\<rparr>) }"

text \<open>The transitions of the gate, in any order.\<close>

inductive admission_step :: "'p admission_state \<Rightarrow> 'p admission_state \<Rightarrow> bool" where
  drain: "admission_step a (begin_drain a)"
| terminated: "terminate a = Some a' \<Longrightarrow> admission_step a a'"
| started: "begin_start a = Some a' \<Longrightarrow> admission_step a a'"

section \<open>The fence\<close>

lemma checked_succ:
  fixes g :: u64
  assumes "checked_add g 1 = Some g'"
  shows "unat g' = unat g + 1"
proof -
  have "unat g' = unat g + unat (1 :: u64)" using checked_add_SomeD [OF assms] by blast
  then show ?thesis by simp
qed

text \<open>
  Work of generation \<open>g\<close> is fenced off once the generation has moved past \<open>g\<close>, or is \<open>g\<close> in the
  terminal phase. A gate never leaves that condition.
\<close>

definition fenced :: "u64 \<Rightarrow> 'p admission_state \<Rightarrow> bool" where
  "fenced g a \<longleftrightarrow> g < as_generation a \<or> (g = as_generation a \<and> as_phase a = PhaseTerminal)"

lemma fenced_step: "admission_step a a' \<Longrightarrow> fenced g a \<Longrightarrow> fenced g a'"
proof (induction rule: admission_step.induct)
  case (terminated a a')
  then show ?case
    by (auto simp: fenced_def terminate_def word_less_nat_alt dest!: checked_succ split: if_splits bind_splits)
next
  case (started a a')
  then show ?case
    by (auto simp: fenced_def begin_start_def word_less_nat_alt dest!: checked_succ split: bind_splits)
qed (auto simp: fenced_def begin_drain_def)

lemma fenced_rtranclp: "admission_step\<^sup>*\<^sup>* a a' \<Longrightarrow> fenced g a \<Longrightarrow> fenced g a'"
  by (induction rule: rtranclp_induct) (auto intro: fenced_step)

lemma fenced_rejects: "fenced g a \<Longrightarrow> isl (admission_check_accepted a g) \<and> isl (admission_check a g)"
  by (auto simp: fenced_def admission_check_accepted_def admission_check_def)

lemma accepted_live: "admission_check_accepted a g = Inr u \<Longrightarrow> g = as_generation a \<and> as_phase a \<noteq> PhaseTerminal"
  by (auto simp: admission_check_accepted_def split: if_splits)

lemma terminate_fences: "terminate a = Some a' \<Longrightarrow> g \<le> as_generation a \<Longrightarrow> fenced g a'"
proof (cases "as_phase a = PhaseTerminal")
  case True
  then show "terminate a = Some a' \<Longrightarrow> g \<le> as_generation a \<Longrightarrow> fenced g a'"
    by (auto simp: terminate_def fenced_def le_less)
next
  case False
  then show "terminate a = Some a' \<Longrightarrow> g \<le> as_generation a \<Longrightarrow> fenced g a'"
    by (auto simp: terminate_def fenced_def word_less_nat_alt word_le_nat_alt dest!: checked_succ split: bind_splits)
qed

lemma start_fences: "begin_start a = Some a' \<Longrightarrow> g \<le> as_generation a \<Longrightarrow> fenced g a'"
  by (auto simp: begin_start_def fenced_def word_less_nat_alt word_le_nat_alt dest!: checked_succ split: bind_splits)

end
