(* ===== verification/Scheduler.thy ===== *)
theory Scheduler
  imports Admission
begin

text \<open>
  The per-route scheduler, \<open>c2-server/src/scheduler.rs\<close>. \<open>scheduler_state\<close> is the state behind the
  route mutex and every locked section is one function of it (and of the admission gate, locked
  first). A function that ends in \<open>notify_all\<close> returns the flag \<open>True\<close> beside the state. Live
  pending permits and guards are the owners in \<open>sched_world\<close>; \<open>sched_step\<close> performs one locked
  section or one \<open>Drop\<close> (the gate transitions together with the notification that the server sends
  under the same lock), so the loops of \<open>async_activate\<close>, \<open>wait_drained_async\<close> and
  \<open>wait_rejected\<close> are runs of it that retry after a notification.
\<close>

datatype access_level = AccessRead | AccessWrite

datatype concurrency_mode = ModeParallel | ModeExclusive | ModeReadParallel

definition mode_as_str :: "concurrency_mode \<Rightarrow> string" where
  "mode_as_str m = (case m of ModeParallel \<Rightarrow> ''parallel'' | ModeExclusive \<Rightarrow> ''exclusive'' | ModeReadParallel \<Rightarrow> ''read_parallel'')"

record scheduler_limits =
  sl_max_pending :: "usize option"
  sl_max_workers :: "usize option"

definition limits_try_from_usize :: "usize option \<Rightarrow> usize option \<Rightarrow> string + scheduler_limits" where
  "limits_try_from_usize max_pending max_workers =
     (if max_pending = Some 0 then Inl ''max_pending must be at least 1''
      else if max_workers = Some 0 then Inl ''max_workers must be at least 1''
      else Inr \<lparr>sl_max_pending = max_pending, sl_max_workers = max_workers\<rparr>)"

definition acquire_error_message :: "scheduler_acquire_error \<Rightarrow> string" where
  "acquire_error_message e =
     (case e of SA_Closed \<Rightarrow> ''route closed'' | SA_Unavailable \<Rightarrow> ''host admission unavailable''
        | SA_Capacity field limit \<Rightarrow> ''route concurrency capacity exceeded: '' @ field @ ''='' @ show_nat limit)"

datatype held_access = HeldParallel | HeldRead | HeldWrite

datatype route_admission_state = CommittedPending | Opened | RouteClosed

record queued_permit =
  qp_ticket :: u64
  qp_access :: held_access

record scheduler_state =
  ss_route_admission :: route_admission_state
  ss_pending :: usize
  ss_active_workers :: usize
  ss_active_readers :: usize
  ss_writer_active :: bool
  ss_next_ticket :: u64
  ss_queue :: "queued_permit list"

definition scheduler_state_default :: scheduler_state where
  "scheduler_state_default =
     \<lparr>ss_route_admission = Opened, ss_pending = 0, ss_active_workers = 0, ss_active_readers = 0,
      ss_writer_active = False, ss_next_ticket = 0, ss_queue = []\<rparr>"

record scheduler_inner =
  si_mode :: concurrency_mode
  si_access_map :: "u16 \<rightharpoonup> access_level"
  si_limits :: scheduler_limits

record pending_permit =
  sp_access :: held_access
  sp_ticket :: u64
  sp_generation :: u64

record scheduler_guard =
  sg_access :: held_access
  sg_generation :: u64
  sg_committed :: bool

record scheduler_snapshot =
  sn_mode :: concurrency_mode
  sn_max_pending :: "usize option"
  sn_max_workers :: "usize option"
  sn_pending :: usize
  sn_active_workers :: usize
  sn_closed :: bool
  sn_is_unconstrained :: bool

section \<open>Locked sections\<close>

definition check_accepted_admission :: "'p admission_state \<Rightarrow> scheduler_state \<Rightarrow> u64 \<Rightarrow> scheduler_acquire_error + unit" where
  "check_accepted_admission a st generation =
     (if ss_route_admission st \<noteq> Opened then Inl SA_Closed else admission_check_accepted a generation)"

definition worker_slots_available :: "scheduler_inner \<Rightarrow> scheduler_state \<Rightarrow> usize" where
  "worker_slots_available inner st =
     (case sl_max_workers (si_limits inner) of None \<Rightarrow> usize_max | Some limit \<Rightarrow> limit - ss_active_workers st)"

fun position :: "queued_permit list \<Rightarrow> u64 \<Rightarrow> usize option" where
  "position [] ticket = None"
| "position (e # q) ticket = (if qp_ticket e = ticket then Some 0 else map_option Suc (position q ticket))"

fun remove_queued :: "queued_permit list \<Rightarrow> u64 \<Rightarrow> queued_permit list" where
  "remove_queued [] ticket = []"
| "remove_queued (e # q) ticket = (if qp_ticket e = ticket then q else e # remove_queued q ticket)"

fun scan_readers :: "queued_permit list \<Rightarrow> u64 \<Rightarrow> usize \<Rightarrow> usize \<Rightarrow> bool" where
  "scan_readers [] ticket slots earlier = False"
| "scan_readers (e # q) ticket slots earlier =
     (if qp_ticket e = ticket then earlier < slots
      else if qp_access e = HeldWrite then False
      else scan_readers q ticket slots (earlier + 1))"

definition can_activate :: "scheduler_inner \<Rightarrow> scheduler_state \<Rightarrow> u64 \<Rightarrow> held_access \<Rightarrow> bool" where
  "can_activate inner st ticket access =
     (if ss_route_admission st \<noteq> Opened then False
      else
        (let worker_slots = worker_slots_available inner st
         in if worker_slots = 0 then False
            else case access of
              HeldParallel \<Rightarrow> (case position (ss_queue st) ticket of Some pos \<Rightarrow> pos < worker_slots | None \<Rightarrow> False)
            | HeldRead \<Rightarrow> \<not> ss_writer_active st \<and> scan_readers (ss_queue st) ticket worker_slots 0
            | HeldWrite \<Rightarrow>
                (case ss_queue st of e # _ \<Rightarrow> qp_ticket e = ticket | [] \<Rightarrow> False) \<and>
                \<not> ss_writer_active st \<and> ss_active_readers st = 0))"

definition held_access_of :: "scheduler_inner \<Rightarrow> u16 \<Rightarrow> held_access" where
  "held_access_of inner method_idx =
     (case si_mode inner of
        ModeParallel \<Rightarrow> HeldParallel
      | ModeExclusive \<Rightarrow> HeldWrite
      | ModeReadParallel \<Rightarrow>
          (case si_access_map inner method_idx of Some AccessRead \<Rightarrow> HeldRead | Some AccessWrite \<Rightarrow> HeldWrite | None \<Rightarrow> HeldWrite))"

definition enqueue :: "'p admission_state \<Rightarrow> scheduler_state \<Rightarrow> held_access \<Rightarrow>
    (scheduler_acquire_error + pending_permit) \<times> scheduler_state" where
  "enqueue a st access =
     (Inr \<lparr>sp_access = access, sp_ticket = ss_next_ticket st, sp_generation = as_generation a\<rparr>,
      st\<lparr>ss_pending := ss_pending st + 1, ss_next_ticket := ss_next_ticket st + 1,
         ss_queue := ss_queue st @ [\<lparr>qp_ticket = ss_next_ticket st, qp_access = access\<rparr>]\<rparr>)"

definition reserve_pending_with_generation :: "scheduler_inner \<Rightarrow> 'p admission_state \<Rightarrow> scheduler_state \<Rightarrow> u16 \<Rightarrow> u64 option \<Rightarrow>
    (scheduler_acquire_error + pending_permit) \<times> scheduler_state" where
  "reserve_pending_with_generation inner a st method_idx generation =
     (let access = held_access_of inner method_idx;
          admitted = (case generation of
              Some g \<Rightarrow> check_accepted_admission a st g
            | None \<Rightarrow> if ss_route_admission st \<noteq> Opened then Inl SA_Closed else admission_check a (as_generation a))
      in case admitted of
           Inl e \<Rightarrow> (Inl e, st)
         | Inr _ \<Rightarrow>
             (case sl_max_pending (si_limits inner) of
                Some limit \<Rightarrow> if ss_pending st \<ge> limit then (Inl (SA_Capacity ''max_pending'' limit), st) else enqueue a st access
              | None \<Rightarrow> enqueue a st access))"

definition activate_ready :: "scheduler_inner \<Rightarrow> 'p admission_state \<Rightarrow> scheduler_state \<Rightarrow> pending_permit \<Rightarrow>
    (scheduler_acquire_error + scheduler_guard option) \<times> scheduler_state" where
  "activate_ready inner a st permit =
     (case check_accepted_admission a st (sp_generation permit) of
        Inl e \<Rightarrow> (Inl e, st)
      | Inr _ \<Rightarrow>
          if \<not> can_activate inner st (sp_ticket permit) (sp_access permit) then (Inr None, st)
          else
            (let st1 = st\<lparr>ss_queue := remove_queued (ss_queue st) (sp_ticket permit)\<rparr>;
                 st2 = (case sp_access permit of
                     HeldParallel \<Rightarrow> st1
                   | HeldRead \<Rightarrow> st1\<lparr>ss_active_readers := ss_active_readers st1 + 1\<rparr>
                   | HeldWrite \<Rightarrow> st1\<lparr>ss_writer_active := True\<rparr>)
             in (Inr (Some \<lparr>sg_access = sp_access permit, sg_generation = sp_generation permit, sg_committed = False\<rparr>),
                 st2\<lparr>ss_active_workers := ss_active_workers st2 + 1\<rparr>)))"

definition drop_pending_permit :: "scheduler_state \<Rightarrow> pending_permit \<Rightarrow> (scheduler_state \<times> bool) run" where
  "drop_pending_permit st permit =
     do {
       n \<leftarrow> sub_run (ss_pending st) 1;
       Some (st\<lparr>ss_pending := n, ss_queue := remove_queued (ss_queue st) (sp_ticket permit)\<rparr>, True)
     }"

definition guard_check_admission :: "'p admission_state \<Rightarrow> scheduler_state \<Rightarrow> scheduler_guard \<Rightarrow> scheduler_acquire_error + unit" where
  "guard_check_admission a st guard = check_accepted_admission a st (sg_generation guard)"

definition guard_commit :: "'p admission_state \<Rightarrow> scheduler_state \<Rightarrow> scheduler_guard \<Rightarrow>
    (scheduler_acquire_error + unit) \<times> scheduler_guard" where
  "guard_commit a st guard =
     (if sg_committed guard then (Inr (), guard)
      else (case check_accepted_admission a st (sg_generation guard) of
          Inl e \<Rightarrow> (Inl e, guard)
        | Inr _ \<Rightarrow> (Inr (), guard\<lparr>sg_committed := True\<rparr>)))"

definition drop_guard :: "scheduler_state \<Rightarrow> scheduler_guard \<Rightarrow> (scheduler_state \<times> bool) run" where
  "drop_guard st guard =
     do {
       p \<leftarrow> sub_run (ss_pending st) 1;
       n \<leftarrow> sub_run (ss_active_workers st) 1;
       let st1 = st\<lparr>ss_pending := p, ss_active_workers := n\<rparr>;
       st2 \<leftarrow> (case sg_access guard of
                 HeldParallel \<Rightarrow> Some st1
               | HeldRead \<Rightarrow> do { r \<leftarrow> sub_run (ss_active_readers st1) 1; Some (st1\<lparr>ss_active_readers := r\<rparr>) }
               | HeldWrite \<Rightarrow> Some (st1\<lparr>ss_writer_active := False\<rparr>));
       Some (st2, True)
     }"

definition close_route :: "scheduler_state \<Rightarrow> scheduler_state \<times> bool" where
  "close_route st = (st\<lparr>ss_route_admission := RouteClosed\<rparr>, True)"

definition commit_awaiting_admission :: "scheduler_state \<Rightarrow> bool \<times> scheduler_state \<times> bool" where
  "commit_awaiting_admission st =
     (if ss_route_admission st = Opened then (True, st\<lparr>ss_route_admission := CommittedPending\<rparr>, True) else (False, st, False))"

definition open_admission_for_registration :: "scheduler_state \<Rightarrow> bool \<times> scheduler_state \<times> bool" where
  "open_admission_for_registration st =
     (if ss_route_admission st = CommittedPending then (True, st\<lparr>ss_route_admission := Opened\<rparr>, True) else (False, st, False))"

definition is_drained :: "scheduler_state \<Rightarrow> bool" where
  "is_drained st \<longleftrightarrow> ss_pending st = 0 \<and> ss_active_workers st = 0"

definition is_unconstrained_with_state :: "scheduler_inner \<Rightarrow> 'p admission_state \<Rightarrow> scheduler_state \<Rightarrow> bool" where
  "is_unconstrained_with_state inner a st \<longleftrightarrow>
     \<not> admission_is_closed a \<and> si_mode inner = ModeParallel \<and> sl_max_pending (si_limits inner) = None \<and>
     sl_max_workers (si_limits inner) = None \<and> ss_route_admission st = Opened"

definition snapshot :: "scheduler_inner \<Rightarrow> 'p admission_state \<Rightarrow> scheduler_state \<Rightarrow> scheduler_snapshot" where
  "snapshot inner a st =
     \<lparr>sn_mode = si_mode inner, sn_max_pending = sl_max_pending (si_limits inner),
      sn_max_workers = sl_max_workers (si_limits inner), sn_pending = ss_pending st,
      sn_active_workers = ss_active_workers st,
      sn_closed = (ss_route_admission st \<noteq> Opened \<or> admission_is_closed a),
      sn_is_unconstrained = is_unconstrained_with_state inner a st\<rparr>"

section \<open>All interleavings\<close>

text \<open>
  The owners of permits and guards beside the two states. \<open>sw_issued\<close> counts the tickets drawn; the
  ticket counter itself wraps.
\<close>

record 'p sched_world =
  sw_adm :: "'p admission_state"
  sw_st :: scheduler_state
  sw_permits :: "pending_permit multiset"
  sw_guards :: "scheduler_guard multiset"
  sw_issued :: nat

definition sched_new :: "'p admission_state \<Rightarrow> 'p sched_world" where
  "sched_new a = \<lparr>sw_adm = a, sw_st = scheduler_state_default, sw_permits = {#}, sw_guards = {#}, sw_issued = 0\<rparr>"

inductive sched_step :: "scheduler_inner \<Rightarrow> 'p sched_world \<Rightarrow> bool \<Rightarrow> 'p sched_world \<Rightarrow> bool" for inner where
  reserve: "reserve_pending_with_generation inner (sw_adm w) (sw_st w) method_idx generation = (Inr permit, st) \<Longrightarrow>
     sched_step inner w False (w\<lparr>sw_st := st, sw_permits := add_mset permit (sw_permits w), sw_issued := sw_issued w + 1\<rparr>)"
| reserve_rejected: "reserve_pending_with_generation inner (sw_adm w) (sw_st w) method_idx generation = (Inl e, st) \<Longrightarrow>
     sched_step inner w False (w\<lparr>sw_st := st\<rparr>)"
| activate: "permit \<in># sw_permits w \<Longrightarrow> activate_ready inner (sw_adm w) (sw_st w) permit = (Inr (Some guard), st) \<Longrightarrow>
     sched_step inner w False
       (w\<lparr>sw_st := st, sw_permits := sw_permits w - {#permit#}, sw_guards := add_mset guard (sw_guards w)\<rparr>)"
| activate_waits: "permit \<in># sw_permits w \<Longrightarrow> activate_ready inner (sw_adm w) (sw_st w) permit = (r, st) \<Longrightarrow>
     r = Inr None \<or> isl r \<Longrightarrow> sched_step inner w False (w\<lparr>sw_st := st\<rparr>)"
| drop_permit: "permit \<in># sw_permits w \<Longrightarrow> drop_pending_permit (sw_st w) permit = Some (st, n) \<Longrightarrow>
     sched_step inner w n (w\<lparr>sw_st := st, sw_permits := sw_permits w - {#permit#}\<rparr>)"
| commit: "guard \<in># sw_guards w \<Longrightarrow> guard_commit (sw_adm w) (sw_st w) guard = (r, guard') \<Longrightarrow>
     sched_step inner w False (w\<lparr>sw_guards := add_mset guard' (sw_guards w - {#guard#})\<rparr>)"
| finish: "guard \<in># sw_guards w \<Longrightarrow> drop_guard (sw_st w) guard = Some (st, n) \<Longrightarrow>
     sched_step inner w n (w\<lparr>sw_st := st, sw_guards := sw_guards w - {#guard#}\<rparr>)"
| close: "close_route (sw_st w) = (st, n) \<Longrightarrow> sched_step inner w n (w\<lparr>sw_st := st\<rparr>)"
| commit_pending: "commit_awaiting_admission (sw_st w) = (r, st, n) \<Longrightarrow> sched_step inner w n (w\<lparr>sw_st := st\<rparr>)"
| open_pending: "open_admission_for_registration (sw_st w) = (r, st, n) \<Longrightarrow> sched_step inner w n (w\<lparr>sw_st := st\<rparr>)"
| registry: "sched_step inner w False (w\<lparr>sw_adm := (sw_adm w)\<lparr>as_pending := routes\<rparr>\<rparr>)"
| admission: "admission_step (sw_adm w) a \<Longrightarrow> sched_step inner w True (w\<lparr>sw_adm := a\<rparr>)"

inductive sched_reach :: "scheduler_inner \<Rightarrow> 'p sched_world \<Rightarrow> bool" for inner where
  sched_start: "sched_reach inner (sched_new a)"
| sched_next: "sched_reach inner w \<Longrightarrow> sched_step inner w n w' \<Longrightarrow> sched_reach inner w'"

end
