(* ===== verification/Scheduler_Proofs.thy ===== *)
theory Scheduler_Proofs
  imports Scheduler
begin

text \<open>
  What the route scheduler guarantees: its counters are exact, the limits and the reader/writer
  exclusion hold, nobody is overtaken by a permit that could not have let them pass, no wake-up is
  lost, waiting work gets its turn, and terminated generations never run again.
\<close>

section \<open>The queue\<close>

definition entry_of :: "pending_permit \<Rightarrow> queued_permit" where
  "entry_of p = \<lparr>qp_ticket = sp_ticket p, qp_access = sp_access p\<rparr>"

definition access_ok :: "scheduler_inner \<Rightarrow> held_access \<Rightarrow> bool" where
  "access_ok inner access =
     (case si_mode inner of
        ModeParallel \<Rightarrow> access = HeldParallel | ModeExclusive \<Rightarrow> access = HeldWrite | ModeReadParallel \<Rightarrow> access \<noteq> HeldParallel)"

definition holding :: "held_access \<Rightarrow> scheduler_guard multiset \<Rightarrow> nat" where
  "holding access gs = size (filter_mset (\<lambda>g. sg_access g = access) gs)"

lemma entry_of_simps [simp]: "qp_ticket (entry_of p) = sp_ticket p" "qp_access (entry_of p) = sp_access p"
  by (simp_all add: entry_of_def)

lemma held_access_ok [simp]: "access_ok inner (held_access_of inner method_idx)"
  by (auto simp: access_ok_def held_access_of_def split: concurrency_mode.splits option.splits access_level.splits)

lemma holding_simps [simp]:
  "holding access {#} = 0"
  "holding access (add_mset g gs) = (if sg_access g = access then 1 else 0) + holding access gs"
  by (simp_all add: holding_def)

lemma holding_remove: "g \<in># gs \<Longrightarrow> holding access gs = (if sg_access g = access then 1 else 0) + holding access (gs - {#g#})"
  using holding_simps(2) [of access g "gs - {#g#}"] by simp

lemma holding_le: "holding access gs \<le> size gs"
  by (simp add: holding_def size_filter_mset_lesseq)

abbreviation "tickets q \<equiv> map qp_ticket q"

lemma remove_queued_split:
  "qp_ticket e \<notin> set (tickets pre) \<Longrightarrow> remove_queued (pre @ e # post) (qp_ticket e) = pre @ post"
  by (induction pre) auto

lemma position_split: "qp_ticket e \<notin> set (tickets pre) \<Longrightarrow> position (pre @ e # post) (qp_ticket e) = Some (length pre)"
  by (induction pre) auto

lemma scan_split:
  "qp_ticket e \<notin> set (tickets pre) \<Longrightarrow>
     scan_readers (pre @ e # post) (qp_ticket e) slots k \<longleftrightarrow> (\<forall>x\<in>set pre. qp_access x \<noteq> HeldWrite) \<and> k + length pre < slots"
  by (induction pre arbitrary: k) auto

lemma front_split:
  "qp_ticket e \<notin> set (tickets pre) \<Longrightarrow>
     (case pre @ e # post of f # _ \<Rightarrow> qp_ticket f = qp_ticket e | [] \<Rightarrow> False) \<longleftrightarrow> pre = []"
  by (cases pre) auto

lemma can_activate_split:
  assumes "ss_queue st = pre @ e # post" "qp_ticket e \<notin> set (tickets pre)"
  shows "can_activate inner st (qp_ticket e) (qp_access e) \<longleftrightarrow>
    ss_route_admission st = Opened \<and> length pre < worker_slots_available inner st \<and>
    (case qp_access e of
       HeldParallel \<Rightarrow> True
     | HeldRead \<Rightarrow> \<not> ss_writer_active st \<and> (\<forall>x\<in>set pre. qp_access x \<noteq> HeldWrite)
     | HeldWrite \<Rightarrow> pre = [] \<and> \<not> ss_writer_active st \<and> ss_active_readers st = 0)"
  using assms(2) front_split [OF assms(2), of post] position_split [OF assms(2), of post] scan_split [OF assms(2), of post]
  unfolding can_activate_def assms(1) by (auto simp: Let_def split: held_access.splits)

section \<open>The invariant\<close>

definition queue_inv :: "queued_permit list \<Rightarrow> u64 \<Rightarrow> nat \<Rightarrow> pending_permit multiset \<Rightarrow> bool" where
  "queue_inv q next issued ps \<longleftrightarrow>
     mset q = image_mset entry_of ps \<and> sorted_wrt (<) (tickets q) \<and>
     (\<forall>t\<in>set (tickets q). unat t < issued) \<and> next = word_of_nat issued"

definition counts_inv :: "scheduler_inner \<Rightarrow> scheduler_state \<Rightarrow> nat \<Rightarrow> scheduler_guard multiset \<Rightarrow> bool" where
  "counts_inv inner st waiting gs \<longleftrightarrow>
     ss_pending st = waiting + size gs \<and> ss_active_workers st = size gs \<and>
     ss_active_readers st = holding HeldRead gs \<and> (ss_writer_active st \<longleftrightarrow> holding HeldWrite gs = 1) \<and>
     holding HeldWrite gs \<le> 1 \<and> (holding HeldWrite gs = 1 \<longrightarrow> size gs = 1) \<and>
     (\<forall>limit. sl_max_workers (si_limits inner) = Some limit \<longrightarrow> size gs \<le> limit) \<and>
     (\<forall>limit. sl_max_pending (si_limits inner) = Some limit \<longrightarrow> waiting + size gs \<le> limit)"

definition owners_inv :: "scheduler_inner \<Rightarrow> u64 \<Rightarrow> pending_permit multiset \<Rightarrow> scheduler_guard multiset \<Rightarrow> bool" where
  "owners_inv inner generation ps gs \<longleftrightarrow>
     (\<forall>p\<in>#ps. access_ok inner (sp_access p) \<and> sp_generation p \<le> generation) \<and>
     (\<forall>g\<in>#gs. access_ok inner (sg_access g) \<and> sg_generation g \<le> generation)"

definition sched_inv :: "scheduler_inner \<Rightarrow> 'p sched_world \<Rightarrow> bool" where
  "sched_inv inner w \<longleftrightarrow>
     queue_inv (ss_queue (sw_st w)) (ss_next_ticket (sw_st w)) (sw_issued w) (sw_permits w) \<and>
     counts_inv inner (sw_st w) (size (sw_permits w)) (sw_guards w) \<and>
     owners_inv inner (as_generation (sw_adm w)) (sw_permits w) (sw_guards w)"

lemma sorted_distinct: "sorted_wrt (<) (xs :: 'a::linorder list) \<Longrightarrow> distinct xs"
  using strict_sorted_iff by blast

lemma queue_split:
  assumes inv: "queue_inv q next issued ps" and p: "p \<in># ps"
  obtains pre post where "q = pre @ entry_of p # post" "sp_ticket p \<notin> set (tickets pre)"
    "queue_inv (pre @ post) next issued (ps - {#p#})"
proof -
  have "entry_of p \<in># mset q" using inv p by (simp add: queue_inv_def)
  then obtain pre post where q: "q = pre @ entry_of p # post" by (auto dest: split_list)
  have "distinct (tickets q)" using inv sorted_distinct by (auto simp: queue_inv_def)
  then have fresh: "sp_ticket p \<notin> set (tickets pre)" by (auto simp: q)
  have "add_mset (entry_of p) (mset (pre @ post)) = image_mset entry_of ps" using inv by (simp add: queue_inv_def q)
  then have "mset (pre @ post) = image_mset entry_of (ps - {#p#})"
    using p by (simp add: image_mset_Diff) (metis add_mset_remove_trivial)
  then have "queue_inv (pre @ post) next issued (ps - {#p#})"
    using inv by (auto simp: queue_inv_def q sorted_wrt_append)
  with q fresh show ?thesis by (rule that)
qed

lemma queue_reserve:
  assumes inv: "queue_inv q (next :: u64) issued ps" and bound: "issued < 2 ^ 64" and e: "e = entry_of p" "sp_ticket p = next"
  shows "queue_inv (q @ [e]) (next + 1) (issued + 1) (add_mset p ps)"
proof -
  have n: "next = word_of_nat issued" using inv by (simp add: queue_inv_def)
  have u: "unat next = issued" using bound by (simp add: n unat_of_nat)
  have "t < next" if "t \<in> set (tickets q)" for t using inv that u unfolding queue_inv_def word_less_nat_alt by auto
  then show ?thesis using inv u n by (auto simp: queue_inv_def sorted_wrt_append e add.commute less_Suc_eq)
qed


section \<open>Every step keeps the invariant\<close>

lemma size_holding: "size gs = holding HeldParallel gs + holding HeldRead gs + holding HeldWrite gs"
proof (induction gs)
  case (add g gs)
  then show ?case by (cases "sg_access g") simp_all
qed simp

lemma holding_none: "(\<forall>g\<in>#gs. sg_access g \<noteq> access) \<Longrightarrow> holding access gs = 0"
  by (simp add: holding_def)

lemma reserve_effect:
  assumes "reserve_pending_with_generation inner a st method_idx generation = (Inr p, st')"
  shows "p = \<lparr>sp_access = held_access_of inner method_idx, sp_ticket = ss_next_ticket st, sp_generation = as_generation a\<rparr>"
    "st' = st\<lparr>ss_pending := ss_pending st + 1, ss_next_ticket := ss_next_ticket st + 1, ss_queue := ss_queue st @ [entry_of p]\<rparr>"
    "\<forall>limit. sl_max_pending (si_limits inner) = Some limit \<longrightarrow> ss_pending st < limit"
  using assms
  by (auto simp: reserve_pending_with_generation_def enqueue_def entry_of_def Let_def split: sum.splits option.splits if_splits)

lemma reserve_err: "reserve_pending_with_generation inner a st method_idx generation = (Inl e, st') \<Longrightarrow> st' = st"
  by (auto simp: reserve_pending_with_generation_def enqueue_def Let_def split: sum.splits option.splits if_splits)

lemma activate_effect:
  assumes "activate_ready inner a st p = (Inr (Some g), st')"
  shows "can_activate inner st (sp_ticket p) (sp_access p)" "sp_generation p = as_generation a"
    "g = \<lparr>sg_access = sp_access p, sg_generation = sp_generation p, sg_committed = False\<rparr>"
    "st' = st\<lparr>ss_queue := remove_queued (ss_queue st) (sp_ticket p), ss_active_workers := ss_active_workers st + 1,
        ss_active_readers := ss_active_readers st + (if sp_access p = HeldRead then 1 else 0),
        ss_writer_active := (ss_writer_active st \<or> sp_access p = HeldWrite)\<rparr>"
  using assms accepted_live [of a "sp_generation p"]
  by (auto simp: activate_ready_def check_accepted_admission_def Let_def split: sum.splits if_splits held_access.splits)

lemma activate_waits_effect: "activate_ready inner a st p = (r, st') \<Longrightarrow> r = Inr None \<or> isl r \<Longrightarrow> st' = st"
  by (auto simp: activate_ready_def Let_def split: sum.splits if_splits)

lemma drop_guard_effect:
  assumes "drop_guard st g = Some (st', n)"
  shows "n" "st' = st\<lparr>ss_pending := ss_pending st - 1, ss_active_workers := ss_active_workers st - 1,
        ss_active_readers := ss_active_readers st - (if sg_access g = HeldRead then 1 else 0),
        ss_writer_active := (ss_writer_active st \<and> sg_access g \<noteq> HeldWrite)\<rparr>"
  using assms by (auto simp: drop_guard_def Let_def run_simps split: bind_splits held_access.splits)

lemma commit_effect: "guard_commit a st g = (r, g') \<Longrightarrow> sg_access g' = sg_access g \<and> sg_generation g' = sg_generation g"
  by (auto simp: guard_commit_def split: if_splits sum.splits)

lemma slots_limit:
  "0 < worker_slots_available inner st \<Longrightarrow> sl_max_workers (si_limits inner) = Some limit \<Longrightarrow> ss_active_workers st < limit"
  by (simp add: worker_slots_available_def)

lemma counts_activate:
  assumes counts: "counts_inv inner st (Suc waiting) gs" and mode: "\<forall>g\<in>#gs. access_ok inner (sg_access g)"
    and q: "ss_queue st = pre @ entry_of p # post" "sp_ticket p \<notin> set (tickets pre)"
    and act: "activate_ready inner a st p = (Inr (Some g), st')" and ok: "access_ok inner (sp_access p)"
  shows "counts_inv inner st' waiting (add_mset g gs)"
proof -
  note eff = activate_effect [OF act]
  note can = can_activate_split [OF q(1), unfolded entry_of_simps, OF q(2), of inner]
  have slots: "0 < worker_slots_available inner st" using eff(1) can by linarith
  have lim: "\<forall>limit. sl_max_workers (si_limits inner) = Some limit \<longrightarrow> size gs < limit"
    using slots_limit [OF slots] counts by (simp add: counts_inv_def)
  have excl: "holding HeldWrite gs = 0" "sp_access p = HeldWrite \<Longrightarrow> gs = {#}"
  proof -
    have par: "sp_access p = HeldParallel \<Longrightarrow> holding HeldWrite gs = 0" "sp_access p \<noteq> HeldParallel \<Longrightarrow> holding HeldParallel gs = 0"
      using mode ok by (auto intro!: holding_none simp: access_ok_def split: concurrency_mode.splits)
    have idle: "sp_access p \<noteq> HeldParallel \<Longrightarrow> holding HeldWrite gs = 0"
      using eff(1) can counts by (auto simp: counts_inv_def le_Suc_eq split: held_access.splits)
    show w: "holding HeldWrite gs = 0" using par(1) idle by blast
    assume wr: "sp_access p = HeldWrite"
    then have "holding HeldRead gs = 0" using eff(1) can counts by (simp add: counts_inv_def)
    then show "gs = {#}" using size_holding [of gs] w par(2) wr by simp
  qed
  show ?thesis
    using counts lim excl by (cases "sp_access p") (auto simp: counts_inv_def eff(3,4) Suc_le_eq)
qed

lemma counts_finish:
  assumes counts: "counts_inv inner st waiting gs" and g: "g \<in># gs" and d: "drop_guard st g = Some (st', n)"
  shows "counts_inv inner st' waiting (gs - {#g#})"
proof -
  have pos: "0 < size gs" using g by (cases gs) auto
  have sz: "size (gs - {#g#}) = size gs - 1" using g by (simp add: size_Diff_singleton)
  show ?thesis
    using counts holding_remove [OF g, of HeldRead] holding_remove [OF g, of HeldWrite] holding_le [of HeldWrite "gs - {#g#}"] pos
    unfolding drop_guard_effect(2) [OF d]
    by (cases "sg_access g") (auto simp: counts_inv_def sz)
qed

lemma owners_add [simp]:
  "owners_inv inner gen ps (add_mset g gs) \<longleftrightarrow> access_ok inner (sg_access g) \<and> sg_generation g \<le> gen \<and> owners_inv inner gen ps gs"
  by (auto simp: owners_inv_def)

lemma owners_mono: "owners_inv inner gen ps gs \<Longrightarrow> gen \<le> gen' \<Longrightarrow> owners_inv inner gen' ps gs"
  unfolding owners_inv_def using order_trans by blast

lemma owners_subset: "owners_inv inner gen ps gs \<Longrightarrow> owners_inv inner gen (ps - X) (gs - Y)"
  by (auto simp: owners_inv_def dest: in_diffD)

lemma admission_step_generation: "admission_step a a' \<Longrightarrow> as_generation a \<le> as_generation a'"
  by (induction rule: admission_step.induct)
    (auto simp: begin_drain_def terminate_def begin_start_def word_le_nat_alt dest!: checked_succ split: if_splits bind_splits)

lemma sched_step_inv:
  assumes "sched_step inner w n w'" "sched_inv inner w" "sw_issued w' < 2 ^ 64"
  shows "sched_inv inner w'"
  using assms
proof (induction rule: sched_step.induct)
  case (reserve w method_idx generation permit st)
  note eff = reserve_effect [OF reserve(1)]
  show ?case
    using reserve(2,3) eff(3) queue_reserve [of "ss_queue (sw_st w)" "ss_next_ticket (sw_st w)" "sw_issued w" "sw_permits w" "entry_of permit" permit]
    by (auto simp: sched_inv_def eff(2) counts_inv_def owners_inv_def Suc_le_eq) (simp_all add: eff(1))
next
  case (activate permit w guard st)
  have qi: "queue_inv (ss_queue (sw_st w)) (ss_next_ticket (sw_st w)) (sw_issued w) (sw_permits w)"
    using activate(3) by (simp add: sched_inv_def)
  obtain pre post where q: "ss_queue (sw_st w) = pre @ entry_of permit # post" "sp_ticket permit \<notin> set (tickets pre)"
    "queue_inv (pre @ post) (ss_next_ticket (sw_st w)) (sw_issued w) (sw_permits w - {#permit#})"
    by (rule queue_split [OF qi activate(1)])
  note eff = activate_effect [OF activate(2)]
  have own: "\<forall>g\<in>#sw_guards w. access_ok inner (sg_access g)" "access_ok inner (sp_access permit)" 
    using activate(1,3) by (simp_all add: sched_inv_def owners_inv_def)
  have "Suc (size (sw_permits w - {#permit#})) = size (sw_permits w)" using activate(1) by (metis insert_DiffM size_add_mset)
  then have "counts_inv inner st (size (sw_permits w - {#permit#})) (add_mset guard (sw_guards w))"
    using counts_activate [OF _ own(1) q(1,2) activate(2) own(2)] activate(3) by (simp add: sched_inv_def)
  moreover have "ss_queue st = pre @ post" "ss_next_ticket st = ss_next_ticket (sw_st w)"
    using remove_queued_split [of "entry_of permit" pre post] q(1,2) by (simp_all add: eff(4))
  moreover have "owners_inv inner (as_generation (sw_adm w)) (sw_permits w - {#permit#}) (add_mset guard (sw_guards w))"
    using activate(3) owners_subset [of inner _ "sw_permits w" "sw_guards w" "{#permit#}" "{#}"] own(2)
    by (simp add: sched_inv_def eff(2,3))
  ultimately show ?case using q(3) by (simp add: sched_inv_def)
next
  case (drop_permit permit w st n)
  have qi: "queue_inv (ss_queue (sw_st w)) (ss_next_ticket (sw_st w)) (sw_issued w) (sw_permits w)"
    using drop_permit(3) by (simp add: sched_inv_def)
  obtain pre post where q: "ss_queue (sw_st w) = pre @ entry_of permit # post" "sp_ticket permit \<notin> set (tickets pre)"
    "queue_inv (pre @ post) (ss_next_ticket (sw_st w)) (sw_issued w) (sw_permits w - {#permit#})"
    by (rule queue_split [OF qi drop_permit(1)])
  have st: "st = (sw_st w)\<lparr>ss_pending := ss_pending (sw_st w) - 1, ss_queue := pre @ post\<rparr>"
    using drop_permit(2) remove_queued_split [of "entry_of permit" pre post] q(1,2)
    by (auto simp: drop_pending_permit_def run_simps split: bind_splits)
  have "Suc (size (sw_permits w - {#permit#})) = size (sw_permits w)" using drop_permit(1) by (metis insert_DiffM size_add_mset)
  then have "counts_inv inner st (size (sw_permits w - {#permit#})) (sw_guards w)"
    using drop_permit(3) by (auto simp: sched_inv_def counts_inv_def st)
  then show ?case
    using drop_permit(3) q(3) owners_subset [of inner _ "sw_permits w" "sw_guards w" "{#permit#}" "{#}"]
    by (simp add: sched_inv_def st)
next
  case (commit guard w r guard')
  note eff = commit_effect [OF commit(2)]
  have h: "holding acc (add_mset guard' (sw_guards w - {#guard#})) = holding acc (sw_guards w)" for acc
    using holding_remove [OF commit(1), of acc] eff by simp
  have sz: "size (add_mset guard' (sw_guards w - {#guard#})) = size (sw_guards w)"
    using commit(1) by (metis insert_DiffM size_add_mset)
  have "counts_inv inner (sw_st w) (size (sw_permits w)) (add_mset guard' (sw_guards w - {#guard#}))"
    using commit(3) unfolding sched_inv_def counts_inv_def h sz by blast
  moreover have "owners_inv inner (as_generation (sw_adm w)) (sw_permits w) (add_mset guard' (sw_guards w - {#guard#}))"
    using commit(1,3) owners_subset [of inner _ "sw_permits w" "sw_guards w" "{#}" "{#guard#}"] eff
    by (auto simp: sched_inv_def owners_inv_def)
  ultimately show ?case using commit(3) by (simp add: sched_inv_def)
next
  case (finish guard w st n)
  then show ?case
    using counts_finish [OF _ finish(1,2)] owners_subset [of inner _ "sw_permits w" "sw_guards w" "{#}" "{#guard#}"]
    by (simp add: sched_inv_def drop_guard_effect(2) [OF finish(2)])
next
  case (admission w a)
  then show ?case using owners_mono [OF _ admission_step_generation [OF admission(1)]] by (simp add: sched_inv_def)
qed (auto simp: sched_inv_def counts_inv_def close_route_def commit_awaiting_admission_def open_admission_for_registration_def
    dest!: reserve_err activate_waits_effect split: if_splits)

lemma sched_issued_mono: "sched_step inner w n w' \<Longrightarrow> sw_issued w \<le> sw_issued w'"
  by (induction rule: sched_step.induct) simp_all

lemma sched_reach_inv: "sched_reach inner w \<Longrightarrow> sw_issued w < 2 ^ 64 \<Longrightarrow> sched_inv inner w"
proof (induction rule: sched_reach.induct)
  case (sched_start a)
  show ?case by (simp add: sched_inv_def sched_new_def scheduler_state_default_def queue_inv_def counts_inv_def owners_inv_def)
next
  case (sched_next w n w')
  then show ?case using sched_step_inv sched_issued_mono order_le_less_trans by blast
qed


section \<open>Waiting permits\<close>

text \<open>A permit is ready when polling it ends the wait, with a guard or with an error.\<close>

definition permit_ready :: "scheduler_inner \<Rightarrow> 'p admission_state \<Rightarrow> scheduler_state \<Rightarrow> pending_permit \<Rightarrow> bool" where
  "permit_ready inner a st p \<longleftrightarrow> fst (activate_ready inner a st p) \<noteq> Inr None"

lemma permit_ready_iff:
  "permit_ready inner a st p \<longleftrightarrow>
     isl (check_accepted_admission a st (sp_generation p)) \<or> can_activate inner st (sp_ticket p) (sp_access p)"
  by (auto simp: permit_ready_def activate_ready_def Let_def split: sum.splits)

lemma queue_length:
  assumes "queue_inv q next issued ps"
  shows "length q \<le> issued"
proof -
  have d: "distinct (tickets q)" using assms sorted_distinct by (auto simp: queue_inv_def)
  have "distinct (map unat (tickets q))" using d unfolding distinct_map [of unat] by (auto intro: inj_onI simp: word_unat_eq_iff)
  moreover have "set (map unat (tickets q)) \<subseteq> {..<issued}" using assms by (auto simp: queue_inv_def)
  ultimately have "length (map unat (tickets q)) \<le> card {..<issued}"
    by (metis card_mono distinct_card finite_lessThan)
  then show ?thesis by simp
qed

lemma queue_distinct: "queue_inv q next issued ps \<Longrightarrow> distinct (tickets q)"
  using sorted_distinct by (auto simp: queue_inv_def)

lemma activation_enables_nobody:
  assumes inv: "sched_inv inner w" and bound: "sw_issued w < 2 ^ 64" and p: "p \<in># sw_permits w"
    and act: "activate_ready inner (sw_adm w) (sw_st w) p = (Inr (Some g), st')" and p': "p' \<in># sw_permits w - {#p#}"
    and can': "can_activate inner st' (sp_ticket p') (sp_access p')"
  shows "can_activate inner (sw_st w) (sp_ticket p') (sp_access p')"
proof -
  let ?st = "sw_st w"
  have qi: "queue_inv (ss_queue ?st) (ss_next_ticket ?st) (sw_issued w) (sw_permits w)"
    and own: "owners_inv inner (as_generation (sw_adm w)) (sw_permits w) (sw_guards w)" using inv by (simp_all add: sched_inv_def)
  obtain pre post where q: "ss_queue ?st = pre @ entry_of p # post" "sp_ticket p \<notin> set (tickets pre)"
    "queue_inv (pre @ post) (ss_next_ticket ?st) (sw_issued w) (sw_permits w - {#p#})"
    by (rule queue_split [OF qi p])
  note eff = activate_effect [OF act]
  have st': "ss_queue st' = pre @ post" using remove_queued_split [of "entry_of p" pre post] q(1,2) by (simp add: eff(4))
  have d: "distinct (tickets (pre @ entry_of p # post))" using queue_distinct [OF qi] q(1) by simp
  have len: "length (pre @ entry_of p # post) < 2 ^ 64" using queue_length [OF qi] bound q(1) by simp
  have mode: "access_ok inner (sp_access p)" "access_ok inner (sp_access p')" using own p p' by (auto simp: owners_inv_def dest: in_diffD)
  have slots: "n < worker_slots_available inner st' \<Longrightarrow> n < worker_slots_available inner ?st" for n
    by (auto simp: worker_slots_available_def eff(4) split: option.splits)
  have "entry_of p' \<in># mset (pre @ post)" using q(3) p' by (simp add: queue_inv_def)
  then consider a b where "pre = a @ entry_of p' # b" | a b where "post = a @ entry_of p' # b"
    by (auto dest!: split_list)
  then show ?thesis
  proof cases
    case (1 a b)
    have f: "qp_ticket (entry_of p') \<notin> set (tickets a)" using d by (auto simp: 1)
    have s: "ss_queue ?st = a @ entry_of p' # (b @ entry_of p # post)" "ss_queue st' = a @ entry_of p' # (b @ post)"
      using q(1) st' by (simp_all add: 1)
    show ?thesis
      using can' slots can_activate_split [OF s(2) f, of inner] can_activate_split [OF s(1) f, of inner]
      by (auto simp: eff(4) split: held_access.splits if_splits)
  next
    case (2 a b)
    have f: "qp_ticket (entry_of p') \<notin> set (tickets (pre @ entry_of p # a))" "qp_ticket (entry_of p') \<notin> set (tickets (pre @ a))"
      using d by (auto simp: 2)
    have s: "ss_queue ?st = (pre @ entry_of p # a) @ entry_of p' # b" "ss_queue st' = (pre @ a) @ entry_of p' # b"
      using q(1) st' by (simp_all add: 2)
    have lim: "length (pre @ a) < worker_slots_available inner st' \<Longrightarrow> length (pre @ entry_of p # a) < worker_slots_available inner ?st"
      using len by (auto simp: worker_slots_available_def eff(4) usize_max_def 2 split: option.splits)
    show ?thesis
      using can' lim mode can_activate_split [OF s(2) f(2), of inner] can_activate_split [OF s(1) f(1), of inner]
      by (cases "sp_access p") (auto simp: eff(4) access_ok_def split: held_access.splits if_splits concurrency_mode.splits)
  qed
qed

section \<open>Guarantees\<close>

text \<open>C23: The scheduler's books are exact under every interleaving of reservations, activations,
  cancellations, completions, route closing and host transitions (as long as fewer than \<open>2 ^ 64\<close> tickets
  have been drawn): the pending count is the number of waiting permits and running guards, the active
  counts are the guards held, the queue holds exactly the waiting permits in the order of their
  tickets, a writer runs alone, and neither configured limit is exceeded.\<close>

theorem scheduler_exact:
  assumes "sched_reach inner w" "sw_issued w < 2 ^ 64"
  shows "ss_pending (sw_st w) = size (sw_permits w) + size (sw_guards w) \<and>
    ss_active_workers (sw_st w) = size (sw_guards w) \<and>
    ss_active_readers (sw_st w) = holding HeldRead (sw_guards w) \<and>
    (ss_writer_active (sw_st w) \<longleftrightarrow> holding HeldWrite (sw_guards w) = 1) \<and>
    (holding HeldWrite (sw_guards w) > 0 \<longrightarrow> size (sw_guards w) = 1) \<and>
    mset (ss_queue (sw_st w)) = image_mset entry_of (sw_permits w) \<and> sorted_wrt (<) (map qp_ticket (ss_queue (sw_st w))) \<and>
    (\<forall>limit. sl_max_workers (si_limits inner) = Some limit \<longrightarrow> size (sw_guards w) \<le> limit) \<and>
    (\<forall>limit. sl_max_pending (si_limits inner) = Some limit \<longrightarrow> size (sw_permits w) + size (sw_guards w) \<le> limit)"
  using sched_reach_inv [OF assms] by (auto simp: sched_inv_def queue_inv_def counts_inv_def le_Suc_eq)

text \<open>A permit passes those queued before it only when each of them has a worker slot of its own, now and
  after it was activated.\<close>

lemma passed_keep_slots:
  assumes q: "ss_queue st = pre @ e # post" and d: "distinct (tickets (ss_queue st))"
    and ok: "\<forall>y\<in>set (ss_queue st). access_ok inner (qp_access y)"
    and can: "can_activate inner st (qp_ticket e) (qp_access e)" and x: "x \<in> set pre"
  shows "can_activate inner st (qp_ticket x) (qp_access x)" "qp_access x \<noteq> HeldWrite"
    and "entry_of permit = e \<Longrightarrow> activate_ready inner a st permit = (Inr (Some g), st') \<Longrightarrow>
      can_activate inner st' (qp_ticket x) (qp_access x)"
proof -
  obtain b c where pre: "pre = b @ x # c" using x by (auto dest: split_list)
  have f: "qp_ticket e \<notin> set (tickets pre)" "qp_ticket x \<notin> set (tickets b)" using d q by (auto simp: pre)
  have qx: "ss_queue st = b @ x # (c @ e # post)" using q by (simp add: pre)
  have acc: "access_ok inner (qp_access x)" "access_ok inner (qp_access e)" using ok q by (simp_all add: pre)
  note ce = can_activate_split [OF q f(1), of inner] and cx = can_activate_split [OF qx f(2), of inner]
  show cx': "can_activate inner st (qp_ticket x) (qp_access x)" and nw: "qp_access x \<noteq> HeldWrite"
    using can ce cx acc by (auto simp: pre access_ok_def split: held_access.splits concurrency_mode.splits)
  assume p: "entry_of permit = e" and act: "activate_ready inner a st permit = (Inr (Some g), st')"
  have e: "sp_ticket permit = qp_ticket e" "sp_access permit = qp_access e" using p by auto
  have ne: "qp_access e \<noteq> HeldWrite" using can ce pre by auto
  have rem: "remove_queued (ss_queue st) (qp_ticket e) = pre @ post" using remove_queued_split [OF f(1)] q by simp
  have "ss_queue st' = pre @ post \<and> ss_route_admission st' = ss_route_admission st \<and> ss_writer_active st' = ss_writer_active st \<and>
      ss_active_workers st' = ss_active_workers st + 1"
    using act ne rem unfolding activate_ready_def e
    by (auto simp: Let_def split: sum.splits if_splits held_access.splits)
  then have st': "ss_queue st' = b @ x # (c @ post)" "ss_route_admission st' = ss_route_admission st"
    "ss_writer_active st' = ss_writer_active st" "ss_active_workers st' = ss_active_workers st + 1" by (simp_all add: pre)
  have "worker_slots_available inner st \<le> worker_slots_available inner st' + 1"
    by (cases "sl_max_workers (si_limits inner)") (simp_all add: worker_slots_available_def st'(4))
  moreover have "length pre < worker_slots_available inner st" using can ce by simp
  ultimately have "length b < worker_slots_available inner st'" by (simp add: pre)
  then show "can_activate inner st' (qp_ticket x) (qp_access x)"
    using cx' nw cx can_activate_split [OF st'(1) f(2), of inner] st'(2,3) by (auto split: held_access.splits)
qed

text \<open>C24: First come, first served. A waiting permit can be activated only when there are more free worker slots
  than permits queued before it, so that it takes none of theirs: every permit queued before it can then be
  activated as well, and still can after the later one was activated. A queued writer is never passed.\<close>

theorem scheduler_no_overtaking:
  assumes "sched_reach inner w" "sw_issued w < 2 ^ 64"
    and "ss_queue (sw_st w) = pre @ e # post" "can_activate inner (sw_st w) (qp_ticket e) (qp_access e)"
  shows "length pre < worker_slots_available inner (sw_st w) \<and>
    (\<forall>x\<in>set pre. can_activate inner (sw_st w) (qp_ticket x) (qp_access x) \<and> qp_access x \<noteq> HeldWrite \<and>
       (\<forall>permit g st'. entry_of permit = e \<and> activate_ready inner (sw_adm w) (sw_st w) permit = (Inr (Some g), st') \<longrightarrow>
          can_activate inner st' (qp_ticket x) (qp_access x)))"
proof -
  have inv: "sched_inv inner w" by (rule sched_reach_inv [OF assms(1,2)])
  then have qi: "queue_inv (ss_queue (sw_st w)) (ss_next_ticket (sw_st w)) (sw_issued w) (sw_permits w)"
    and own: "owners_inv inner (as_generation (sw_adm w)) (sw_permits w) (sw_guards w)" by (simp_all add: sched_inv_def)
  have ok: "\<forall>y\<in>set (ss_queue (sw_st w)). access_ok inner (qp_access y)"
  proof
    fix y
    assume "y \<in> set (ss_queue (sw_st w))"
    then have "y \<in># image_mset entry_of (sw_permits w)" using qi by (metis queue_inv_def set_mset_mset)
    then show "access_ok inner (qp_access y)" using own by (auto simp: owners_inv_def)
  qed
  note d = queue_distinct [OF qi]
  have "qp_ticket e \<notin> set (tickets pre)" using d assms(3) by auto
  from can_activate_split [OF assms(3) this, of inner] have "length pre < worker_slots_available inner (sw_st w)" using assms(4) by simp
  then show ?thesis using passed_keep_slots [OF assms(3) d ok assms(4)] by blast
qed

lemma quiet_step:
  assumes "sched_step inner w n w'" "\<not> n" "sched_inv inner w" "sw_issued w' < 2 ^ 64"
    and "p \<in># sw_permits w" "p \<in># sw_permits w'" "permit_ready inner (sw_adm w') (sw_st w') p"
  shows "permit_ready inner (sw_adm w) (sw_st w) p"
  using assms
proof (induction rule: sched_step.induct)
  case (reserve w method_idx generation permit st)
  note eff = reserve_effect [OF reserve(1)]
  have qi: "queue_inv (ss_queue (sw_st w)) (ss_next_ticket (sw_st w)) (sw_issued w) (sw_permits w)"
    using reserve(3) by (simp add: sched_inv_def)
  obtain pre post where q: "ss_queue (sw_st w) = pre @ entry_of p # post" "sp_ticket p \<notin> set (tickets pre)"
    by (rule queue_split [OF qi reserve(5)])
  have s: "ss_queue st = pre @ entry_of p # (post @ [entry_of permit])" using q(1) by (simp add: eff(2))
  have slots: "worker_slots_available inner st = worker_slots_available inner (sw_st w)"
    by (simp add: worker_slots_available_def eff(2) split: option.splits)
  have "can_activate inner st (sp_ticket p) (sp_access p) = can_activate inner (sw_st w) (sp_ticket p) (sp_access p)"
    using can_activate_split [OF s, of inner] can_activate_split [OF q(1), of inner] q(2) slots
    by (auto simp: eff(2) split: held_access.splits)
  then show ?case using reserve(7) by (simp add: permit_ready_iff check_accepted_admission_def eff(2))
next
  case (activate permit w guard st)
  note eff = activate_effect [OF activate(2)]
  have "sw_issued w < 2 ^ 64" using activate(5) by simp
  then have "can_activate inner st (sp_ticket p) (sp_access p) \<Longrightarrow> can_activate inner (sw_st w) (sp_ticket p) (sp_access p)"
    using activation_enables_nobody [OF activate(4) _ activate(1,2)] activate(7) by simp
  then show ?case using activate(8) by (auto simp: permit_ready_iff check_accepted_admission_def eff(4))
next
  case (drop_permit permit w st n)
  then show ?case by (auto simp: drop_pending_permit_def split: bind_splits)
next
  case (finish guard w st n)
  then show ?case using drop_guard_effect(1) [OF finish(2)] by simp
qed (auto simp: close_route_def commit_awaiting_admission_def open_admission_for_registration_def permit_ready_iff
    check_accepted_admission_def admission_check_accepted_def dest!: reserve_err activate_waits_effect split: if_splits)

text \<open>C25: No wake-up is lost. A critical section that does not notify never ends anybody's wait: it does
  not make a permit that had to wait ready (neither activatable nor failing), does not drain the
  route, and does not invalidate the admission of running work. So the wait loops, which poll, sleep
  until a notification and poll again, miss no event they wait for.\<close>

theorem no_lost_wakeup:
  assumes "sched_reach inner w" "sched_step inner w False w'" "sw_issued w' < 2 ^ 64"
  shows "(\<forall>p. p \<in># sw_permits w \<and> p \<in># sw_permits w' \<and> permit_ready inner (sw_adm w') (sw_st w') p \<longrightarrow>
            permit_ready inner (sw_adm w) (sw_st w) p) \<and>
         (is_drained (sw_st w') \<longrightarrow> is_drained (sw_st w)) \<and>
         (\<forall>g. isl (guard_check_admission (sw_adm w') (sw_st w') g) \<longrightarrow> isl (guard_check_admission (sw_adm w) (sw_st w) g))"
proof -
  have bound: "sw_issued w < 2 ^ 64" using sched_issued_mono [OF assms(2)] assms(3) by simp
  have ready: "p \<in># sw_permits w \<and> p \<in># sw_permits w' \<and> permit_ready inner (sw_adm w') (sw_st w') p \<longrightarrow>
            permit_ready inner (sw_adm w) (sw_st w) p" for p
    using quiet_step [OF assms(2) _ sched_reach_inv [OF assms(1) bound] assms(3)] by blast
  from assms(2) have "(is_drained (sw_st w') \<longrightarrow> is_drained (sw_st w)) \<and>
      (\<forall>g. isl (guard_check_admission (sw_adm w') (sw_st w') g) \<longrightarrow> isl (guard_check_admission (sw_adm w) (sw_st w) g))"
  proof (cases rule: sched_step.cases)
    case (reserve method_idx generation permit st)
    then show ?thesis using reserve_effect [OF reserve(2)]
      by (simp add: is_drained_def guard_check_admission_def check_accepted_admission_def)
  next
    case (activate permit guard st)
    then show ?thesis using activate_effect(4) [OF activate(3)]
      by (simp add: is_drained_def guard_check_admission_def check_accepted_admission_def)
  next
    case (finish guard st)
    then show ?thesis using drop_guard_effect(1) [OF finish(3)] by simp
  qed (auto simp: is_drained_def guard_check_admission_def check_accepted_admission_def close_route_def drop_pending_permit_def
      commit_awaiting_admission_def open_admission_for_registration_def admission_check_accepted_def
      dest!: reserve_err activate_waits_effect split: if_splits bind_splits)
  with ready show ?thesis by blast
qed

text \<open>C26: The route makes progress and never panics: on an open route with valid limits and no running
  guard, the oldest waiting permit is ready; every guard and every waiting permit can be dropped
  without an underflow; and once the last one is gone the route is drained.\<close>

theorem scheduler_progress:
  assumes "sched_reach inner w" "sw_issued w < 2 ^ 64" "limits_try_from_usize mp mw = Inr (si_limits inner)"
  shows "(ss_route_admission (sw_st w) = Opened \<and> sw_guards w = {#} \<and> sw_permits w \<noteq> {#} \<longrightarrow>
            (\<exists>p\<in>#sw_permits w. entry_of p = hd (ss_queue (sw_st w)) \<and> permit_ready inner (sw_adm w) (sw_st w) p)) \<and>
         (\<forall>p\<in>#sw_permits w. drop_pending_permit (sw_st w) p \<noteq> None) \<and>
         (\<forall>g\<in>#sw_guards w. drop_guard (sw_st w) g \<noteq> None) \<and>
         (is_drained (sw_st w) \<longleftrightarrow> sw_permits w = {#} \<and> sw_guards w = {#})"
proof -
  have inv: "sched_inv inner w" by (rule sched_reach_inv [OF assms(1,2)])
  then have qi: "queue_inv (ss_queue (sw_st w)) (ss_next_ticket (sw_st w)) (sw_issued w) (sw_permits w)"
    and c: "counts_inv inner (sw_st w) (size (sw_permits w)) (sw_guards w)" by (simp_all add: sched_inv_def)
  have front: "\<exists>p\<in>#sw_permits w. entry_of p = hd (ss_queue (sw_st w)) \<and> permit_ready inner (sw_adm w) (sw_st w) p"
    if o: "ss_route_admission (sw_st w) = Opened" "sw_guards w = {#}" "sw_permits w \<noteq> {#}"
  proof -
    have m: "mset (ss_queue (sw_st w)) = image_mset entry_of (sw_permits w)" using qi by (simp add: queue_inv_def)
    then have "ss_queue (sw_st w) \<noteq> []" using o(3) by auto
    then obtain e q where q: "ss_queue (sw_st w) = [] @ e # q" by (cases "ss_queue (sw_st w)") auto
    have "e \<in># image_mset entry_of (sw_permits w)" using m q by (metis append_Nil list.set_intros(1) set_mset_mset)
    then obtain p where p: "p \<in># sw_permits w" "e = entry_of p" by auto
    have "sl_max_workers (si_limits inner) \<noteq> Some 0"
      using assms(3) by (cases "si_limits inner") (auto simp: limits_try_from_usize_def split: if_splits)
    then have "0 < worker_slots_available inner (sw_st w)"
      using c o(2) by (auto simp: worker_slots_available_def counts_inv_def usize_max_def split: option.splits)
    then have "can_activate inner (sw_st w) (sp_ticket p) (sp_access p)"
      using can_activate_split [OF q, of inner] o c p(2) by (auto simp: counts_inv_def split: held_access.splits)
    with p q show ?thesis by (auto simp: permit_ready_iff)
  qed
  have permits: "drop_pending_permit (sw_st w) p \<noteq> None" if "p \<in># sw_permits w" for p
  proof -
    have "0 < size (sw_permits w)" using that by (cases "sw_permits w") auto
    then show ?thesis using c by (simp add: drop_pending_permit_def counts_inv_def run_simps)
  qed
  have guards: "drop_guard (sw_st w) g \<noteq> None" if "g \<in># sw_guards w" for g
  proof -
    have "0 < size (sw_guards w)" using that by (cases "sw_guards w") auto
    moreover have "sg_access g = HeldRead \<Longrightarrow> 0 < holding HeldRead (sw_guards w)" using holding_remove [OF that, of HeldRead] by simp
    ultimately show ?thesis using c
      by (cases "sg_access g") (auto simp: drop_guard_def counts_inv_def run_simps Let_def)
  qed
  have "is_drained (sw_st w) \<longleftrightarrow> sw_permits w = {#} \<and> sw_guards w = {#}"
    using c by (auto simp: is_drained_def counts_inv_def)
  with front permits guards show ?thesis by blast
qed

text \<open>The generation fence: once the host terminates (or restarts) its admission, no permit reserved
  before can ever be activated and no guard obtained before can ever commit, whatever transitions
  follow, in particular after the host is open again.\<close>

lemma generation_fence:
  assumes "sched_reach inner w" "sw_issued w < 2 ^ 64" "terminate (sw_adm w) = Some a \<or> begin_start (sw_adm w) = Some a"
    and "admission_step\<^sup>*\<^sup>* a a'"
  shows "(\<forall>p\<in>#sw_permits w. isl (fst (activate_ready inner a' st p))) \<and>
    (\<forall>g\<in>#sw_guards w. \<not> sg_committed g \<longrightarrow> isl (fst (guard_commit a' st g)))"
proof -
  have own: "owners_inv inner (as_generation (sw_adm w)) (sw_permits w) (sw_guards w)"
    using sched_reach_inv [OF assms(1,2)] by (simp add: sched_inv_def)
  have "fenced gen a'" if "gen \<le> as_generation (sw_adm w)" for gen
    using assms(3) terminate_fences [OF _ that] start_fences [OF _ that] fenced_rtranclp [OF assms(4)] by blast
  then have rej: "isl (check_accepted_admission a' st gen)" if "gen \<le> as_generation (sw_adm w)" for gen
    using fenced_rejects [of gen a'] that by (simp add: check_accepted_admission_def)
  show ?thesis
  proof (intro conjI ballI impI)
    show "isl (fst (activate_ready inner a' st p))" if "p \<in># sw_permits w" for p
      using rej [of "sp_generation p"] own that by (auto simp: owners_inv_def activate_ready_def split: sum.splits)
    show "isl (fst (guard_commit a' st g))" if "g \<in># sw_guards w" "\<not> sg_committed g" for g
      using rej [of "sg_generation g"] own that by (auto simp: owners_inv_def guard_commit_def split: sum.splits)
  qed
qed

section \<open>A concrete run\<close>

text \<open>A route with two callers: both wait, then, on an exclusive route, the first runs.\<close>

definition demo_inner :: "concurrency_mode \<Rightarrow> scheduler_inner" where
  "demo_inner m = \<lparr>si_mode = m, si_access_map = Map.empty,
     si_limits = \<lparr>sl_max_pending = Some 4, sl_max_workers = Some 2\<rparr>\<rparr>"

definition demo_permit :: "concurrency_mode \<Rightarrow> u64 \<Rightarrow> pending_permit" where
  "demo_permit m ticket = \<lparr>sp_access = held_access_of (demo_inner m) 7, sp_ticket = ticket, sp_generation = 0\<rparr>"

definition demo_waiting :: "concurrency_mode \<Rightarrow> unit sched_world" where
  "demo_waiting m = (sched_new admission_new)\<lparr>sw_st := scheduler_state_default\<lparr>ss_pending := 2, ss_next_ticket := 2,
       ss_queue := [entry_of (demo_permit m 0), entry_of (demo_permit m 1)]\<rparr>,
     sw_permits := {#demo_permit m 1, demo_permit m 0#}, sw_issued := 2\<rparr>"

definition demo_guard :: scheduler_guard where
  "demo_guard = \<lparr>sg_access = HeldWrite, sg_generation = 0, sg_committed = False\<rparr>"

definition demo_running :: "unit sched_world" where
  "demo_running = (demo_waiting ModeExclusive)\<lparr>sw_st := scheduler_state_default\<lparr>ss_pending := 2, ss_next_ticket := 2,
       ss_queue := [entry_of (demo_permit ModeExclusive 1)], ss_active_workers := 1, ss_writer_active := True\<rparr>,
     sw_permits := {#demo_permit ModeExclusive 1#}, sw_guards := {#demo_guard#}\<rparr>"

lemmas sched_demo_defs = demo_inner_def demo_permit_def demo_waiting_def demo_guard_def demo_running_def sched_new_def
  scheduler_state_default_def admission_new_def entry_of_def

lemma demo_waiting_reach: "sched_reach (demo_inner m) (demo_waiting m)"
proof -
  let ?w = "(sched_new admission_new :: unit sched_world)"
  let ?s1 = "scheduler_state_default\<lparr>ss_pending := 1, ss_next_ticket := 1, ss_queue := [entry_of (demo_permit m 0)]\<rparr>"
  let ?v = "?w\<lparr>sw_st := ?s1, sw_permits := {#demo_permit m 0#}, sw_issued := 1\<rparr>"
  have "reserve_pending_with_generation (demo_inner m) (sw_adm ?w) (sw_st ?w) 7 None = (Inr (demo_permit m 0), ?s1)"
    by (simp add: reserve_pending_with_generation_def enqueue_def admission_check_def Let_def sched_demo_defs)
  from sched_step.reserve [OF this] have v: "sched_reach (demo_inner m) ?v"
    by (intro sched_next [OF sched_start, of _ admission_new False]) (simp add: sched_demo_defs)
  have "reserve_pending_with_generation (demo_inner m) (sw_adm ?v) (sw_st ?v) 7 None = (Inr (demo_permit m 1), sw_st (demo_waiting m))"
    by (simp add: reserve_pending_with_generation_def enqueue_def admission_check_def Let_def sched_demo_defs)
  from sched_step.reserve [OF this] show ?thesis
    by (intro sched_next [OF v, of False]) (simp add: sched_demo_defs numeral_2_eq_2)
qed

lemma demo_activates: "activate_ready (demo_inner ModeExclusive) (sw_adm (demo_waiting ModeExclusive)) (sw_st (demo_waiting ModeExclusive)) (demo_permit ModeExclusive 0) = (Inr (Some demo_guard), sw_st demo_running)"
  by (simp add: activate_ready_def check_accepted_admission_def admission_check_accepted_def can_activate_def worker_slots_available_def
      held_access_of_def sched_demo_defs)

lemma demo_run_step: "sched_step (demo_inner ModeExclusive) (demo_waiting ModeExclusive) False demo_running"
  using sched_step.activate [OF _ demo_activates] by (simp add: sched_demo_defs)

lemma demo_running_reach: "sched_reach (demo_inner ModeExclusive) demo_running"
  by (rule sched_next [OF demo_waiting_reach demo_run_step])

theorem scheduler_exact_witness:
  "sched_reach (demo_inner ModeExclusive) demo_running \<and> ss_pending (sw_st demo_running) = size (sw_permits demo_running) + size (sw_guards demo_running) \<and>
   size (sw_permits demo_running) = 1 \<and> size (sw_guards demo_running) = 1"
  using demo_running_reach scheduler_exact [OF demo_running_reach] by (simp add: sched_demo_defs)

theorem scheduler_no_overtaking_witness:
  "can_activate (demo_inner ModeParallel) (sw_st (demo_waiting ModeParallel)) 1 HeldParallel \<and>
   can_activate (demo_inner ModeParallel) (sw_st (demo_waiting ModeParallel)) 0 HeldParallel"
proof -
  let ?i = "demo_inner ModeParallel" and ?e = "\<lambda>t. entry_of (demo_permit ModeParallel t)"
  have q: "ss_queue (sw_st (demo_waiting ModeParallel)) = [?e 0] @ ?e 1 # []" by (simp add: demo_waiting_def)
  have c: "can_activate ?i (sw_st (demo_waiting ModeParallel)) (qp_ticket (?e 1)) (qp_access (?e 1))"
    by (simp add: can_activate_def worker_slots_available_def held_access_of_def sched_demo_defs)
  show ?thesis using scheduler_no_overtaking [OF demo_waiting_reach _ q c] c
    by (simp add: demo_permit_def demo_waiting_def held_access_of_def) (simp add: demo_inner_def)
qed

theorem no_lost_wakeup_witness:
  "sched_step (demo_inner ModeExclusive) (demo_waiting ModeExclusive) False demo_running \<and>
   demo_permit ModeExclusive 1 \<in># sw_permits demo_running \<and>
   \<not> permit_ready (demo_inner ModeExclusive) (sw_adm demo_running) (sw_st demo_running) (demo_permit ModeExclusive 1) \<and>
   \<not> is_drained (sw_st demo_running)"
proof -
  have "\<not> permit_ready (demo_inner ModeExclusive) (sw_adm (demo_waiting ModeExclusive)) (sw_st (demo_waiting ModeExclusive)) (demo_permit ModeExclusive 1)"
    "\<not> is_drained (sw_st (demo_waiting ModeExclusive))"
    "demo_permit ModeExclusive 1 \<in># sw_permits (demo_waiting ModeExclusive)" "demo_permit ModeExclusive 1 \<in># sw_permits demo_running"
    "sw_issued demo_running < 2 ^ 64"
    by (simp_all add: sched_demo_defs demo_running_def permit_ready_def can_activate_def activate_ready_def is_drained_def
        held_access_of_def check_accepted_admission_def admission_check_accepted_def worker_slots_available_def admission_new_def Let_def)
  then show ?thesis using no_lost_wakeup [OF demo_waiting_reach demo_run_step] demo_run_step by blast
qed

theorem scheduler_progress_witness:
  "\<exists>p\<in>#sw_permits (demo_waiting ModeExclusive). permit_ready (demo_inner ModeExclusive) (sw_adm (demo_waiting ModeExclusive)) (sw_st (demo_waiting ModeExclusive)) p"
proof -
  have "limits_try_from_usize (Some 4) (Some 2) = Inr (si_limits (demo_inner ModeExclusive))" by (simp add: limits_try_from_usize_def demo_inner_def)
  from scheduler_progress [OF demo_waiting_reach _ this] show ?thesis by (auto simp: sched_demo_defs)
qed

end
