(* ===== verification/Chunk_Gate.thy ===== *)
theory Chunk_Gate
  imports C2_Prelude
begin

text \<open>
  First-chunk admission ordering, \<open>c2-server/src/chunk_ordering.rs\<close>. Entries are shared objects
  (\<open>Arc\<close>), so they live in a store indexed by an object identity; the gate maps a request to the
  identity of its entry. Publishing an outcome and releasing a fence are separate atomic actions, as
  in the source, and \<open>gate_step\<close> interleaves them with all other owners, aborters and connections.
\<close>

type_synonym chunk_request_key = "u64 \<times> u64"

datatype chunk_admission_outcome = OutcomePending | OutcomeAdmitted | OutcomeRefused | OutcomeAborted

datatype chunk_ordering_error = AlreadyPending | GateCapacity usize

definition chunk_ordering_error_message :: "chunk_ordering_error \<Rightarrow> string" where
  "chunk_ordering_error_message e =
     (case e of
        AlreadyPending \<Rightarrow> ''duplicate first chunk for a chunked request already awaiting admission''
      | GateCapacity limit \<Rightarrow> ''chunk admission ordering capacity exceeded: max_total_chunks='' @ show_nat limit)"

record chunk_entry =
  ce_outcome :: chunk_admission_outcome
  ce_fences :: usize

definition new_entry :: chunk_entry where
  "new_entry = \<lparr>ce_outcome = OutcomePending, ce_fences = 1\<rparr>"

definition entry_is_pending :: "chunk_entry \<Rightarrow> bool" where
  "entry_is_pending e \<longleftrightarrow> ce_outcome e = OutcomePending"

definition try_publish :: "chunk_entry \<Rightarrow> chunk_admission_outcome \<Rightarrow> (bool \<times> chunk_entry) run" where
  "try_publish e out =
     do {
       ensure (out \<noteq> OutcomePending);
       Some (if ce_outcome e = OutcomePending then (True, e\<lparr>ce_outcome := out\<rparr>) else (False, e))
     }"

text \<open>What a waiter gets when it looks at its entry; \<open>None\<close> is that it sleeps.\<close>

definition wait_poll :: "chunk_entry \<Rightarrow> chunk_admission_outcome option" where
  "wait_poll e = (if ce_outcome e \<noteq> OutcomePending then Some (ce_outcome e) else None)"

record chunk_gate =
  cg_entries :: "chunk_request_key \<rightharpoonup> nat"
  cg_store :: "nat \<Rightarrow> chunk_entry"
  cg_capacity :: usize

definition gate_new :: "usize \<Rightarrow> chunk_gate" where
  "gate_new capacity = \<lparr>cg_entries = Map.empty, cg_store = (\<lambda>_. new_entry), cg_capacity = capacity\<rparr>"

record chunk_owner =
  co_key :: chunk_request_key
  co_entry :: nat
  co_released :: bool

definition gate_begin :: "chunk_gate \<Rightarrow> chunk_request_key \<Rightarrow> nat \<Rightarrow> (chunk_ordering_error + chunk_owner) \<times> chunk_gate" where
  "gate_begin g key fresh =
     (if cg_entries g key \<noteq> None then (Inl AlreadyPending, g)
      else if card (dom (cg_entries g)) \<ge> cg_capacity g then (Inl (GateCapacity (cg_capacity g)), g)
      else (Inr \<lparr>co_key = key, co_entry = fresh, co_released = False\<rparr>,
            g\<lparr>cg_entries := (cg_entries g)(key \<mapsto> fresh), cg_store := (cg_store g)(fresh := new_entry)\<rparr>))"

definition gate_waiter :: "chunk_gate \<Rightarrow> chunk_request_key \<Rightarrow> nat option" where
  "gate_waiter g key =
     (case cg_entries g key of Some i \<Rightarrow> if entry_is_pending (cg_store g i) then Some i else None | None \<Rightarrow> None)"

definition publish :: "chunk_gate \<Rightarrow> nat \<Rightarrow> chunk_admission_outcome \<Rightarrow> (bool \<times> chunk_gate) run" where
  "publish g i out =
     do { (won, e) \<leftarrow> try_publish (cg_store g i) out; Some (won, g\<lparr>cg_store := (cg_store g)(i := e)\<rparr>) }"

text \<open>\<open>terminate_key\<close> takes its fence under the map lock; it publishes after unlocking.\<close>

definition terminate_key_locked :: "chunk_gate \<Rightarrow> chunk_request_key \<Rightarrow> nat option \<times> chunk_gate" where
  "terminate_key_locked g key =
     (case cg_entries g key of
        None \<Rightarrow> (None, g)
      | Some i \<Rightarrow>
          (Some i, g\<lparr>cg_store := (cg_store g)(i := (cg_store g i)\<lparr>ce_fences := ce_fences (cg_store g i) + 1\<rparr>)\<rparr>))"

definition terminate_key :: "chunk_gate \<Rightarrow> chunk_request_key \<Rightarrow> chunk_admission_outcome \<Rightarrow>
    ((chunk_request_key \<times> nat) option \<times> chunk_gate) run" where
  "terminate_key g key out =
     do {
       ensure (out = OutcomeRefused \<or> out = OutcomeAborted);
       case terminate_key_locked g key of
         (None, g') \<Rightarrow> Some (None, g')
       | (Some i, g') \<Rightarrow> do { (_, g'') \<leftarrow> publish g' i out; Some (Some (key, i), g'') }
     }"

definition connection_keys :: "chunk_gate \<Rightarrow> u64 \<Rightarrow> chunk_request_key set" where
  "connection_keys g conn = {key \<in> dom (cg_entries g). fst key = conn}"

definition abort_connection :: "chunk_gate \<Rightarrow> u64 \<Rightarrow> usize \<times> chunk_gate" where
  "abort_connection g conn =
     (let keys = connection_keys g conn; objects = (the \<circ> cg_entries g) ` keys
      in (card keys,
          g\<lparr>cg_entries := (cg_entries g) |` (- keys),
            cg_store := (\<lambda>i. if i \<in> objects \<and> ce_outcome (cg_store g i) = OutcomePending
                             then (cg_store g i)\<lparr>ce_outcome := OutcomeAborted\<rparr> else cg_store g i)\<rparr>))"

definition release_entry :: "chunk_gate \<Rightarrow> chunk_request_key \<Rightarrow> nat \<Rightarrow> chunk_gate run" where
  "release_entry g key i =
     do {
       n \<leftarrow> sub_run (ce_fences (cg_store g i)) 1;
       let g' = g\<lparr>cg_store := (cg_store g)(i := (cg_store g i)\<lparr>ce_fences := n\<rparr>)\<rparr>;
       Some (if ce_fences (cg_store g i) > 1 then g' else g'\<lparr>cg_entries := (cg_entries g')(key := None)\<rparr>)
     }"

definition owner_release :: "chunk_gate \<Rightarrow> chunk_owner \<Rightarrow> (chunk_owner \<times> chunk_gate) run" where
  "owner_release g owner =
     (if \<not> co_released owner
      then do { g' \<leftarrow> release_entry g (co_key owner) (co_entry owner); Some (owner\<lparr>co_released := True\<rparr>, g') }
      else Some (owner, g))"

definition owner_admit :: "chunk_gate \<Rightarrow> chunk_owner \<Rightarrow> (bool \<times> chunk_owner \<times> chunk_gate) run" where
  "owner_admit g owner =
     do {
       (won, g1) \<leftarrow> publish g (co_entry owner) OutcomeAdmitted;
       if \<not> won then Some (False, owner, g1)
       else do { (owner', g2) \<leftarrow> owner_release g1 owner; Some (True, owner', g2) }
     }"

definition owner_abort :: "chunk_gate \<Rightarrow> chunk_owner \<Rightarrow> (bool \<times> chunk_gate) run" where
  "owner_abort g owner = publish g (co_entry owner) OutcomeAborted"

definition drop_owner :: "chunk_gate \<Rightarrow> chunk_owner \<Rightarrow> chunk_gate run" where
  "drop_owner g owner =
     (if \<not> co_released owner
      then do { (_, g1) \<leftarrow> publish g (co_entry owner) OutcomeAborted; (_, g2) \<leftarrow> owner_release g1 owner; Some g2 }
      else Some g)"

definition drop_reclaim :: "chunk_gate \<Rightarrow> chunk_request_key \<times> nat \<Rightarrow> chunk_gate run" where
  "drop_reclaim g reclaim = release_entry g (fst reclaim) (snd reclaim)"

section \<open>All interleavings\<close>

text \<open>
  The objects that hold a fence: owners that have not released, and reclaim guards, from the moment
  the terminator took its fence. \<open>gw_closed\<close> are the connections that were aborted; a closing
  connection dispatches no further frame, so no claim is begun on them. \<open>gw_keys\<close> records the request
  each object was created for.
\<close>

record gate_world =
  gw_gate :: chunk_gate
  gw_owners :: "(chunk_request_key \<times> nat) multiset"
  gw_reclaims :: "(chunk_request_key \<times> nat) multiset"
  gw_closed :: "u64 set"
  gw_next :: nat
  gw_keys :: "nat \<Rightarrow> chunk_request_key"

definition gate_world_new :: "usize \<Rightarrow> gate_world" where
  "gate_world_new capacity = \<lparr>gw_gate = gate_new capacity, gw_owners = {#}, gw_reclaims = {#}, gw_closed = {}, gw_next = 0, gw_keys = (\<lambda>_. (0, 0))\<rparr>"

inductive gate_step :: "gate_world \<Rightarrow> gate_world \<Rightarrow> bool" where
  begin_claim: "fst key \<notin> gw_closed w \<Longrightarrow> gate_begin (gw_gate w) key (gw_next w) = (Inr owner, g) \<Longrightarrow>
     gate_step w (w\<lparr>gw_gate := g, gw_owners := add_mset (key, gw_next w) (gw_owners w), gw_next := gw_next w + 1,
       gw_keys := (gw_keys w)(gw_next w := key)\<rparr>)"
| begin_refused: "gate_begin (gw_gate w) key (gw_next w) = (Inl e, g) \<Longrightarrow> gate_step w (w\<lparr>gw_gate := g\<rparr>)"
| fence: "terminate_key_locked (gw_gate w) key = (Some i, g) \<Longrightarrow>
     gate_step w (w\<lparr>gw_gate := g, gw_reclaims := add_mset (key, i) (gw_reclaims w)\<rparr>)"
| publish_terminal: "(key, i) \<in># gw_owners w + gw_reclaims w \<Longrightarrow> publish (gw_gate w) i out = Some (won, g) \<Longrightarrow>
     gate_step w (w\<lparr>gw_gate := g\<rparr>)"
| release_owner: "(key, i) \<in># gw_owners w \<Longrightarrow> release_entry (gw_gate w) key i = Some g \<Longrightarrow>
     gate_step w (w\<lparr>gw_gate := g, gw_owners := gw_owners w - {#(key, i)#}\<rparr>)"
| release_reclaim: "(key, i) \<in># gw_reclaims w \<Longrightarrow> drop_reclaim (gw_gate w) (key, i) = Some g \<Longrightarrow>
     gate_step w (w\<lparr>gw_gate := g, gw_reclaims := gw_reclaims w - {#(key, i)#}\<rparr>)"
| disconnect: "abort_connection (gw_gate w) conn = (n, g) \<Longrightarrow>
     gate_step w (w\<lparr>gw_gate := g, gw_closed := insert conn (gw_closed w)\<rparr>)"

inductive gate_reach :: "usize \<Rightarrow> gate_world \<Rightarrow> bool" for capacity where
  gate_start: "gate_reach capacity (gate_world_new capacity)"
| gate_next: "gate_reach capacity w \<Longrightarrow> gate_step w w' \<Longrightarrow> gate_reach capacity w'"

section \<open>Fences\<close>

definition holders :: "nat \<Rightarrow> (chunk_request_key \<times> nat) multiset \<Rightarrow> nat" where
  "holders i m = size (filter_mset (\<lambda>p. snd p = i) m)"

lemma holders_simps [simp]:
  "holders i {#} = 0" "holders i (add_mset p m) = (if snd p = i then 1 else 0) + holders i m"
  "holders i (m + m') = holders i m + holders i m'"
  by (simp_all add: holders_def)

lemma holders_remove: "p \<in># m \<Longrightarrow> holders i m = (if snd p = i then 1 else 0) + holders i (m - {#p#})"
  using holders_simps(2) [of i p "m - {#p#}"] by simp

lemma holders_zero: "(\<forall>p\<in>#m. snd p \<noteq> i) \<Longrightarrow> holders i m = 0"
  by (simp add: holders_def)

definition fence_count :: "gate_world \<Rightarrow> nat \<Rightarrow> nat" where
  "fence_count w i = holders i (gw_owners w + gw_reclaims w)"

definition gate_inv :: "usize \<Rightarrow> gate_world \<Rightarrow> bool" where
  "gate_inv capacity w \<longleftrightarrow>
     cg_capacity (gw_gate w) = capacity \<and> finite (dom (cg_entries (gw_gate w))) \<and> card (dom (cg_entries (gw_gate w))) \<le> capacity \<and>
     (\<forall>i<gw_next w. ce_fences (cg_store (gw_gate w) i) = fence_count w i) \<and>
     (\<forall>key i. (key, i) \<in># gw_owners w + gw_reclaims w \<longrightarrow> i < gw_next w \<and> gw_keys w i = key) \<and>
     (\<forall>key i. cg_entries (gw_gate w) key = Some i \<longleftrightarrow>
        i < gw_next w \<and> gw_keys w i = key \<and> fst key \<notin> gw_closed w \<and> 0 < fence_count w i)"

lemma gate_entry_iff:
  "gate_inv capacity w \<Longrightarrow>
     cg_entries (gw_gate w) key = Some i \<longleftrightarrow>
       i < gw_next w \<and> gw_keys w i = key \<and> fst key \<notin> gw_closed w \<and> 0 < fence_count w i"
  unfolding gate_inv_def by blast

lemma gate_publish_effect:
  "publish g i out = Some (won, g') \<Longrightarrow>
     out \<noteq> OutcomePending \<and> (won \<longleftrightarrow> ce_outcome (cg_store g i) = OutcomePending) \<and>
     g' = g\<lparr>cg_store := (cg_store g)(i := (cg_store g i)\<lparr>ce_outcome := (if won then out else ce_outcome (cg_store g i))\<rparr>)\<rparr>"
  by (auto simp: publish_def try_publish_def split: bind_splits if_splits)

lemma gate_release_effect:
  "release_entry g key i = Some g' \<Longrightarrow>
     0 < ce_fences (cg_store g i) \<and>
     cg_store g' = (cg_store g)(i := (cg_store g i)\<lparr>ce_fences := ce_fences (cg_store g i) - 1\<rparr>) \<and>
     cg_entries g' = (if 1 < ce_fences (cg_store g i) then cg_entries g else (cg_entries g)(key := None)) \<and>
     cg_capacity g' = cg_capacity g"
  by (auto simp: release_entry_def Let_def run_simps split: bind_splits if_splits)

lemma gate_release_inv:
  assumes inv: "gate_inv capacity w" and p: "(key, i) \<in># gw_owners w + gw_reclaims w"
    and rel: "release_entry (gw_gate w) key i = Some g"
    and v: "gw_gate v = g" "gw_closed v = gw_closed w" "gw_next v = gw_next w" "gw_keys v = gw_keys w"
      "gw_owners v + gw_reclaims v = gw_owners w + gw_reclaims w - {#(key, i)#}"
  shows "gate_inv capacity v"
proof -
  note r = gate_release_effect [OF rel]
  have fc: "fence_count w j = (if i = j then 1 else 0) + fence_count v j" for j
    using holders_remove [OF p, of j] by (simp only: fence_count_def v(5) snd_conv)
  have i: "i < gw_next w" "gw_keys w i = key" using inv p unfolding gate_inv_def by blast+
  have fi: "ce_fences (cg_store (gw_gate w) i) = fence_count w i" using inv i by (simp add: gate_inv_def)
  have bound: "dom (cg_entries g) \<subseteq> dom (cg_entries (gw_gate w))" using r by (auto split: if_splits)
  have fin: "finite (dom (cg_entries (gw_gate w)))" and cap: "card (dom (cg_entries (gw_gate w))) \<le> capacity"
    using inv by (simp_all add: gate_inv_def)
  have "finite (dom (cg_entries g)) \<and> card (dom (cg_entries g)) \<le> capacity"
    using finite_subset [OF bound fin] order_trans [OF card_mono [OF fin bound] cap] by blast
  moreover have "\<forall>k j. (k, j) \<in># gw_owners v + gw_reclaims v \<longrightarrow> j < gw_next w \<and> gw_keys w j = k"
    using inv unfolding gate_inv_def v(5) by (meson in_diffD)
  moreover have "cg_entries g k = Some j \<longleftrightarrow> j < gw_next w \<and> gw_keys w j = k \<and> fst k \<notin> gw_closed w \<and> 0 < fence_count v j" for k j
  proof -
    have old: "cg_entries (gw_gate w) k = Some j \<longleftrightarrow> j < gw_next w \<and> gw_keys w j = k \<and> fst k \<notin> gw_closed w \<and> 0 < fence_count w j" for k j
      by (rule gate_entry_iff [OF inv])
    have here: "fst key \<notin> gw_closed w \<Longrightarrow> cg_entries (gw_gate w) key = Some i" using old [of key i] i fc [of i] by simp
    show ?thesis
      using r fi fc [of i] fc [of j] old [of k j] here i by (cases "i = j"; cases "k = key") (auto split: if_splits)
  qed
  moreover have "ce_fences (cg_store g j) = fence_count v j" if "j < gw_next w" for j
    using inv r fc [of j] fi that by (auto simp: gate_inv_def)
  moreover have "cg_capacity g = capacity" using inv r by (simp add: gate_inv_def)
  ultimately show ?thesis unfolding gate_inv_def v(1-4) by blast
qed

lemma gate_step_inv: "gate_step w w' \<Longrightarrow> gate_inv capacity w \<Longrightarrow> gate_inv capacity w'"
proof (induction rule: gate_step.induct)
  case (begin_claim key w owner g)
  let ?i = "gw_next w"
  have b: "cg_entries (gw_gate w) key = None" "card (dom (cg_entries (gw_gate w))) < cg_capacity (gw_gate w)"
    "g = (gw_gate w)\<lparr>cg_entries := (cg_entries (gw_gate w))(key \<mapsto> ?i), cg_store := (cg_store (gw_gate w))(?i := new_entry)\<rparr>"
    using begin_claim(2) by (auto simp: gate_begin_def split: if_splits)
  have zero: "fence_count w ?i = 0"
    unfolding fence_count_def by (rule holders_zero) (use begin_claim(3) in \<open>force simp: gate_inv_def\<close>)
  have fc: "fence_count (w\<lparr>gw_gate := g, gw_owners := add_mset (key, ?i) (gw_owners w), gw_next := ?i + 1,
      gw_keys := (gw_keys w)(?i := key)\<rparr>) j = (if j = ?i then 1 else 0) + fence_count w j" for j
    by (simp add: fence_count_def)
  have none: "i < ?i \<Longrightarrow> gw_keys w i = key \<Longrightarrow> fence_count w i = 0" for i
    using gate_entry_iff [OF begin_claim(3), of key i] begin_claim(1) b(1) by simp
  have unused: "(k, ?i) \<notin># gw_owners w" "(k, ?i) \<notin># gw_reclaims w" for k
    using begin_claim(3) unfolding gate_inv_def by (auto simp del: split_paired_All)
  show ?case
    unfolding gate_inv_def fc using begin_claim(1,3) b zero none unused
    by (auto simp: gate_inv_def new_entry_def less_Suc_eq card_insert_if)
next
  case (begin_refused w key e g)
  then show ?case by (auto simp: gate_begin_def gate_inv_def fence_count_def split: if_splits)
next
  case (fence w key i g)
  have t: "cg_entries (gw_gate w) key = Some i"
    "g = (gw_gate w)\<lparr>cg_store := (cg_store (gw_gate w))(i := (cg_store (gw_gate w) i)\<lparr>ce_fences := ce_fences (cg_store (gw_gate w) i) + 1\<rparr>)\<rparr>"
    using fence(1) by (auto simp: terminate_key_locked_def split: option.splits)
  have fc: "fence_count (w\<lparr>gw_gate := g, gw_reclaims := add_mset (key, i) (gw_reclaims w)\<rparr>) j = (if j = i then 1 else 0) + fence_count w j" for j
    by (simp add: fence_count_def)
  have "0 < fence_count w i" using gate_entry_iff [OF fence(2), of key i] t(1) by simp
  then show ?case unfolding gate_inv_def fc using fence(2) t by (auto simp: gate_inv_def)
next
  case (publish_terminal key i w out won g)
  then show ?case by (auto simp: gate_inv_def fence_count_def dest!: gate_publish_effect)
next
  case (release_owner key i w g)
  then show ?case by (intro gate_release_inv [OF release_owner(3) _ release_owner(2)]) simp_all
next
  case (release_reclaim key i w g)
  then show ?case
    by (intro gate_release_inv [OF release_reclaim(3) _ release_reclaim(2) [unfolded drop_reclaim_def fst_conv snd_conv]]) simp_all
next
  case (disconnect w conn n g)
  let ?E = "cg_entries (gw_gate w)" and ?keys = "connection_keys (gw_gate w) conn"
  have d: "cg_entries g = ?E |` (- ?keys)" "cg_capacity g = cg_capacity (gw_gate w)" "ce_fences (cg_store g i) = ce_fences (cg_store (gw_gate w) i)" for i
    using disconnect(1) by (auto simp: abort_connection_def Let_def)
  have dom: "dom (cg_entries g) \<subseteq> dom ?E" by (auto simp: d)
  have fin: "finite (dom ?E)" using disconnect(2) by (simp add: gate_inv_def)
  have "card (dom (cg_entries g)) \<le> capacity"
    using card_mono [OF fin dom] disconnect(2) by (simp add: gate_inv_def)
  moreover have "finite (dom (cg_entries g))" by (rule finite_subset [OF dom fin])
  moreover have "cg_entries g k = Some j \<longleftrightarrow> ?E k = Some j \<and> fst k \<noteq> conn" for k j
    by (auto simp: d connection_keys_def restrict_map_def)
  ultimately show ?case using disconnect(2) by (auto simp: gate_inv_def fence_count_def d)
qed

lemma gate_reach_inv: "gate_reach capacity w \<Longrightarrow> gate_inv capacity w"
proof (induction rule: gate_reach.induct)
  case gate_start
  show ?case by (simp add: gate_inv_def gate_world_new_def gate_new_def fence_count_def)
qed (rule gate_step_inv)

section \<open>Guarantees\<close>

text \<open>C27: The teardown fences work under every interleaving: the gate never tracks more than its
  capacity; an entry's fence count is exactly the number of its unreleased owners and reclaim guards,
  so releasing a fence never underflows; and on a connection that was not aborted an entry is in the
  map exactly while somebody holds a fence on it, so a request is never admitted a second time while
  an earlier first chunk or its teardown is unfinished, and no entry is left behind.\<close>

theorem gate_fences_exact:
  assumes "gate_reach capacity w"
  shows "card (dom (cg_entries (gw_gate w))) \<le> capacity \<and>
    (\<forall>key i. (key, i) \<in># gw_owners w + gw_reclaims w \<longrightarrow>
       ce_fences (cg_store (gw_gate w) i) = holders i (gw_owners w) + holders i (gw_reclaims w) \<and>
       release_entry (gw_gate w) key i \<noteq> None \<and>
       (fst key \<notin> gw_closed w \<longrightarrow>
          cg_entries (gw_gate w) key = Some i \<and> (\<forall>fresh. gate_begin (gw_gate w) key fresh = (Inl AlreadyPending, gw_gate w)))) \<and>
    (\<forall>key i. cg_entries (gw_gate w) key = Some i \<longrightarrow> 0 < holders i (gw_owners w) + holders i (gw_reclaims w))"
proof (intro conjI allI impI)
  note inv = gate_reach_inv [OF assms]
  show "card (dom (cg_entries (gw_gate w))) \<le> capacity" using inv by (simp add: gate_inv_def)
  show "0 < holders i (gw_owners w) + holders i (gw_reclaims w)" if "cg_entries (gw_gate w) key = Some i" for key i
    using gate_entry_iff [OF inv, of key i] that by (simp add: fence_count_def)
  fix key i
  assume p: "(key, i) \<in># gw_owners w + gw_reclaims w"
  have i: "i < gw_next w" "gw_keys w i = key" using inv p unfolding gate_inv_def by blast+
  have fc: "0 < fence_count w i" using holders_remove [OF p, of i] by (simp add: fence_count_def)
  show f: "ce_fences (cg_store (gw_gate w) i) = holders i (gw_owners w) + holders i (gw_reclaims w)"
    using inv i by (simp add: gate_inv_def fence_count_def)
  show "release_entry (gw_gate w) key i \<noteq> None"
    using f fc by (auto simp: release_entry_def Let_def fence_count_def sub_run_def)
  assume "fst key \<notin> gw_closed w"
  then show e: "cg_entries (gw_gate w) key = Some i" using gate_entry_iff [OF inv, of key i] i fc by simp
  show "gate_begin (gw_gate w) key fresh = (Inl AlreadyPending, gw_gate w)" for fresh using e by (simp add: gate_begin_def)
qed

lemma gate_step_outcome:
  "gate_step w w' \<Longrightarrow> i < gw_next w \<Longrightarrow> ce_outcome (cg_store (gw_gate w) i) \<noteq> OutcomePending \<Longrightarrow>
     ce_outcome (cg_store (gw_gate w') i) = ce_outcome (cg_store (gw_gate w) i)"
  by (induction rule: gate_step.induct)
    (auto simp: gate_begin_def terminate_key_locked_def abort_connection_def drop_reclaim_def Let_def
      dest!: gate_publish_effect gate_release_effect split: if_splits option.splits)

lemma gate_step_next: "gate_step w w' \<Longrightarrow> gw_next w \<le> gw_next w'"
  by (induction rule: gate_step.induct) simp_all

lemma gate_steps_outcome:
  assumes "gate_step\<^sup>*\<^sup>* w w'" "i < gw_next w" "ce_outcome (cg_store (gw_gate w) i) \<noteq> OutcomePending"
  shows "i < gw_next w' \<and> ce_outcome (cg_store (gw_gate w') i) = ce_outcome (cg_store (gw_gate w) i)"
  using assms(1)
proof (induction rule: rtranclp_induct)
  case (step y z)
  then show ?case using gate_step_outcome [OF step(2), of i] gate_step_next [OF step(2)] assms(3) by simp
qed (use assms in simp)

text \<open>C28: Admission has a single winner. The outcome of an entry that was ever created and is no longer pending
  never changes, in any continuation of the execution, whether or not its owner still holds it. Publishing an
  outcome for an entry wins exactly when the entry is still pending, whoever publishes: the owner that admits (which
  is told whether it won, and releases its fence only then), or a teardown, which turns only a pending entry of its
  key. An owner that is dropped unreleased leaves a terminal outcome, which wakes every waiter.\<close>

theorem admission_single_winner:
  assumes "gate_reach capacity w"
  shows "(\<forall>w' i. gate_step\<^sup>*\<^sup>* w w' \<and> i < gw_next w \<and> ce_outcome (cg_store (gw_gate w) i) \<noteq> OutcomePending \<longrightarrow>
            ce_outcome (cg_store (gw_gate w') i) = ce_outcome (cg_store (gw_gate w) i)) \<and>
    (\<forall>i out. out \<noteq> OutcomePending \<longrightarrow> (\<exists>won g. publish (gw_gate w) i out = Some (won, g) \<and>
       (won \<longleftrightarrow> ce_outcome (cg_store (gw_gate w) i) = OutcomePending) \<and>
       ce_outcome (cg_store g i) = (if won then out else ce_outcome (cg_store (gw_gate w) i)))) \<and>
    (\<forall>key out. out \<in> {OutcomeRefused, OutcomeAborted} \<longrightarrow> (\<exists>reclaim g. terminate_key (gw_gate w) key out = Some (reclaim, g) \<and>
       (\<forall>i. ce_outcome (cg_store g i) =
          (if cg_entries (gw_gate w) key = Some i \<and> ce_outcome (cg_store (gw_gate w) i) = OutcomePending then out
           else ce_outcome (cg_store (gw_gate w) i))))) \<and>
    (\<forall>key i. (key, i) \<in># gw_owners w \<longrightarrow>
       (\<exists>won owner' g. owner_admit (gw_gate w) \<lparr>co_key = key, co_entry = i, co_released = False\<rparr> = Some (won, owner', g) \<and>
          (won \<longleftrightarrow> ce_outcome (cg_store (gw_gate w) i) = OutcomePending) \<and> co_released owner' = won \<and>
          ce_outcome (cg_store g i) = (if won then OutcomeAdmitted else ce_outcome (cg_store (gw_gate w) i))) \<and>
       (\<exists>g. drop_owner (gw_gate w) \<lparr>co_key = key, co_entry = i, co_released = False\<rparr> = Some g \<and> wait_poll (cg_store g i) \<noteq> None))"
proof (intro conjI allI impI)
  note inv = gate_reach_inv [OF assms]
  show "ce_outcome (cg_store (gw_gate w') i) = ce_outcome (cg_store (gw_gate w) i)"
    if "gate_step\<^sup>*\<^sup>* w w' \<and> i < gw_next w \<and> ce_outcome (cg_store (gw_gate w) i) \<noteq> OutcomePending" for w' i
    using gate_steps_outcome [of w w' i] that by blast
  show "\<exists>won g. publish (gw_gate w) i out = Some (won, g) \<and> (won \<longleftrightarrow> ce_outcome (cg_store (gw_gate w) i) = OutcomePending) \<and>
       ce_outcome (cg_store g i) = (if won then out else ce_outcome (cg_store (gw_gate w) i))" if "out \<noteq> OutcomePending" for i out
    using that by (simp add: publish_def try_publish_def run_simps)
  show "\<exists>reclaim g. terminate_key (gw_gate w) key out = Some (reclaim, g) \<and> (\<forall>i. ce_outcome (cg_store g i) =
          (if cg_entries (gw_gate w) key = Some i \<and> ce_outcome (cg_store (gw_gate w) i) = OutcomePending then out
           else ce_outcome (cg_store (gw_gate w) i)))" if "out \<in> {OutcomeRefused, OutcomeAborted}" for key out
    using that by (cases "cg_entries (gw_gate w) key") (auto simp: terminate_key_def terminate_key_locked_def publish_def try_publish_def run_simps)
  fix key i
  assume o: "(key, i) \<in># gw_owners w"
  then have p: "(key, i) \<in># gw_owners w + gw_reclaims w" by simp
  have i: "i < gw_next w" using inv p unfolding gate_inv_def by blast
  have "0 < fence_count w i" using holders_remove [OF p, of i] by (simp add: fence_count_def)
  then have f: "0 < ce_fences (cg_store (gw_gate w) i)" using inv i by (simp add: gate_inv_def)
  show "\<exists>won owner' g. owner_admit (gw_gate w) \<lparr>co_key = key, co_entry = i, co_released = False\<rparr> = Some (won, owner', g) \<and>
          (won \<longleftrightarrow> ce_outcome (cg_store (gw_gate w) i) = OutcomePending) \<and> co_released owner' = won \<and>
          ce_outcome (cg_store g i) = (if won then OutcomeAdmitted else ce_outcome (cg_store (gw_gate w) i))"
    using f by (auto simp: owner_admit_def owner_release_def release_entry_def publish_def try_publish_def run_simps Let_def)
  show "\<exists>g. drop_owner (gw_gate w) \<lparr>co_key = key, co_entry = i, co_released = False\<rparr> = Some g \<and> wait_poll (cg_store g i) \<noteq> None"
    using f by (auto simp: drop_owner_def owner_release_def release_entry_def publish_def try_publish_def wait_poll_def run_simps Let_def)
qed

section \<open>A concrete run\<close>

definition demo_claimed :: gate_world where
  "demo_claimed = (gate_world_new 2)\<lparr>gw_gate := (gate_new 2)\<lparr>cg_entries := [(1, 8) \<mapsto> 0]\<rparr>, gw_owners := {#((1, 8), 0)#},
     gw_next := 1, gw_keys := (\<lambda>_. (0, 0))(0 := (1, 8))\<rparr>"

lemma demo_claimed_reach: "gate_reach 2 demo_claimed"
proof -
  have "gate_begin (gw_gate (gate_world_new 2)) (1, 8) (gw_next (gate_world_new 2)) =
      (Inr \<lparr>co_key = (1, 8), co_entry = 0, co_released = False\<rparr>, (gate_new 2)\<lparr>cg_entries := [(1, 8) \<mapsto> 0]\<rparr>)"
    by (simp add: gate_begin_def gate_world_new_def gate_new_def fun_upd_idem)
  from gate_step.begin_claim [OF _ this] show ?thesis
    by (intro gate_next [OF gate_start]) (simp add: demo_claimed_def gate_world_new_def)
qed

theorem gate_fences_exact_witness:
  "((1, 8), 0) \<in># gw_owners demo_claimed \<and> ce_fences (cg_store (gw_gate demo_claimed) 0) = 1 \<and>
   gate_begin (gw_gate demo_claimed) (1, 8) 5 = (Inl AlreadyPending, gw_gate demo_claimed)"
  using gate_fences_exact [OF demo_claimed_reach] by (simp add: demo_claimed_def gate_world_new_def)

text \<open>The owner admits and releases between a teardown's fence and its publication: the admission stands.\<close>

definition demo_fenced :: gate_world where
  "demo_fenced = demo_claimed\<lparr>gw_gate := (gw_gate demo_claimed)\<lparr>cg_store := (cg_store (gw_gate demo_claimed))(0 := new_entry\<lparr>ce_fences := 2\<rparr>)\<rparr>,
     gw_reclaims := {#((1, 8), 0)#}\<rparr>"

definition demo_admitted :: gate_world where
  "demo_admitted = demo_fenced\<lparr>gw_gate := (gw_gate demo_fenced)\<lparr>cg_store := (cg_store (gw_gate demo_fenced))
     (0 := \<lparr>ce_outcome = OutcomeAdmitted, ce_fences = 1\<rparr>)\<rparr>, gw_owners := {#}\<rparr>"

lemmas gate_demo_defs = demo_claimed_def demo_fenced_def demo_admitted_def gate_world_new_def gate_new_def new_entry_def

lemma demo_admitted_reach: "gate_reach 2 demo_admitted"
proof -
  have "terminate_key_locked (gw_gate demo_claimed) (1, 8) = (Some 0, gw_gate demo_fenced)"
    by (simp add: terminate_key_locked_def gate_demo_defs numeral_2_eq_2)
  from gate_step.fence [OF this] have f: "gate_reach 2 demo_fenced"
    by (intro gate_next [OF demo_claimed_reach]) (simp add: gate_demo_defs)
  let ?v = "demo_fenced\<lparr>gw_gate := (gw_gate demo_fenced)\<lparr>cg_store := (cg_store (gw_gate demo_fenced))
      (0 := \<lparr>ce_outcome = OutcomeAdmitted, ce_fences = 2\<rparr>)\<rparr>\<rparr>"
  have "((1, 8), 0) \<in># gw_owners demo_fenced + gw_reclaims demo_fenced" by (simp add: gate_demo_defs)
  moreover have "publish (gw_gate demo_fenced) 0 OutcomeAdmitted = Some (True, gw_gate ?v)"
    by (simp add: publish_def try_publish_def run_simps gate_demo_defs)
  ultimately have "gate_step demo_fenced (demo_fenced\<lparr>gw_gate := gw_gate ?v\<rparr>)" by (rule gate_step.publish_terminal)
  then have v: "gate_reach 2 ?v" using gate_next [OF f] by simp
  have "((1, 8), 0) \<in># gw_owners ?v" by (simp add: gate_demo_defs)
  moreover have "release_entry (gw_gate ?v) (1, 8) 0 = Some (gw_gate demo_admitted)"
    by (simp add: release_entry_def run_simps Let_def gate_demo_defs)
  ultimately have "gate_step ?v (?v\<lparr>gw_gate := gw_gate demo_admitted, gw_owners := gw_owners ?v - {#((1, 8), 0)#}\<rparr>)"
    by (rule gate_step.release_owner)
  then show ?thesis by (intro gate_next [OF v]) (simp add: gate_demo_defs)
qed

theorem admission_single_winner_witness:
  "gw_owners demo_admitted = {#} \<and>
   (\<exists>g. publish (gw_gate demo_admitted) 0 OutcomeAborted = Some (False, g) \<and> ce_outcome (cg_store g 0) = OutcomeAdmitted)"
proof -
  have "ce_outcome (cg_store (gw_gate demo_admitted) 0) = OutcomeAdmitted" by (simp add: demo_admitted_def)
  moreover have "\<exists>won g. publish (gw_gate demo_admitted) 0 OutcomeAborted = Some (won, g) \<and>
       (won \<longleftrightarrow> ce_outcome (cg_store (gw_gate demo_admitted) 0) = OutcomePending) \<and>
       ce_outcome (cg_store g 0) = (if won then OutcomeAborted else ce_outcome (cg_store (gw_gate demo_admitted) 0))"
    using admission_single_winner [OF demo_admitted_reach] by blast
  ultimately show ?thesis by (auto simp: demo_admitted_def)
qed

end
