(* ===== verification/Control.thy ===== *)
theory Control
  imports Text Wire_Release
begin

text \<open>
  The call and reply control codecs, \<open>c2-wire/src/control.rs\<close>: length-prefixed UTF-8 fields, their
  validation on decode, and the two encoders (into a new vector and into the caller's buffer).
\<close>

definition encode_error_message :: "encode_error \<Rightarrow> string" where
  "encode_error_message e =
     (case e of
        FieldTooLong field limit actual \<Rightarrow> field @ '' is too long: '' @ show_nat actual @ '' bytes > '' @ show_nat limit
      | EncodeInvalidText field reason \<Rightarrow> field @ '' is invalid: '' @ reason
      | EncodeBufferTooShort field need have_len \<Rightarrow>
          field @ '' buffer is too short: need '' @ show_nat need @ '', have '' @ show_nat have_len)"

definition STATUS_SUCCESS :: u8 where "STATUS_SUCCESS = 0"
definition STATUS_ERROR :: u8 where "STATUS_ERROR = 1"
definition STATUS_ROUTE_NOT_FOUND :: u8 where "STATUS_ROUTE_NOT_FOUND = 2"

record route_call_identity =
  ri_route_name :: str
  ri_route_uid :: str
  ri_crm_ns :: str
  ri_crm_name :: str
  ri_crm_ver :: str
  ri_abi_hash :: str
  ri_signature_hash :: str

record call_control =
  cc_identity :: route_call_identity
  cc_method_idx :: u16

definition identity_fields :: "route_call_identity \<Rightarrow> str list" where
  "identity_fields i =
     [ri_route_name i, ri_route_uid i, ri_crm_ns i, ri_crm_name i, ri_crm_ver i, ri_abi_hash i, ri_signature_hash i]"

definition encoded_call_control_len :: "route_call_identity \<Rightarrow> usize" where
  "encoded_call_control_len i = 7 + 2 + sum_list (map length (identity_fields i))"

definition CALL_TEXT_FIELDS :: "string list" where
  "CALL_TEXT_FIELDS =
     [''route_name'', ''route_uid'', ''crm_ns'', ''crm_name'', ''crm_ver'', ''abi_hash'', ''signature_hash'']"

definition text_length :: "string \<Rightarrow> str \<Rightarrow> encode_error + u8" where
  "text_length field v =
     (if length v \<le> 255 then Inr (word_of_nat (length v)) else Inl (FieldTooLong field 255 (length v)))"

definition push_text :: "bytes \<Rightarrow> string \<Rightarrow> str \<Rightarrow> encode_error + bytes" where
  "push_text buf field v = and_then (text_length field v) (\<lambda>n. Inr (buf @ [n] @ v))"

fun push_texts :: "bytes \<Rightarrow> (string \<times> str) list \<Rightarrow> encode_error + bytes" where
  "push_texts buf [] = Inr buf"
| "push_texts buf ((field, v) # rest) = and_then (push_text buf field v) (\<lambda>buf'. push_texts buf' rest)"

definition encode_call_control :: "route_call_identity \<Rightarrow> u16 \<Rightarrow> encode_error + bytes" where
  "encode_call_control i method_idx =
     and_then (push_texts [] (zip CALL_TEXT_FIELDS (identity_fields i))) (\<lambda>buf. Inr (buf @ to_le_bytes 2 method_idx))"

text \<open>Writing bytes into a slice of the caller's buffer panics out of range.\<close>

definition splice :: "bytes \<Rightarrow> usize \<Rightarrow> bytes \<Rightarrow> bytes run" where
  "splice buf off bs =
     (if off + length bs \<le> length buf then Some (take off buf @ bs @ drop (off + length bs) buf) else None)"

definition write_text :: "bytes \<Rightarrow> usize \<Rightarrow> str \<Rightarrow> (usize \<times> bytes) run" where
  "write_text buf off v =
     do {
       buf1 \<leftarrow> splice buf off [word_of_nat (length v)];
       buf2 \<leftarrow> splice buf1 (off + 1) v;
       Some (off + 1 + length v, buf2)
     }"

fun write_texts :: "bytes \<Rightarrow> usize \<Rightarrow> str list \<Rightarrow> (usize \<times> bytes) run" where
  "write_texts buf cursor [] = Some (cursor, buf)"
| "write_texts buf cursor (v # vs) = do { (cursor', buf') \<leftarrow> write_text buf cursor v; write_texts buf' cursor' vs }"

definition check_write_capacity :: "bytes \<Rightarrow> usize \<Rightarrow> usize \<Rightarrow> string \<Rightarrow> encode_error + unit" where
  "check_write_capacity buf off need field =
     (if length buf - off < need then Inl (EncodeBufferTooShort field need (length buf - off)) else Inr ())"

fun check_lengths :: "(string \<times> str) list \<Rightarrow> encode_error + unit" where
  "check_lengths [] = Inr ()"
| "check_lengths ((field, v) # rest) = and_then (text_length field v) (\<lambda>_. check_lengths rest)"

definition encode_call_control_into :: "bytes \<Rightarrow> usize \<Rightarrow> route_call_identity \<Rightarrow> u16 \<Rightarrow> ((encode_error + usize) \<times> bytes) run" where
  "encode_call_control_into buf off i method_idx =
     (let len = encoded_call_control_len i
      in case and_then (check_lengths (zip CALL_TEXT_FIELDS (identity_fields i)))
                (\<lambda>_. check_write_capacity buf off len ''call_control'') of
           Inl e \<Rightarrow> Some (Inl e, buf)
         | Inr _ \<Rightarrow>
             do {
               (cursor, buf1) \<leftarrow> write_texts buf off (identity_fields i);
               buf2 \<leftarrow> splice buf1 cursor (to_le_bytes 2 method_idx);
               Some (Inr len, buf2)
             })"

definition check_remaining :: "bytes \<Rightarrow> usize \<Rightarrow> usize \<Rightarrow> string \<Rightarrow> decode_error + unit" where
  "check_remaining buf off need field =
     (if length buf - off < need then Inl (Truncated field need (length buf - off)) else Inr ())"

definition from_utf8 :: "bytes \<Rightarrow> decode_error + str" where
  "from_utf8 bs = (if utf8_valid bs then Inr bs else Inl Utf8Error)"

definition read_text :: "bytes \<Rightarrow> usize \<Rightarrow> string \<Rightarrow> decode_error + (str \<times> usize)" where
  "read_text buf off field =
     and_then (check_remaining buf off 1 field) (\<lambda>_.
     let len = unat (buf ! off); off1 = off + 1
     in and_then (check_remaining buf off1 len field) (\<lambda>_.
        and_then (from_utf8 (subslice off1 (off1 + len) buf)) (\<lambda>v.
        if v = [] then Inl (InvalidText field ''must not be empty'') else Inr (v, off1 + len))))"

definition invalid_text :: "string \<Rightarrow> contract_error + unit \<Rightarrow> decode_error + unit" where
  "invalid_text field r = map_err (\<lambda>e. InvalidText field (contract_error_message e)) r"

definition decode_call_control :: "bytes \<Rightarrow> usize \<Rightarrow> decode_error + (call_control \<times> usize)" where
  "decode_call_control buf off =
     (if length buf - off < 9 then Inl (BufferTooShort 9 (length buf - off))
      else
        and_then (read_text buf off ''route_name'') (\<lambda>(route_name, c1).
        and_then (invalid_text ''route_name'' (validate_call_route_key ''route_name'' route_name)) (\<lambda>_.
        and_then (read_text buf c1 ''route_uid'') (\<lambda>(route_uid, c2).
        and_then (map_err (InvalidText ''route_uid'') (validate_route_uid [] route_uid)) (\<lambda>_.
        and_then (read_text buf c2 ''crm_ns'') (\<lambda>(crm_ns, c3).
        and_then (read_text buf c3 ''crm_name'') (\<lambda>(crm_name, c4).
        and_then (read_text buf c4 ''crm_ver'') (\<lambda>(crm_ver, c5).
        and_then (invalid_text ''crm tag'' (validate_crm_tag crm_ns crm_name crm_ver)) (\<lambda>_.
        and_then (read_text buf c5 ''abi_hash'') (\<lambda>(abi_hash, c6).
        and_then (invalid_text ''abi_hash'' (validate_contract_hash ''abi_hash'' abi_hash)) (\<lambda>_.
        and_then (read_text buf c6 ''signature_hash'') (\<lambda>(signature_hash, c7).
        and_then (invalid_text ''signature_hash'' (validate_contract_hash ''signature_hash'' signature_hash)) (\<lambda>_.
        and_then (check_remaining buf c7 2 ''method_idx'') (\<lambda>_.
        Inr (\<lparr>cc_identity = \<lparr>ri_route_name = route_name, ri_route_uid = route_uid, ri_crm_ns = crm_ns,
                ri_crm_name = crm_name, ri_crm_ver = crm_ver, ri_abi_hash = abi_hash, ri_signature_hash = signature_hash\<rparr>,
              cc_method_idx = from_le_bytes (subslice c7 (c7 + 2) buf)\<rparr>,
             c7 + 2 - off)))))))))))))))"

section \<open>Replies\<close>

datatype reply_control = ReplySuccess | ReplyRouteNotFound str | ReplyError bytes

definition encode_reply_control :: "reply_control \<Rightarrow> bytes" where
  "encode_reply_control ctrl =
     (case ctrl of
        ReplySuccess \<Rightarrow> [STATUS_SUCCESS]
      | ReplyRouteNotFound route_name \<Rightarrow>
          [STATUS_ROUTE_NOT_FOUND] @ to_le_bytes 4 (word_of_nat (length route_name) :: u32) @ route_name
      | ReplyError err_data \<Rightarrow>
          [STATUS_ERROR] @ to_le_bytes 4 (word_of_nat (length err_data) :: u32) @ err_data)"

definition decode_reply_control :: "bytes \<Rightarrow> usize \<Rightarrow> decode_error + (reply_control \<times> usize)" where
  "decode_reply_control buf off =
     (let remaining = length buf - off
      in if remaining < 1 then Inl (BufferTooShort 1 0)
         else
           (let status = buf ! off
            in if status = STATUS_SUCCESS then Inr (ReplySuccess, 1)
               else if status = STATUS_ERROR then
                 (if remaining < 5 then Inl (Truncated ''reply control error_len'' 5 remaining)
                  else
                    (let err_len = unat (from_le_bytes (subslice (off + 1) (off + 5) buf) :: u32); consumed = 5 + err_len
                     in if remaining < consumed then Inl (Truncated ''reply control error_data'' consumed remaining)
                        else Inr (ReplyError (subslice (off + 5) (off + 5 + err_len) buf), consumed)))
               else if status = STATUS_ROUTE_NOT_FOUND then
                 (if remaining < 5 then Inl (Truncated ''reply control route_len'' 5 remaining)
                  else
                    (let route_len = unat (from_le_bytes (subslice (off + 1) (off + 5) buf) :: u32); consumed = 5 + route_len
                     in if remaining < consumed then Inl (Truncated ''reply control route_name'' consumed remaining)
                        else
                          and_then (from_utf8 (subslice (off + 5) (off + 5 + route_len) buf)) (\<lambda>route_name.
                          and_then (invalid_text ''route_name'' (validate_call_route_key ''route_name'' route_name)) (\<lambda>_.
                          Inr (ReplyRouteNotFound route_name, consumed)))))
               else Inl (InvalidValue ''reply status'' (ucast status))))"

end
