(* ===== verification/Handshake.thy ===== *)
theory Handshake
  imports Control
begin

text \<open>
  The connection handshake, \<open>c2-wire/src/handshake.rs\<close>: the permanent 25-byte version preamble, and the
  metadata that follows it, with the client's prefix and capability bits and, in the server's answer, its
  identity and the routes with their method tables. Every loop of the decoder is a recursion on the count read
  from the wire; an index is read only after \<open>hs_check_remaining\<close> has shown that it is in range.
\<close>

definition HANDSHAKE_VERSION :: u32 where "HANDSHAKE_VERSION = 15"
definition VERSION_PREAMBLE_BODY_LEN :: u32 where "VERSION_PREAMBLE_BODY_LEN = 21"

datatype version_preamble_kind = Hello | Accepted | VersionMismatch

definition kind_as_u8 :: "version_preamble_kind \<Rightarrow> u8" where
  "kind_as_u8 k = (case k of Hello \<Rightarrow> 1 | Accepted \<Rightarrow> 2 | VersionMismatch \<Rightarrow> 3)"

definition PREAMBLE_MAGIC :: bytes where "PREAMBLE_MAGIC = [0x43, 0x32, 0x49, 0x50]"

text \<open>The array starts zeroed; bytes 4 to 11 are the request id and 13 to 15 the upper bytes of the flags.\<close>

definition encode_version_preamble :: "version_preamble_kind \<Rightarrow> bytes" where
  "encode_version_preamble kind =
     to_le_bytes 4 VERSION_PREAMBLE_BODY_LEN @ replicate 8 0 @ [if kind = Hello then 4 else 6] @ replicate 3 0 @
     PREAMBLE_MAGIC @ [kind_as_u8 kind] @ to_le_bytes 4 HANDSHAKE_VERSION"

fun check_expected :: "(string \<times> u64 \<times> u64) list \<Rightarrow> decode_error + unit" where
  "check_expected [] = Inr ()"
| "check_expected ((field, v, expected) # rest) = (if v \<noteq> expected then Inl (InvalidValue field v) else check_expected rest)"

definition validate_version_preamble_header :: "bytes \<Rightarrow> bool \<Rightarrow> decode_error + unit" where
  "validate_version_preamble_header header response =
     check_expected
       [(''version preamble length'', ucast (from_le_bytes (subslice 0 4 header) :: u32), ucast VERSION_PREAMBLE_BODY_LEN),
        (''version preamble request id'', from_le_bytes (subslice 4 12 header), 0),
        (''version preamble flags'', ucast (from_le_bytes (subslice 12 16 header) :: u32), if response then 6 else 4)]"

definition decode_version_preamble_payload :: "bytes \<Rightarrow> decode_error + (version_preamble_kind \<times> u32)" where
  "decode_version_preamble_payload payload =
     (if subslice 0 4 payload \<noteq> PREAMBLE_MAGIC then Inl (InvalidText ''version preamble magic'' ''expected C2IP'')
      else
        and_then
          (let k = payload ! 4
           in if k = 1 then Inr Hello else if k = 2 then Inr Accepted else if k = 3 then Inr VersionMismatch
              else Inl (InvalidValue ''version preamble kind'' (ucast k)))
          (\<lambda>kind.
             let version = from_le_bytes (subslice 5 9 payload) :: u32
             in if version = 0 then Inl (InvalidValue ''protocol version'' 0) else Inr (kind, version)))"

definition CAP_SHM_REQUEST :: u16 where "CAP_SHM_REQUEST = push_bit 3 1"
definition CAP_SHM_RESPONSE :: u16 where "CAP_SHM_RESPONSE = push_bit 4 1"
definition MAX_ROUTES :: usize where "MAX_ROUTES = 64"
definition MAX_CONTRACT_METHODS :: usize where "MAX_CONTRACT_METHODS = 256"
definition MAX_METHODS :: usize where "MAX_METHODS = MAX_CONTRACT_METHODS"

record method_entry =
  me_name :: str
  me_index :: u16

record route_info =
  rt_name :: str
  rt_route_uid :: str
  rt_crm_ns :: str
  rt_crm_name :: str
  rt_crm_ver :: str
  rt_abi_hash :: str
  rt_signature_hash :: str
  rt_max_payload_size :: u64
  rt_methods :: "method_entry list"

record server_identity =
  si_server_id :: str
  si_server_instance_id :: str

record handshake =
  hs_prefix :: str
  hs_capability_flags :: u16
  hs_server_identity :: "server_identity option"
  hs_routes :: "route_info list"

section \<open>Encoding\<close>

definition encode_client_handshake :: "u16 \<Rightarrow> str \<Rightarrow> encode_error + bytes" where
  "encode_client_handshake capability_flags prefix =
     and_then (push_text [] ''prefix'' prefix) (\<lambda>buf. Inr (buf @ to_le_bytes 2 capability_flags))"

definition push_count :: "bytes \<Rightarrow> string \<Rightarrow> usize \<Rightarrow> encode_error + bytes" where
  "push_count buf field n =
     (if n < 2 ^ 16 then Inr (buf @ to_le_bytes 2 (word_of_nat n :: u16)) else Inl (FieldTooLong field 65535 n))"

fun push_methods :: "bytes \<Rightarrow> method_entry list \<Rightarrow> encode_error + bytes" where
  "push_methods buf [] = Inr buf"
| "push_methods buf (m # ms) =
     and_then (push_text buf ''method name'' (me_name m)) (\<lambda>buf'. push_methods (buf' @ to_le_bytes 2 (me_index m)) ms)"

definition ROUTE_TEXT_FIELDS :: "string list" where
  "ROUTE_TEXT_FIELDS =
     [''route name'', ''route_uid'', ''crm_ns'', ''crm_name'', ''crm_ver'', ''abi_hash'', ''signature_hash'']"

definition route_texts :: "route_info \<Rightarrow> str list" where
  "route_texts r =
     [rt_name r, rt_route_uid r, rt_crm_ns r, rt_crm_name r, rt_crm_ver r, rt_abi_hash r, rt_signature_hash r]"

fun push_routes :: "bytes \<Rightarrow> route_info list \<Rightarrow> encode_error + bytes" where
  "push_routes buf [] = Inr buf"
| "push_routes buf (r # rs) =
     and_then (push_texts buf (zip ROUTE_TEXT_FIELDS (route_texts r))) (\<lambda>b1.
     and_then (push_count (b1 @ to_le_bytes 8 (rt_max_payload_size r)) ''method count'' (length (rt_methods r))) (\<lambda>b2.
     and_then (push_methods b2 (rt_methods r)) (\<lambda>b3. push_routes b3 rs)))"

definition encode_server_handshake :: "u16 \<Rightarrow> route_info list \<Rightarrow> str \<Rightarrow> server_identity \<Rightarrow> encode_error + bytes" where
  "encode_server_handshake capability_flags routes prefix identity =
     and_then (encode_client_handshake capability_flags prefix) (\<lambda>b1.
     and_then (push_text b1 ''server_id'' (si_server_id identity)) (\<lambda>b2.
     and_then (push_text b2 ''server_instance_id'' (si_server_instance_id identity)) (\<lambda>b3.
     and_then (push_count b3 ''route count'' (length routes)) (\<lambda>b4. push_routes b4 routes))))"

section \<open>Decoding\<close>

definition hs_check_remaining :: "bytes \<Rightarrow> usize \<Rightarrow> usize \<Rightarrow> string \<Rightarrow> decode_error + unit" where
  "hs_check_remaining buf off need field =
     (if off + need > length buf then Inl (Truncated field need (length buf - off)) else Inr ())"

definition read_u16 :: "bytes \<Rightarrow> usize \<Rightarrow> u16" where
  "read_u16 buf off = from_le_bytes (subslice off (off + 2) buf)"

definition read_u64 :: "bytes \<Rightarrow> usize \<Rightarrow> u64" where
  "read_u64 buf off = from_le_bytes (subslice off (off + 8) buf)"

definition read_str :: "bytes \<Rightarrow> usize \<Rightarrow> usize \<Rightarrow> decode_error + str" where
  "read_str buf off len = from_utf8 (subslice off (off + len) buf)"

text \<open>The five statements that read each text of the handshake, with the names of the length and of the text.\<close>

definition read_hs_text :: "bytes \<Rightarrow> usize \<Rightarrow> string \<Rightarrow> string \<Rightarrow> decode_error + (str \<times> usize)" where
  "read_hs_text buf off len_field field =
     and_then (hs_check_remaining buf off 1 len_field) (\<lambda>_.
     let len = unat (buf ! off); off1 = off + 1
     in and_then (hs_check_remaining buf off1 len field) (\<lambda>_.
        and_then (read_str buf off1 len) (\<lambda>v. Inr (v, off1 + len))))"

fun decode_methods :: "bytes \<Rightarrow> nat \<Rightarrow> usize \<Rightarrow> decode_error + (method_entry list \<times> usize)" where
  "decode_methods buf 0 off = Inr ([], off)"
| "decode_methods buf (Suc n) off =
     and_then (read_hs_text buf off ''method name_len'' ''method name'') (\<lambda>(m_name, o1).
     and_then (hs_check_remaining buf o1 2 ''method index'') (\<lambda>_.
     and_then (decode_methods buf n (o1 + 2)) (\<lambda>(ms, o2).
     Inr (\<lparr>me_name = m_name, me_index = read_u16 buf o1\<rparr> # ms, o2))))"

definition decode_route :: "bytes \<Rightarrow> usize \<Rightarrow> decode_error + (route_info \<times> usize)" where
  "decode_route buf off =
     and_then (read_hs_text buf off ''route name_len'' ''route name'') (\<lambda>(r_name, o1).
     and_then (invalid_text ''route_name'' (validate_call_route_key ''route_name'' r_name)) (\<lambda>_.
     and_then (read_hs_text buf o1 ''route_uid length'' ''route_uid'') (\<lambda>(route_uid, o2).
     and_then (map_err (InvalidText ''route_uid'') (validate_route_uid [] route_uid)) (\<lambda>_.
     and_then (read_hs_text buf o2 ''crm namespace length'' ''crm namespace'') (\<lambda>(crm_ns, o3).
     and_then (read_hs_text buf o3 ''crm name length'' ''crm name'') (\<lambda>(crm_name, o4).
     and_then (read_hs_text buf o4 ''crm version length'' ''crm version'') (\<lambda>(crm_ver, o5).
     and_then (invalid_text ''crm tag'' (validate_crm_tag crm_ns crm_name crm_ver)) (\<lambda>_.
     and_then (read_hs_text buf o5 ''abi_hash length'' ''abi_hash'') (\<lambda>(abi_hash, o6).
     and_then (invalid_text ''abi_hash'' (validate_contract_hash ''abi_hash'' abi_hash)) (\<lambda>_.
     and_then (read_hs_text buf o6 ''signature_hash length'' ''signature_hash'') (\<lambda>(signature_hash, o7).
     and_then (invalid_text ''signature_hash'' (validate_contract_hash ''signature_hash'' signature_hash)) (\<lambda>_.
     and_then (hs_check_remaining buf o7 8 ''max_payload_size'') (\<lambda>_.
     let max_payload_size = read_u64 buf o7; o8 = o7 + 8
     in if max_payload_size = 0 then Inl (InvalidValue ''max_payload_size'' max_payload_size)
        else
          and_then (hs_check_remaining buf o8 2 ''method count'') (\<lambda>_.
          let m_count = unat (read_u16 buf o8); o9 = o8 + 2
          in if m_count > MAX_METHODS then Inl (InvalidValue ''method count'' (word_of_nat m_count))
             else
               and_then (decode_methods buf m_count o9) (\<lambda>(methods, o10).
               Inr (\<lparr>rt_name = r_name, rt_route_uid = route_uid, rt_crm_ns = crm_ns, rt_crm_name = crm_name,
                     rt_crm_ver = crm_ver, rt_abi_hash = abi_hash, rt_signature_hash = signature_hash,
                     rt_max_payload_size = max_payload_size, rt_methods = methods\<rparr>, o10))))))))))))))))"

fun decode_routes :: "bytes \<Rightarrow> nat \<Rightarrow> usize \<Rightarrow> decode_error + (route_info list \<times> usize)" where
  "decode_routes buf 0 off = Inr ([], off)"
| "decode_routes buf (Suc n) off =
     and_then (decode_route buf off) (\<lambda>(r, o1). and_then (decode_routes buf n o1) (\<lambda>(rs, o2). Inr (r # rs, o2)))"

definition check_trailing :: "bytes \<Rightarrow> usize \<Rightarrow> decode_error + unit" where
  "check_trailing buf off =
     (if off \<noteq> length buf then Inl (InvalidValue ''trailing bytes'' (word_of_nat (length buf - off))) else Inr ())"

definition decode_handshake :: "bytes \<Rightarrow> bool \<Rightarrow> decode_error + handshake" where
  "decode_handshake buf response =
     (if length buf < 3 then Inl (BufferTooShort 3 (length buf))
      else
        and_then (read_hs_text buf 0 ''prefix length'' ''prefix'') (\<lambda>(prefix, o1).
        and_then (hs_check_remaining buf o1 2 ''capability flags'') (\<lambda>_.
        let capability_flags = read_u16 buf o1; o2 = o1 + 2
        in if capability_flags AND NOT (CAP_SHM_REQUEST OR CAP_SHM_RESPONSE) \<noteq> 0
           then Inl (InvalidValue ''capability flags'' (ucast capability_flags))
           else if \<not> response then
             and_then (check_trailing buf o2) (\<lambda>_.
             Inr \<lparr>hs_prefix = prefix, hs_capability_flags = capability_flags, hs_server_identity = None, hs_routes = []\<rparr>)
           else
             and_then (read_hs_text buf o2 ''server_id length'' ''server_id'') (\<lambda>(server_id, o3).
             and_then (read_hs_text buf o3 ''server_instance_id length'' ''server_instance_id'') (\<lambda>(server_instance_id, o4).
             and_then (map_err (InvalidText ''server_id'') (validate_server_id server_id)) (\<lambda>_.
             and_then (map_err (InvalidText ''server_instance_id'') (validate_server_id server_instance_id)) (\<lambda>_.
             and_then (hs_check_remaining buf o4 2 ''route count'') (\<lambda>_.
             let route_count = unat (read_u16 buf o4); o5 = o4 + 2
             in if route_count > MAX_ROUTES then Inl (InvalidValue ''route count'' (word_of_nat route_count))
                else
                  and_then (decode_routes buf route_count o5) (\<lambda>(routes, o6).
                  and_then (check_trailing buf o6) (\<lambda>_.
                  Inr \<lparr>hs_prefix = prefix, hs_capability_flags = capability_flags,
                       hs_server_identity = Some \<lparr>si_server_id = server_id, si_server_instance_id = server_instance_id\<rparr>,
                       hs_routes = routes\<rparr>))))))))))"

end
