(* ===== verification/Control_Proofs.thy ===== *)
theory Control_Proofs
  imports Control
begin

text \<open>
  The control codecs are exact: decoding succeeds on exactly the encodings of valid values, at any
  offset of any buffer, and the encoder into a buffer writes the same bytes as the one into a vector.
\<close>

section \<open>Bytes at an offset\<close>

definition occurs :: "bytes \<Rightarrow> usize \<Rightarrow> bytes \<Rightarrow> bool" where
  "occurs buf off bs \<longleftrightarrow> off + length bs \<le> length buf \<and> subslice off (off + length bs) buf = bs"

lemma occurs_iff: "occurs buf off bs \<longleftrightarrow> (\<exists>pre rest. buf = pre @ bs @ rest \<and> length pre = off)"
proof
  assume o: "occurs buf off bs"
  have "buf = take off buf @ take (length bs) (drop off buf) @ drop (length bs) (drop off buf)"
    by (simp only: append_take_drop_id)
  moreover have "take (length bs) (drop off buf) = bs" "length (take off buf) = off" using o by (simp_all add: occurs_def subslice_def)
  ultimately show "\<exists>pre rest. buf = pre @ bs @ rest \<and> length pre = off" by metis
next
  assume "\<exists>pre rest. buf = pre @ bs @ rest \<and> length pre = off"
  then show "occurs buf off bs" by (auto simp: occurs_def subslice_def)
qed

lemma occurs_append: "occurs buf off (xs @ ys) \<longleftrightarrow> occurs buf off xs \<and> occurs buf (off + length xs) ys"
proof -
  have "subslice off (off + length xs) buf @ subslice (off + length xs) (off + length (xs @ ys)) buf = subslice off (off + length (xs @ ys)) buf"
    by (rule slice_append) simp_all
  then show ?thesis
    unfolding occurs_def by (auto simp: add.assoc)
qed

lemma occurs_Nil: "occurs buf off [] \<longleftrightarrow> off \<le> length buf"
  by (simp add: occurs_def subslice_def)

lemma occurs_single: "occurs buf off [b] \<longleftrightarrow> off < length buf \<and> buf ! off = b"
  using slice_single [of off buf] by (auto simp: occurs_def)

lemma occurs_Cons: "occurs buf off (b # bs) \<longleftrightarrow> off < length buf \<and> buf ! off = b \<and> occurs buf (off + 1) bs"
  using occurs_append [of buf off "[b]" bs] by (simp add: occurs_single)

lemma occurs_bound: "occurs buf off bs \<Longrightarrow> off + length bs \<le> length buf"
  by (simp add: occurs_def)

lemma occurs_word:
  fixes w :: "'a::len word"
  assumes "LENGTH('a) = 8 * n" "off + n \<le> length buf"
  shows "from_le_bytes (subslice off (off + n) buf) = w \<longleftrightarrow> occurs buf off (to_le_bytes n w)"
proof
  assume "from_le_bytes (subslice off (off + n) buf) = w"
  moreover have "to_le_bytes n (from_le_bytes (subslice off (off + n) buf) :: 'a word) = subslice off (off + n) buf"
    by (rule to_from_le_bytes) (use assms in simp_all)
  ultimately show "occurs buf off (to_le_bytes n w)" using assms(2) by (simp add: occurs_def)
next
  assume "occurs buf off (to_le_bytes n w)"
  then show "from_le_bytes (subslice off (off + n) buf) = w" using assms(1) from_to_le_bytes [of n w] by (simp add: occurs_def)
qed

section \<open>Fields\<close>

definition text_bytes :: "str \<Rightarrow> bytes" where
  "text_bytes v = word_of_nat (length v) # v"

definition text_ok :: "str \<Rightarrow> bool" where
  "text_ok v \<longleftrightarrow> utf8_valid v \<and> v \<noteq> [] \<and> length v \<le> 255"

lemma length_text_bytes [simp]: "length (text_bytes v) = 1 + length v"
  by (simp add: text_bytes_def)

lemma check_remaining_Inr: "check_remaining buf off need field = Inr u \<longleftrightarrow> need \<le> length buf - off"
  by (simp add: check_remaining_def not_less)

lemma byte_length: "length v \<le> 255 \<Longrightarrow> unat (word_of_nat (length v) :: u8) = length v"
  by (simp add: unat_of_nat)

lemma slice_occurs: "off + n \<le> length buf \<Longrightarrow> subslice off (off + n) buf = v \<longleftrightarrow> length v = n \<and> occurs buf off v"
  by (auto simp: occurs_def)

lemma length_prefixed:
  assumes "off < length buf" "off + 1 + unat (buf ! off) \<le> length buf"
  shows "subslice (off + 1) (off + 1 + unat (buf ! off)) buf = v \<longleftrightarrow> length v \<le> 255 \<and> occurs buf off (text_bytes v)"
proof -
  have b: "unat (buf ! off) < 256" using unat_bound [of "buf ! off"] by simp
  have "occurs buf off (text_bytes v) \<and> length v \<le> 255 \<longleftrightarrow> unat (buf ! off) = length v \<and> occurs buf (off + 1) v"
    using assms(1) b byte_length [of v] unfolding text_bytes_def occurs_Cons by (auto simp: word_unat_eq_iff)
  then show ?thesis using slice_occurs [of "off + 1" "unat (buf ! off)" buf v] assms(2) by auto
qed

lemma read_text_iff:
  "read_text buf off field = Inr (v, c) \<longleftrightarrow> text_ok v \<and> occurs buf off (text_bytes v) \<and> c = off + length (text_bytes v)"
proof
  assume r: "read_text buf off field = Inr (v, c)"
  then have b: "off < length buf" "off + 1 + unat (buf ! off) \<le> length buf"
    by (auto simp: read_text_def and_then_Inr check_remaining_Inr Let_def)
  have "subslice (off + 1) (off + 1 + unat (buf ! off)) buf = v" "utf8_valid v" "v \<noteq> []" "c = off + 1 + unat (buf ! off)"
    using r by (auto simp: read_text_def and_then_Inr from_utf8_def Let_def split: if_splits)
  with length_prefixed [OF b, of v] slice_occurs [of "off + 1" "unat (buf ! off)" buf v] b
  show "text_ok v \<and> occurs buf off (text_bytes v) \<and> c = off + length (text_bytes v)" by (auto simp: text_ok_def)
next
  assume a: "text_ok v \<and> occurs buf off (text_bytes v) \<and> c = off + length (text_bytes v)"
  then have o: "off < length buf" "buf ! off = word_of_nat (length v)" "occurs buf (off + 1) v"
    by (auto simp: text_bytes_def occurs_Cons)
  have n: "unat (buf ! off) = length v" using a o(2) by (simp add: text_ok_def byte_length)
  have b: "off + 1 + length v \<le> length buf" using occurs_bound [OF o(3)] by simp
  have "subslice (off + 1) (off + 1 + length v) buf = v" using o(3) by (simp add: occurs_def)
  then show "read_text buf off field = Inr (v, c)"
    using a o(1) n b by (auto simp: read_text_def and_then_Inr check_remaining_Inr from_utf8_def text_ok_def Let_def)
qed

section \<open>Call control\<close>

text \<open>What the decoder requires of an identity: the field validators, in the order they are applied.\<close>

definition identity_valid :: "route_call_identity \<Rightarrow> bool" where
  "identity_valid i \<longleftrightarrow>
     list_all text_ok (identity_fields i) \<and>
     validate_call_route_key ''route_name'' (ri_route_name i) = Inr () \<and>
     validate_route_uid [] (ri_route_uid i) = Inr () \<and>
     validate_crm_tag (ri_crm_ns i) (ri_crm_name i) (ri_crm_ver i) = Inr () \<and>
     validate_contract_hash ''abi_hash'' (ri_abi_hash i) = Inr () \<and>
     validate_contract_hash ''signature_hash'' (ri_signature_hash i) = Inr ()"

definition identity_bytes :: "route_call_identity \<Rightarrow> bytes" where
  "identity_bytes i = concat (map text_bytes (identity_fields i))"

lemma push_texts_Inr:
  "length fs = length vs \<Longrightarrow>
   push_texts buf (zip fs vs) = Inr enc \<longleftrightarrow> list_all (\<lambda>v. length v \<le> 255) vs \<and> enc = buf @ concat (map text_bytes vs)"
  by (induction fs vs arbitrary: buf rule: list_induct2)
    (auto simp: push_text_def text_length_def and_then_Inr text_bytes_def)

lemma length_call_fields [simp]: "length CALL_TEXT_FIELDS = length (identity_fields i)"
  by (simp add: CALL_TEXT_FIELDS_def identity_fields_def)

lemma encode_call_control_Inr:
  "encode_call_control i m = Inr enc \<longleftrightarrow>
     list_all (\<lambda>v. length v \<le> 255) (identity_fields i) \<and> enc = identity_bytes i @ to_le_bytes 2 m"
  by (auto simp: encode_call_control_def and_then_Inr push_texts_Inr identity_bytes_def)

lemma invalid_text_Inr [simp]: "invalid_text field r = Inr u \<longleftrightarrow> r = Inr u"
  by (simp add: invalid_text_def map_err_Inr)

lemma length_identity_bytes: "length (identity_bytes i) + 2 = encoded_call_control_len i"
  by (simp add: identity_bytes_def encoded_call_control_len_def identity_fields_def)

lemma decode_call_control_iff:
  "decode_call_control buf off = Inr (cc, n) \<longleftrightarrow>
     identity_valid (cc_identity cc) \<and> occurs buf off (identity_bytes (cc_identity cc) @ to_le_bytes 2 (cc_method_idx cc)) \<and>
     n = encoded_call_control_len (cc_identity cc)"
proof -
  obtain i m where cc: "cc = \<lparr>cc_identity = i, cc_method_idx = m\<rparr>" by (cases cc)
  obtain v1 v2 v3 v4 v5 v6 v7 where
    i: "i = \<lparr>ri_route_name = v1, ri_route_uid = v2, ri_crm_ns = v3, ri_crm_name = v4, ri_crm_ver = v5, ri_abi_hash = v6, ri_signature_hash = v7\<rparr>"
    by (cases i)
  have w: "c + 2 \<le> length buf \<and> from_le_bytes (subslice c (c + 2) buf) = m \<longleftrightarrow> occurs buf c (to_le_bytes 2 m)" for c
    using occurs_word [of 2 c buf m] occurs_bound [of buf c "to_le_bytes 2 m"] by auto
  define c where "c = off + length (identity_bytes i)"
  have c: "c = Suc (Suc (Suc (Suc (Suc (Suc (Suc (off +
      (length v1 + (length v2 + (length v3 + (length v4 + (length v5 + (length v6 + length v7)))))))))))))"
    by (simp add: c_def i identity_bytes_def identity_fields_def)
  have b: "occurs buf c (to_le_bytes 2 m) \<Longrightarrow> \<not> length buf - off < 9"
    using occurs_bound [of buf c "to_le_bytes 2 m"] c by simp
  show ?thesis
    unfolding cc i using w [of c] b unfolding c
    by (auto simp: decode_call_control_def and_then_Inr read_text_iff check_remaining_Inr
        identity_valid_def identity_bytes_def identity_fields_def encoded_call_control_len_def occurs_append add.assoc)
qed

section \<open>Encoding into the caller's buffer\<close>

definition overwrite :: "bytes \<Rightarrow> usize \<Rightarrow> bytes \<Rightarrow> bytes" where
  "overwrite buf off bs = take off buf @ bs @ drop (off + length bs) buf"

lemma length_overwrite: "off + length bs \<le> length buf \<Longrightarrow> length (overwrite buf off bs) = length buf"
  by (simp add: overwrite_def)

lemma splice_eq: "off + length bs \<le> length buf \<Longrightarrow> splice buf off bs = Some (overwrite buf off bs)"
  by (simp add: splice_def overwrite_def)

lemma overwrite_overwrite:
  assumes "off + length xs + length ys \<le> length buf"
  shows "overwrite (overwrite buf off xs) (off + length xs) ys = overwrite buf off (xs @ ys)"
  using assms by (simp add: overwrite_def ac_simps)

lemma overwrite_Nil [simp]: "overwrite buf off [] = buf"
  by (simp add: overwrite_def)

lemma write_text_eq:
  assumes "off + length (text_bytes v) \<le> length buf"
  shows "write_text buf off v = Some (off + length (text_bytes v), overwrite buf off (text_bytes v))"
  using assms overwrite_overwrite [of off "[word_of_nat (length v)]" v buf]
  by (simp add: write_text_def splice_eq length_overwrite text_bytes_def)

lemma write_texts_eq:
  "off + length (concat (map text_bytes vs)) \<le> length buf \<Longrightarrow>
   write_texts buf off vs = Some (off + length (concat (map text_bytes vs)), overwrite buf off (concat (map text_bytes vs)))"
proof (induction vs arbitrary: buf off)
  case Nil
  show ?case by simp
next
  case (Cons v vs)
  let ?t = "text_bytes v" and ?r = "concat (map text_bytes vs)"
  have "off + length ?t + length ?r \<le> length buf" using Cons.prems by simp
  then have "write_texts (overwrite buf off ?t) (off + length ?t) vs
      = Some (off + length ?t + length ?r, overwrite buf off (?t @ ?r))"
    using Cons.IH [of "off + length ?t" "overwrite buf off ?t"] overwrite_overwrite [of off ?t ?r buf]
    by (simp add: length_overwrite del: length_concat)
  then show ?case using Cons.prems by (simp add: write_text_eq)
qed

lemma check_lengths_push:
  "check_lengths fvs = (case push_texts buf fvs of Inl e \<Rightarrow> Inl e | Inr _ \<Rightarrow> Inr ())"
  by (induction fvs arbitrary: buf rule: check_lengths.induct) (auto simp: push_text_def text_length_def)

lemma encode_call_control_cases:
  "(\<exists>e. encode_call_control i m = Inl e \<and> check_lengths (zip CALL_TEXT_FIELDS (identity_fields i)) = Inl e) \<or>
   (encode_call_control i m = Inr (identity_bytes i @ to_le_bytes 2 m) \<and>
    check_lengths (zip CALL_TEXT_FIELDS (identity_fields i)) = Inr ())"
proof (cases "push_texts [] (zip CALL_TEXT_FIELDS (identity_fields i))")
  case (Inl e)
  then show ?thesis by (simp add: encode_call_control_def check_lengths_push [of _ "[]"])
next
  case (Inr buf)
  then have "buf = identity_bytes i" by (simp add: push_texts_Inr identity_bytes_def)
  with Inr show ?thesis by (simp add: encode_call_control_def check_lengths_push [of _ "[]"])
qed

lemma write_call_control:
  assumes "off + encoded_call_control_len i \<le> length buf"
  shows "do { (cursor, buf1) \<leftarrow> write_texts buf off (identity_fields i); splice buf1 cursor (to_le_bytes 2 m) }
    = Some (overwrite buf off (identity_bytes i @ to_le_bytes 2 m))"
proof -
  have b: "off + length (identity_bytes i) + 2 \<le> length buf" using assms length_identity_bytes [of i] by simp
  then have "write_texts buf off (identity_fields i) = Some (off + length (identity_bytes i), overwrite buf off (identity_bytes i))"
    unfolding identity_bytes_def by (intro write_texts_eq) simp
  then show ?thesis using b by (simp add: splice_eq length_overwrite overwrite_overwrite)
qed

text \<open>C37: Encoding a call control into the caller's buffer is encoding it into a fresh vector: it fails with
  the same error, else for lack of room with the exact need and leaves the buffer as it was, else it writes
  exactly the vector's bytes at the offset, leaves every other byte as it was and returns their number; it
  never panics.\<close>

theorem call_control_into_equiv:
  "encode_call_control_into buf off i m =
     Some (case encode_call_control i m of
             Inl e \<Rightarrow> (Inl e, buf)
           | Inr enc \<Rightarrow>
               if length buf - off < length enc
               then (Inl (EncodeBufferTooShort ''call_control'' (length enc) (length buf - off)), buf)
               else (Inr (length enc), overwrite buf off enc))"
proof -
  have len: "length (identity_bytes i @ to_le_bytes 2 m) = encoded_call_control_len i"
    using length_identity_bytes [of i] by simp
  have nz: "encoded_call_control_len i > 0" by (simp add: encoded_call_control_len_def)
  show ?thesis
  proof (cases "check_lengths (zip CALL_TEXT_FIELDS (identity_fields i))")
    case (Inl e)
    then show ?thesis using encode_call_control_cases [of i m] by (auto simp: encode_call_control_into_def Let_def)
  next
    case (Inr u)
    then have e: "encode_call_control i m = Inr (identity_bytes i @ to_le_bytes 2 m)" using encode_call_control_cases [of i m] by auto
    show ?thesis
    proof (cases "length buf - off < encoded_call_control_len i")
      case True
      then show ?thesis using e Inr len by (simp add: encode_call_control_into_def check_write_capacity_def Let_def)
    next
      case False
      then have "off + encoded_call_control_len i \<le> length buf" using nz by linarith
      from write_call_control [OF this, of m] show ?thesis
        using e Inr len False
        by (auto simp: encode_call_control_into_def check_write_capacity_def Let_def bind_eq_Some_conv split: prod.splits)
    qed
  qed
qed

text \<open>The call-control decoder is the exact inverse of the encoder: it returns a control and a length at
  an offset of a buffer if and only if the control's identity passes every field's validation, its
  encoding succeeds, stands at that offset and has that length. So decoding what was encoded gives it back,
  with anything before and after, and no other bytes decode to it.\<close>

lemma call_control_exact:
  "decode_call_control buf off = Inr (cc, n) \<longleftrightarrow>
     identity_valid (cc_identity cc) \<and>
     (\<exists>enc. encode_call_control (cc_identity cc) (cc_method_idx cc) = Inr enc \<and> occurs buf off enc \<and> n = length enc)"
proof -
  have "identity_valid i \<Longrightarrow> list_all (\<lambda>v. length v \<le> 255) (identity_fields i)" for i
    by (auto simp: identity_valid_def text_ok_def list_all_iff)
  then show ?thesis
    using length_identity_bytes [of "cc_identity cc"] by (auto simp: decode_call_control_iff encode_call_control_Inr)
qed

section \<open>Reply control\<close>

text \<open>What the decoder requires of a reply: the length fits the prefix, and a route name is UTF-8 and valid.\<close>

definition reply_valid :: "reply_control \<Rightarrow> bool" where
  "reply_valid r \<longleftrightarrow>
     (case r of
        ReplySuccess \<Rightarrow> True
      | ReplyRouteNotFound v \<Rightarrow> length v < 2 ^ 32 \<and> utf8_valid v \<and> validate_call_route_key ''route_name'' v = Inr ()
      | ReplyError v \<Rightarrow> length v < 2 ^ 32)"

text \<open>A status byte, a 32-bit length and that many bytes, read at an offset.\<close>

definition reads :: "bytes \<Rightarrow> usize \<Rightarrow> u8 \<Rightarrow> bytes \<Rightarrow> bool" where
  "reads buf off status v \<longleftrightarrow>
     5 \<le> length buf - off \<and> buf ! off = status \<and>
     5 + unat (from_le_bytes (subslice (off + 1) (off + 5) buf) :: u32) \<le> length buf - off \<and>
     subslice (off + 5) (off + 5 + unat (from_le_bytes (subslice (off + 1) (off + 5) buf) :: u32)) buf = v"

lemma reads_iff:
  "reads buf off status v \<longleftrightarrow>
     length v < 2 ^ 32 \<and> occurs buf off ([status] @ to_le_bytes 4 (word_of_nat (length v) :: u32) @ v)"
proof (cases "off + 5 \<le> length buf")
  case True
  define l where "l = (from_le_bytes (subslice (off + 1) (off + 5) buf) :: u32)"
  have l: "l = w \<longleftrightarrow> occurs buf (off + 1) (to_le_bytes 4 w)" for w
    using occurs_word [of 4 "off + 1" buf w] True by (simp add: l_def add.commute)
  have b: "unat l < 2 ^ 32" using unat_bound [of l] by simp
  have n: "length v < 2 ^ 32 \<and> l = word_of_nat (length v) \<longleftrightarrow> unat l = length v"
    using b by (auto simp: word_unat_eq_iff unat_of_nat take_bit_eq_mod)
  have s: "5 + unat l \<le> length buf - off \<and> subslice (off + 5) (off + 5 + unat l) buf = v \<longleftrightarrow> unat l = length v \<and> occurs buf (off + 5) v"
    using slice_occurs [of "off + 5" "unat l" buf v] occurs_bound [of buf "off + 5" v] True by auto
  have "occurs buf off ([status] @ to_le_bytes 4 (word_of_nat (length v) :: u32) @ v) \<longleftrightarrow>
      buf ! off = status \<and> l = word_of_nat (length v) \<and> occurs buf (off + 5) v"
    using True by (simp add: occurs_append occurs_single l add.commute del: append.simps)
  then show ?thesis using n s True unfolding reads_def l_def [symmetric] by auto
next
  case False
  then show ?thesis using occurs_bound [of buf off "[status] @ to_le_bytes 4 (word_of_nat (length v) :: u32) @ v"]
    by (auto simp: reads_def)
qed

lemma decode_reply_error:
  "decode_reply_control buf off = Inr (ReplyError v, n) \<longleftrightarrow> reads buf off STATUS_ERROR v \<and> n = 5 + length v"
  by (auto simp: decode_reply_control_def reads_def STATUS_SUCCESS_def STATUS_ERROR_def STATUS_ROUTE_NOT_FOUND_def
      and_then_Inr from_utf8_def Let_def not_less)

lemma decode_reply_not_found:
  "decode_reply_control buf off = Inr (ReplyRouteNotFound v, n) \<longleftrightarrow>
     reads buf off STATUS_ROUTE_NOT_FOUND v \<and> utf8_valid v \<and> validate_call_route_key ''route_name'' v = Inr () \<and> n = 5 + length v"
  by (auto simp: decode_reply_control_def reads_def STATUS_SUCCESS_def STATUS_ERROR_def STATUS_ROUTE_NOT_FOUND_def
      and_then_Inr from_utf8_def Let_def not_less)

lemma decode_reply_success:
  "decode_reply_control buf off = Inr (ReplySuccess, n) \<longleftrightarrow> occurs buf off [STATUS_SUCCESS] \<and> n = 1"
  by (auto simp: decode_reply_control_def occurs_single STATUS_SUCCESS_def STATUS_ERROR_def STATUS_ROUTE_NOT_FOUND_def
      and_then_Inr Let_def split: if_splits)

text \<open>The reply-control decoder is the exact inverse of the encoder: it returns a reply and a length at an
  offset of a buffer if and only if the reply is one the wire can carry (a route name that validates, lengths
  below 4 GiB) and its encoding stands at that offset and has that length.\<close>

lemma reply_control_exact:
  "decode_reply_control buf off = Inr (r, n) \<longleftrightarrow>
     reply_valid r \<and> occurs buf off (encode_reply_control r) \<and> n = length (encode_reply_control r)"
  by (cases r)
    (auto simp: decode_reply_error decode_reply_not_found decode_reply_success reads_iff encode_reply_control_def reply_valid_def)


text \<open>C36: Both control decoders are the exact inverses of their encoders. A call control and a length come back at an offset
  of a buffer if and only if the control's identity passes every field's validation, its encoding succeeds, stands at
  that offset and has that length; a reply control and a length, if and only if the reply is one the wire can carry (a
  route name that validates, lengths below 4 GiB) and its encoding stands there and has that length.\<close>

theorem control_codecs_exact:
  "(decode_call_control buf off = Inr (cc, n) \<longleftrightarrow>
      identity_valid (cc_identity cc) \<and>
      (\<exists>enc. encode_call_control (cc_identity cc) (cc_method_idx cc) = Inr enc \<and> occurs buf off enc \<and> n = length enc)) \<and>
   (decode_reply_control buf off = Inr (r, n) \<longleftrightarrow>
      reply_valid r \<and> occurs buf off (encode_reply_control r) \<and> n = length (encode_reply_control r))"
  by (rule conjI [OF call_control_exact reply_control_exact])

end
