(* ===== verification/Handshake_Proofs.thy ===== *)
theory Handshake_Proofs
  imports Handshake Control_Proofs
begin

text \<open>
  The handshake codec is exact: what the decoder accepts is what the encoder writes, for the client's metadata,
  the server's answer and the version preamble.
\<close>

section \<open>Fields\<close>

definition hs_text_ok :: "str \<Rightarrow> bool" where
  "hs_text_ok v \<longleftrightarrow> utf8_valid v \<and> length v \<le> 255"

lemma hs_check_remaining_Inr: "hs_check_remaining buf off need field = Inr u \<longleftrightarrow> off + need \<le> length buf"
  by (simp add: hs_check_remaining_def not_less)

lemma read_u16_iff: "off + 2 \<le> length buf \<and> read_u16 buf off = w \<longleftrightarrow> occurs buf off (to_le_bytes 2 w)"
  using occurs_word [of 2 off buf w] occurs_bound [of buf off "to_le_bytes 2 w"] by (auto simp: read_u16_def)

lemma read_u64_iff: "off + 8 \<le> length buf \<and> read_u64 buf off = w \<longleftrightarrow> occurs buf off (to_le_bytes 8 w)"
  using occurs_word [of 8 off buf w] occurs_bound [of buf off "to_le_bytes 8 w"] by (auto simp: read_u64_def)

lemma read_count_iff:
  "off + 2 \<le> length buf \<and> unat (read_u16 buf off) = n \<longleftrightarrow> n < 2 ^ 16 \<and> occurs buf off (to_le_bytes 2 (word_of_nat n :: u16))"
proof -
  have "unat w = n \<longleftrightarrow> n < 2 ^ 16 \<and> w = word_of_nat n" for w :: u16
    using unat_bound [of w] by (auto simp: word_unat_eq_iff unat_of_nat take_bit_eq_mod)
  then show ?thesis using read_u16_iff [of off buf "word_of_nat n"] by auto
qed

lemma read_hs_text_iff:
  "read_hs_text buf off f g = Inr (v, c) \<longleftrightarrow> hs_text_ok v \<and> occurs buf off (text_bytes v) \<and> c = off + length (text_bytes v)"
proof
  assume r: "read_hs_text buf off f g = Inr (v, c)"
  then have b: "off < length buf" "off + 1 + unat (buf ! off) \<le> length buf"
    by (auto simp: read_hs_text_def and_then_Inr hs_check_remaining_Inr Let_def)
  have "subslice (off + 1) (off + 1 + unat (buf ! off)) buf = v" "utf8_valid v" "c = off + 1 + unat (buf ! off)"
    using r by (auto simp: read_hs_text_def and_then_Inr read_str_def from_utf8_def Let_def split: if_splits)
  with length_prefixed [OF b, of v] slice_occurs [of "off + 1" "unat (buf ! off)" buf v] b
  show "hs_text_ok v \<and> occurs buf off (text_bytes v) \<and> c = off + length (text_bytes v)" by (auto simp: hs_text_ok_def)
next
  assume a: "hs_text_ok v \<and> occurs buf off (text_bytes v) \<and> c = off + length (text_bytes v)"
  then have o: "off < length buf" "buf ! off = word_of_nat (length v)" "occurs buf (off + 1) v"
    by (auto simp: text_bytes_def occurs_Cons)
  have n: "unat (buf ! off) = length v" using a o(2) by (simp add: hs_text_ok_def byte_length)
  have b: "off + 1 + length v \<le> length buf" using occurs_bound [OF o(3)] by simp
  have "subslice (off + 1) (off + 1 + length v) buf = v" using o(3) by (simp add: occurs_def)
  then show "read_hs_text buf off f g = Inr (v, c)"
    using a o(1) n b by (auto simp: read_hs_text_def and_then_Inr hs_check_remaining_Inr read_str_def from_utf8_def hs_text_ok_def Let_def)
qed

section \<open>Methods and routes\<close>

definition method_bytes :: "method_entry \<Rightarrow> bytes" where
  "method_bytes m = text_bytes (me_name m) @ to_le_bytes 2 (me_index m)"

lemma length_method_bytes [simp]: "length (method_bytes m) = length (text_bytes (me_name m)) + 2"
  by (simp add: method_bytes_def)

lemma decode_methods_iff:
  "off \<le> length buf \<Longrightarrow> decode_methods buf n off = Inr (ms, c) \<longleftrightarrow>
     length ms = n \<and> list_all (\<lambda>m. hs_text_ok (me_name m)) ms \<and> occurs buf off (concat (map method_bytes ms)) \<and>
     c = off + length (concat (map method_bytes ms))"
proof (induction n arbitrary: off ms c)
  case 0
  then show ?case by (auto simp: occurs_Nil)
next
  case (Suc n)
  show ?case
  proof (cases ms)
    case Nil
    then show ?thesis by (auto simp: and_then_Inr)
  next
    case (Cons m rest)
    let ?o = "off + length (text_bytes (me_name m))"
    have "decode_methods buf (Suc n) off = Inr (ms, c) \<longleftrightarrow>
        hs_text_ok (me_name m) \<and> occurs buf off (text_bytes (me_name m)) \<and>
        (?o + 2 \<le> length buf \<and> read_u16 buf ?o = me_index m) \<and> decode_methods buf n (?o + 2) = Inr (rest, c)"
      unfolding Cons by (cases m) (auto simp: and_then_Inr read_hs_text_iff hs_check_remaining_Inr)
    also have "\<dots> \<longleftrightarrow> hs_text_ok (me_name m) \<and> occurs buf off (method_bytes m) \<and> decode_methods buf n (?o + 2) = Inr (rest, c)"
      unfolding read_u16_iff by (auto simp: method_bytes_def occurs_append)
    also have "\<dots> \<longleftrightarrow> length ms = Suc n \<and> list_all (\<lambda>m. hs_text_ok (me_name m)) ms \<and>
        occurs buf off (concat (map method_bytes ms)) \<and> c = off + length (concat (map method_bytes ms))"
      using Suc.IH [of "?o + 2" rest c] occurs_bound [of buf off "method_bytes m"]
      unfolding Cons by (auto simp: occurs_append add.assoc simp del: length_concat)
    finally show ?thesis .
  qed
qed

definition route_ok :: "route_info \<Rightarrow> bool" where
  "route_ok r \<longleftrightarrow>
     list_all hs_text_ok (route_texts r) \<and>
     validate_call_route_key ''route_name'' (rt_name r) = Inr () \<and>
     validate_route_uid [] (rt_route_uid r) = Inr () \<and>
     validate_crm_tag (rt_crm_ns r) (rt_crm_name r) (rt_crm_ver r) = Inr () \<and>
     validate_contract_hash ''abi_hash'' (rt_abi_hash r) = Inr () \<and>
     validate_contract_hash ''signature_hash'' (rt_signature_hash r) = Inr () \<and>
     rt_max_payload_size r \<noteq> 0 \<and> length (rt_methods r) \<le> MAX_METHODS \<and>
     list_all (\<lambda>m. hs_text_ok (me_name m)) (rt_methods r)"

definition route_bytes :: "route_info \<Rightarrow> bytes" where
  "route_bytes r =
     concat (map text_bytes (route_texts r)) @ to_le_bytes 8 (rt_max_payload_size r) @
     to_le_bytes 2 (word_of_nat (length (rt_methods r)) :: u16) @ concat (map method_bytes (rt_methods r))"

lemma methods_fit: "n \<le> MAX_METHODS \<Longrightarrow> n < 65536"
  by (simp add: MAX_METHODS_def MAX_CONTRACT_METHODS_def)

lemma decode_route_steps:
  fixes r :: route_info and off :: usize
  defines "c \<equiv> off + length (concat (map text_bytes (route_texts r)))"
  shows "decode_route buf off = Inr (r, e) \<longleftrightarrow>
     list_all hs_text_ok (route_texts r) \<and> occurs buf off (concat (map text_bytes (route_texts r))) \<and>
     validate_call_route_key ''route_name'' (rt_name r) = Inr () \<and>
     validate_route_uid [] (rt_route_uid r) = Inr () \<and>
     validate_crm_tag (rt_crm_ns r) (rt_crm_name r) (rt_crm_ver r) = Inr () \<and>
     validate_contract_hash ''abi_hash'' (rt_abi_hash r) = Inr () \<and>
     validate_contract_hash ''signature_hash'' (rt_signature_hash r) = Inr () \<and>
     (c + 8 \<le> length buf \<and> read_u64 buf c = rt_max_payload_size r) \<and> rt_max_payload_size r \<noteq> 0 \<and>
     c + 8 + 2 \<le> length buf \<and> unat (read_u16 buf (c + 8)) \<le> MAX_METHODS \<and>
     decode_methods buf (unat (read_u16 buf (c + 8))) (c + 8 + 2) = Inr (rt_methods r, e)"
proof -
  obtain v1 v2 v3 v4 v5 v6 v7 p ms where
    r: "r = \<lparr>rt_name = v1, rt_route_uid = v2, rt_crm_ns = v3, rt_crm_name = v4, rt_crm_ver = v5, rt_abi_hash = v6,
      rt_signature_hash = v7, rt_max_payload_size = p, rt_methods = ms\<rparr>" by (cases r)
  have c: "c = Suc (Suc (Suc (Suc (Suc (Suc (Suc (off +
      (length v1 + (length v2 + (length v3 + (length v4 + (length v5 + (length v6 + length v7)))))))))))))"
    by (simp add: c_def r route_texts_def)
  show ?thesis
    unfolding c unfolding r
    by (simp add: decode_route_def and_then_Inr read_hs_text_iff hs_check_remaining_Inr route_texts_def occurs_append
        add.assoc Let_def if_Inl_eq_Inr not_less split del: if_split) auto
qed

lemma decode_route_iff:
  "decode_route buf off = Inr (r, e) \<longleftrightarrow> route_ok r \<and> occurs buf off (route_bytes r) \<and> e = off + length (route_bytes r)"
proof -
  let ?t = "concat (map text_bytes (route_texts r))" and ?m = "concat (map method_bytes (rt_methods r))"
  define c where "c = off + length ?t"
  define n where "n = unat (read_u16 buf (c + 8))"
  have "decode_route buf off = Inr (r, e) \<longleftrightarrow>
      (route_ok r \<and> occurs buf off ?t \<and> occurs buf c (to_le_bytes 8 (rt_max_payload_size r)) \<and>
       (c + 8 + 2 \<le> length buf \<and> n = length (rt_methods r)) \<and> occurs buf (c + 8 + 2) ?m \<and> e = c + 8 + 2 + length ?m)"
    unfolding decode_route_steps read_u64_iff c_def [symmetric] n_def [symmetric] route_ok_def
    using decode_methods_iff [of "c + 8 + 2" buf n "rt_methods r" e] by auto
  also have "\<dots> \<longleftrightarrow> route_ok r \<and> occurs buf off (route_bytes r) \<and> e = off + length (route_bytes r)"
    unfolding n_def read_count_iff unfolding c_def
    by (auto simp: route_bytes_def occurs_append add.assoc route_ok_def methods_fit simp del: length_concat)
  finally show ?thesis .
qed

lemma decode_routes_iff:
  "off \<le> length buf \<Longrightarrow> decode_routes buf n off = Inr (rs, c) \<longleftrightarrow>
     length rs = n \<and> list_all route_ok rs \<and> occurs buf off (concat (map route_bytes rs)) \<and>
     c = off + length (concat (map route_bytes rs))"
proof (induction n arbitrary: off rs c)
  case 0
  then show ?case by (auto simp: occurs_Nil)
next
  case (Suc n)
  show ?case
  proof (cases rs)
    case Nil
    then show ?thesis by (auto simp: and_then_Inr)
  next
    case (Cons r rest)
    have "decode_routes buf (Suc n) off = Inr (rs, c) \<longleftrightarrow>
        route_ok r \<and> occurs buf off (route_bytes r) \<and> decode_routes buf n (off + length (route_bytes r)) = Inr (rest, c)"
      unfolding Cons by (auto simp: and_then_Inr decode_route_iff)
    also have "\<dots> \<longleftrightarrow> length rs = Suc n \<and> list_all route_ok rs \<and> occurs buf off (concat (map route_bytes rs)) \<and>
        c = off + length (concat (map route_bytes rs))"
      using Suc.IH [of "off + length (route_bytes r)" rest c] occurs_bound [of buf off "route_bytes r"]
      unfolding Cons by (auto simp: occurs_append add.assoc simp del: length_concat)
    finally show ?thesis .
  qed
qed

section \<open>Encoding\<close>

lemma push_text_Inr: "push_text buf f v = Inr b \<longleftrightarrow> length v \<le> 255 \<and> b = buf @ text_bytes v"
  by (auto simp: push_text_def text_length_def and_then_Inr text_bytes_def)

lemma push_count_Inr: "push_count buf f n = Inr b \<longleftrightarrow> n < 2 ^ 16 \<and> b = buf @ to_le_bytes 2 (word_of_nat n :: u16)"
  by (auto simp: push_count_def)

lemma push_methods_Inr:
  "push_methods buf ms = Inr b \<longleftrightarrow> list_all (\<lambda>m. length (me_name m) \<le> 255) ms \<and> b = buf @ concat (map method_bytes ms)"
  by (induction ms arbitrary: buf) (auto simp: and_then_Inr push_text_Inr method_bytes_def)

lemma length_route_fields [simp]: "length ROUTE_TEXT_FIELDS = length (route_texts r)"
  by (simp add: ROUTE_TEXT_FIELDS_def route_texts_def)

definition route_fits :: "route_info \<Rightarrow> bool" where
  "route_fits r \<longleftrightarrow>
     list_all (\<lambda>v. length v \<le> 255) (route_texts r) \<and> length (rt_methods r) < 2 ^ 16 \<and>
     list_all (\<lambda>m. length (me_name m) \<le> 255) (rt_methods r)"

lemma push_routes_Inr: "push_routes buf rs = Inr b \<longleftrightarrow> list_all route_fits rs \<and> b = buf @ concat (map route_bytes rs)"
  by (induction rs arbitrary: buf)
    (auto simp: and_then_Inr push_texts_Inr push_count_Inr push_methods_Inr route_bytes_def route_fits_def)

lemma route_ok_fits: "route_ok r \<Longrightarrow> route_fits r"
  by (auto simp: route_ok_def route_fits_def hs_text_ok_def list_all_iff methods_fit)

definition client_bytes :: "u16 \<Rightarrow> str \<Rightarrow> bytes" where
  "client_bytes caps prefix = text_bytes prefix @ to_le_bytes 2 caps"

definition server_bytes :: "u16 \<Rightarrow> route_info list \<Rightarrow> str \<Rightarrow> server_identity \<Rightarrow> bytes" where
  "server_bytes caps rs prefix i =
     client_bytes caps prefix @ text_bytes (si_server_id i) @ text_bytes (si_server_instance_id i) @
     to_le_bytes 2 (word_of_nat (length rs) :: u16) @ concat (map route_bytes rs)"

lemma encode_client_Inr: "encode_client_handshake caps prefix = Inr b \<longleftrightarrow> length prefix \<le> 255 \<and> b = client_bytes caps prefix"
  by (auto simp: encode_client_handshake_def and_then_Inr push_text_Inr client_bytes_def)

lemma encode_server_Inr:
  "encode_server_handshake caps rs prefix i = Inr b \<longleftrightarrow>
     length prefix \<le> 255 \<and> length (si_server_id i) \<le> 255 \<and> length (si_server_instance_id i) \<le> 255 \<and> length rs < 2 ^ 16 \<and>
     list_all route_fits rs \<and> b = server_bytes caps rs prefix i"
  by (auto simp: encode_server_handshake_def and_then_Inr encode_client_Inr push_text_Inr push_count_Inr push_routes_Inr server_bytes_def)

section \<open>The whole metadata\<close>

definition caps_ok :: "u16 \<Rightarrow> bool" where
  "caps_ok w \<longleftrightarrow> w AND NOT (CAP_SHM_REQUEST OR CAP_SHM_RESPONSE) = 0"

text \<open>What the decoder requires of a handshake of each direction.\<close>

definition handshake_valid :: "bool \<Rightarrow> handshake \<Rightarrow> bool" where
  "handshake_valid response h \<longleftrightarrow>
     hs_text_ok (hs_prefix h) \<and> caps_ok (hs_capability_flags h) \<and>
     (if response then
        \<exists>i. hs_server_identity h = Some i \<and> hs_text_ok (si_server_id i) \<and> hs_text_ok (si_server_instance_id i) \<and>
          validate_server_id (si_server_id i) = Inr () \<and> validate_server_id (si_server_instance_id i) = Inr () \<and>
          length (hs_routes h) \<le> MAX_ROUTES \<and> list_all route_ok (hs_routes h)
      else hs_server_identity h = None \<and> hs_routes h = [])"

definition encode_handshake :: "handshake \<Rightarrow> encode_error + bytes" where
  "encode_handshake h =
     (case hs_server_identity h of
        None \<Rightarrow> encode_client_handshake (hs_capability_flags h) (hs_prefix h)
      | Some i \<Rightarrow> encode_server_handshake (hs_capability_flags h) (hs_routes h) (hs_prefix h) i)"

lemma occurs_all: "occurs buf 0 bs \<and> length bs = length buf \<longleftrightarrow> buf = bs"
  by (auto simp: occurs_def subslice_def)

lemma check_trailing_Inr: "check_trailing buf off = Inr u \<longleftrightarrow> off = length buf"
  by (simp add: check_trailing_def)

lemma decode_client_iff:
  "decode_handshake buf False = Inr h \<longleftrightarrow> handshake_valid False h \<and> buf = client_bytes (hs_capability_flags h) (hs_prefix h)"
proof -
  obtain p f i rs where h: "h = \<lparr>hs_prefix = p, hs_capability_flags = f, hs_server_identity = i, hs_routes = rs\<rparr>" by (cases h)
  let ?c = "length (text_bytes p)"
  have "decode_handshake buf False = Inr h \<longleftrightarrow>
      3 \<le> length buf \<and> hs_text_ok p \<and> occurs buf 0 (text_bytes p) \<and> (?c + 2 \<le> length buf \<and> read_u16 buf ?c = f) \<and>
      caps_ok f \<and> ?c + 2 = length buf \<and> i = None \<and> rs = []"
    unfolding h
    by (simp add: decode_handshake_def and_then_Inr read_hs_text_iff hs_check_remaining_Inr check_trailing_Inr caps_ok_def
        Let_def if_Inl_eq_Inr not_less split del: if_split) auto
  also have "\<dots> \<longleftrightarrow> handshake_valid False h \<and> occurs buf 0 (client_bytes f p) \<and> length (client_bytes f p) = length buf"
    unfolding read_u16_iff h handshake_valid_def client_bytes_def by (auto simp: occurs_append)
  finally show ?thesis unfolding occurs_all by (simp add: h)
qed

lemma decode_server_steps:
  fixes p :: str and i :: server_identity
  defines "c1 \<equiv> length (text_bytes p)"
  defines "c2 \<equiv> c1 + 2 + length (text_bytes (si_server_id i))"
  defines "c3 \<equiv> c2 + length (text_bytes (si_server_instance_id i))"
  shows "decode_handshake buf True = Inr \<lparr>hs_prefix = p, hs_capability_flags = f, hs_server_identity = Some i, hs_routes = rs\<rparr> \<longleftrightarrow>
     3 \<le> length buf \<and> hs_text_ok p \<and> occurs buf 0 (text_bytes p) \<and> (c1 + 2 \<le> length buf \<and> read_u16 buf c1 = f) \<and> caps_ok f \<and>
     hs_text_ok (si_server_id i) \<and> occurs buf (c1 + 2) (text_bytes (si_server_id i)) \<and>
     hs_text_ok (si_server_instance_id i) \<and> occurs buf c2 (text_bytes (si_server_instance_id i)) \<and>
     validate_server_id (si_server_id i) = Inr () \<and> validate_server_id (si_server_instance_id i) = Inr () \<and>
     c3 + 2 \<le> length buf \<and> unat (read_u16 buf c3) \<le> MAX_ROUTES \<and>
     decode_routes buf (unat (read_u16 buf c3)) (c3 + 2) = Inr (rs, length buf)"
  unfolding c3_def c2_def c1_def
  by (cases i) (simp add: decode_handshake_def and_then_Inr read_hs_text_iff hs_check_remaining_Inr check_trailing_Inr caps_ok_def
      Let_def if_Inl_eq_Inr not_less add.assoc split del: if_split, auto)

lemma decode_server_iff:
  "decode_handshake buf True = Inr h \<longleftrightarrow>
     handshake_valid True h \<and> buf = server_bytes (hs_capability_flags h) (hs_routes h) (hs_prefix h) (the (hs_server_identity h))"
proof (cases "hs_server_identity h")
  case None
  then have "decode_handshake buf True \<noteq> Inr h"
    by (auto simp: decode_handshake_def and_then_Inr Let_def if_Inl_eq_Inr split del: if_split)
  with None show ?thesis by (simp add: handshake_valid_def)
next
  case (Some i)
  obtain p f rs where h: "h = \<lparr>hs_prefix = p, hs_capability_flags = f, hs_server_identity = Some i, hs_routes = rs\<rparr>"
    using Some by (cases h) auto
  define c1 where "c1 = length (text_bytes p)"
  define c2 where "c2 = c1 + 2 + length (text_bytes (si_server_id i))"
  define c3 where "c3 = c2 + length (text_bytes (si_server_instance_id i))"
  define n where "n = unat (read_u16 buf c3)"
  let ?r = "concat (map route_bytes rs)"
  have "decode_handshake buf True = Inr h \<longleftrightarrow>
     3 \<le> length buf \<and> handshake_valid True h \<and> occurs buf 0 (text_bytes p) \<and> occurs buf c1 (to_le_bytes 2 f) \<and>
     occurs buf (c1 + 2) (text_bytes (si_server_id i)) \<and> occurs buf c2 (text_bytes (si_server_instance_id i)) \<and>
     (c3 + 2 \<le> length buf \<and> n = length rs) \<and> occurs buf (c3 + 2) ?r \<and> length buf = c3 + 2 + length ?r"
    unfolding h decode_server_steps read_u16_iff c1_def [symmetric] c2_def [symmetric] c3_def [symmetric] n_def [symmetric]
    using decode_routes_iff [of "c3 + 2" buf n rs "length buf"] by (auto simp: handshake_valid_def)
  also have "\<dots> \<longleftrightarrow> handshake_valid True h \<and> occurs buf 0 (server_bytes f rs p i) \<and> length (server_bytes f rs p i) = length buf"
    unfolding n_def read_count_iff unfolding c3_def c2_def c1_def
    by (auto simp: server_bytes_def client_bytes_def occurs_append add.assoc h handshake_valid_def MAX_ROUTES_def simp del: length_concat)
  finally show ?thesis unfolding occurs_all by (simp add: h)
qed

text \<open>C38: The handshake decoder is the exact inverse of the encoders, in both directions: it accepts a
  metadata buffer with a result if and only if the result satisfies every validator and count limit of its
  direction and the buffer is, to its last byte, the encoding of that result. A client's metadata never
  decodes as a server's answer with an identity missing, nor the other way round.\<close>

theorem handshake_exact:
  "decode_handshake buf response = Inr h \<longleftrightarrow> handshake_valid response h \<and> encode_handshake h = Inr buf"
proof (cases response)
  case True
  have "handshake_valid True h \<Longrightarrow> encode_handshake h = Inr buf \<longleftrightarrow>
      buf = server_bytes (hs_capability_flags h) (hs_routes h) (hs_prefix h) (the (hs_server_identity h))"
    by (auto simp: handshake_valid_def encode_handshake_def encode_server_Inr hs_text_ok_def MAX_ROUTES_def list_all_iff route_ok_fits)
  then show ?thesis using True decode_server_iff by auto
next
  case False
  have "handshake_valid False h \<Longrightarrow> encode_handshake h = Inr buf \<longleftrightarrow> buf = client_bytes (hs_capability_flags h) (hs_prefix h)"
    by (auto simp: handshake_valid_def encode_handshake_def encode_client_Inr hs_text_ok_def)
  then show ?thesis using False decode_client_iff by auto
qed

section \<open>The version preamble\<close>

text \<open>The 25 bytes of a preamble of any protocol version.\<close>

definition preamble_bytes :: "bool \<Rightarrow> version_preamble_kind \<Rightarrow> u32 \<Rightarrow> bytes" where
  "preamble_bytes response kind version =
     (to_le_bytes 4 VERSION_PREAMBLE_BODY_LEN @ to_le_bytes 8 (0 :: u64) @ to_le_bytes 4 (if response then 6 else 4 :: u32)) @
     PREAMBLE_MAGIC @ [kind_as_u8 kind] @ to_le_bytes 4 version"

lemma encode_preamble_bytes: "encode_version_preamble kind = preamble_bytes (kind \<noteq> Hello) kind HANDSHAKE_VERSION"
  by (cases kind; simp only:; code_simp)

lemma preamble_header_iff:
  assumes "length header = 16"
  shows "validate_version_preamble_header header response = Inr () \<longleftrightarrow>
    header = to_le_bytes 4 VERSION_PREAMBLE_BODY_LEN @ to_le_bytes 8 (0 :: u64) @ to_le_bytes 4 (if response then 6 else 4 :: u32)"
proof -
  let ?f = "if response then 6 else 4 :: u32"
  have u: "(ucast (w :: u32) :: u64) = ucast w' \<longleftrightarrow> w = w'" for w w'
    using unat_bound [of w] unat_bound [of w'] by (auto simp: word_unat_eq_iff unsigned_ucast_eq take_bit_eq_mod)
  have "validate_version_preamble_header header response = Inr () \<longleftrightarrow>
      from_le_bytes (subslice 0 (0 + 4) header) = VERSION_PREAMBLE_BODY_LEN \<and> from_le_bytes (subslice 4 (4 + 8) header) = (0 :: u64) \<and>
      from_le_bytes (subslice 12 (12 + 4) header) = ?f"
    using u [of _ VERSION_PREAMBLE_BODY_LEN] u [of _ 6] u [of _ 4] by (simp add: validate_version_preamble_header_def)
  also have "\<dots> \<longleftrightarrow> occurs header 0 (to_le_bytes 4 VERSION_PREAMBLE_BODY_LEN @ to_le_bytes 8 (0 :: u64) @ to_le_bytes 4 ?f)"
    unfolding occurs_append using assms occurs_word [of 4 0 header VERSION_PREAMBLE_BODY_LEN] occurs_word [of 8 4 header "0 :: u64"]
      occurs_word [of 4 12 header ?f] by simp
  finally show ?thesis using assms occurs_all [of header "to_le_bytes 4 VERSION_PREAMBLE_BODY_LEN @ to_le_bytes 8 (0 :: u64) @ to_le_bytes 4 ?f"]
    by simp
qed

lemma preamble_payload_iff:
  assumes "length payload = 9"
  shows "decode_version_preamble_payload payload = Inr (kind, version) \<longleftrightarrow>
    version \<noteq> 0 \<and> payload = PREAMBLE_MAGIC @ [kind_as_u8 kind] @ to_le_bytes 4 version"
proof -
  have l: "length PREAMBLE_MAGIC = 4" by (simp add: PREAMBLE_MAGIC_def)
  have m: "subslice 0 (0 + 4) payload = PREAMBLE_MAGIC \<longleftrightarrow> occurs payload 0 PREAMBLE_MAGIC"
    using assms slice_occurs [of 0 4 payload PREAMBLE_MAGIC] by (simp add: PREAMBLE_MAGIC_def)
  have "decode_version_preamble_payload payload = Inr (kind, version) \<longleftrightarrow>
      subslice 0 (0 + 4) payload = PREAMBLE_MAGIC \<and> payload ! 4 = kind_as_u8 kind \<and>
      from_le_bytes (subslice 5 (5 + 4) payload) = version \<and> version \<noteq> 0"
    by (cases kind) (auto simp: decode_version_preamble_payload_def and_then_Inr kind_as_u8_def Let_def)
  also have "\<dots> \<longleftrightarrow> version \<noteq> 0 \<and> occurs payload 0 (PREAMBLE_MAGIC @ [kind_as_u8 kind] @ to_le_bytes 4 version)"
    unfolding m occurs_append occurs_single using assms l occurs_word [of 4 5 payload version] by auto
  finally show ?thesis using assms occurs_all [of payload "PREAMBLE_MAGIC @ [kind_as_u8 kind] @ to_le_bytes 4 version"]
    by (simp add: PREAMBLE_MAGIC_def)
qed

end
