(* ===== verification/C2_Error.thy ===== *)
theory C2_Error
  imports Text
begin

text \<open>
  The error wire format of \<open>c2-error/src/lib.rs\<close>: the table of error codes, the envelope and its two
  directions. The JSON serializer (\<open>serde_json\<close>) is a parameter: \<open>to_vec\<close> and \<open>from_slice\<close> on envelopes.
\<close>

datatype error_code =
    Unknown | ResourceInputDeserializing | ResourceOutputSerializing | ResourceFunctionExecuting |
    ResourceInputFromBuffer | ClientInputSerializing | ClientOutputDeserializing | ClientCallingResource |
    ClientOutputFromBuffer | ResourceNotFound | ResourceUnavailable | ResourceAlreadyRegistered | RouteStale |
    RegistryUnavailable | WriteConflict | ResourceClosed | ResourceRemoved | ContractMismatch | IdentityMismatch |
    RouteCatalogCompacted | RouteWatchUnavailable | ProtocolViolation | FallbackDenied | CallDeadlineExceeded |
    UnsupportedCallMode | CallCapacityExceeded

text \<open>The table that the macro expands: variant, wire value and name.\<close>

definition ERROR_CODE_REGISTRY :: "(error_code \<times> u16 \<times> string) list" where
  "ERROR_CODE_REGISTRY =
     [(Unknown, 0, ''Unknown''), (ResourceInputDeserializing, 1, ''ResourceInputDeserializing''),
      (ResourceOutputSerializing, 2, ''ResourceOutputSerializing''),
      (ResourceFunctionExecuting, 3, ''ResourceFunctionExecuting''),
      (ResourceInputFromBuffer, 4, ''ResourceInputFromBuffer''),
      (ClientInputSerializing, 5, ''ClientInputSerializing''),
      (ClientOutputDeserializing, 6, ''ClientOutputDeserializing''),
      (ClientCallingResource, 7, ''ClientCallingResource''), (ClientOutputFromBuffer, 8, ''ClientOutputFromBuffer''),
      (ResourceNotFound, 701, ''ResourceNotFound''), (ResourceUnavailable, 702, ''ResourceUnavailable''),
      (ResourceAlreadyRegistered, 703, ''ResourceAlreadyRegistered''), (RouteStale, 704, ''RouteStale''),
      (RegistryUnavailable, 705, ''RegistryUnavailable''), (WriteConflict, 706, ''WriteConflict''),
      (ResourceClosed, 707, ''ResourceClosed''), (ResourceRemoved, 708, ''ResourceRemoved''),
      (ContractMismatch, 709, ''ContractMismatch''), (IdentityMismatch, 710, ''IdentityMismatch''),
      (RouteCatalogCompacted, 711, ''RouteCatalogCompacted''),
      (RouteWatchUnavailable, 712, ''RouteWatchUnavailable''), (ProtocolViolation, 713, ''ProtocolViolation''),
      (FallbackDenied, 714, ''FallbackDenied''), (CallDeadlineExceeded, 715, ''CallDeadlineExceeded''),
      (UnsupportedCallMode, 716, ''UnsupportedCallMode''), (CallCapacityExceeded, 717, ''CallCapacityExceeded'')]"

definition error_code_u16 :: "error_code \<Rightarrow> u16" where
  "error_code_u16 c = fst (the (map_of ERROR_CODE_REGISTRY c))"

definition error_code_name :: "error_code \<Rightarrow> string" where
  "error_code_name c = snd (the (map_of ERROR_CODE_REGISTRY c))"

definition error_code_try_from :: "u16 \<Rightarrow> error_code option" where
  "error_code_try_from v = map_option fst (find (\<lambda>(_, w, _). w = v) ERROR_CODE_REGISTRY)"

definition ERROR_WIRE_MAGIC :: bytes where "ERROR_WIRE_MAGIC = [0x43, 0x32, 0x45, 0x31]"
definition ERROR_WIRE_VERSION :: u16 where "ERROR_WIRE_VERSION = 1"

record c2_error =
  c2_code :: error_code
  c2_message :: str
  c2_details :: "str \<rightharpoonup> str"

datatype c2_error_decode_error =
    MissingMagic
  | InvalidJson string
  | UnsupportedVersion u16
  | CodeNameMismatch u16 string str

definition c2_error_decode_message :: "c2_error_decode_error \<Rightarrow> string" where
  "c2_error_decode_message e =
     (case e of
        MissingMagic \<Rightarrow> ''invalid C2 error wire payload: missing C2E1 envelope magic''
      | InvalidJson err \<Rightarrow> ''invalid C2 error wire JSON envelope: '' @ err
      | UnsupportedVersion version \<Rightarrow> ''unsupported C2 error wire version: '' @ show_nat (unat version)
      | CodeNameMismatch code expected actual \<Rightarrow>
          ''invalid C2 error wire name for code '' @ show_nat (unat code) @ '': expected '' @ expected @ '', got '' @ text_string actual)"

record c2_error_envelope =
  en_version :: u16
  en_code :: u16
  en_name :: str
  en_message :: str
  en_details :: "str \<rightharpoonup> str"

definition c2_error_new :: "error_code \<Rightarrow> str \<Rightarrow> c2_error" where
  "c2_error_new code message = \<lparr>c2_code = code, c2_message = message, c2_details = Map.empty\<rparr>"

definition c2_error_unknown :: "str \<Rightarrow> c2_error" where
  "c2_error_unknown message = c2_error_new Unknown message"

definition with_details :: "c2_error \<Rightarrow> (str \<rightharpoonup> str) \<Rightarrow> c2_error" where
  "with_details e details = e\<lparr>c2_details := details\<rparr>"

definition envelope :: "c2_error \<Rightarrow> c2_error_envelope" where
  "envelope e =
     \<lparr>en_version = ERROR_WIRE_VERSION, en_code = error_code_u16 (c2_code e), en_name = str_of (error_code_name (c2_code e)),
      en_message = c2_message e, en_details = c2_details e\<rparr>"

definition to_wire_bytes :: "(c2_error_envelope \<Rightarrow> string + bytes) \<Rightarrow> c2_error \<Rightarrow> bytes run" where
  "to_wire_bytes to_vec e = (case to_vec (envelope e) of Inl _ \<Rightarrow> None | Inr json \<Rightarrow> Some (ERROR_WIRE_MAGIC @ json))"

definition or_insert :: "str \<Rightarrow> str \<Rightarrow> (str \<rightharpoonup> str) \<Rightarrow> (str \<rightharpoonup> str)" where
  "or_insert k v m = (case m k of None \<Rightarrow> m(k \<mapsto> v) | Some _ \<Rightarrow> m)"

definition from_envelope :: "c2_error_envelope \<Rightarrow> c2_error_decode_error + c2_error" where
  "from_envelope env =
     (if en_version env \<noteq> ERROR_WIRE_VERSION then Inl (UnsupportedVersion (en_version env))
      else case error_code_try_from (en_code env) of
        Some code \<Rightarrow>
          if en_name env \<noteq> str_of (error_code_name code)
          then Inl (CodeNameMismatch (en_code env) (error_code_name code) (en_name env))
          else Inr \<lparr>c2_code = code, c2_message = en_message env, c2_details = en_details env\<rparr>
      | None \<Rightarrow>
          (let number = str_of (show_nat (unat (en_code env)));
               details = or_insert (str_of ''unknown_name'') (en_name env)
                 (or_insert (str_of ''unknown_code'') number (en_details env))
           in Inr \<lparr>c2_code = Unknown,
                   c2_message = str_of ''Unknown error code '' @ number @ str_of '' ('' @ en_name env @ str_of ''): '' @ en_message env,
                   c2_details = details\<rparr>))"

definition from_wire_bytes :: "(bytes \<Rightarrow> string + c2_error_envelope) \<Rightarrow> bytes \<Rightarrow> c2_error_decode_error + c2_error option" where
  "from_wire_bytes from_slice data =
     (if data = [] then Inr None
      else if take (length ERROR_WIRE_MAGIC) data \<noteq> ERROR_WIRE_MAGIC then Inl MissingMagic
      else
        and_then (map_err InvalidJson (from_slice (drop (length ERROR_WIRE_MAGIC) data))) (\<lambda>env.
        and_then (from_envelope env) (\<lambda>e. Inr (Some e))))"

definition c2_error_display :: "c2_error \<Rightarrow> str" where
  "c2_error_display e = str_of (error_code_name (c2_code e)) @ str_of '': '' @ c2_message e"

section \<open>The code table\<close>

lemma registry_distinct:
  "distinct (map (\<lambda>(c, _, _). c) ERROR_CODE_REGISTRY) \<and> distinct (map (\<lambda>(_, w, _). w) ERROR_CODE_REGISTRY) \<and>
   distinct (map (\<lambda>(_, _, n). n) ERROR_CODE_REGISTRY)"
  by code_simp

lemma error_code_values [simp]: "error_code_try_from (error_code_u16 c) = Some c"
  by (cases c; simp only:; code_simp)

lemma registry_lookup: "(c, w, n) \<in> set ERROR_CODE_REGISTRY \<Longrightarrow> error_code_u16 c = w"
  using registry_distinct by (auto simp: error_code_u16_def split_def comp_def)

lemma find_in_set: "find P xs = Some x \<Longrightarrow> x \<in> set xs \<and> P x"
  by (induction xs) (auto split: if_splits)

lemma error_code_try_from_iff: "error_code_try_from w = Some c \<longleftrightarrow> error_code_u16 c = w"
proof
  assume "error_code_try_from w = Some c"
  then obtain e where e: "find (\<lambda>(_, v, _). v = w) ERROR_CODE_REGISTRY = Some e" "fst e = c"
    by (auto simp: error_code_try_from_def)
  obtain n where "(c, w, n) \<in> set ERROR_CODE_REGISTRY" using find_in_set [OF e(1)] e(2) by (cases e) auto
  then show "error_code_u16 c = w" by (rule registry_lookup)
qed auto

section \<open>The wire format\<close>

text \<open>What the serializer documents: what it writes, it reads back.\<close>

definition json_roundtrip :: "('v \<Rightarrow> string + bytes) \<Rightarrow> (bytes \<Rightarrow> string + 'v) \<Rightarrow> bool" where
  "json_roundtrip to_vec from_slice \<longleftrightarrow> (\<forall>v json. to_vec v = Inr json \<longrightarrow> from_slice json = Inr v)"

lemma json_roundtripD: "json_roundtrip to_vec from_slice \<Longrightarrow> to_vec v = Inr json \<Longrightarrow> from_slice json = Inr v"
  by (simp add: json_roundtrip_def)

lemma from_envelope_envelope: "from_envelope (envelope e) = Inr e"
  by (simp add: from_envelope_def envelope_def)

text \<open>C39: Errors survive the wire: given a serializer that reads back what it writes, an error's bytes decode
  to that error, whatever its code, message and details. An envelope of this version whose code is in the table
  is accepted exactly under the table's name, and one whose code is not in the table becomes an
  unknown error whose message names the code, the name and the message it came with, and whose details are
  the decimal code under \<open>unknown_code\<close> and the name under \<open>unknown_name\<close>, overridden by every detail it
  came with.\<close>

theorem error_wire_roundtrip:
  assumes "json_roundtrip to_vec from_slice"
  shows "(to_wire_bytes to_vec e = Some bs \<longrightarrow> from_wire_bytes from_slice bs = Inr (Some e)) \<and>
    (\<forall>env code. en_version env = ERROR_WIRE_VERSION \<and> error_code_u16 code = en_code env \<longrightarrow>
       (isl (from_envelope env) \<longleftrightarrow> en_name env \<noteq> str_of (error_code_name code)) \<and>
       (\<forall>e'. from_envelope env = Inr e' \<longrightarrow> envelope e' = env)) \<and>
    (\<forall>env. en_version env = ERROR_WIRE_VERSION \<and> (\<forall>code. error_code_u16 code \<noteq> en_code env) \<longrightarrow>
       from_envelope env = Inr \<lparr>c2_code = Unknown,
         c2_message = str_of ''Unknown error code '' @ str_of (show_nat (unat (en_code env))) @ str_of '' ('' @ en_name env @
           str_of ''): '' @ en_message env,
         c2_details = [str_of ''unknown_code'' \<mapsto> str_of (show_nat (unat (en_code env))), str_of ''unknown_name'' \<mapsto> en_name env] ++
           en_details env\<rparr>)"
proof (intro conjI allI impI)
  assume "to_wire_bytes to_vec e = Some bs"
  then obtain json where j: "to_vec (envelope e) = Inr json" "bs = ERROR_WIRE_MAGIC @ json"
    by (auto simp: to_wire_bytes_def split: sum.splits)
  then have "from_slice json = Inr (envelope e)" using json_roundtripD [OF assms] by blast
  then show "from_wire_bytes from_slice bs = Inr (Some e)"
    using j(2) by (simp add: from_wire_bytes_def ERROR_WIRE_MAGIC_def map_err_def from_envelope_envelope)
next
  fix env :: c2_error_envelope and code
  assume "en_version env = ERROR_WIRE_VERSION \<and> error_code_u16 code = en_code env"
  then have v: "en_version env = ERROR_WIRE_VERSION" and c: "error_code_try_from (en_code env) = Some code"
    and u: "error_code_u16 code = en_code env" by (auto simp: error_code_try_from_iff)
  show "isl (from_envelope env) \<longleftrightarrow> en_name env \<noteq> str_of (error_code_name code)" by (simp add: from_envelope_def v c)
  show "envelope e' = env" if "from_envelope env = Inr e'" for e'
    using that by (intro c2_error_envelope.equality) (auto simp: from_envelope_def envelope_def v c u split: if_splits)
next
  fix env :: c2_error_envelope
  assume a: "en_version env = ERROR_WIRE_VERSION \<and> (\<forall>code. error_code_u16 code \<noteq> en_code env)"
  then have "error_code_try_from (en_code env) = None" using error_code_try_from_iff [of "en_code env"] by (cases "error_code_try_from (en_code env)") auto
  moreover have "or_insert k' x' (or_insert k x m) = [k \<mapsto> x, k' \<mapsto> x'] ++ m" if "k \<noteq> k'" for k k' x x' m
    using that by (auto simp: or_insert_def map_add_def fun_eq_iff split: option.splits)
  moreover have "str_of ''unknown_code'' \<noteq> str_of ''unknown_name''" by code_simp
  ultimately show "from_envelope env = Inr \<lparr>c2_code = Unknown,
         c2_message = str_of ''Unknown error code '' @ str_of (show_nat (unat (en_code env))) @ str_of '' ('' @ en_name env @
           str_of ''): '' @ en_message env,
         c2_details = [str_of ''unknown_code'' \<mapsto> str_of (show_nat (unat (en_code env))), str_of ''unknown_name'' \<mapsto> en_name env] ++
           en_details env\<rparr>"
    using a by (simp add: from_envelope_def Let_def)
qed

text \<open>A serializer of envelopes without details that reads back what it writes.\<close>

definition plain_to_vec :: "c2_error_envelope \<Rightarrow> string + bytes" where
  "plain_to_vec env =
     (if en_details env = Map.empty \<and> length (en_name env) \<le> 255
      then Inr (to_le_bytes 2 (en_version env) @ to_le_bytes 2 (en_code env) @ [word_of_nat (length (en_name env))] @
             en_name env @ en_message env)
      else Inl ''unsupported'')"

definition plain_from_slice :: "bytes \<Rightarrow> string + c2_error_envelope" where
  "plain_from_slice bs =
     (if length bs < 5 then Inl ''short''
      else
        (let n = unat (bs ! 4)
         in Inr \<lparr>en_version = from_le_bytes (take 2 bs), en_code = from_le_bytes (take 2 (drop 2 bs)),
              en_name = take n (drop 5 bs), en_message = drop (5 + n) bs, en_details = Map.empty\<rparr>))"

lemma plain_roundtrip: "json_roundtrip plain_to_vec plain_from_slice"
proof -
  have "plain_from_slice (to_le_bytes 2 v @ to_le_bytes 2 c @ [word_of_nat (length n)] @ n @ m) =
      Inr \<lparr>en_version = v, en_code = c, en_name = n, en_message = m, en_details = Map.empty\<rparr>"
    if "length n \<le> 255" for v c :: u16 and n m :: str
    using that by (simp add: plain_from_slice_def nth_append unat_of_nat take_bit_eq_mod from_to_le_bytes Let_def)
  then show ?thesis by (auto simp: json_roundtrip_def plain_to_vec_def split: if_splits)
qed

theorem error_wire_roundtrip_witness:
  "\<exists>bs. to_wire_bytes plain_to_vec (c2_error_new RouteStale [0x67]) = Some bs \<and>
     from_wire_bytes plain_from_slice bs = Inr (Some (c2_error_new RouteStale [0x67]))"
proof -
  obtain bs where "to_wire_bytes plain_to_vec (c2_error_new RouteStale [0x67]) = Some bs"
    by (simp add: to_wire_bytes_def plain_to_vec_def envelope_def c2_error_new_def error_code_name_def ERROR_CODE_REGISTRY_def str_of_def)
  then show ?thesis using error_wire_roundtrip [OF plain_roundtrip, of "c2_error_new RouteStale [0x67]" bs] by blast
qed

end
