(* ===== verification/Route_Control.thy ===== *)
theory Route_Control
  imports C2_Error Handshake
begin

text \<open>
  The control messages whose bodies are JSON: pending-route attestation (\<open>c2-wire/src/registration_control.rs\<close>),
  the route catalog (\<open>route_catalog_control.rs\<close>) and the one-byte shutdown signals (\<open>shutdown_control.rs\<close>). The
  JSON serializer is a parameter of every encoder and decoder; tags and validation are the code's own.
\<close>

section \<open>Tagged payloads\<close>

definition encode_json_payload :: "('v \<Rightarrow> string + bytes) \<Rightarrow> msg_type \<Rightarrow> 'v \<Rightarrow> string + bytes" where
  "encode_json_payload to_vec tag v = and_then (to_vec v) (\<lambda>json. Inr ([as_byte tag] @ json))"

definition split_tag :: "string \<Rightarrow> bytes \<Rightarrow> msg_type \<Rightarrow> string + bytes" where
  "split_tag what payload expected =
     (case payload of
        [] \<Rightarrow> Inl (what @ '' payload is empty'')
      | tag # body \<Rightarrow> if tag \<noteq> as_byte expected then Inl (what @ '' payload tag mismatch'') else Inr body)"

definition PENDING_LABEL :: string where "PENDING_LABEL = ''pending route attestation''"
definition CATALOG_LABEL :: string where "CATALOG_LABEL = ''route catalog control''"

text \<open>A decoder: the tag, the JSON body, the validation.\<close>

definition decode_validated :: "string \<Rightarrow> msg_type \<Rightarrow> (bytes \<Rightarrow> string + 'v) \<Rightarrow> ('v \<Rightarrow> string + unit) \<Rightarrow> bytes \<Rightarrow> string + 'v" where
  "decode_validated what tag from_slice validate payload =
     and_then (split_tag what payload tag) (\<lambda>body.
     and_then (from_slice body) (\<lambda>v.
     and_then (validate v) (\<lambda>_. Inr v)))"

definition validate_route_name :: "str \<Rightarrow> string + unit" where
  "validate_route_name v = map_err contract_error_message (validate_call_route_key ''route_name'' v)"

section \<open>Pending routes\<close>

record attestation_request =
  aq_route_name :: str
  aq_registration_token :: str

record attestation =
  at_route_name :: str
  at_route_uid :: str
  at_crm_ns :: str
  at_crm_name :: str
  at_crm_ver :: str
  at_abi_hash :: str
  at_signature_hash :: str
  at_method_names :: "str list"
  at_max_payload_size :: u64

datatype attestation_response = Attested attestation | Rejected str str

definition validate_registration_token :: "str \<Rightarrow> string + unit" where
  "validate_registration_token v =
     (if v = [] then Inl ''registration_token must not be empty''
      else if length v > MAX_WIRE_TEXT_BYTES
        then Inl (''registration_token is too long: '' @ show_nat (length v) @ '' bytes > '' @ show_nat MAX_WIRE_TEXT_BYTES)
      else if list_ex (\<lambda>b. b \<le> 0x20 \<or> b = 0x2F \<or> b = 0x5C) v then Inl ''registration_token contains an invalid character''
      else Inr ())"

fun check_method_names :: "str list \<Rightarrow> string + unit" where
  "check_method_names [] = Inr ()"
| "check_method_names (n # ns) =
     (if length n > 255 then Inl (''method name is too long: '' @ show_nat (length n) @ '' bytes > 255'') else check_method_names ns)"

definition validate_attested_contract :: "attestation \<Rightarrow> string + unit" where
  "validate_attested_contract c =
     and_then (validate_route_name (at_route_name c)) (\<lambda>_.
     and_then (map_err contract_error_message (validate_crm_tag (at_crm_ns c) (at_crm_name c) (at_crm_ver c))) (\<lambda>_.
     and_then (map_err contract_error_message (validate_contract_hash ''abi_hash'' (at_abi_hash c))) (\<lambda>_.
     and_then (map_err contract_error_message (validate_contract_hash ''signature_hash'' (at_signature_hash c))) (\<lambda>_.
     and_then (validate_route_uid ''route_uid '' (at_route_uid c)) (\<lambda>_.
     if at_max_payload_size c = 0 then Inl ''max_payload_size must be > 0''
     else if length (at_method_names c) > MAX_METHODS
       then Inl (''method count is too large: '' @ show_nat (length (at_method_names c)) @ '' > '' @ show_nat MAX_METHODS)
     else check_method_names (at_method_names c))))))"

definition encode_attestation_request :: "(attestation_request \<Rightarrow> string + bytes) \<Rightarrow> str \<Rightarrow> str \<Rightarrow> string + bytes" where
  "encode_attestation_request to_vec route_name token =
     encode_json_payload to_vec PendingRouteAttest \<lparr>aq_route_name = route_name, aq_registration_token = token\<rparr>"

definition validate_attestation_request :: "attestation_request \<Rightarrow> string + unit" where
  "validate_attestation_request r =
     and_then (validate_route_name (aq_route_name r)) (\<lambda>_. validate_registration_token (aq_registration_token r))"

definition decode_attestation_request :: "(bytes \<Rightarrow> string + attestation_request) \<Rightarrow> bytes \<Rightarrow> string + attestation_request" where
  "decode_attestation_request from_slice payload =
     decode_validated PENDING_LABEL PendingRouteAttest from_slice validate_attestation_request payload"

definition encode_attestation_response :: "(attestation_response \<Rightarrow> string + bytes) \<Rightarrow> attestation_response \<Rightarrow> string + bytes" where
  "encode_attestation_response to_vec r = encode_json_payload to_vec PendingRouteAttestAck r"

definition validate_attestation_response :: "attestation_response \<Rightarrow> string + unit" where
  "validate_attestation_response r =
     (case r of Attested contract \<Rightarrow> validate_attested_contract contract | Rejected _ _ \<Rightarrow> Inr ())"

definition decode_attestation_response :: "(bytes \<Rightarrow> string + attestation_response) \<Rightarrow> bytes \<Rightarrow> string + attestation_response" where
  "decode_attestation_response from_slice payload =
     decode_validated PENDING_LABEL PendingRouteAttestAck from_slice validate_attestation_response payload"

section \<open>The route catalog\<close>

record route_contract_wire =
  cw_route_name :: str
  cw_crm_ns :: str
  cw_crm_name :: str
  cw_crm_ver :: str
  cw_abi_hash :: str
  cw_signature_hash :: str

datatype route_state_wire = StateReady | StateClosed
datatype route_state_reason_wire = RegisterCommitted | ExplicitUnregister | Shutdown

record route_method_wire =
  mw_name :: str
  mw_index :: u16

record route_record_wire =
  rw_route_name :: str
  rw_route_uid :: str
  rw_owner_server_id :: str
  rw_owner_server_instance_id :: str
  rw_contract :: route_contract_wire
  rw_methods :: "route_method_wire list"
  rw_max_payload_size :: u64
  rw_state :: route_state_wire
  rw_state_reason :: route_state_reason_wire

datatype route_selector = SelectAll | SelectRouteName str | SelectContract route_contract_wire

record route_list_request =
  lq_selector :: route_selector

record route_list_response =
  lr_routes :: "route_record_wire list"

record route_lookup_request =
  uq_expected :: route_contract_wire
  uq_observed_route_uid :: "str option"

datatype route_lookup_response =
    LookupReady route_record_wire
  | LookupNotFound str
  | LookupRemoved str "str option"
  | LookupClosed str str route_state_reason_wire
  | LookupStale route_record_wire
  | LookupContractMismatch route_record_wire

record route_nack =
  nk_error :: c2_error_envelope

definition validate_contract :: "route_contract_wire \<Rightarrow> string + unit" where
  "validate_contract c =
     and_then (validate_route_name (cw_route_name c)) (\<lambda>_.
     and_then (map_err contract_error_message (validate_crm_tag (cw_crm_ns c) (cw_crm_name c) (cw_crm_ver c))) (\<lambda>_.
     and_then (map_err contract_error_message (validate_contract_hash ''abi_hash'' (cw_abi_hash c))) (\<lambda>_.
     map_err contract_error_message (validate_contract_hash ''signature_hash'' (cw_signature_hash c)))))"

text \<open>The loop over the methods of a record, with the names and indexes already seen.\<close>

fun check_methods :: "str set \<Rightarrow> u16 set \<Rightarrow> route_method_wire list \<Rightarrow> string + unit" where
  "check_methods names indexes [] = Inr ()"
| "check_methods names indexes (m # ms) =
     (if mw_name m = [] then Inl ''method name must not be empty''
      else if length (mw_name m) > 255 then Inl (''method name is too long: '' @ show_nat (length (mw_name m)) @ '' bytes > 255'')
      else if mw_name m \<in> names then Inl (''duplicate method name: '' @ text_string (mw_name m))
      else if mw_index m \<in> indexes then Inl (''duplicate method index: '' @ show_nat (unat (mw_index m)))
      else check_methods (insert (mw_name m) names) (insert (mw_index m) indexes) ms)"

definition validate_route_record :: "route_record_wire \<Rightarrow> string + unit" where
  "validate_route_record r =
     and_then (validate_route_uid ''route_uid '' (rw_route_uid r)) (\<lambda>_.
     and_then (validate_server_id (rw_owner_server_id r)) (\<lambda>_.
     and_then (validate_server_id (rw_owner_server_instance_id r)) (\<lambda>_.
     and_then (validate_contract (rw_contract r)) (\<lambda>_.
     if cw_route_name (rw_contract r) \<noteq> rw_route_name r then Inl ''route record contract route_name must match route_name''
     else if rw_max_payload_size r = 0 then Inl ''max_payload_size must be > 0''
     else if length (rw_methods r) > MAX_METHODS
       then Inl (''method count is too large: '' @ show_nat (length (rw_methods r)) @ '' > '' @ show_nat MAX_METHODS)
     else check_methods {} {} (rw_methods r)))))"

definition validate_selector :: "route_selector \<Rightarrow> string + unit" where
  "validate_selector s =
     (case s of
        SelectAll \<Rightarrow> Inr ()
      | SelectRouteName route_name \<Rightarrow> validate_route_name route_name
      | SelectContract expected \<Rightarrow> validate_contract expected)"

definition validate_route_list_request :: "route_list_request \<Rightarrow> string + unit" where
  "validate_route_list_request r = validate_selector (lq_selector r)"

fun check_routes :: "str set \<Rightarrow> str set \<Rightarrow> route_record_wire list \<Rightarrow> string + unit" where
  "check_routes names uids [] = Inr ()"
| "check_routes names uids (r # rs) =
     and_then (validate_route_record r) (\<lambda>_.
     if rw_route_name r \<in> names then Inl (''duplicate route_name in route list: '' @ text_string (rw_route_name r))
     else if rw_route_uid r \<in> uids then Inl (''duplicate route_uid in route list: '' @ text_string (rw_route_uid r))
     else check_routes (insert (rw_route_name r) names) (insert (rw_route_uid r) uids) rs)"

definition validate_route_list_response :: "route_list_response \<Rightarrow> string + unit" where
  "validate_route_list_response r = check_routes {} {} (lr_routes r)"

definition validate_opt_uid :: "str option \<Rightarrow> string + unit" where
  "validate_opt_uid u = (case u of None \<Rightarrow> Inr () | Some uid \<Rightarrow> validate_route_uid ''route_uid '' uid)"

definition validate_route_lookup_request :: "route_lookup_request \<Rightarrow> string + unit" where
  "validate_route_lookup_request r =
     and_then (validate_contract (uq_expected r)) (\<lambda>_. validate_opt_uid (uq_observed_route_uid r))"

definition validate_route_lookup_response :: "route_lookup_response \<Rightarrow> string + unit" where
  "validate_route_lookup_response r =
     (case r of
        LookupReady current \<Rightarrow> validate_route_record current
      | LookupStale current \<Rightarrow> validate_route_record current
      | LookupContractMismatch current \<Rightarrow> validate_route_record current
      | LookupNotFound route_name \<Rightarrow> validate_route_name route_name
      | LookupRemoved route_name uid \<Rightarrow> and_then (validate_route_name route_name) (\<lambda>_. validate_opt_uid uid)
      | LookupClosed route_name uid _ \<Rightarrow>
          and_then (validate_route_name route_name) (\<lambda>_. validate_route_uid ''route_uid '' uid))"

definition validate_error_envelope :: "c2_error_envelope \<Rightarrow> string + unit" where
  "validate_error_envelope e =
     (if en_version e \<noteq> ERROR_WIRE_VERSION then Inl (''unsupported C2 error envelope version '' @ show_nat (unat (en_version e)))
      else case error_code_try_from (en_code e) of
        None \<Rightarrow> Inl (''unknown C2 error code '' @ show_nat (unat (en_code e)))
      | Some code \<Rightarrow>
          if en_name e \<noteq> str_of (error_code_name code)
          then Inl (''C2 error envelope name mismatch for code '' @ show_nat (unat (en_code e)) @ '': expected '' @
                 error_code_name code @ '', got '' @ text_string (en_name e))
          else Inr ())"

definition validate_route_nack :: "route_nack \<Rightarrow> string + unit" where
  "validate_route_nack n = validate_error_envelope (nk_error n)"

definition encode_route_list_request :: "(route_list_request \<Rightarrow> string + bytes) \<Rightarrow> route_list_request \<Rightarrow> string + bytes" where
  "encode_route_list_request to_vec r = encode_json_payload to_vec RouteList r"

definition decode_route_list_request :: "(bytes \<Rightarrow> string + route_list_request) \<Rightarrow> bytes \<Rightarrow> string + route_list_request" where
  "decode_route_list_request from_slice payload =
     decode_validated CATALOG_LABEL RouteList from_slice validate_route_list_request payload"

definition encode_route_list_response :: "(route_list_response \<Rightarrow> string + bytes) \<Rightarrow> route_list_response \<Rightarrow> string + bytes" where
  "encode_route_list_response to_vec r = encode_json_payload to_vec RouteListAck r"

definition decode_route_list_response :: "(bytes \<Rightarrow> string + route_list_response) \<Rightarrow> bytes \<Rightarrow> string + route_list_response" where
  "decode_route_list_response from_slice payload =
     decode_validated CATALOG_LABEL RouteListAck from_slice validate_route_list_response payload"

definition encode_route_lookup_request :: "(route_lookup_request \<Rightarrow> string + bytes) \<Rightarrow> route_lookup_request \<Rightarrow> string + bytes" where
  "encode_route_lookup_request to_vec r = encode_json_payload to_vec RouteLookup r"

definition decode_route_lookup_request :: "(bytes \<Rightarrow> string + route_lookup_request) \<Rightarrow> bytes \<Rightarrow> string + route_lookup_request" where
  "decode_route_lookup_request from_slice payload =
     decode_validated CATALOG_LABEL RouteLookup from_slice validate_route_lookup_request payload"

definition encode_route_lookup_response :: "(route_lookup_response \<Rightarrow> string + bytes) \<Rightarrow> route_lookup_response \<Rightarrow> string + bytes" where
  "encode_route_lookup_response to_vec r = encode_json_payload to_vec RouteLookupAck r"

definition decode_route_lookup_response :: "(bytes \<Rightarrow> string + route_lookup_response) \<Rightarrow> bytes \<Rightarrow> string + route_lookup_response" where
  "decode_route_lookup_response from_slice payload =
     decode_validated CATALOG_LABEL RouteLookupAck from_slice validate_route_lookup_response payload"

definition encode_route_nack :: "(route_nack \<Rightarrow> string + bytes) \<Rightarrow> route_nack \<Rightarrow> string + bytes" where
  "encode_route_nack to_vec n = encode_json_payload to_vec RouteNack n"

definition decode_route_nack :: "(bytes \<Rightarrow> string + route_nack) \<Rightarrow> bytes \<Rightarrow> string + route_nack" where
  "decode_route_nack from_slice payload = decode_validated CATALOG_LABEL RouteNack from_slice validate_route_nack payload"

section \<open>Shutdown signals\<close>

definition SHUTDOWN_ACK_BYTES :: bytes where "SHUTDOWN_ACK_BYTES = [as_byte ShutdownAck]"
definition SHUTDOWN_CLIENT_BYTES :: bytes where "SHUTDOWN_CLIENT_BYTES = [as_byte ShutdownClient]"

definition encode_shutdown_ack :: bytes where "encode_shutdown_ack = SHUTDOWN_ACK_BYTES"
definition encode_shutdown_initiate :: bytes where "encode_shutdown_initiate = SHUTDOWN_CLIENT_BYTES"

definition decode_shutdown_ack :: "bytes \<Rightarrow> string + unit" where
  "decode_shutdown_ack payload =
     (if payload \<noteq> SHUTDOWN_ACK_BYTES then Inl ''shutdown ack must be exactly one ShutdownAck byte'' else Inr ())"

definition decode_shutdown_initiate :: "bytes \<Rightarrow> string + unit" where
  "decode_shutdown_initiate payload =
     (if payload \<noteq> SHUTDOWN_CLIENT_BYTES then Inl ''shutdown initiate must be exactly one ShutdownClient byte'' else Inr ())"

section \<open>What the decoders accept\<close>

lemma split_tag_Inr: "split_tag what payload tag = Inr body \<longleftrightarrow> payload = as_byte tag # body"
  by (auto simp: split_tag_def split: list.splits)

lemma decode_validated_Inr:
  "decode_validated what tag from_slice validate payload = Inr v \<longleftrightarrow>
     (\<exists>body. payload = as_byte tag # body \<and> from_slice body = Inr v) \<and> validate v = Inr ()"
  by (auto simp: decode_validated_def and_then_Inr split_tag_Inr)

lemma decode_encoded_json:
  assumes "json_roundtrip to_vec from_slice" "encode_json_payload to_vec tag v = Inr payload"
  shows "decode_validated what tag from_slice validate payload = and_then (validate v) (\<lambda>_. Inr v)"
proof -
  obtain json where "to_vec v = Inr json" "payload = as_byte tag # json"
    using assms(2) by (auto simp: encode_json_payload_def and_then_Inr)
  then show ?thesis using json_roundtripD [OF assms(1)] by (simp add: decode_validated_def split_tag_def)
qed

lemma check_methods_Inr:
  "check_methods names indexes ms = Inr () \<longleftrightarrow>
     (\<forall>m\<in>set ms. mw_name m \<noteq> [] \<and> length (mw_name m) \<le> 255) \<and>
     distinct (map mw_name ms) \<and> distinct (map mw_index ms) \<and>
     mw_name ` set ms \<inter> names = {} \<and> mw_index ` set ms \<inter> indexes = {}"
  by (induction ms arbitrary: names indexes) auto

text \<open>What is required of a record of the catalog.\<close>

definition route_record_ok :: "route_record_wire \<Rightarrow> bool" where
  "route_record_ok r \<longleftrightarrow>
     validate_route_uid ''route_uid '' (rw_route_uid r) = Inr () \<and>
     validate_server_id (rw_owner_server_id r) = Inr () \<and> validate_server_id (rw_owner_server_instance_id r) = Inr () \<and>
     validate_contract (rw_contract r) = Inr () \<and> cw_route_name (rw_contract r) = rw_route_name r \<and>
     rw_max_payload_size r \<noteq> 0 \<and> length (rw_methods r) \<le> MAX_METHODS \<and>
     (\<forall>m\<in>set (rw_methods r). mw_name m \<noteq> [] \<and> length (mw_name m) \<le> 255) \<and>
     distinct (map mw_name (rw_methods r)) \<and> distinct (map mw_index (rw_methods r))"

lemma validate_route_record_Inr: "validate_route_record r = Inr () \<longleftrightarrow> route_record_ok r"
  by (auto simp: validate_route_record_def route_record_ok_def and_then_Inr check_methods_Inr)

lemma check_routes_Inr:
  "check_routes names uids rs = Inr () \<longleftrightarrow>
     (\<forall>r\<in>set rs. route_record_ok r) \<and> distinct (map rw_route_name rs) \<and> distinct (map rw_route_uid rs) \<and>
     rw_route_name ` set rs \<inter> names = {} \<and> rw_route_uid ` set rs \<inter> uids = {}"
  by (induction rs arbitrary: names uids) (auto simp: and_then_Inr validate_route_record_Inr)

text \<open>C40: The catalog decoder admits only unambiguous catalogs: a route-list response is accepted exactly
  when its payload carries the response's tag, its body deserializes, every record is valid (with the
  contract's route name its own, and its methods' names and indexes pairwise different), and no two
  records share a name or a route identifier. With a serializer that reads back what it writes, an encoded
  response decodes to itself exactly when it is such a catalog.\<close>

theorem route_list_exact:
  assumes "json_roundtrip to_vec from_slice"
  shows "(decode_route_list_response from_slice payload = Inr resp \<longleftrightarrow>
      (\<exists>body. payload = as_byte RouteListAck # body \<and> from_slice body = Inr resp) \<and>
      (\<forall>r\<in>set (lr_routes resp). route_record_ok r) \<and>
      distinct (map rw_route_name (lr_routes resp)) \<and> distinct (map rw_route_uid (lr_routes resp))) \<and>
    (\<forall>sent. encode_route_list_response to_vec sent = Inr payload \<longrightarrow>
      (decode_route_list_response from_slice payload = Inr resp \<longleftrightarrow>
        resp = sent \<and> (\<forall>r\<in>set (lr_routes sent). route_record_ok r) \<and>
        distinct (map rw_route_name (lr_routes sent)) \<and> distinct (map rw_route_uid (lr_routes sent))))"
proof (intro conjI allI impI)
  show "decode_route_list_response from_slice payload = Inr resp \<longleftrightarrow>
      (\<exists>body. payload = as_byte RouteListAck # body \<and> from_slice body = Inr resp) \<and>
      (\<forall>r\<in>set (lr_routes resp). route_record_ok r) \<and>
      distinct (map rw_route_name (lr_routes resp)) \<and> distinct (map rw_route_uid (lr_routes resp))"
    by (simp add: decode_route_list_response_def decode_validated_Inr validate_route_list_response_def check_routes_Inr)
next
  fix sent
  assume "encode_route_list_response to_vec sent = Inr payload"
  from decode_encoded_json [OF assms this [unfolded encode_route_list_response_def], of CATALOG_LABEL validate_route_list_response]
  show "decode_route_list_response from_slice payload = Inr resp \<longleftrightarrow>
      resp = sent \<and> (\<forall>r\<in>set (lr_routes sent). route_record_ok r) \<and>
      distinct (map rw_route_name (lr_routes sent)) \<and> distinct (map rw_route_uid (lr_routes sent))"
    by (auto simp: decode_route_list_response_def and_then_Inr validate_route_list_response_def check_routes_Inr)
qed

text \<open>A catalog of one route with one method, and a serializer of just that catalog.\<close>

definition hash_text :: str where "hash_text = replicate 64 0x61"

definition sample_route :: route_record_wire where
  "sample_route =
     \<lparr>rw_route_name = [0x67], rw_route_uid = [0x75], rw_owner_server_id = [0x73], rw_owner_server_instance_id = [0x69],
      rw_contract = \<lparr>cw_route_name = [0x67], cw_crm_ns = [0x6E], cw_crm_name = [0x6D], cw_crm_ver = [0x31],
        cw_abi_hash = hash_text, cw_signature_hash = hash_text\<rparr>,
      rw_methods = [\<lparr>mw_name = [0x70], mw_index = 0\<rparr>], rw_max_payload_size = 1024, rw_state = StateReady,
      rw_state_reason = RegisterCommitted\<rparr>"

definition catalog_to_vec :: "route_list_response \<Rightarrow> string + bytes" where
  "catalog_to_vec r = (if r = \<lparr>lr_routes = [sample_route]\<rparr> then Inr [0x7B, 0x7D] else Inl ''unsupported'')"

definition catalog_from_slice :: "bytes \<Rightarrow> string + route_list_response" where
  "catalog_from_slice bs = (if bs = [0x7B, 0x7D] then Inr \<lparr>lr_routes = [sample_route]\<rparr> else Inl ''invalid JSON'')"

lemma sample_route_ok: "route_record_ok sample_route"
  by (simp add: route_record_ok_def sample_route_def hash_text_def validate_route_uid_def validate_server_id_def validate_id_def
      validate_contract_def validate_route_name_def validate_call_route_key_def validate_route_text_field_def validate_crm_tag_def
      validate_contract_text_field_def validate_wire_len_def validate_contract_hash_def lower_hex_byte_def text_chars_def
      trim_chars_def is_whitespace_def is_control_def map_err_def MAX_WIRE_TEXT_BYTES_def CONTRACT_HASH_HEX_BYTES_def
      MAX_METHODS_def MAX_CONTRACT_METHODS_def list_all_iff)

theorem route_list_exact_witness:
  "\<exists>payload. encode_route_list_response catalog_to_vec \<lparr>lr_routes = [sample_route]\<rparr> = Inr payload \<and>
     decode_route_list_response catalog_from_slice payload = Inr \<lparr>lr_routes = [sample_route]\<rparr>"
proof -
  have j: "json_roundtrip catalog_to_vec catalog_from_slice"
    by (auto simp: json_roundtrip_def catalog_to_vec_def catalog_from_slice_def split: if_splits)
  have e: "encode_route_list_response catalog_to_vec \<lparr>lr_routes = [sample_route]\<rparr> = Inr (as_byte RouteListAck # [0x7B, 0x7D])"
    by (simp add: encode_route_list_response_def encode_json_payload_def catalog_to_vec_def)
  from route_list_exact [OF j] e sample_route_ok show ?thesis by fastforce
qed

end
