(* ===== verification/Relay_Table.thy ===== *)
theory Relay_Table
  imports F64 Text "HOL-Library.List_Lexorder" "HOL-Library.Product_Lexorder"
begin

text \<open>
  The relay's route table, \<open>c2-http/src/relay/route_table.rs\<close> with the types of \<open>types.rs\<close>: active routes and tombstones
  keyed by route name and relay, peers, and the relay's logical clock. The URL parser (\<open>reqwest::Url\<close>) is a
  parameter \<open>parse\<close>; the wall clock, the monotonic instants and the iteration order of a hash map are arguments
  of the operations that read them.
\<close>

section \<open>Data\<close>

datatype locality = Local | Peer

record route_entry =
  re_name :: str
  re_relay_id :: str
  re_relay_url :: str
  re_server_id :: "str option"
  re_server_instance_id :: "str option"
  re_ipc_address :: "str option"
  re_crm_ns :: str
  re_crm_name :: str
  re_crm_ver :: str
  re_abi_hash :: str
  re_signature_hash :: str
  re_max_payload_size :: u64
  re_route_uid :: str
  re_locality :: locality
  re_registered_at :: f64

record upstream_endpoint_key =
  uk_address :: str
  uk_server_id :: str
  uk_server_instance_id :: str

record route_tombstone =
  tb_name :: str
  tb_relay_id :: str
  tb_removed_at :: f64
  tb_server_id :: "str option"
  tb_observed_at :: nat

record relay_route_info =
  ro_name :: str
  ro_relay_url :: str
  ro_ipc_address :: "str option"
  ro_server_id :: "str option"
  ro_server_instance_id :: "str option"
  ro_crm_ns :: str
  ro_crm_name :: str
  ro_crm_ver :: str
  ro_abi_hash :: str
  ro_signature_hash :: str
  ro_max_payload_size :: u64
  ro_route_uid :: str

datatype peer_status = Alive | Suspect | Dead

record peer_info =
  pi_relay_id :: str
  pi_url :: str
  pi_route_count :: u32
  pi_last_heartbeat :: nat
  pi_status :: peer_status

record registration_scope =
  rg_name :: str
  rg_server_id :: str
  rg_server_instance_id :: str
  rg_route_uid :: str

type_synonym route_key = "str \<times> str"

record route_table =
  rt_routes :: "route_key \<rightharpoonup> route_entry"
  rt_tombstones :: "route_key \<rightharpoonup> route_tombstone"
  rt_withdrawn :: "route_key \<rightharpoonup> registration_scope"
  rt_peers :: "str \<rightharpoonup> peer_info"
  rt_relay_id :: str
  rt_next_timestamp :: f64

datatype tombstone_gc_reason = ReplacedByActiveRoute | RetentionExpired

definition gc_reason_as_str :: "tombstone_gc_reason \<Rightarrow> string" where
  "gc_reason_as_str r =
     (case r of ReplacedByActiveRoute \<Rightarrow> ''replaced-by-active-route'' | RetentionExpired \<Rightarrow> ''retention-expired'')"

definition from_route :: "route_entry \<Rightarrow> upstream_endpoint_key option" where
  "from_route e =
     (if re_locality e \<noteq> Local then None
      else case (re_ipc_address e, re_server_id e, re_server_instance_id e) of
        (Some a, Some s, Some i) \<Rightarrow> Some \<lparr>uk_address = a, uk_server_id = s, uk_server_instance_id = i\<rparr>
      | _ \<Rightarrow> None)"

definition to_route_info :: "route_entry \<Rightarrow> relay_route_info" where
  "to_route_info e =
     (let is_local = (re_locality e = Local)
      in \<lparr>ro_name = re_name e, ro_relay_url = re_relay_url e,
          ro_ipc_address = (if is_local then re_ipc_address e else None),
          ro_server_id = (if is_local then re_server_id e else None),
          ro_server_instance_id = (if is_local then re_server_instance_id e else None),
          ro_crm_ns = re_crm_ns e, ro_crm_name = re_crm_name e, ro_crm_ver = re_crm_ver e, ro_abi_hash = re_abi_hash e,
          ro_signature_hash = re_signature_hash e, ro_max_payload_size = re_max_payload_size e, ro_route_uid = re_route_uid e\<rparr>)"

definition local_route_matches :: "route_entry \<Rightarrow> route_entry \<Rightarrow> bool" where
  "local_route_matches e expected \<longleftrightarrow>
     re_name e = re_name expected \<and> re_relay_id e = re_relay_id expected \<and> re_server_id e = re_server_id expected \<and>
     re_server_instance_id e = re_server_instance_id expected \<and> re_ipc_address e = re_ipc_address expected \<and>
     re_crm_ns e = re_crm_ns expected \<and> re_crm_name e = re_crm_name expected \<and> re_crm_ver e = re_crm_ver expected \<and>
     re_abi_hash e = re_abi_hash expected \<and> re_signature_hash e = re_signature_hash expected \<and>
     re_max_payload_size e = re_max_payload_size expected \<and> re_route_uid e = re_route_uid expected \<and>
     re_locality e = Local \<and> re_locality expected = Local"

section \<open>Validation\<close>

record url =
  url_scheme :: str
  url_host :: "str option"
  url_query :: "str option"
  url_fragment :: "str option"
  url_username :: str
  url_password :: "str option"

definition is_ok :: "'e + 'a \<Rightarrow> bool" where
  "is_ok r = (case r of Inl _ \<Rightarrow> False | Inr _ \<Rightarrow> True)"

definition valid_relay_url :: "(str \<Rightarrow> url option) \<Rightarrow> str \<Rightarrow> bool" where
  "valid_relay_url parse s =
     (case parse s of
        Some u \<Rightarrow>
          (url_scheme u = [0x68, 0x74, 0x74, 0x70] \<or> url_scheme u = [0x68, 0x74, 0x74, 0x70, 0x73]) \<and> url_host u \<noteq> None \<and>
          url_query u = None \<and> url_fragment u = None \<and> url_username u = [] \<and> url_password u = None
      | None \<Rightarrow> False)"

definition valid_route_name :: "str \<Rightarrow> bool" where
  "valid_route_name v = is_ok (validate_call_route_key ''route name'' v)"

definition valid_relay_id :: "str \<Rightarrow> bool" where
  "valid_relay_id v = is_ok (validate_relay_id v)"

definition valid_crm_tag :: "str \<Rightarrow> str \<Rightarrow> str \<Rightarrow> bool" where
  "valid_crm_tag n m v = is_ok (validate_crm_tag n m v)"

definition valid_server_id :: "str \<Rightarrow> bool" where
  "valid_server_id v \<longleftrightarrow> is_ok (validate_server_id v) \<and> length v \<le> MAX_WIRE_TEXT_BYTES"

definition validate_server_instance_id_value :: "str \<Rightarrow> string + unit" where
  "validate_server_instance_id_value v =
     (if v = [] then Inl ''invalid server_instance_id: cannot be empty''
      else if length v > MAX_WIRE_TEXT_BYTES
        then Inl (''invalid server_instance_id: cannot exceed '' @ show_nat MAX_WIRE_TEXT_BYTES @ '' bytes'')
      else if trim_chars (text_chars v) \<noteq> text_chars v
        then Inl ''invalid server_instance_id: cannot contain leading or trailing whitespace''
      else if v = [0x2E] \<or> v = [0x2E, 0x2E] \<or> 0x2F \<in> set (text_chars v) \<or> 0x5C \<in> set (text_chars v)
        then Inl ''invalid server_instance_id: cannot contain path separators''
      else if \<not> list_all (\<lambda>b. b < 0x80) v then Inl ''invalid server_instance_id: must be ASCII''
      else if list_ex is_control (text_chars v) then Inl ''invalid server_instance_id: cannot contain control characters''
      else Inr ())"

definition valid_server_instance_id :: "str \<Rightarrow> bool" where
  "valid_server_instance_id v = is_ok (validate_server_instance_id_value v)"

definition valid_ipc_address :: "str \<Rightarrow> bool" where
  "valid_ipc_address v \<longleftrightarrow>
     take 6 v = [0x69, 0x70, 0x63, 0x3A, 0x2F, 0x2F] \<and> is_ok (validate_server_id (drop 6 v))"

definition is_some_and :: "'a option \<Rightarrow> ('a \<Rightarrow> bool) \<Rightarrow> bool" where
  "is_some_and x p = (case x of None \<Rightarrow> False | Some v \<Rightarrow> p v)"

definition is_none_or :: "'a option \<Rightarrow> ('a \<Rightarrow> bool) \<Rightarrow> bool" where
  "is_none_or x p = (case x of None \<Rightarrow> True | Some v \<Rightarrow> p v)"

definition valid_route_entry :: "(str \<Rightarrow> url option) \<Rightarrow> route_table \<Rightarrow> route_entry \<Rightarrow> bool" where
  "valid_route_entry parse t e \<longleftrightarrow>
     \<not> (\<not> valid_route_name (re_name e) \<or> \<not> valid_relay_id (re_relay_id e) \<or> \<not> valid_relay_url parse (re_relay_url e) \<or>
        \<not> valid_crm_tag (re_crm_ns e) (re_crm_name e) (re_crm_ver e) \<or>
        \<not> is_ok (validate_contract_hash ''abi_hash'' (re_abi_hash e)) \<or>
        \<not> is_ok (validate_contract_hash ''signature_hash'' (re_signature_hash e)) \<or> re_max_payload_size e = 0 \<or>
        \<not> is_ok (validate_call_route_key ''route_uid'' (re_route_uid e)) \<or> \<not> f64_is_finite (re_registered_at e)) \<and>
     (case re_locality e of
        Local \<Rightarrow>
          re_relay_id e = rt_relay_id t \<and> is_some_and (re_server_id e) valid_server_id \<and>
          is_some_and (re_server_instance_id e) valid_server_instance_id \<and> is_some_and (re_ipc_address e) valid_ipc_address
      | Peer \<Rightarrow>
          re_relay_id e \<noteq> rt_relay_id t \<and> re_server_id e = None \<and> re_server_instance_id e = None \<and> re_ipc_address e = None)"

definition valid_tombstone :: "route_tombstone \<Rightarrow> bool" where
  "valid_tombstone d \<longleftrightarrow>
     f64_is_finite (tb_removed_at d) \<and> valid_route_name (tb_name d) \<and> valid_relay_id (tb_relay_id d) \<and>
     is_none_or (tb_server_id d) valid_server_id"

section \<open>Routes\<close>

definition table_new :: "u64 \<Rightarrow> str \<Rightarrow> route_table" where
  "table_new wall relay_id =
     \<lparr>rt_routes = Map.empty, rt_tombstones = Map.empty, rt_withdrawn = Map.empty, rt_peers = Map.empty,
      rt_relay_id = relay_id, rt_next_timestamp = f64_of_u64 (if wall = 0 then 0 else wall - 1)\<rparr>"

definition next_local_timestamp :: "u64 \<Rightarrow> route_table \<Rightarrow> f64 \<times> route_table" where
  "next_local_timestamp wall t =
     (let wall' = f64_of_u64 wall;
          ts = (if f64_is_finite (rt_next_timestamp t) then f64_max wall' (f64_plus (rt_next_timestamp t) f64_one) else wall')
      in (ts, t\<lparr>rt_next_timestamp := ts\<rparr>))"

definition can_register_route :: "(str \<Rightarrow> url option) \<Rightarrow> route_table \<Rightarrow> route_entry \<Rightarrow> bool" where
  "can_register_route parse t e =
     (if \<not> valid_route_entry parse t e then False
      else case rt_tombstones t (re_name e, re_relay_id e) of
        Some d \<Rightarrow> \<not> f64_le (re_registered_at e) (tb_removed_at d)
      | None \<Rightarrow> True)"

definition register_prevalidated_route :: "(str \<Rightarrow> url option) \<Rightarrow> route_table \<Rightarrow> route_entry \<Rightarrow> route_table run" where
  "register_prevalidated_route parse t e =
     (if \<not> can_register_route parse t e then None
      else
        (let key = (re_name e, re_relay_id e)
         in Some (t\<lparr>rt_tombstones := (rt_tombstones t)(key := None), rt_withdrawn := (rt_withdrawn t)(key := None),
                 rt_routes := (rt_routes t)(key \<mapsto> e)\<rparr>)))"

definition register_route :: "(str \<Rightarrow> url option) \<Rightarrow> route_table \<Rightarrow> route_entry \<Rightarrow> (bool \<times> route_table) run" where
  "register_route parse t e =
     (if \<not> can_register_route parse t e then Some (False, t)
      else do { t' \<leftarrow> register_prevalidated_route parse t e; Some (True, t') })"

definition apply_tombstone :: "nat \<Rightarrow> route_table \<Rightarrow> route_tombstone \<Rightarrow> bool \<times> route_table" where
  "apply_tombstone now t d =
     (if \<not> valid_tombstone d then (False, t)
      else
        (let key = (tb_name d, tb_relay_id d)
         in if is_some_and (rt_routes t key) (\<lambda>e. f64_lt (tb_removed_at d) (re_registered_at e)) then (False, t)
            else if is_some_and (rt_tombstones t key) (\<lambda>old. f64_le (tb_removed_at d) (tb_removed_at old)) then (False, t)
            else
              (let d1 = (case rt_tombstones t key of
                           Some old \<Rightarrow> if tb_server_id d = None then d\<lparr>tb_server_id := tb_server_id old\<rparr> else d
                         | None \<Rightarrow> d)
               in (True, t\<lparr>rt_routes := (rt_routes t)(key := None),
                        rt_tombstones := (rt_tombstones t)(key \<mapsto> d1\<lparr>tb_observed_at := now\<rparr>)\<rparr>))))"

text \<open>The part that the three ways to unregister share, from the validation of the tombstone on.\<close>

definition remove_with_tombstone :: "nat \<Rightarrow> route_table \<Rightarrow> route_tombstone \<Rightarrow> route_entry option \<times> route_table" where
  "remove_with_tombstone now t d =
     (if \<not> valid_tombstone d then (None, t)
      else
        (let key = (tb_name d, tb_relay_id d)
         in if is_some_and (rt_routes t key) (\<lambda>e. f64_lt (tb_removed_at d) (re_registered_at e)) then (None, t)
            else
              (case apply_tombstone now t d of
                 (False, t') \<Rightarrow> (None, t')
               | (True, t') \<Rightarrow> (rt_routes t key, t'))))"

definition unregister_route_with_tombstone :: "nat \<Rightarrow> route_table \<Rightarrow> str \<Rightarrow> str \<Rightarrow> f64 \<Rightarrow> route_entry option \<times> route_table" where
  "unregister_route_with_tombstone now t name relay_id removed_at =
     remove_with_tombstone now t
       \<lparr>tb_name = name, tb_relay_id = relay_id, tb_removed_at = removed_at, tb_server_id = None, tb_observed_at = now\<rparr>"

definition unregister_local_route_with_tombstone ::
    "u64 \<Rightarrow> nat \<Rightarrow> route_table \<Rightarrow> str \<Rightarrow> str \<Rightarrow> (route_entry option \<times> f64) \<times> route_table" where
  "unregister_local_route_with_tombstone wall now t name server_id =
     (let (removed_at, t1) = next_local_timestamp wall t;
          (removed, t2) = remove_with_tombstone now t1
            \<lparr>tb_name = name, tb_relay_id = rt_relay_id t, tb_removed_at = removed_at, tb_server_id = Some server_id, tb_observed_at = now\<rparr>
      in ((removed, removed_at), t2))"

definition unregister_local_route_if_matches ::
    "u64 \<Rightarrow> nat \<Rightarrow> route_table \<Rightarrow> route_entry \<Rightarrow> (route_entry option \<times> f64) \<times> route_table" where
  "unregister_local_route_if_matches wall now t expected =
     (let key = (re_name expected, rt_relay_id t)
      in if \<not> is_some_and (rt_routes t key) (\<lambda>e. local_route_matches e expected)
         then (let (ts, t1) = next_local_timestamp wall t in ((None, ts), t1))
         else
           (let (removed_at, t1) = next_local_timestamp wall t;
                server_id = (case rt_routes t key of Some e \<Rightarrow> re_server_id e | None \<Rightarrow> None);
                (removed, t2) = remove_with_tombstone now t1
                  \<lparr>tb_name = re_name expected, tb_relay_id = rt_relay_id t, tb_removed_at = removed_at,
                   tb_server_id = server_id, tb_observed_at = now\<rparr>
            in ((removed, removed_at), t2)))"

definition record_registration_withdrawal :: "route_table \<Rightarrow> registration_scope \<Rightarrow> route_table" where
  "record_registration_withdrawal t scope =
     t\<lparr>rt_withdrawn := (rt_withdrawn t)((rg_name scope, rt_relay_id t) \<mapsto> scope)\<rparr>"

definition registration_already_withdrawn :: "route_table \<Rightarrow> registration_scope \<Rightarrow> bool" where
  "registration_already_withdrawn t scope \<longleftrightarrow>
     (let key = (rg_name scope, rt_relay_id t) in rt_tombstones t key \<noteq> None \<and> rt_withdrawn t key = Some scope)"

definition local_tombstone_matches_server :: "route_table \<Rightarrow> str \<Rightarrow> str \<Rightarrow> bool" where
  "local_tombstone_matches_server t name server_id =
     (case rt_tombstones t (name, rt_relay_id t) of
        Some d \<Rightarrow> is_some_and (tb_server_id d) (\<lambda>stored. stored = server_id)
      | None \<Rightarrow> False)"

definition local_route :: "route_table \<Rightarrow> str \<Rightarrow> route_entry option" where
  "local_route t name = rt_routes t (name, rt_relay_id t)"

definition has_local_route_for_endpoint :: "route_key list \<Rightarrow> route_table \<Rightarrow> upstream_endpoint_key \<Rightarrow> bool" where
  "has_local_route_for_endpoint keys t key = list_ex (\<lambda>k. is_some_and (rt_routes t k) (\<lambda>e. from_route e = Some key)) keys"

section \<open>Reading\<close>

text \<open>
  The list \<open>keys\<close> is the iteration order of the hash map that the operation walks.
\<close>

definition peer_is_alive :: "route_table \<Rightarrow> str \<Rightarrow> bool" where
  "peer_is_alive t relay_id = is_some_and (rt_peers t relay_id) (\<lambda>p. pi_status p = Alive)"

definition contract_matches :: "route_entry \<Rightarrow> expected_route_contract \<Rightarrow> bool" where
  "contract_matches e x \<longleftrightarrow>
     \<not> (re_crm_ns e \<noteq> ec_crm_ns x \<or> re_crm_name e \<noteq> ec_crm_name x \<or> re_crm_ver e \<noteq> ec_crm_ver x \<or>
        re_abi_hash e \<noteq> ec_abi_hash x \<or> re_signature_hash e \<noteq> ec_signature_hash x)"

text \<open>The loop: the entries that go to the local list and those that go to the list of peers.\<close>

fun collect_matching :: "route_table \<Rightarrow> expected_route_contract \<Rightarrow> route_key list \<Rightarrow> relay_route_info list \<times> route_entry list" where
  "collect_matching t x [] = ([], [])"
| "collect_matching t x (k # ks) =
     (let (locals, peers) = collect_matching t x ks
      in case rt_routes t k of
           None \<Rightarrow> (locals, peers)
         | Some e \<Rightarrow>
             if fst k \<noteq> ec_route_name x then (locals, peers)
             else if \<not> contract_matches e x then (locals, peers)
             else
               (case re_locality e of
                  Local \<Rightarrow> (to_route_info e # locals, peers)
                | Peer \<Rightarrow> if peer_is_alive t (re_relay_id e) then (locals, e # peers) else (locals, peers)))"

text \<open>Stored timestamps are finite, so the comparison of two of them is that of their multiples.\<close>

definition peer_rank :: "route_entry \<Rightarrow> int \<times> str" where
  "peer_rank e = (f64_scaled (re_registered_at e), re_relay_id e)"

definition resolve_matching :: "route_key list \<Rightarrow> route_table \<Rightarrow> expected_route_contract \<Rightarrow> relay_route_info list" where
  "resolve_matching keys t x =
     (if \<not> is_ok (validate_expected_route_contract x) then []
      else
        (let (locals, peers) = collect_matching t x keys
         in locals @ map to_route_info (sort_key peer_rank peers)))"

definition list_routes :: "route_key list \<Rightarrow> route_table \<Rightarrow> route_entry list" where
  "list_routes keys t = List.map_filter (rt_routes t) keys"

definition list_tombstones :: "route_key list \<Rightarrow> route_table \<Rightarrow> route_tombstone list" where
  "list_tombstones keys t = List.map_filter (rt_tombstones t) keys"

definition route_names :: "route_key list \<Rightarrow> route_table \<Rightarrow> str list" where
  "route_names keys t = remdups_adj (sort (map re_name (list_routes keys t)))"

definition local_route_count :: "route_key list \<Rightarrow> route_table \<Rightarrow> u32" where
  "local_route_count keys t = word_of_nat (length (filter (\<lambda>e. re_locality e = Local) (list_routes keys t)))"

section \<open>Removal and collection\<close>

definition remove_routes_by_relay :: "route_key list \<Rightarrow> route_table \<Rightarrow> str \<Rightarrow> route_entry list \<times> route_table" where
  "remove_routes_by_relay keys t relay_id =
     (List.map_filter (rt_routes t) (filter (\<lambda>k. snd k = relay_id) keys),
      t\<lparr>rt_routes := (\<lambda>k. if snd k = relay_id then None else rt_routes t k)\<rparr>)"

definition gc_reason :: "nat \<Rightarrow> nat \<Rightarrow> route_table \<Rightarrow> route_key \<Rightarrow> tombstone_gc_reason option" where
  "gc_reason now retention t k =
     (case rt_tombstones t k of
        None \<Rightarrow> None
      | Some d \<Rightarrow>
          if rt_routes t k \<noteq> None then Some ReplacedByActiveRoute
          else if now - tb_observed_at d \<ge> retention then Some RetentionExpired
          else None)"

definition gc_tombstones :: "nat \<Rightarrow> nat \<Rightarrow> route_key list \<Rightarrow> route_table \<Rightarrow> (route_tombstone \<times> tombstone_gc_reason) list \<times> route_table" where
  "gc_tombstones now retention keys t =
     (List.map_filter
        (\<lambda>k. case (rt_tombstones t k, gc_reason now retention t k) of (Some d, Some r) \<Rightarrow> Some (d, r) | _ \<Rightarrow> None) keys,
      t\<lparr>rt_tombstones := (\<lambda>k. if gc_reason now retention t k = None then rt_tombstones t k else None),
        rt_withdrawn := (\<lambda>k. if gc_reason now retention t k = None then rt_withdrawn t k else None)\<rparr>)"

section \<open>Peers\<close>

definition sync_peer_route_urls :: "route_table \<Rightarrow> str \<Rightarrow> str \<Rightarrow> route_table" where
  "sync_peer_route_urls t relay_id u =
     t\<lparr>rt_routes := (\<lambda>k. map_option
          (\<lambda>e. if re_locality e = Peer \<and> re_relay_id e = relay_id then e\<lparr>re_relay_url := u\<rparr> else e) (rt_routes t k))\<rparr>"

definition record_peer_join :: "(str \<Rightarrow> url option) \<Rightarrow> nat \<Rightarrow> route_table \<Rightarrow> str \<Rightarrow> str \<Rightarrow> bool \<times> route_table" where
  "record_peer_join parse now t relay_id u =
     (if \<not> valid_relay_id relay_id \<or> relay_id = rt_relay_id t \<or> \<not> valid_relay_url parse u then (False, t)
      else
        (let p = (case rt_peers t relay_id of
               Some peer \<Rightarrow> peer\<lparr>pi_url := u, pi_last_heartbeat := now, pi_status := Alive\<rparr>
             | None \<Rightarrow> \<lparr>pi_relay_id = relay_id, pi_url = u, pi_route_count = 0, pi_last_heartbeat = now, pi_status = Alive\<rparr>)
         in (True, sync_peer_route_urls (t\<lparr>rt_peers := (rt_peers t)(relay_id \<mapsto> p)\<rparr>) relay_id u)))"

definition unregister_peer :: "route_table \<Rightarrow> str \<Rightarrow> peer_info option \<times> route_table" where
  "unregister_peer t relay_id = (rt_peers t relay_id, t\<lparr>rt_peers := (rt_peers t)(relay_id := None)\<rparr>)"

definition has_peer :: "route_table \<Rightarrow> str \<Rightarrow> bool" where
  "has_peer t relay_id \<longleftrightarrow> rt_peers t relay_id \<noteq> None"

definition peers_with_status :: "peer_status \<Rightarrow> str list \<Rightarrow> route_table \<Rightarrow> peer_info list" where
  "peers_with_status s keys t = filter (\<lambda>p. pi_status p = s) (List.map_filter (rt_peers t) keys)"

definition alive_peers :: "str list \<Rightarrow> route_table \<Rightarrow> peer_info list" where
  "alive_peers keys t = peers_with_status Alive keys t"

definition dead_peers :: "str list \<Rightarrow> route_table \<Rightarrow> peer_info list" where
  "dead_peers keys t = peers_with_status Dead keys t"

section \<open>The owner's tombstone for a route it does not have\<close>

definition authoritative_missing_tombstone ::
    "u64 \<Rightarrow> nat \<Rightarrow> route_table \<Rightarrow> str \<Rightarrow> str \<Rightarrow> route_tombstone option \<times> route_table" where
  "authoritative_missing_tombstone wall now t name relay_id =
     (if relay_id \<noteq> rt_relay_id t then (None, t)
      else if \<not> valid_route_name name \<or> \<not> valid_relay_id relay_id then (None, t)
      else if rt_routes t (name, relay_id) \<noteq> None then (None, t)
      else
        (let (removed_at, t1) = next_local_timestamp wall t;
             (_, t2) = apply_tombstone now t1
               \<lparr>tb_name = name, tb_relay_id = relay_id, tb_removed_at = removed_at, tb_server_id = None, tb_observed_at = now\<rparr>
         in (rt_tombstones t2 (name, relay_id), t2)))"

end
