(* ===== verification/Relay_Sync.thy ===== *)
theory Relay_Sync
  imports Relay_Table
begin

text \<open>
  Replication between relays: the full-sync snapshot and its validation (\<open>c2-http/src/relay/types.rs\<close>), the gossip
  messages and their validation (\<open>peer.rs\<close>), the merge of a snapshot and the digests (\<open>route_table.rs\<close>), the
  authority's handling of announcements and withdrawals (\<open>authority.rs\<close>) and the handlers of
  \<open>peer_handlers.rs\<close> as far as they touch the table. The hash function (\<open>sha2\<close> with \<open>hex\<close>) is a parameter.
\<close>

section \<open>Digests\<close>

definition to_be_bytes :: "nat \<Rightarrow> 'a::len word \<Rightarrow> bytes" where
  "to_be_bytes n w = rev (to_le_bytes n w)"

definition stable_route_digest_hash :: "(bytes \<Rightarrow> str) \<Rightarrow> str list \<Rightarrow> str" where
  "stable_route_digest_hash sha texts =
     sha (concat (map (\<lambda>f. to_be_bytes 8 (word_of_nat (length f) :: u64) @ f) texts))"

definition active_route_digest_hash ::
    "(bytes \<Rightarrow> str) \<Rightarrow> str \<Rightarrow> str \<Rightarrow> str \<Rightarrow> str \<Rightarrow> str \<Rightarrow> str \<Rightarrow> str \<Rightarrow> str \<Rightarrow> u64 \<Rightarrow> str \<Rightarrow> f64 \<Rightarrow> str" where
  "active_route_digest_hash sha name relay_id relay_url crm_ns crm_name crm_ver abi_hash signature_hash
       max_payload_size route_uid registered_at =
     stable_route_digest_hash sha
       [str_of ''active'', name, relay_id, relay_url, crm_ns, crm_name, crm_ver, abi_hash, signature_hash,
        str_of (show_nat (unat max_payload_size)), route_uid, str_of (show_nat (unat registered_at))]"

definition deleted_route_digest_hash :: "(bytes \<Rightarrow> str) \<Rightarrow> str \<Rightarrow> str \<Rightarrow> f64 \<Rightarrow> str" where
  "deleted_route_digest_hash sha name relay_id removed_at =
     stable_route_digest_hash sha [str_of ''deleted'', name, relay_id, str_of (show_nat (unat removed_at))]"

definition route_entry_digest_hash :: "(bytes \<Rightarrow> str) \<Rightarrow> route_entry \<Rightarrow> str" where
  "route_entry_digest_hash sha e =
     active_route_digest_hash sha (re_name e) (re_relay_id e) (re_relay_url e) (re_crm_ns e) (re_crm_name e) (re_crm_ver e)
       (re_abi_hash e) (re_signature_hash e) (re_max_payload_size e) (re_route_uid e) (re_registered_at e)"

definition tombstone_digest_hash :: "(bytes \<Rightarrow> str) \<Rightarrow> route_tombstone \<Rightarrow> str" where
  "tombstone_digest_hash sha d = deleted_route_digest_hash sha (tb_name d) (tb_relay_id d) (tb_removed_at d)"

definition valid_route_digest_hash :: "str \<Rightarrow> bool" where
  "valid_route_digest_hash h \<longleftrightarrow>
     length h = 64 \<and> list_all (\<lambda>b. (0x30 \<le> b \<and> b \<le> 0x39) \<or> (0x61 \<le> b \<and> b \<le> 0x66)) h"

definition valid_wire_relay_id :: "str \<Rightarrow> bool" where
  "valid_wire_relay_id v = is_ok (validate_relay_id v)"

definition route_digest :: "(bytes \<Rightarrow> str) \<Rightarrow> route_table \<Rightarrow> str \<times> str \<times> bool \<rightharpoonup> str" where
  "route_digest sha t =
     (\<lambda>(name, relay_id, deleted).
        if deleted then map_option (tombstone_digest_hash sha) (rt_tombstones t (name, relay_id))
        else map_option (route_entry_digest_hash sha) (rt_routes t (name, relay_id)))"

section \<open>Full synchronisation\<close>

record peer_snapshot =
  ps_relay_id :: str
  ps_url :: str
  ps_route_count :: u32
  ps_status :: peer_status

record full_sync =
  fs_routes :: "route_entry list"
  fs_tombstones :: "route_tombstone list"
  fs_peers :: "peer_snapshot list"

definition ROUTE_HASH_FULL_SYNC_VERSION :: u32 where "ROUTE_HASH_FULL_SYNC_VERSION = 6"
definition PROTOCOL_VERSION :: u32 where "PROTOCOL_VERSION = 7"

record full_sync_route =
  fr_name :: str
  fr_relay_id :: str
  fr_relay_url :: str
  fr_crm_ns :: str
  fr_crm_name :: str
  fr_crm_ver :: str
  fr_abi_hash :: str
  fr_signature_hash :: str
  fr_max_payload_size :: u64
  fr_route_uid :: str
  fr_registered_at :: f64
  fr_hash :: str

record full_sync_tombstone =
  ft_name :: str
  ft_relay_id :: str
  ft_removed_at :: f64
  ft_hash :: str

record full_sync_snapshot =
  fn_routes :: "full_sync_route list"
  fn_tombstones :: "full_sync_tombstone list"
  fn_peers :: "peer_snapshot list"

record full_sync_envelope =
  fe_protocol_version :: u32
  fe_snapshot :: full_sync_snapshot

datatype full_sync_validation_error =
    RouteSnapshotTooOld u32 u32
  | UnsupportedRouteSnapshotVersion u32 u32
  | InvalidPeer str
  | InvalidRoute str str
  | InvalidTombstone str str
  | InvalidRouteHash str str
  | InvalidTombstoneHash str str

definition from_route_entry :: "(bytes \<Rightarrow> str) \<Rightarrow> route_entry \<Rightarrow> full_sync_route" where
  "from_route_entry sha e =
     \<lparr>fr_name = re_name e, fr_relay_id = re_relay_id e, fr_relay_url = re_relay_url e, fr_crm_ns = re_crm_ns e,
      fr_crm_name = re_crm_name e, fr_crm_ver = re_crm_ver e, fr_abi_hash = re_abi_hash e, fr_signature_hash = re_signature_hash e,
      fr_max_payload_size = re_max_payload_size e, fr_route_uid = re_route_uid e, fr_registered_at = re_registered_at e,
      fr_hash = route_entry_digest_hash sha e\<rparr>"

definition to_peer_route_entry :: "full_sync_route \<Rightarrow> route_entry" where
  "to_peer_route_entry r =
     \<lparr>re_name = fr_name r, re_relay_id = fr_relay_id r, re_relay_url = fr_relay_url r, re_server_id = None,
      re_server_instance_id = None, re_ipc_address = None, re_crm_ns = fr_crm_ns r, re_crm_name = fr_crm_name r,
      re_crm_ver = fr_crm_ver r, re_abi_hash = fr_abi_hash r, re_signature_hash = fr_signature_hash r,
      re_max_payload_size = fr_max_payload_size r, re_route_uid = fr_route_uid r, re_locality = Peer,
      re_registered_at = fr_registered_at r\<rparr>"

definition from_tombstone :: "(bytes \<Rightarrow> str) \<Rightarrow> route_tombstone \<Rightarrow> full_sync_tombstone" where
  "from_tombstone sha d =
     \<lparr>ft_name = tb_name d, ft_relay_id = tb_relay_id d, ft_removed_at = tb_removed_at d, ft_hash = tombstone_digest_hash sha d\<rparr>"

definition to_tombstone :: "nat \<Rightarrow> full_sync_tombstone \<Rightarrow> route_tombstone" where
  "to_tombstone now d =
     \<lparr>tb_name = ft_name d, tb_relay_id = ft_relay_id d, tb_removed_at = ft_removed_at d, tb_server_id = None, tb_observed_at = now\<rparr>"

definition from_internal :: "(bytes \<Rightarrow> str) \<Rightarrow> full_sync \<Rightarrow> full_sync_snapshot" where
  "from_internal sha s =
     \<lparr>fn_routes = map (from_route_entry sha) (fs_routes s), fn_tombstones = map (from_tombstone sha) (fs_tombstones s),
      fn_peers = fs_peers s\<rparr>"

definition valid_full_sync_route :: "(str \<Rightarrow> url option) \<Rightarrow> full_sync_route \<Rightarrow> bool" where
  "valid_full_sync_route parse r \<longleftrightarrow>
     valid_route_name (fr_name r) \<and> valid_wire_relay_id (fr_relay_id r) \<and> valid_relay_url parse (fr_relay_url r) \<and>
     valid_crm_tag (fr_crm_ns r) (fr_crm_name r) (fr_crm_ver r) \<and>
     is_ok (validate_contract_hash ''abi_hash'' (fr_abi_hash r)) \<and>
     is_ok (validate_contract_hash ''signature_hash'' (fr_signature_hash r)) \<and> fr_max_payload_size r > 0 \<and>
     is_ok (validate_call_route_key ''route_uid'' (fr_route_uid r)) \<and> f64_is_finite (fr_registered_at r) \<and>
     valid_route_digest_hash (fr_hash r)"

definition valid_full_sync_tombstone :: "full_sync_tombstone \<Rightarrow> bool" where
  "valid_full_sync_tombstone d \<longleftrightarrow>
     valid_route_name (ft_name d) \<and> valid_wire_relay_id (ft_relay_id d) \<and> f64_is_finite (ft_removed_at d) \<and>
     valid_route_digest_hash (ft_hash d)"

fun check_sync_peers :: "(str \<Rightarrow> url option) \<Rightarrow> peer_snapshot list \<Rightarrow> full_sync_validation_error + unit" where
  "check_sync_peers parse [] = Inr ()"
| "check_sync_peers parse (p # ps) =
     (if \<not> valid_wire_relay_id (ps_relay_id p) \<or> \<not> valid_relay_url parse (ps_url p) then Inl (InvalidPeer (ps_relay_id p))
      else check_sync_peers parse ps)"

fun validate_sync_routes ::
    "(str \<Rightarrow> url option) \<Rightarrow> (bytes \<Rightarrow> str) \<Rightarrow> full_sync_route list \<Rightarrow> full_sync_validation_error + route_entry list" where
  "validate_sync_routes parse sha [] = Inr []"
| "validate_sync_routes parse sha (r # rs) =
     (if \<not> valid_full_sync_route parse r then Inl (InvalidRoute (fr_name r) (fr_relay_id r))
      else
        (let e = to_peer_route_entry r
         in if fr_hash r \<noteq> route_entry_digest_hash sha e then Inl (InvalidRouteHash (fr_name r) (fr_relay_id r))
            else and_then (validate_sync_routes parse sha rs) (\<lambda>es. Inr (e # es))))"

fun validate_sync_tombstones ::
    "(bytes \<Rightarrow> str) \<Rightarrow> nat \<Rightarrow> full_sync_tombstone list \<Rightarrow> full_sync_validation_error + route_tombstone list" where
  "validate_sync_tombstones sha now [] = Inr []"
| "validate_sync_tombstones sha now (d # ds) =
     (if \<not> valid_full_sync_tombstone d then Inl (InvalidTombstone (ft_name d) (ft_relay_id d))
      else
        (let x = to_tombstone now d
         in if ft_hash d \<noteq> tombstone_digest_hash sha x then Inl (InvalidTombstoneHash (ft_name d) (ft_relay_id d))
            else and_then (validate_sync_tombstones sha now ds) (\<lambda>xs. Inr (x # xs))))"

definition validated_full_sync ::
    "(str \<Rightarrow> url option) \<Rightarrow> (bytes \<Rightarrow> str) \<Rightarrow> nat \<Rightarrow> full_sync_envelope \<Rightarrow> full_sync_validation_error + full_sync" where
  "validated_full_sync parse sha now env =
     (if fe_protocol_version env < ROUTE_HASH_FULL_SYNC_VERSION
        then Inl (RouteSnapshotTooOld (fe_protocol_version env) ROUTE_HASH_FULL_SYNC_VERSION)
      else if fe_protocol_version env \<noteq> PROTOCOL_VERSION
        then Inl (UnsupportedRouteSnapshotVersion (fe_protocol_version env) PROTOCOL_VERSION)
      else
        and_then (check_sync_peers parse (fn_peers (fe_snapshot env))) (\<lambda>_.
        and_then (validate_sync_routes parse sha (fn_routes (fe_snapshot env))) (\<lambda>routes.
        and_then (validate_sync_tombstones sha now (fn_tombstones (fe_snapshot env))) (\<lambda>tombstones.
        Inr \<lparr>fs_routes = routes, fs_tombstones = tombstones, fs_peers = fn_peers (fe_snapshot env)\<rparr>))))"

definition full_snapshot :: "route_key list \<Rightarrow> route_key list \<Rightarrow> str list \<Rightarrow> route_table \<Rightarrow> full_sync" where
  "full_snapshot rkeys tkeys pkeys t =
     \<lparr>fs_routes = list_routes rkeys t, fs_tombstones = list_tombstones tkeys t,
      fs_peers = map (\<lambda>p. \<lparr>ps_relay_id = pi_relay_id p, ps_url = pi_url p, ps_route_count = pi_route_count p, ps_status = pi_status p\<rparr>)
        (List.map_filter (rt_peers t) pkeys)\<rparr>"

text \<open>The envelope as a value; the JSON text in which a relay serves it is not modelled.\<close>

definition current_full_sync_envelope :: "(bytes \<Rightarrow> str) \<Rightarrow> str \<Rightarrow> u32 \<Rightarrow> str \<Rightarrow> full_sync \<Rightarrow> full_sync_envelope" where
  "current_full_sync_envelope sha self_url local_count self_id snapshot =
     (let tombs = filter (\<lambda>d. tb_relay_id d \<noteq> []) (fs_tombstones snapshot);
          peers = (if list_ex (\<lambda>p. ps_relay_id p = self_id) (fs_peers snapshot) then fs_peers snapshot
                   else fs_peers snapshot @
                     [\<lparr>ps_relay_id = self_id, ps_url = self_url, ps_route_count = local_count, ps_status = Alive\<rparr>])
      in \<lparr>fe_protocol_version = PROTOCOL_VERSION,
          fe_snapshot = from_internal sha (snapshot\<lparr>fs_tombstones := tombs, fs_peers := peers\<rparr>)\<rparr>)"

section \<open>Merging a snapshot\<close>

definition snapshot_route_owner_is_alive :: "route_table \<Rightarrow> peer_snapshot \<Rightarrow> bool" where
  "snapshot_route_owner_is_alive t p =
     (case rt_peers t (ps_relay_id p) of Some mine \<Rightarrow> pi_status mine = Alive | None \<Rightarrow> ps_status p = Alive)"

definition index_peers :: "str \<Rightarrow> peer_snapshot list \<Rightarrow> str \<rightharpoonup> peer_snapshot" where
  "index_peers self ps = fold (\<lambda>p m. if ps_relay_id p \<noteq> self then m(ps_relay_id p \<mapsto> p) else m) ps Map.empty"

text \<open>\<open>None\<close> is the early return of a snapshot with a route whose owner it does not list.\<close>

fun replacement_routes :: "route_table \<Rightarrow> (str \<rightharpoonup> peer_snapshot) \<Rightarrow> (route_key \<rightharpoonup> route_entry) \<Rightarrow> route_entry list \<Rightarrow>
    (route_key \<rightharpoonup> route_entry) option" where
  "replacement_routes t snaps acc [] = Some acc"
| "replacement_routes t snaps acc (e # es) =
     (if re_relay_id e = rt_relay_id t then replacement_routes t snaps acc es
      else case snaps (re_relay_id e) of
        None \<Rightarrow> None
      | Some p \<Rightarrow>
          if \<not> snapshot_route_owner_is_alive t p then replacement_routes t snaps acc es
          else replacement_routes t snaps (acc((re_name e, re_relay_id e) \<mapsto> e\<lparr>re_relay_url := ps_url p\<rparr>)) es)"

definition drop_peer_routes :: "route_table \<Rightarrow> route_table" where
  "drop_peer_routes t = t\<lparr>rt_routes := (\<lambda>k. case rt_routes t k of Some e \<Rightarrow> if re_locality e = Peer then None else Some e | None \<Rightarrow> None)\<rparr>"

fun apply_tombstones :: "nat \<Rightarrow> route_table \<Rightarrow> route_tombstone list \<Rightarrow> route_table" where
  "apply_tombstones now t [] = t"
| "apply_tombstones now t (d # ds) =
     (if tb_relay_id d = rt_relay_id t then apply_tombstones now t ds
      else apply_tombstones now (snd (apply_tombstone now t d)) ds)"

fun register_replacements :: "(str \<Rightarrow> url option) \<Rightarrow> (route_key \<rightharpoonup> route_entry) \<Rightarrow> route_table \<Rightarrow> route_key list \<Rightarrow> route_table run" where
  "register_replacements parse m t [] = Some t"
| "register_replacements parse m t (k # ks) =
     (case m k of
        None \<Rightarrow> register_replacements parse m t ks
      | Some e \<Rightarrow>
          if is_some_and (rt_tombstones t k) (\<lambda>d. f64_le (re_registered_at e) (tb_removed_at d))
          then register_replacements parse m t ks
          else do { (_, t') \<leftarrow> register_route parse t e; register_replacements parse m t' ks })"

fun merge_peers :: "nat \<Rightarrow> route_table \<Rightarrow> peer_snapshot list \<Rightarrow> route_table" where
  "merge_peers now t [] = t"
| "merge_peers now t (p # ps) =
     (if ps_relay_id p = rt_relay_id t then merge_peers now t ps
      else
        (let q = (case rt_peers t (ps_relay_id p) of
               Some x \<Rightarrow> x\<lparr>pi_url := ps_url p, pi_route_count := ps_route_count p,
                        pi_status := (if pi_status x \<noteq> Dead then ps_status p else pi_status x), pi_last_heartbeat := now\<rparr>
             | None \<Rightarrow> \<lparr>pi_relay_id = ps_relay_id p, pi_url = ps_url p, pi_route_count = ps_route_count p,
                        pi_last_heartbeat = now, pi_status = ps_status p\<rparr>)
         in merge_peers now (sync_peer_route_urls (t\<lparr>rt_peers := (rt_peers t)(ps_relay_id p \<mapsto> q)\<rparr>) (ps_relay_id p) (ps_url p)) ps))"

definition merge_validated_snapshot ::
    "(str \<Rightarrow> url option) \<Rightarrow> nat \<Rightarrow> ((route_key \<rightharpoonup> route_entry) \<Rightarrow> route_key list) \<Rightarrow> route_table \<Rightarrow> full_sync \<Rightarrow> route_table run" where
  "merge_validated_snapshot parse now order t s =
     (case replacement_routes t (index_peers (rt_relay_id t) (fs_peers s)) Map.empty (fs_routes s) of
        None \<Rightarrow> Some t
      | Some m \<Rightarrow>
          do {
            t' \<leftarrow> register_replacements parse m (apply_tombstones now (drop_peer_routes t) (fs_tombstones s)) (order m);
            Some (merge_peers now t' (fs_peers s))
          })"

end
