(* ===== verification/Relay_Gossip.thy ===== *)
theory Relay_Gossip
  imports Relay_Sync
begin

text \<open>
  Gossip between relays: the messages and their validation (\<open>c2-http/src/relay/peer.rs\<close>), what the route authority does
  with an announcement or a withdrawal (\<open>authority.rs\<close>), and the handlers of \<open>peer_handlers.rs\<close>. The table
  is behind a lock that an operation takes more than once: \<open>seen\<close> is the table at the first reading, \<open>t\<close> the
  table at the write.
\<close>

section \<open>Messages\<close>

text \<open>The eleven fields that an announcement and an active difference carry.\<close>

record route_fields =
  ra_name :: str
  ra_relay_id :: str
  ra_relay_url :: str
  ra_crm_ns :: str
  ra_crm_name :: str
  ra_crm_ver :: str
  ra_abi_hash :: str
  ra_signature_hash :: str
  ra_max_payload_size :: u64
  ra_route_uid :: str
  ra_registered_at :: f64

record digest_entry =
  de_name :: str
  de_relay_id :: str
  de_deleted :: bool
  de_hash :: str

datatype digest_diff_entry = DiffActive route_fields | DiffDeleted str str f64

datatype peer_message =
    RouteAnnounce route_fields
  | RouteWithdraw str str f64
  | RelayJoin str str
  | RelayLeave str
  | Heartbeat str u32
  | DigestExchange "digest_entry list"
  | DigestDiff "digest_diff_entry list"
  | UnknownMessage

record peer_envelope =
  pe_protocol_version :: u32
  pe_sender_relay_id :: str
  pe_message :: peer_message

datatype validated_digest_diff_entry = VActive route_entry | VDeleted str str f64

datatype validated_route_state_envelope = VMessage peer_envelope | VDigestDiff "validated_digest_diff_entry list"

datatype peer_route_state_error =
    UnsupportedRouteStateProtocol u32 u32
  | InvalidSender str
  | InvalidRouteAnnounce string
  | InvalidRouteWithdraw string
  | InvalidRelayLeave string
  | InvalidDigestEntry string
  | InvalidDigestDiff string

definition envelope_new :: "str \<Rightarrow> peer_message \<Rightarrow> peer_envelope" where
  "envelope_new sender message =
     \<lparr>pe_protocol_version = PROTOCOL_VERSION, pe_sender_relay_id = sender, pe_message = message\<rparr>"

definition valid_active_route_fields :: "(str \<Rightarrow> url option) \<Rightarrow> route_fields \<Rightarrow> bool" where
  "valid_active_route_fields parse r \<longleftrightarrow>
     valid_route_name (ra_name r) \<and> valid_wire_relay_id (ra_relay_id r) \<and> valid_relay_url parse (ra_relay_url r) \<and>
     valid_crm_tag (ra_crm_ns r) (ra_crm_name r) (ra_crm_ver r) \<and>
     is_ok (validate_contract_hash ''abi_hash'' (ra_abi_hash r)) \<and>
     is_ok (validate_contract_hash ''signature_hash'' (ra_signature_hash r)) \<and> ra_max_payload_size r > 0 \<and>
     is_ok (validate_call_route_key ''route_uid'' (ra_route_uid r)) \<and> f64_is_finite (ra_registered_at r)"

definition valid_deleted_route_fields :: "str \<Rightarrow> str \<Rightarrow> f64 \<Rightarrow> bool" where
  "valid_deleted_route_fields name relay_id removed_at \<longleftrightarrow>
     valid_route_name name \<and> valid_wire_relay_id relay_id \<and> f64_is_finite removed_at"

text \<open>The entry built from an announcement: nothing private to the owner.\<close>

definition announced_entry :: "route_fields \<Rightarrow> route_entry" where
  "announced_entry r =
     \<lparr>re_name = ra_name r, re_relay_id = ra_relay_id r, re_relay_url = ra_relay_url r, re_server_id = None,
      re_server_instance_id = None, re_ipc_address = None, re_crm_ns = ra_crm_ns r, re_crm_name = ra_crm_name r,
      re_crm_ver = ra_crm_ver r, re_abi_hash = ra_abi_hash r, re_signature_hash = ra_signature_hash r,
      re_max_payload_size = ra_max_payload_size r, re_route_uid = ra_route_uid r, re_locality = Peer,
      re_registered_at = ra_registered_at r\<rparr>"

definition entry_fields :: "route_entry \<Rightarrow> route_fields" where
  "entry_fields e =
     \<lparr>ra_name = re_name e, ra_relay_id = re_relay_id e, ra_relay_url = re_relay_url e, ra_crm_ns = re_crm_ns e,
      ra_crm_name = re_crm_name e, ra_crm_ver = re_crm_ver e, ra_abi_hash = re_abi_hash e,
      ra_signature_hash = re_signature_hash e, ra_max_payload_size = re_max_payload_size e,
      ra_route_uid = re_route_uid e, ra_registered_at = re_registered_at e\<rparr>"

fun validate_digest_entries :: "digest_entry list \<Rightarrow> peer_route_state_error + unit" where
  "validate_digest_entries [] = Inr ()"
| "validate_digest_entries (d # ds) =
     (if \<not> valid_route_name (de_name d) \<or> \<not> valid_wire_relay_id (de_relay_id d) \<or> \<not> valid_route_digest_hash (de_hash d)
      then Inl (InvalidDigestEntry (''invalid digest entry for route '' @ text_string (de_name d) @ ''/'' @ text_string (de_relay_id d)))
      else validate_digest_entries ds)"

definition validate_digest_diff_entry ::
    "(str \<Rightarrow> url option) \<Rightarrow> str \<Rightarrow> digest_diff_entry \<Rightarrow> peer_route_state_error + validated_digest_diff_entry" where
  "validate_digest_diff_entry parse sender d =
     (case d of
        DiffActive r \<Rightarrow>
          if ra_relay_id r \<noteq> sender \<or> \<not> valid_active_route_fields parse r
          then Inl (InvalidDigestDiff (''invalid active diff for route '' @ text_string (ra_name r) @ ''/'' @ text_string (ra_relay_id r)))
          else Inr (VActive (announced_entry r))
      | DiffDeleted name relay_id removed_at \<Rightarrow>
          if relay_id \<noteq> sender \<or> \<not> valid_deleted_route_fields name relay_id removed_at
          then Inl (InvalidDigestDiff (''invalid deleted diff for route '' @ text_string name @ ''/'' @ text_string relay_id))
          else Inr (VDeleted name relay_id removed_at))"

fun validate_digest_diff_entries ::
    "(str \<Rightarrow> url option) \<Rightarrow> str \<Rightarrow> digest_diff_entry list \<Rightarrow> peer_route_state_error + validated_digest_diff_entry list" where
  "validate_digest_diff_entries parse sender [] = Inr []"
| "validate_digest_diff_entries parse sender (d # ds) =
     and_then (validate_digest_diff_entry parse sender d) (\<lambda>v.
     and_then (validate_digest_diff_entries parse sender ds) (\<lambda>vs. Inr (v # vs)))"

definition validate_route_state_message ::
    "(str \<Rightarrow> url option) \<Rightarrow> peer_envelope \<Rightarrow> peer_route_state_error + validated_route_state_envelope" where
  "validate_route_state_message parse env =
     (let sender = pe_sender_relay_id env
      in case pe_message env of
        RouteAnnounce r \<Rightarrow>
          if ra_relay_id r \<noteq> sender \<or> \<not> valid_active_route_fields parse r
          then Inl (InvalidRouteAnnounce ''invalid route announcement'') else Inr (VMessage env)
      | RouteWithdraw name relay_id removed_at \<Rightarrow>
          if relay_id \<noteq> sender \<or> \<not> valid_deleted_route_fields name relay_id removed_at
          then Inl (InvalidRouteWithdraw ''invalid route withdrawal'') else Inr (VMessage env)
      | RelayLeave relay_id \<Rightarrow>
          if relay_id \<noteq> sender \<or> \<not> valid_wire_relay_id relay_id
          then Inl (InvalidRelayLeave ''invalid relay leave'') else Inr (VMessage env)
      | DigestExchange digest \<Rightarrow> and_then (validate_digest_entries digest) (\<lambda>_. Inr (VMessage env))
      | DigestDiff ds \<Rightarrow> and_then (validate_digest_diff_entries parse sender ds) (\<lambda>vs. Inr (VDigestDiff vs))
      | RelayJoin _ _ \<Rightarrow> Inr (VMessage env)
      | Heartbeat _ _ \<Rightarrow> Inr (VMessage env)
      | UnknownMessage \<Rightarrow> Inr (VMessage env))"

definition validate_route_state_envelope ::
    "(str \<Rightarrow> url option) \<Rightarrow> peer_envelope \<Rightarrow> str option \<Rightarrow> peer_route_state_error + validated_route_state_envelope" where
  "validate_route_state_envelope parse env expected_sender =
     (if pe_protocol_version env \<noteq> PROTOCOL_VERSION
        then Inl (UnsupportedRouteStateProtocol (pe_protocol_version env) PROTOCOL_VERSION)
      else if \<not> valid_wire_relay_id (pe_sender_relay_id env) then Inl (InvalidSender (pe_sender_relay_id env))
      else if is_some_and expected_sender (\<lambda>s. pe_sender_relay_id env \<noteq> s) then Inl (InvalidSender (pe_sender_relay_id env))
      else validate_route_state_message parse env)"

section \<open>The route authority\<close>

datatype control_error = CtlInvalidName string | CtlContractMismatch string | CtlOwnerMismatch

definition auth_validate_route_name :: "str \<Rightarrow> control_error + unit" where
  "auth_validate_route_name name =
     (if \<not> valid_route_name name
      then Inl (CtlInvalidName (''name must be non-empty, control-character-free, and no more than '' @ show_nat MAX_WIRE_TEXT_BYTES @ '' bytes''))
      else Inr ())"

definition auth_validate_relay_id :: "str \<Rightarrow> control_error + unit" where
  "auth_validate_relay_id relay_id = map_err (\<lambda>_. CtlOwnerMismatch) (validate_relay_id relay_id)"

definition mismatch :: "contract_error + unit \<Rightarrow> control_error + unit" where
  "mismatch r = map_err (\<lambda>e. CtlContractMismatch (contract_error_message e)) r"

definition trusted_peer_owner :: "route_table \<Rightarrow> str \<Rightarrow> str \<Rightarrow> bool" where
  "trusted_peer_owner seen sender relay_id \<longleftrightarrow> sender = relay_id \<and> sender \<noteq> rt_relay_id seen \<and> peer_is_alive seen sender"

text \<open>What \<open>announce_peer\<close> does once it holds the write lock.\<close>

definition announce_locked :: "(str \<Rightarrow> url option) \<Rightarrow> route_table \<Rightarrow> route_entry \<Rightarrow> ((control_error + unit) \<times> route_table) run" where
  "announce_locked parse t e =
     (if re_relay_id e = rt_relay_id t then Some (Inl CtlOwnerMismatch, t)
      else case rt_peers t (re_relay_id e) of
        None \<Rightarrow> Some (Inl CtlOwnerMismatch, t)
      | Some p \<Rightarrow>
          do {
            (_, t') \<leftarrow> register_route parse t
              (e\<lparr>re_relay_url := pi_url p, re_server_id := None, re_server_instance_id := None, re_ipc_address := None, re_locality := Peer\<rparr>);
            Some (Inr (), t')
          })"

definition announce_checks :: "route_table \<Rightarrow> str \<Rightarrow> route_entry \<Rightarrow> control_error + unit" where
  "announce_checks seen sender e =
     and_then (auth_validate_route_name (re_name e)) (\<lambda>_.
     and_then (auth_validate_relay_id sender) (\<lambda>_.
     and_then (auth_validate_relay_id (re_relay_id e)) (\<lambda>_.
     and_then (mismatch (validate_crm_tag (re_crm_ns e) (re_crm_name e) (re_crm_ver e))) (\<lambda>_.
     and_then (mismatch (validate_contract_hash ''abi_hash'' (re_abi_hash e))) (\<lambda>_.
     and_then (mismatch (validate_contract_hash ''signature_hash'' (re_signature_hash e))) (\<lambda>_.
     if \<not> f64_is_finite (re_registered_at e) then Inl (CtlContractMismatch ''route registered_at must be finite'')
     else if \<not> trusted_peer_owner seen sender (re_relay_id e) then Inl CtlOwnerMismatch
     else Inr ()))))))"

definition announce_peer :: "(str \<Rightarrow> url option) \<Rightarrow> route_table \<Rightarrow> str \<Rightarrow> route_entry \<Rightarrow> route_table \<Rightarrow>
    ((control_error + unit) \<times> route_table) run" where
  "announce_peer parse seen sender e t =
     (case announce_checks seen sender e of Inl err \<Rightarrow> Some (Inl err, t) | Inr _ \<Rightarrow> announce_locked parse t e)"

definition withdraw_peer :: "nat \<Rightarrow> route_table \<Rightarrow> str \<Rightarrow> str \<Rightarrow> str \<Rightarrow> f64 \<Rightarrow> route_table \<Rightarrow> (control_error + unit) \<times> route_table" where
  "withdraw_peer now seen sender name relay_id removed_at t =
     (case and_then (auth_validate_route_name name) (\<lambda>_.
           and_then (auth_validate_relay_id sender) (\<lambda>_.
           and_then (auth_validate_relay_id relay_id) (\<lambda>_.
           if \<not> trusted_peer_owner seen sender relay_id then Inl CtlOwnerMismatch
           else if relay_id = rt_relay_id seen then Inl CtlOwnerMismatch
           else Inr ()))) of
        Inl err \<Rightarrow> (Inl err, t)
      | Inr _ \<Rightarrow> (Inr (), snd (unregister_route_with_tombstone now t name relay_id removed_at)))"

definition remove_peer_routes :: "route_key list \<Rightarrow> route_table \<Rightarrow> str \<Rightarrow> route_table" where
  "remove_peer_routes keys t relay_id =
     (if isl (auth_validate_relay_id relay_id) \<or> relay_id = rt_relay_id t then t
      else snd (remove_routes_by_relay keys t relay_id))"

definition apply_digest_diff :: "(str \<Rightarrow> url option) \<Rightarrow> nat \<Rightarrow> route_table \<Rightarrow> str \<Rightarrow> validated_digest_diff_entry \<Rightarrow> route_table \<Rightarrow>
    ((control_error + unit) \<times> route_table) run" where
  "apply_digest_diff parse now seen sender d t =
     (case d of
        VActive e \<Rightarrow> announce_peer parse seen sender e t
      | VDeleted name relay_id removed_at \<Rightarrow> Some (withdraw_peer now seen sender name relay_id removed_at t))"

section \<open>Handlers\<close>

text \<open>
  A handler that changes the table under more than one lock (\<open>handle_peer_leave\<close> under two, \<open>handle_peer_digest\<close> under one
  per entry) is the composition of its locked sections on one table, that is, its run with no other writer between
  the sections. The interleavings of these sections with other writers are histories of \<open>relay_step\<close> below, in
  which every locked section (\<open>leave\<close>, \<open>forget\<close>, \<open>missing\<close>, \<open>announce\<close>, \<open>withdraw\<close>) is a step of its own.
\<close>

definition heartbeat_locked :: "nat \<Rightarrow> route_table \<Rightarrow> str \<Rightarrow> u32 \<Rightarrow> route_table" where
  "heartbeat_locked now t relay_id n =
     (case rt_peers t relay_id of
        None \<Rightarrow> t
      | Some p \<Rightarrow>
          t\<lparr>rt_peers := (rt_peers t)(relay_id \<mapsto>
              p\<lparr>pi_last_heartbeat := now, pi_route_count := n,
                pi_status := (if pi_status p = Dead \<or> pi_status p = Suspect then Alive else pi_status p)\<rparr>)\<rparr>)"

definition known_peer :: "route_table \<Rightarrow> str \<Rightarrow> bool" where
  "known_peer t sender \<longleftrightarrow> sender \<noteq> rt_relay_id t \<and> has_peer t sender"

definition trusted_peer :: "route_table \<Rightarrow> str \<Rightarrow> bool" where
  "trusted_peer t sender \<longleftrightarrow> sender \<noteq> rt_relay_id t \<and> peer_is_alive t sender"

definition handle_peer_announce :: "(str \<Rightarrow> url option) \<Rightarrow> nat \<Rightarrow> route_table \<Rightarrow> peer_envelope \<Rightarrow> route_table \<Rightarrow> route_table run" where
  "handle_peer_announce parse now seen env t =
     (if pe_protocol_version env \<noteq> PROTOCOL_VERSION then Some t
      else case validate_route_state_envelope parse env None of
        Inr (VMessage env') \<Rightarrow>
          (case pe_message env' of
             RouteAnnounce r \<Rightarrow> map_option snd (announce_peer parse seen (pe_sender_relay_id env') (announced_entry r) t)
           | RouteWithdraw name relay_id removed_at \<Rightarrow>
               Some (snd (withdraw_peer now seen (pe_sender_relay_id env') name relay_id removed_at t))
           | _ \<Rightarrow> Some t)
      | _ \<Rightarrow> Some t)"

definition handle_peer_heartbeat :: "(str \<Rightarrow> url option) \<Rightarrow> nat \<Rightarrow> route_table \<Rightarrow> peer_envelope \<Rightarrow> route_table \<Rightarrow> route_table" where
  "handle_peer_heartbeat parse now seen env t =
     (if pe_protocol_version env \<noteq> PROTOCOL_VERSION then t
      else case validate_route_state_envelope parse env None of
        Inr (VMessage env') \<Rightarrow>
          (case pe_message env' of
             Heartbeat relay_id n \<Rightarrow>
               if \<not> valid_wire_relay_id (pe_sender_relay_id env') \<or> \<not> valid_wire_relay_id relay_id \<or>
                  pe_sender_relay_id env' \<noteq> relay_id \<or> \<not> known_peer seen (pe_sender_relay_id env')
               then t else heartbeat_locked now t relay_id n
           | _ \<Rightarrow> t)
      | _ \<Rightarrow> t)"

definition handle_peer_leave :: "(str \<Rightarrow> url option) \<Rightarrow> route_key list \<Rightarrow> route_table \<Rightarrow> peer_envelope \<Rightarrow> route_table \<Rightarrow> route_table" where
  "handle_peer_leave parse keys seen env t =
     (if pe_protocol_version env \<noteq> PROTOCOL_VERSION then t
      else case validate_route_state_envelope parse env None of
        Inr (VMessage env') \<Rightarrow>
          (case pe_message env' of
             RelayLeave relay_id \<Rightarrow>
               if \<not> valid_wire_relay_id (pe_sender_relay_id env') \<or> \<not> valid_wire_relay_id relay_id \<or>
                  pe_sender_relay_id env' \<noteq> relay_id \<or> \<not> trusted_peer seen (pe_sender_relay_id env')
               then t else snd (unregister_peer (remove_peer_routes keys t relay_id) relay_id)
           | _ \<Rightarrow> t)
      | _ \<Rightarrow> t)"

definition handle_peer_join :: "(str \<Rightarrow> url option) \<Rightarrow> nat \<Rightarrow> peer_envelope \<Rightarrow> route_table \<Rightarrow> bool \<times> route_table" where
  "handle_peer_join parse now env t =
     (if pe_protocol_version env \<noteq> PROTOCOL_VERSION then (False, t)
      else case pe_message env of
        RelayJoin relay_id u \<Rightarrow>
          if relay_id \<noteq> pe_sender_relay_id env then (False, t)
          else if \<not> valid_wire_relay_id relay_id \<or> \<not> valid_relay_url parse u then (False, t)
          else if relay_id = rt_relay_id t then (False, t)
          else record_peer_join parse now t relay_id u
      | _ \<Rightarrow> (False, t))"

definition route_state_for_diff :: "route_table \<Rightarrow> str \<Rightarrow> str \<Rightarrow> bool \<Rightarrow> digest_diff_entry option" where
  "route_state_for_diff t name relay_id deleted =
     (if deleted then map_option (\<lambda>d. DiffDeleted (tb_name d) (tb_relay_id d) (tb_removed_at d)) (rt_tombstones t (name, relay_id))
      else map_option (\<lambda>e. DiffActive (entry_fields e)) (rt_routes t (name, relay_id)))"

definition peer_digest_map :: "digest_entry list \<Rightarrow> str \<times> str \<times> bool \<rightharpoonup> str" where
  "peer_digest_map ds = fold (\<lambda>d m. m((de_name d, de_relay_id d, de_deleted d) \<mapsto> de_hash d)) ds Map.empty"

text \<open>The first loop: the relay's own routes and tombstones that the peer does not have as they are.\<close>

definition owned_diffs :: "(bytes \<Rightarrow> str) \<Rightarrow> route_table \<Rightarrow> digest_entry list \<Rightarrow> (str \<times> str \<times> bool) list \<Rightarrow> digest_diff_entry list" where
  "owned_diffs sha t digest keys =
     List.map_filter
       (\<lambda>(name, relay_id, deleted).
          if relay_id \<noteq> rt_relay_id t then None
          else if peer_digest_map digest (name, relay_id, deleted) = route_digest sha t (name, relay_id, deleted) then None
          else route_state_for_diff t name relay_id deleted) keys"

text \<open>The second loop: routes that the peer believes this relay owns and that it does not have. Both clocks are read
  anew for every entry, so their readings are functions of the number of entries that remain.\<close>

fun missing_diffs :: "(nat \<Rightarrow> u64) \<Rightarrow> (nat \<Rightarrow> nat) \<Rightarrow> route_table \<Rightarrow> digest_entry list \<Rightarrow> digest_diff_entry list \<times> route_table" where
  "missing_diffs wall now t [] = ([], t)"
| "missing_diffs wall now t (d # ds) =
     (if de_relay_id d = rt_relay_id t \<and> \<not> de_deleted d \<and> route_state_for_diff t (de_name d) (de_relay_id d) False = None
      then
        (let (tomb, t1) = authoritative_missing_tombstone (wall (length ds)) (now (length ds)) t (de_name d) (de_relay_id d);
             (rest, t2) = missing_diffs wall now t1 ds
         in (case tomb of Some x \<Rightarrow> DiffDeleted (tb_name x) (tb_relay_id x) (tb_removed_at x) # rest | None \<Rightarrow> rest, t2))
      else missing_diffs wall now t ds)"

fun apply_digest_diffs :: "(str \<Rightarrow> url option) \<Rightarrow> (nat \<Rightarrow> nat) \<Rightarrow> str \<Rightarrow> route_table \<Rightarrow> validated_digest_diff_entry list \<Rightarrow> route_table run" where
  "apply_digest_diffs parse now sender t [] = Some t"
| "apply_digest_diffs parse now sender t (d # ds) =
     do { (_, t') \<leftarrow> apply_digest_diff parse (now (length ds)) t sender d t; apply_digest_diffs parse now sender t' ds }"

definition handle_peer_digest :: "(str \<Rightarrow> url option) \<Rightarrow> (bytes \<Rightarrow> str) \<Rightarrow> (nat \<Rightarrow> u64) \<Rightarrow> (nat \<Rightarrow> nat) \<Rightarrow> (str \<times> str \<times> bool) list \<Rightarrow> peer_envelope \<Rightarrow>
    route_table \<Rightarrow> (peer_envelope option \<times> route_table) run" where
  "handle_peer_digest parse sha wall now keys env t =
     (let sender = pe_sender_relay_id env
      in if pe_protocol_version env \<noteq> PROTOCOL_VERSION then Some (None, t)
         else if \<not> valid_wire_relay_id sender \<or> \<not> trusted_peer t sender then Some (None, t)
         else case validate_route_state_envelope parse env (Some sender) of
           Inl _ \<Rightarrow> Some (None, t)
         | Inr (VMessage env') \<Rightarrow>
             (case pe_message env' of
                DigestExchange digest \<Rightarrow>
                  (let ours = owned_diffs sha t digest keys;
                       (missing, t') = missing_diffs wall now t digest
                   in Some (Some (envelope_new (rt_relay_id t) (DigestDiff (ours @ missing))), t'))
              | _ \<Rightarrow> Some (None, t))
         | Inr (VDigestDiff ds) \<Rightarrow> do { t' \<leftarrow> apply_digest_diffs parse now sender t ds; Some (None, t') })"

section \<open>All histories of a table\<close>

text \<open>
  Every operation that the code performs on the table under its write lock, with arguments unconstrained
  except where the callers check them under the same lock (or against the relay's fixed id). The label tells
  the relay's own operations from those on behalf of peers and from the collection of tombstones. The relay's
  clock holds integers below two to the power of 53, as wall-clock milliseconds are.
\<close>

datatype relay_label = OwnOp | PeerOp | GcOp

definition clock_ready :: "u64 \<Rightarrow> route_table \<Rightarrow> bool" where
  "clock_ready wall t \<longleftrightarrow> unat wall < 2 ^ 53 \<and> (\<exists>n. f64_int n (rt_next_timestamp t) \<and> n + 1 < 2 ^ 53)"

inductive relay_step :: "(str \<Rightarrow> url option) \<Rightarrow> (bytes \<Rightarrow> str) \<Rightarrow> relay_label \<Rightarrow> route_table \<Rightarrow> route_table \<Rightarrow> bool" for parse sha where
  tick: "clock_ready wall t \<Longrightarrow> next_local_timestamp wall t = (ts, t') \<Longrightarrow> relay_step parse sha OwnOp t t'"
| register_local: "clock_ready wall t \<Longrightarrow> next_local_timestamp wall t = (ts, t1) \<Longrightarrow> re_relay_id e = rt_relay_id t \<Longrightarrow>
     re_locality e = Local \<Longrightarrow> re_registered_at e = ts \<Longrightarrow> can_register_route parse t1 e \<Longrightarrow>
     register_prevalidated_route parse t1 e = Some t' \<Longrightarrow> relay_step parse sha OwnOp t t'"
| unregister_local: "clock_ready wall t \<Longrightarrow> unregister_local_route_with_tombstone wall now t name server_id = (r, t') \<Longrightarrow>
     relay_step parse sha OwnOp t t'"
| unregister_matching: "clock_ready wall t \<Longrightarrow> unregister_local_route_if_matches wall now t expected = (r, t') \<Longrightarrow>
     relay_step parse sha OwnOp t t'"
| withdrawal: "relay_step parse sha OwnOp t (record_registration_withdrawal t scope)"
| missing: "clock_ready wall t \<Longrightarrow> authoritative_missing_tombstone wall now t name relay_id = (r, t') \<Longrightarrow>
     relay_step parse sha OwnOp t t'"
| announce: "announce_locked parse t e = Some (r, t') \<Longrightarrow> relay_step parse sha PeerOp t t'"
| withdraw: "relay_id \<noteq> rt_relay_id t \<Longrightarrow> unregister_route_with_tombstone now t name relay_id removed_at = (r, t') \<Longrightarrow>
     relay_step parse sha PeerOp t t'"
| leave: "relay_id \<noteq> rt_relay_id t \<Longrightarrow> remove_routes_by_relay keys t relay_id = (r, t') \<Longrightarrow> relay_step parse sha PeerOp t t'"
| join: "record_peer_join parse now t relay_id u = (r, t') \<Longrightarrow> relay_step parse sha PeerOp t t'"
| forget: "unregister_peer t relay_id = (r, t') \<Longrightarrow> relay_step parse sha PeerOp t t'"
| heartbeat: "relay_step parse sha PeerOp t (heartbeat_locked now t relay_id n)"
| suspect: "rt_peers t relay_id = Some p \<Longrightarrow>
     relay_step parse sha PeerOp t (t\<lparr>rt_peers := (rt_peers t)(relay_id \<mapsto> p\<lparr>pi_status := s\<rparr>)\<rparr>)"
| merge: "validated_full_sync parse sha now env = Inr s \<Longrightarrow> merge_validated_snapshot parse now order t s = Some t' \<Longrightarrow>
     relay_step parse sha PeerOp t t'"
| gc: "gc_tombstones now retention keys t = (r, t') \<Longrightarrow> relay_step parse sha GcOp t t'"

inductive relay_reach :: "(str \<Rightarrow> url option) \<Rightarrow> (bytes \<Rightarrow> str) \<Rightarrow> str \<Rightarrow> route_table \<Rightarrow> bool" for parse sha relay_id where
  relay_start: "unat wall < 2 ^ 53 \<Longrightarrow> relay_reach parse sha relay_id (table_new wall relay_id)"
| relay_next: "relay_reach parse sha relay_id t \<Longrightarrow> relay_step parse sha l t t' \<Longrightarrow> relay_reach parse sha relay_id t'"

end
