(* ===== verification/Relay_Proofs.thy ===== *)
theory Relay_Proofs
  imports Relay_Gossip
begin

text \<open>
  The invariant of the relay's route table and its consequences: what peers can and cannot change, that a
  deletion is not undone by an older registration, that the relay's own operations take effect, and what a
  resolution returns.
\<close>

section \<open>The invariant\<close>

definition routes_ok :: "(str \<Rightarrow> url option) \<Rightarrow> str \<Rightarrow> (route_key \<rightharpoonup> route_entry) \<Rightarrow> bool" where
  "routes_ok parse self routes \<longleftrightarrow>
     (\<forall>k e. routes k = Some e \<longrightarrow> k = (re_name e, re_relay_id e) \<and> (\<forall>t. rt_relay_id t = self \<longrightarrow> valid_route_entry parse t e))"

definition tombstones_ok :: "(route_key \<rightharpoonup> route_entry) \<Rightarrow> (route_key \<rightharpoonup> route_tombstone) \<Rightarrow> bool" where
  "tombstones_ok routes tombs \<longleftrightarrow>
     (\<forall>k d. tombs k = Some d \<longrightarrow> k = (tb_name d, tb_relay_id d) \<and> valid_tombstone d \<and> routes k = None)"

definition peers_ok :: "(str \<Rightarrow> url option) \<Rightarrow> str \<Rightarrow> (str \<rightharpoonup> peer_info) \<Rightarrow> bool" where
  "peers_ok parse self peers \<longleftrightarrow>
     (\<forall>r p. peers r = Some p \<longrightarrow> pi_relay_id p = r \<and> r \<noteq> self \<and> valid_relay_id r \<and> valid_relay_url parse (pi_url p))"

definition clock_ok :: "str \<Rightarrow> (route_key \<rightharpoonup> route_entry) \<Rightarrow> (route_key \<rightharpoonup> route_tombstone) \<Rightarrow> f64 \<Rightarrow> bool" where
  "clock_ok self routes tombs clock \<longleftrightarrow>
     (\<exists>n. f64_int n clock \<and> n < 2 ^ 53) \<and>
     (\<forall>name e. routes (name, self) = Some e \<longrightarrow> f64_scaled (re_registered_at e) \<le> f64_scaled clock) \<and>
     (\<forall>name d. tombs (name, self) = Some d \<longrightarrow> f64_scaled (tb_removed_at d) \<le> f64_scaled clock)"

definition relay_inv :: "(str \<Rightarrow> url option) \<Rightarrow> route_table \<Rightarrow> bool" where
  "relay_inv parse t \<longleftrightarrow>
     routes_ok parse (rt_relay_id t) (rt_routes t) \<and> tombstones_ok (rt_routes t) (rt_tombstones t) \<and>
     peers_ok parse (rt_relay_id t) (rt_peers t) \<and> clock_ok (rt_relay_id t) (rt_routes t) (rt_tombstones t) (rt_next_timestamp t)"

lemma valid_entry_cong: "rt_relay_id t' = rt_relay_id t \<Longrightarrow> valid_route_entry parse t' e = valid_route_entry parse t e"
  unfolding valid_route_entry_def by (simp only:)

lemma routes_okD: "routes_ok parse (rt_relay_id t) routes \<Longrightarrow> routes k = Some e \<Longrightarrow> k = (re_name e, re_relay_id e) \<and> valid_route_entry parse t e"
  unfolding routes_ok_def by blast

lemma routes_okI:
  "(\<And>k e. routes k = Some e \<Longrightarrow> k = (re_name e, re_relay_id e) \<and> valid_route_entry parse t e) \<Longrightarrow> routes_ok parse (rt_relay_id t) routes"
  unfolding routes_ok_def by (metis valid_entry_cong)

lemma routes_ok_subset: "routes_ok parse self routes \<Longrightarrow> routes' \<subseteq>\<^sub>m routes \<Longrightarrow> routes_ok parse self routes'"
  unfolding routes_ok_def map_le_def by (metis domI)

lemma tombstones_ok_subset:
  "tombstones_ok routes tombs \<Longrightarrow> routes' \<subseteq>\<^sub>m routes \<Longrightarrow> tombs' \<subseteq>\<^sub>m tombs \<Longrightarrow> tombstones_ok routes' tombs'"
  unfolding tombstones_ok_def map_le_def by (metis domI domIff)

lemma clock_ok_subset:
  "clock_ok self routes tombs clock \<Longrightarrow> routes' \<subseteq>\<^sub>m routes \<Longrightarrow> tombs' \<subseteq>\<^sub>m tombs \<Longrightarrow> clock_ok self routes' tombs' clock"
  unfolding clock_ok_def map_le_def by (metis domI)

section \<open>The clock\<close>

lemma next_timestamp_spec:
  assumes "clock_ready wall t" "next_local_timestamp wall t = (ts, t')"
  obtains n where "f64_int n ts" "n < 2 ^ 53" "f64_scaled (rt_next_timestamp t) < f64_scaled ts" "f64_is_finite ts"
    "t' = t\<lparr>rt_next_timestamp := ts\<rparr>"
proof -
  obtain n where n: "f64_int n (rt_next_timestamp t)" "n + 1 < 2 ^ 53" "unat wall < 2 ^ 53" using assms(1) by (auto simp: clock_ready_def)
  have fin: "f64_is_finite (rt_next_timestamp t)" using n(1) by (simp add: f64_int_def)
  have ts: "ts = f64_max (f64_of_u64 wall) (f64_plus (rt_next_timestamp t) f64_one)" "t' = t\<lparr>rt_next_timestamp := ts\<rparr>"
    using assms(2) fin by (auto simp: next_local_timestamp_def Let_def)
  have i: "f64_int (max (unat wall) (n + 1)) ts"
    unfolding ts by (rule f64_max_int [OF f64_of_u64_int [OF n(3)] f64_succ_int [OF n(1,2)]])
  show ?thesis
  proof (rule that [OF i])
    show "max (unat wall) (n + 1) < 2 ^ 53" using n by simp
    show "f64_scaled (rt_next_timestamp t) < f64_scaled ts" using f64_int_less [OF n(1) i] by simp
    show "f64_is_finite ts" using i by (simp add: f64_int_def)
  qed (rule ts(2))
qed

lemma tick_inv:
  assumes "relay_inv parse t" "clock_ready wall t" "next_local_timestamp wall t = (ts, t')"
  shows "relay_inv parse t' \<and> rt_next_timestamp t' = ts"
proof -
  obtain n where n: "f64_int n ts" "n < 2 ^ 53" "f64_scaled (rt_next_timestamp t) < f64_scaled ts" "t' = t\<lparr>rt_next_timestamp := ts\<rparr>"
    by (rule next_timestamp_spec [OF assms(2,3)])
  have "clock_ok (rt_relay_id t) (rt_routes t) (rt_tombstones t) ts"
    using assms(1) n by (fastforce simp: relay_inv_def clock_ok_def)
  then show ?thesis using assms(1) n(4) by (simp add: relay_inv_def)
qed

section \<open>Registration\<close>

lemma register_never_panics: "register_route parse t e \<noteq> None"
  by (auto simp: register_route_def register_prevalidated_route_def Let_def)

lemma register_prevalidated_effect:
  assumes "register_prevalidated_route parse t e = Some t'"
  shows "can_register_route parse t e \<and> valid_route_entry parse t e \<and>
    t' = t\<lparr>rt_tombstones := (rt_tombstones t)((re_name e, re_relay_id e) := None),
           rt_withdrawn := (rt_withdrawn t)((re_name e, re_relay_id e) := None),
           rt_routes := (rt_routes t)((re_name e, re_relay_id e) \<mapsto> e)\<rparr>"
  using assms by (auto simp: register_prevalidated_route_def can_register_route_def Let_def split: if_splits)

lemma register_effect:
  assumes "register_route parse t e = Some (r, t')"
  shows "(\<not> can_register_route parse t e \<and> t' = t) \<or> register_prevalidated_route parse t e = Some t'"
  using assms by (auto simp: register_route_def bind_eq_Some_conv split: if_splits)

lemma register_prevalidated_inv:
  assumes "relay_inv parse t" "register_prevalidated_route parse t e = Some t'"
    "re_relay_id e = rt_relay_id t \<Longrightarrow> f64_scaled (re_registered_at e) \<le> f64_scaled (rt_next_timestamp t)"
  shows "relay_inv parse t'"
proof -
  let ?k = "(re_name e, re_relay_id e)"
  have v: "valid_route_entry parse t e" and
    t': "t' = t\<lparr>rt_tombstones := (rt_tombstones t)(?k := None), rt_withdrawn := (rt_withdrawn t)(?k := None), rt_routes := (rt_routes t)(?k \<mapsto> e)\<rparr>"
    using register_prevalidated_effect [OF assms(2)] by blast+
  have "routes_ok parse (rt_relay_id t) ((rt_routes t)(?k \<mapsto> e))"
    using assms(1) v by (auto intro!: routes_okI dest: routes_okD simp: relay_inv_def split: if_splits)
  moreover have "tombstones_ok ((rt_routes t)(?k \<mapsto> e)) ((rt_tombstones t)(?k := None))"
    using assms(1) by (auto simp: relay_inv_def tombstones_ok_def)
  moreover have "clock_ok (rt_relay_id t) ((rt_routes t)(?k \<mapsto> e)) ((rt_tombstones t)(?k := None)) (rt_next_timestamp t)"
    using assms(1,3) by (auto simp: relay_inv_def clock_ok_def)
  ultimately show ?thesis using assms(1) by (simp add: relay_inv_def t')
qed

lemma register_inv:
  assumes "relay_inv parse t" "register_route parse t e = Some (r, t')" "re_relay_id e \<noteq> rt_relay_id t"
  shows "relay_inv parse t'"
  using register_effect [OF assms(2)] register_prevalidated_inv [OF assms(1)] assms(1,3) by blast

section \<open>Tombstones\<close>

lemma apply_tombstone_effect:
  assumes "apply_tombstone now t d = (r, t')"
  shows "(\<not> r \<and> t' = t) \<or>
    (r \<and> valid_tombstone d \<and>
     \<not> is_some_and (rt_routes t (tb_name d, tb_relay_id d)) (\<lambda>e. f64_lt (tb_removed_at d) (re_registered_at e)) \<and>
     \<not> is_some_and (rt_tombstones t (tb_name d, tb_relay_id d)) (\<lambda>old. f64_le (tb_removed_at d) (tb_removed_at old)) \<and>
     (\<exists>d'. t' = t\<lparr>rt_routes := (rt_routes t)((tb_name d, tb_relay_id d) := None),
                  rt_tombstones := (rt_tombstones t)((tb_name d, tb_relay_id d) \<mapsto> d')\<rparr> \<and>
           tb_name d' = tb_name d \<and> tb_relay_id d' = tb_relay_id d \<and> tb_removed_at d' = tb_removed_at d \<and>
           (tb_server_id d' = tb_server_id d \<or>
            (\<exists>old. rt_tombstones t (tb_name d, tb_relay_id d) = Some old \<and> tb_server_id d' = tb_server_id old))))"
  using assms by (auto simp: apply_tombstone_def Let_def split: if_splits option.splits)

lemma apply_tombstone_inv:
  assumes "relay_inv parse t" "apply_tombstone now t d = (r, t')"
    "tb_relay_id d = rt_relay_id t \<Longrightarrow> f64_scaled (tb_removed_at d) \<le> f64_scaled (rt_next_timestamp t)"
  shows "relay_inv parse t' \<and> rt_relay_id t' = rt_relay_id t \<and> rt_next_timestamp t' = rt_next_timestamp t"
proof -
  let ?k = "(tb_name d, tb_relay_id d)"
  show ?thesis
  proof (cases r)
    case False
    then show ?thesis using apply_tombstone_effect [OF assms(2)] assms(1) by auto
  next
    case True
    then obtain d' where v: "valid_tombstone d"
      and t': "t' = t\<lparr>rt_routes := (rt_routes t)(?k := None), rt_tombstones := (rt_tombstones t)(?k \<mapsto> d')\<rparr>"
      and d': "tb_name d' = tb_name d" "tb_relay_id d' = tb_relay_id d" "tb_removed_at d' = tb_removed_at d"
        "tb_server_id d' = tb_server_id d \<or> (\<exists>old. rt_tombstones t ?k = Some old \<and> tb_server_id d' = tb_server_id old)"
      using apply_tombstone_effect [OF assms(2)] by blast
    have ok: "tombstones_ok (rt_routes t) (rt_tombstones t)" using assms(1) by (simp add: relay_inv_def)
    then have "valid_tombstone d'" using v d' by (fastforce simp: valid_tombstone_def tombstones_ok_def)
    then have "tombstones_ok ((rt_routes t)(?k := None)) ((rt_tombstones t)(?k \<mapsto> d'))" using ok d' by (auto simp: tombstones_ok_def)
    moreover have "routes_ok parse (rt_relay_id t) ((rt_routes t)(?k := None))"
      using assms(1) by (auto simp: relay_inv_def routes_ok_def)
    moreover have "clock_ok (rt_relay_id t) ((rt_routes t)(?k := None)) ((rt_tombstones t)(?k \<mapsto> d')) (rt_next_timestamp t)"
      using assms(1,3) d' by (auto simp: relay_inv_def clock_ok_def)
    ultimately show ?thesis using assms(1) by (simp add: relay_inv_def t')
  qed
qed

lemma remove_effect:
  "remove_with_tombstone now t d = (r, t') \<Longrightarrow> (r = None \<and> t' = t) \<or> (apply_tombstone now t d = (True, t') \<and> r = rt_routes t (tb_name d, tb_relay_id d))"
  using apply_tombstone_effect [of now t d False]
  by (auto simp: remove_with_tombstone_def Let_def split: if_splits prod.splits bool.splits)

lemma remove_inv:
  assumes "relay_inv parse t" "remove_with_tombstone now t d = (r, t')"
    "tb_relay_id d = rt_relay_id t \<Longrightarrow> f64_scaled (tb_removed_at d) \<le> f64_scaled (rt_next_timestamp t)"
  shows "relay_inv parse t'"
  using remove_effect [OF assms(2)] apply_tombstone_inv [OF assms(1) _ assms(3)] assms(1) by blast

end
