(* ===== verification/Relay_Peers.thy ===== *)
theory Relay_Peers
  imports Relay_Proofs
begin

text \<open>
  The operations on behalf of peers keep the invariant of the route table and leave the relay's own part alone, down to
  the merge of a full snapshot.
\<close>

section \<open>The relay's own part\<close>

definition own_same :: "route_table \<Rightarrow> route_table \<Rightarrow> bool" where
  "own_same t t' \<longleftrightarrow>
     rt_relay_id t' = rt_relay_id t \<and> rt_next_timestamp t' = rt_next_timestamp t \<and>
     (\<forall>name. rt_routes t' (name, rt_relay_id t) = rt_routes t (name, rt_relay_id t)) \<and>
     (\<forall>name. rt_tombstones t' (name, rt_relay_id t) = rt_tombstones t (name, rt_relay_id t)) \<and>
     (\<forall>name. rt_withdrawn t' (name, rt_relay_id t) = rt_withdrawn t (name, rt_relay_id t))"

lemma own_same_refl [simp]: "own_same t t"
  by (simp add: own_same_def)

lemma own_same_trans: "own_same t t' \<Longrightarrow> own_same t' t'' \<Longrightarrow> own_same t t''"
  by (simp add: own_same_def)

lemma own_sameD: "own_same t t' \<Longrightarrow> rt_relay_id t' = rt_relay_id t"
  by (simp add: own_same_def)

lemma own_local:
  assumes "relay_inv parse t" "rt_routes t k = Some e"
  shows "re_locality e = Local \<longleftrightarrow> snd k = rt_relay_id t"
proof -
  have "routes_ok parse (rt_relay_id t) (rt_routes t)" using assms(1) by (simp add: relay_inv_def)
  from routes_okD [OF this assms(2)] have "k = (re_name e, re_relay_id e) \<and> valid_route_entry parse t e" .
  then show ?thesis by (auto simp: valid_route_entry_def split: locality.splits)
qed

section \<open>Operations on behalf of peers\<close>

lemma register_own:
  assumes "register_route parse t e = Some (r, t')" "re_relay_id e \<noteq> rt_relay_id t"
  shows "own_same t t'"
  using register_effect [OF assms(1)] register_prevalidated_effect [of parse t e t'] assms(2) by (auto simp: own_same_def)

lemma apply_tombstone_own:
  assumes "apply_tombstone now t d = (r, t')" "tb_relay_id d \<noteq> rt_relay_id t"
  shows "own_same t t'"
  using apply_tombstone_effect [OF assms(1)] assms(2) by (auto simp: own_same_def)

lemma remove_own:
  assumes "remove_with_tombstone now t d = (r, t')" "tb_relay_id d \<noteq> rt_relay_id t"
  shows "own_same t t'"
  using remove_effect [OF assms(1)] apply_tombstone_own [OF _ assms(2)] by auto

lemma valid_entry_url:
  "valid_route_entry parse t e \<Longrightarrow> valid_relay_url parse u \<Longrightarrow> valid_route_entry parse t (e\<lparr>re_relay_url := u\<rparr>)"
  unfolding valid_route_entry_def by (elim conjE, intro conjI) (simp_all cong: locality.case_cong)

lemma sync_urls_inv:
  assumes "relay_inv parse t" "valid_relay_url parse u"
  shows "relay_inv parse (sync_peer_route_urls t relay_id u) \<and> own_same t (sync_peer_route_urls t relay_id u)"
proof -
  let ?f = "\<lambda>e. if re_locality e = Peer \<and> re_relay_id e = relay_id then e\<lparr>re_relay_url := u\<rparr> else e"
  have ok: "routes_ok parse (rt_relay_id t) (rt_routes t)" using assms(1) by (simp add: relay_inv_def)
  have "routes_ok parse (rt_relay_id t) (\<lambda>k. map_option ?f (rt_routes t k))"
  proof (rule routes_okI)
    fix k e
    assume "map_option ?f (rt_routes t k) = Some e"
    then obtain e0 where e: "rt_routes t k = Some e0" "e = ?f e0" by auto
    from routes_okD [OF ok e(1)] valid_entry_url [OF _ assms(2)] show "k = (re_name e, re_relay_id e) \<and> valid_route_entry parse t e"
      unfolding e(2) by simp
  qed
  moreover have same: "map_option ?f (rt_routes t (name, rt_relay_id t)) = rt_routes t (name, rt_relay_id t)" for name
    using own_local [OF assms(1), of "(name, rt_relay_id t)"] by (cases "rt_routes t (name, rt_relay_id t)") auto
  moreover have "tombstones_ok (\<lambda>k. map_option ?f (rt_routes t k)) (rt_tombstones t)"
    using assms(1) by (auto simp: relay_inv_def tombstones_ok_def)
  moreover have "clock_ok (rt_relay_id t) (\<lambda>k. map_option ?f (rt_routes t k)) (rt_tombstones t) (rt_next_timestamp t)"
    using assms(1) unfolding relay_inv_def clock_ok_def same by simp
  ultimately show ?thesis using assms(1) by (simp add: relay_inv_def own_same_def sync_peer_route_urls_def)
qed

lemma peer_update_inv:
  assumes "relay_inv parse t" "pi_relay_id p = relay_id" "relay_id \<noteq> rt_relay_id t" "valid_relay_id relay_id"
    "valid_relay_url parse (pi_url p)"
  shows "relay_inv parse (t\<lparr>rt_peers := (rt_peers t)(relay_id \<mapsto> p)\<rparr>) \<and> own_same t (t\<lparr>rt_peers := (rt_peers t)(relay_id \<mapsto> p)\<rparr>)"
  using assms unfolding relay_inv_def peers_ok_def own_same_def by simp

lemma peer_joined_inv:
  assumes "relay_inv parse t" "pi_relay_id p = relay_id" "relay_id \<noteq> rt_relay_id t" "valid_relay_id relay_id"
    "pi_url p = u" "valid_relay_url parse u"
  shows "relay_inv parse (sync_peer_route_urls (t\<lparr>rt_peers := (rt_peers t)(relay_id \<mapsto> p)\<rparr>) relay_id u) \<and>
    own_same t (sync_peer_route_urls (t\<lparr>rt_peers := (rt_peers t)(relay_id \<mapsto> p)\<rparr>) relay_id u)"
proof -
  let ?t = "t\<lparr>rt_peers := (rt_peers t)(relay_id \<mapsto> p)\<rparr>"
  have t: "relay_inv parse ?t" "own_same t ?t" using peer_update_inv [OF assms(1-4)] assms(5,6) by simp_all
  show ?thesis using sync_urls_inv [OF t(1) assms(6), of relay_id] own_same_trans [OF t(2)] by simp
qed

lemma known_peer_id: "relay_inv parse t \<Longrightarrow> rt_peers t r = Some p \<Longrightarrow> pi_relay_id p = r \<and> r \<noteq> rt_relay_id t \<and> valid_relay_id r \<and> valid_relay_url parse (pi_url p)"
  by (simp add: relay_inv_def peers_ok_def)

lemma announce_inv:
  assumes "relay_inv parse t" "announce_locked parse t e = Some (r, t')"
  shows "relay_inv parse t' \<and> own_same t t'"
  using assms register_inv [OF assms(1)] register_own
  by (fastforce simp: announce_locked_def bind_eq_Some_conv split: if_splits option.splits)

lemma join_inv:
  assumes "relay_inv parse t" "record_peer_join parse now t relay_id u = (r, t')"
  shows "relay_inv parse t' \<and> own_same t t'"
proof (cases "\<not> valid_relay_id relay_id \<or> relay_id = rt_relay_id t \<or> \<not> valid_relay_url parse u")
  case True
  then show ?thesis using assms by (simp add: record_peer_join_def)
next
  case False
  define p where "p = (case rt_peers t relay_id of
       Some peer \<Rightarrow> peer\<lparr>pi_url := u, pi_last_heartbeat := now, pi_status := Alive\<rparr>
     | None \<Rightarrow> \<lparr>pi_relay_id = relay_id, pi_url = u, pi_route_count = 0, pi_last_heartbeat = now, pi_status = Alive\<rparr>)"
  have "pi_relay_id p = relay_id" "pi_url p = u" using known_peer_id [OF assms(1)] by (auto simp: p_def split: option.splits)
  then have "relay_inv parse (sync_peer_route_urls (t\<lparr>rt_peers := (rt_peers t)(relay_id \<mapsto> p)\<rparr>) relay_id u) \<and>
      own_same t (sync_peer_route_urls (t\<lparr>rt_peers := (rt_peers t)(relay_id \<mapsto> p)\<rparr>) relay_id u)"
    using False by (intro peer_joined_inv [OF assms(1)]) auto
  moreover have "t' = sync_peer_route_urls (t\<lparr>rt_peers := (rt_peers t)(relay_id \<mapsto> p)\<rparr>) relay_id u"
    using assms(2) False by (auto simp: record_peer_join_def p_def [symmetric] Let_def)
  ultimately show ?thesis by simp
qed

section \<open>Merging\<close>

lemma drop_peer_inv:
  assumes "relay_inv parse t"
  shows "relay_inv parse (drop_peer_routes t) \<and> own_same t (drop_peer_routes t)"
proof -
  let ?r = "rt_routes (drop_peer_routes t)"
  have sub: "?r \<subseteq>\<^sub>m rt_routes t" by (auto simp: drop_peer_routes_def map_le_def split: option.splits if_splits)
  have "rt_routes (drop_peer_routes t) (name, rt_relay_id t) = rt_routes t (name, rt_relay_id t)" for name
    using own_local [OF assms, of "(name, rt_relay_id t)"] by (auto simp: drop_peer_routes_def split: option.splits)
  then show ?thesis
    using assms routes_ok_subset [OF _ sub] tombstones_ok_subset [OF _ sub map_le_refl] clock_ok_subset [OF _ sub map_le_refl]
    by (simp add: relay_inv_def own_same_def) (simp add: drop_peer_routes_def)
qed

lemma apply_tombstones_inv:
  "relay_inv parse t \<Longrightarrow> relay_inv parse (apply_tombstones now t ds) \<and> own_same t (apply_tombstones now t ds)"
proof (induction ds arbitrary: t)
  case (Cons d ds)
  show ?case
  proof (cases "tb_relay_id d = rt_relay_id t")
    case False
    obtain r t1 where a: "apply_tombstone now t d = (r, t1)" by fastforce
    have i: "relay_inv parse t1" using apply_tombstone_inv [OF Cons.prems a] False by blast
    show ?thesis using Cons.IH [OF i] own_same_trans [OF apply_tombstone_own [OF a False]] False a by simp
  qed (use Cons in simp)
qed simp

lemma replacement_owner:
  assumes "replacement_routes t snaps acc es = Some m" "\<And>k e. acc k = Some e \<Longrightarrow> re_relay_id e \<noteq> rt_relay_id t"
  shows "m k = Some e \<Longrightarrow> re_relay_id e \<noteq> rt_relay_id t"
  using assms
proof (induction es arbitrary: acc)
  case (Cons x es)
  then show ?case by (fastforce split: if_splits option.splits)
qed simp

lemma register_replacements_inv:
  assumes "relay_inv parse t" "\<And>k e. m k = Some e \<Longrightarrow> re_relay_id e \<noteq> rt_relay_id t"
  shows "\<exists>t'. register_replacements parse m t ks = Some t' \<and> relay_inv parse t' \<and> own_same t t'"
  using assms
proof (induction ks arbitrary: t)
  case (Cons k ks)
  show ?case
  proof (cases "\<exists>e. m k = Some e \<and> \<not> is_some_and (rt_tombstones t k) (\<lambda>d. f64_le (re_registered_at e) (tb_removed_at d))")
    case True
    then obtain e where e: "m k = Some e" "\<not> is_some_and (rt_tombstones t k) (\<lambda>d. f64_le (re_registered_at e) (tb_removed_at d))" by blast
    obtain r t1 where reg: "register_route parse t e = Some (r, t1)" using register_never_panics [of parse t e] by fastforce
    have own: "own_same t t1" by (rule register_own [OF reg Cons.prems(2) [OF e(1)]])
    have "\<exists>t'. register_replacements parse m t1 ks = Some t' \<and> relay_inv parse t' \<and> own_same t1 t'"
    proof (rule Cons.IH)
      show "relay_inv parse t1" by (rule register_inv [OF Cons.prems(1) reg Cons.prems(2) [OF e(1)]])
      show "re_relay_id x \<noteq> rt_relay_id t1" if "m k' = Some x" for k' x using Cons.prems(2) [OF that] own_sameD [OF own] by simp
    qed
    then show ?thesis using own own_same_trans e reg by fastforce
  next
    case False
    then show ?thesis using Cons.IH [OF Cons.prems] by (auto split: option.splits)
  qed
qed simp

lemma merge_peers_inv:
  assumes "relay_inv parse t" "\<forall>p\<in>set ps. valid_wire_relay_id (ps_relay_id p) \<and> valid_relay_url parse (ps_url p)"
  shows "relay_inv parse (merge_peers now t ps) \<and> own_same t (merge_peers now t ps)"
  using assms
proof (induction ps arbitrary: t)
  case (Cons p ps)
  show ?case
  proof (cases "ps_relay_id p = rt_relay_id t")
    case False
    define q where "q = (case rt_peers t (ps_relay_id p) of
       Some x \<Rightarrow> x\<lparr>pi_url := ps_url p, pi_route_count := ps_route_count p,
                pi_status := (if pi_status x \<noteq> Dead then ps_status p else pi_status x), pi_last_heartbeat := now\<rparr>
     | None \<Rightarrow> \<lparr>pi_relay_id = ps_relay_id p, pi_url = ps_url p, pi_route_count = ps_route_count p,
                pi_last_heartbeat = now, pi_status = ps_status p\<rparr>)"
    have q: "pi_relay_id q = ps_relay_id p" "pi_url q = ps_url p"
      using known_peer_id [OF Cons.prems(1)] by (auto simp: q_def split: option.splits)
    define t1 where "t1 = sync_peer_route_urls (t\<lparr>rt_peers := (rt_peers t)(ps_relay_id p \<mapsto> q)\<rparr>) (ps_relay_id p) (ps_url p)"
    have t1: "relay_inv parse t1" "own_same t t1"
      using peer_joined_inv [OF Cons.prems(1) q(1) False _ q(2)] Cons.prems(2)
      by (auto simp: t1_def valid_wire_relay_id_def valid_relay_id_def)
    have "merge_peers now t (p # ps) = merge_peers now t1 ps" using False by (simp add: q_def [symmetric] t1_def [symmetric] Let_def)
    then show ?thesis using Cons.IH [OF t1(1)] own_same_trans [OF t1(2)] Cons.prems(2) by simp
  qed (use Cons in simp)
qed simp

lemma sync_peers_valid: "check_sync_peers parse ps = Inr () \<Longrightarrow> \<forall>p\<in>set ps. valid_wire_relay_id (ps_relay_id p) \<and> valid_relay_url parse (ps_url p)"
  by (induction ps) (auto split: if_splits)

lemma validated_peers: "validated_full_sync parse sha now env = Inr s \<Longrightarrow>
    \<forall>p\<in>set (fs_peers s). valid_wire_relay_id (ps_relay_id p) \<and> valid_relay_url parse (ps_url p)"
  unfolding validated_full_sync_def
  by (rule sync_peers_valid) (auto simp: and_then_Inr if_Inl_eq_Inr split del: if_split)

lemma merge_inv:
  assumes "relay_inv parse t" "validated_full_sync parse sha now env = Inr s"
  shows "\<exists>t'. merge_validated_snapshot parse now order t s = Some t' \<and> relay_inv parse t' \<and> own_same t t'"
proof (cases "replacement_routes t (index_peers (rt_relay_id t) (fs_peers s)) Map.empty (fs_routes s)")
  case None
  then show ?thesis using assms(1) by (simp add: merge_validated_snapshot_def)
next
  case (Some m)
  have m: "m k = Some e \<Longrightarrow> re_relay_id e \<noteq> rt_relay_id t" for k e using replacement_owner [OF Some, of k e] by simp
  define t1 where "t1 = apply_tombstones now (drop_peer_routes t) (fs_tombstones s)"
  have t1: "relay_inv parse t1" "own_same t t1"
    using drop_peer_inv [OF assms(1)] apply_tombstones_inv [of parse "drop_peer_routes t" now "fs_tombstones s"]
    unfolding t1_def by (blast intro: own_same_trans)+
  obtain t2 where t2: "register_replacements parse m t1 (order m) = Some t2" "relay_inv parse t2" "own_same t1 t2"
    using register_replacements_inv [OF t1(1), of m "order m"] m own_sameD [OF t1(2)] by auto
  have "relay_inv parse (merge_peers now t2 (fs_peers s)) \<and> own_same t2 (merge_peers now t2 (fs_peers s))"
    by (rule merge_peers_inv [OF t2(2) validated_peers [OF assms(2)]])
  moreover have "merge_validated_snapshot parse now order t s = Some (merge_peers now t2 (fs_peers s))"
    using Some t2(1) by (simp add: merge_validated_snapshot_def t1_def [symmetric])
  ultimately show ?thesis using own_same_trans [OF t1(2) own_same_trans [OF t2(3)]] by blast
qed

end
