(* ===== verification/Relay_Steps.thy ===== *)
theory Relay_Steps
  imports Relay_Peers
begin

text \<open>
  Every step of the relay, its own and its peers', keeps the invariant of the route table; a step on behalf of a peer
  leaves the relay's own part as it is.
\<close>

section \<open>Every step keeps the invariant\<close>

lemma next_relay_id: "next_local_timestamp wall t = (ts, t1) \<Longrightarrow> rt_relay_id t1 = rt_relay_id t"
  by (auto simp: next_local_timestamp_def Let_def)

lemma own_tombstone_inv:
  assumes "relay_inv parse t" "clock_ready wall t" "next_local_timestamp wall t = (ts, t1)"
    "apply_tombstone now t1 d = (r, t')" "tb_removed_at d = ts"
  shows "relay_inv parse t' \<and> rt_relay_id t' = rt_relay_id t"
proof -
  have t1: "relay_inv parse t1" "rt_next_timestamp t1 = ts" using tick_inv [OF assms(1-3)] by auto
  show ?thesis using apply_tombstone_inv [OF t1(1) assms(4)] t1(2) next_relay_id [OF assms(3)] assms(5) by simp
qed

lemma own_remove_inv:
  assumes "relay_inv parse t" "clock_ready wall t" "next_local_timestamp wall t = (ts, t1)"
    "remove_with_tombstone now t1 d = (r, t')" "tb_removed_at d = ts"
  shows "relay_inv parse t' \<and> rt_relay_id t' = rt_relay_id t"
  using remove_effect [OF assms(4)] own_tombstone_inv [OF assms(1-3) _ assms(5)] tick_inv [OF assms(1-3)] next_relay_id [OF assms(3)] by blast

lemma unregister_local_split:
  assumes "unregister_local_route_with_tombstone wall now t name server_id = (r, t')"
  shows "\<exists>ts t1 d r'. next_local_timestamp wall t = (ts, t1) \<and> remove_with_tombstone now t1 d = (r', t') \<and> tb_removed_at d = ts \<and>
    tb_name d = name \<and> tb_relay_id d = rt_relay_id t \<and> tb_server_id d = Some server_id \<and> r = (r', ts)"
proof -
  obtain ts t1 where n: "next_local_timestamp wall t = (ts, t1)" by fastforce
  define d where "d = \<lparr>tb_name = name, tb_relay_id = rt_relay_id t, tb_removed_at = ts, tb_server_id = Some server_id, tb_observed_at = now\<rparr>"
  obtain r' t2 where m: "remove_with_tombstone now t1 d = (r', t2)" by fastforce
  have "r = (r', ts)" "t' = t2" using assms n m by (simp_all add: unregister_local_route_with_tombstone_def d_def)
  with n m show ?thesis by (intro exI [of _ ts] exI [of _ t1] exI [of _ d] exI [of _ r']) (simp add: d_def)
qed

lemma unregister_matching_split:
  assumes "unregister_local_route_if_matches wall now t expected = (r, t')"
  shows "(\<exists>ts. next_local_timestamp wall t = (ts, t')) \<or>
    (\<exists>ts t1 d r'. next_local_timestamp wall t = (ts, t1) \<and> remove_with_tombstone now t1 d = (r', t') \<and> tb_removed_at d = ts)"
proof -
  let ?k = "(re_name expected, rt_relay_id t)"
  obtain ts t1 where n: "next_local_timestamp wall t = (ts, t1)" by fastforce
  define d where "d = \<lparr>tb_name = re_name expected, tb_relay_id = rt_relay_id t, tb_removed_at = ts,
    tb_server_id = (case rt_routes t ?k of Some e \<Rightarrow> re_server_id e | None \<Rightarrow> None), tb_observed_at = now\<rparr>"
  obtain r' t2 where m: "remove_with_tombstone now t1 d = (r', t2)" by fastforce
  show ?thesis
  proof (cases "is_some_and (rt_routes t ?k) (\<lambda>e. local_route_matches e expected)")
    case True
    then have "t' = t2" using assms n m by (simp add: unregister_local_route_if_matches_def d_def)
    with n m have "next_local_timestamp wall t = (ts, t1) \<and> remove_with_tombstone now t1 d = (r', t') \<and> tb_removed_at d = ts" by (simp add: d_def)
    then show ?thesis by blast
  next
    case False
    then show ?thesis using assms n by (simp add: unregister_local_route_if_matches_def)
  qed
qed

lemma missing_split:
  assumes "authoritative_missing_tombstone wall now t name relay_id = (r, t')"
  shows "t' = t \<or> (\<exists>ts t1 d r'. next_local_timestamp wall t = (ts, t1) \<and> apply_tombstone now t1 d = (r', t') \<and> tb_removed_at d = ts \<and>
    tb_relay_id d = rt_relay_id t \<and> rt_routes t (tb_name d, tb_relay_id d) = None)"
proof (cases "relay_id \<noteq> rt_relay_id t \<or> \<not> valid_route_name name \<or> \<not> valid_relay_id relay_id \<or> rt_routes t (name, relay_id) \<noteq> None")
  case True
  then have "t' = t" using assms by (simp add: authoritative_missing_tombstone_def split: if_splits)
  then show ?thesis by simp
next
  case False
  obtain ts t1 where n: "next_local_timestamp wall t = (ts, t1)" by fastforce
  define d where "d = \<lparr>tb_name = name, tb_relay_id = relay_id, tb_removed_at = ts, tb_server_id = None, tb_observed_at = now\<rparr>"
  obtain r' t2 where m: "apply_tombstone now t1 d = (r', t2)" by fastforce
  have f: "relay_id = rt_relay_id t" "valid_route_name name" "valid_relay_id relay_id" "rt_routes t (name, relay_id) = None" using False by auto
  then have "t' = t2" using assms n m by (simp add: authoritative_missing_tombstone_def d_def)
  with n m f have "next_local_timestamp wall t = (ts, t1) \<and> apply_tombstone now t1 d = (r', t') \<and> tb_removed_at d = ts \<and>
    tb_relay_id d = rt_relay_id t \<and> rt_routes t (tb_name d, tb_relay_id d) = None" by (simp add: d_def)
  then show ?thesis by blast
qed

lemma tick_step:
  assumes "relay_inv parse t" "clock_ready wall t" "next_local_timestamp wall t = (ts, t')"
  shows "relay_inv parse t' \<and> rt_relay_id t' = rt_relay_id t"
  using tick_inv [OF assms] next_relay_id [OF assms(3)] by simp

lemma register_local_step:
  assumes "relay_inv parse t" "clock_ready wall t" "next_local_timestamp wall t = (ts, t1)" "re_registered_at e = ts"
    "register_prevalidated_route parse t1 e = Some t'"
  shows "relay_inv parse t' \<and> rt_relay_id t' = rt_relay_id t"
proof -
  have t1: "relay_inv parse t1" "rt_next_timestamp t1 = ts" "rt_relay_id t1 = rt_relay_id t"
    using tick_inv [OF assms(1-3)] next_relay_id [OF assms(3)] by auto
  have "relay_inv parse t'" using register_prevalidated_inv [OF t1(1) assms(5)] t1(2) assms(4) by simp
  moreover have "rt_relay_id t' = rt_relay_id t1" using register_prevalidated_effect [OF assms(5)] by simp
  ultimately show ?thesis using t1(3) by simp
qed

lemma unregister_local_step:
  assumes "relay_inv parse t" "clock_ready wall t" "unregister_local_route_with_tombstone wall now t name server_id = (r, t')"
  shows "relay_inv parse t' \<and> rt_relay_id t' = rt_relay_id t"
proof -
  obtain ts t1 d r' where "next_local_timestamp wall t = (ts, t1)" "remove_with_tombstone now t1 d = (r', t')" "tb_removed_at d = ts"
    using unregister_local_split [OF assms(3)] by metis
  then show ?thesis by (rule own_remove_inv [OF assms(1,2)])
qed

lemma unregister_matching_step:
  assumes "relay_inv parse t" "clock_ready wall t" "unregister_local_route_if_matches wall now t expected = (r, t')"
  shows "relay_inv parse t' \<and> rt_relay_id t' = rt_relay_id t"
proof -
  consider (tick) ts where "next_local_timestamp wall t = (ts, t')"
    | (removed) ts t1 d r' where "next_local_timestamp wall t = (ts, t1)" "remove_with_tombstone now t1 d = (r', t')" "tb_removed_at d = ts"
    using unregister_matching_split [OF assms(3)] by metis
  then show ?thesis
  proof cases
    case tick
    then show ?thesis by (rule tick_step [OF assms(1,2)])
  next
    case removed
    then show ?thesis by (rule own_remove_inv [OF assms(1,2)])
  qed
qed

lemma missing_step:
  assumes "relay_inv parse t" "clock_ready wall t" "authoritative_missing_tombstone wall now t name relay_id = (r, t')"
  shows "relay_inv parse t' \<and> rt_relay_id t' = rt_relay_id t"
proof -
  consider "t' = t"
    | (dead) ts t1 d r' where "next_local_timestamp wall t = (ts, t1)" "apply_tombstone now t1 d = (r', t')" "tb_removed_at d = ts"
    using missing_split [OF assms(3)] by metis
  then show ?thesis
  proof cases
    case dead
    then show ?thesis by (rule own_tombstone_inv [OF assms(1,2)])
  qed (use assms(1) in simp)
qed

lemma withdraw_step:
  assumes "relay_inv parse t" "relay_id \<noteq> rt_relay_id t" "unregister_route_with_tombstone now t name relay_id removed_at = (r, t')"
  shows "relay_inv parse t' \<and> own_same t t'"
proof -
  define d where "d = \<lparr>tb_name = name, tb_relay_id = relay_id, tb_removed_at = removed_at, tb_server_id = None, tb_observed_at = now\<rparr>"
  have m: "remove_with_tombstone now t d = (r, t')" "tb_relay_id d \<noteq> rt_relay_id t"
    using assms(2,3) by (simp_all add: unregister_route_with_tombstone_def d_def)
  have "relay_inv parse t'" by (rule remove_inv [OF assms(1) m(1)]) (use m(2) in simp)
  then show ?thesis using remove_own [OF m] by simp
qed

lemma leave_step:
  assumes "relay_inv parse t" "relay_id \<noteq> rt_relay_id t" "remove_routes_by_relay keys t relay_id = (r, t')"
  shows "relay_inv parse t' \<and> own_same t t'"
proof -
  have t': "t' = t\<lparr>rt_routes := (\<lambda>k. if snd k = relay_id then None else rt_routes t k)\<rparr>" using assms(3) by (simp add: remove_routes_by_relay_def)
  have sub: "(\<lambda>k. if snd k = relay_id then None else rt_routes t k) \<subseteq>\<^sub>m rt_routes t" by (simp add: map_le_def dom_def)
  show ?thesis using assms(1,2) routes_ok_subset [OF _ sub] tombstones_ok_subset [OF _ sub map_le_refl]
      clock_ok_subset [OF _ sub map_le_refl] by (simp add: t' relay_inv_def own_same_def)
qed

lemma forget_step: "relay_inv parse t \<Longrightarrow> unregister_peer t relay_id = (r, t') \<Longrightarrow> relay_inv parse t' \<and> own_same t t'"
  unfolding unregister_peer_def relay_inv_def peers_ok_def own_same_def by (clarsimp split: if_splits)

lemma peer_status_step:
  assumes "relay_inv parse t" "rt_peers t relay_id = Some p" "pi_relay_id q = pi_relay_id p" "pi_url q = pi_url p"
  shows "relay_inv parse (t\<lparr>rt_peers := (rt_peers t)(relay_id \<mapsto> q)\<rparr>) \<and> own_same t (t\<lparr>rt_peers := (rt_peers t)(relay_id \<mapsto> q)\<rparr>)"
  using known_peer_id [OF assms(1,2)] assms(3,4) by (intro peer_update_inv [OF assms(1)]) auto

lemma heartbeat_step:
  assumes "relay_inv parse t"
  shows "relay_inv parse (heartbeat_locked now t relay_id n) \<and> own_same t (heartbeat_locked now t relay_id n)"
proof (cases "rt_peers t relay_id")
  case (Some p)
  then show ?thesis unfolding heartbeat_locked_def by (auto intro!: peer_status_step [OF assms Some, THEN conjunct1] peer_status_step [OF assms Some, THEN conjunct2])
qed (simp add: heartbeat_locked_def assms)

lemma gc_step:
  assumes "relay_inv parse t" "gc_tombstones now retention keys t = (r, t')"
  shows "relay_inv parse t' \<and> rt_relay_id t' = rt_relay_id t"
proof -
  have t': "t' = t\<lparr>rt_tombstones := (\<lambda>k. if gc_reason now retention t k = None then rt_tombstones t k else None),
      rt_withdrawn := (\<lambda>k. if gc_reason now retention t k = None then rt_withdrawn t k else None)\<rparr>" using assms(2) by (simp add: gc_tombstones_def)
  have sub: "(\<lambda>k. if gc_reason now retention t k = None then rt_tombstones t k else None) \<subseteq>\<^sub>m rt_tombstones t"
    by (simp add: map_le_def dom_def)
  show ?thesis using assms(1) tombstones_ok_subset [OF _ map_le_refl sub] clock_ok_subset [OF _ map_le_refl sub]
    by (simp add: t' relay_inv_def)
qed

lemma relay_step_inv:
  assumes "relay_step parse sha l t t'" "relay_inv parse t"
  shows "relay_inv parse t' \<and> rt_relay_id t' = rt_relay_id t \<and> (l = PeerOp \<longrightarrow> own_same t t')"
  using assms
proof (induction rule: relay_step.induct)
  case (tick wall t ts t')
  show ?case using tick_step [OF tick.prems tick.hyps(1,2)] by simp
next
  case (register_local wall t ts t1 e t')
  show ?case using register_local_step [OF register_local.prems register_local.hyps(1,2,5,7)] by simp
next
  case (unregister_local wall t now name server_id r t')
  show ?case using unregister_local_step [OF unregister_local.prems unregister_local.hyps] by simp
next
  case (unregister_matching wall t now expected r t')
  show ?case using unregister_matching_step [OF unregister_matching.prems unregister_matching.hyps] by simp
next
  case (withdrawal t scope)
  show ?case using withdrawal.prems by (simp add: record_registration_withdrawal_def relay_inv_def)
next
  case (missing wall t now name relay_id r t')
  show ?case using missing_step [OF missing.prems missing.hyps] by simp
next
  case (announce t e r t')
  show ?case using announce_inv [OF announce.prems announce.hyps] own_sameD [of t t'] by simp
next
  case (withdraw relay_id t now name removed_at r t')
  show ?case using withdraw_step [OF withdraw.prems withdraw.hyps] own_sameD [of t t'] by simp
next
  case (leave relay_id t keys r t')
  show ?case using leave_step [OF leave.prems leave.hyps] own_sameD [of t t'] by simp
next
  case (join now t relay_id u r t')
  show ?case using join_inv [OF join.prems join.hyps] own_sameD [of t t'] by simp
next
  case (forget t relay_id r t')
  show ?case using forget_step [OF forget.prems forget.hyps] own_sameD [of t t'] by simp
next
  case (heartbeat t now relay_id n)
  show ?case using heartbeat_step [OF heartbeat.prems] own_sameD by blast
next
  case (suspect t relay_id p s)
  show ?case using peer_status_step [OF suspect.prems suspect.hyps, of "p\<lparr>pi_status := s\<rparr>"] by simp
next
  case (merge now env s order t t')
  show ?case using merge_inv [OF merge.prems merge.hyps(1), of order] merge.hyps(2) own_sameD [of t t'] by auto
next
  case (gc now retention keys t r t')
  show ?case using gc_step [OF gc.prems gc.hyps] by simp
qed

lemma relay_start_inv: "unat wall < 2 ^ 53 \<Longrightarrow> relay_inv parse (table_new wall relay_id)"
proof -
  assume w: "unat wall < 2 ^ 53"
  let ?n = "if wall = 0 then 0 else wall - 1"
  have "unat ?n \<le> unat wall" by (auto simp: unat_sub_if' unat_gt_0 [symmetric])
  then have n: "unat ?n < 2 ^ 53" using w by simp
  have "f64_int (unat ?n) (f64_of_u64 ?n)" by (rule f64_of_u64_int [OF n])
  then show ?thesis using n by (auto simp: table_new_def relay_inv_def routes_ok_def tombstones_ok_def peers_ok_def clock_ok_def)
qed

lemma relay_reach_inv: "relay_reach parse sha relay_id t \<Longrightarrow> relay_inv parse t \<and> rt_relay_id t = relay_id"
proof (induction rule: relay_reach.induct)
  case (relay_start wall)
  then show ?case using relay_start_inv by (simp add: table_new_def)
next
  case (relay_next t l t')
  then show ?case using relay_step_inv by blast
qed

end
