(* ===== verification/Relay_Claims.thy ===== *)
theory Relay_Claims
  imports Relay_Steps
begin

text \<open>
  The properties of the relay's table over all its histories: the invariant, what peers cannot touch, the barrier that
  a tombstone puts up, the effect of the relay's own operations and what a resolution returns.
\<close>

section \<open>The barrier of a tombstone\<close>

definition newer_route :: "(route_key \<rightharpoonup> route_entry) \<Rightarrow> route_key \<Rightarrow> f64 \<Rightarrow> bool" where
  "newer_route routes k ts \<longleftrightarrow> (\<exists>e. routes k = Some e \<and> f64_scaled ts < f64_scaled (re_registered_at e))"

definition later_tombstone :: "(route_key \<rightharpoonup> route_tombstone) \<Rightarrow> route_key \<Rightarrow> f64 \<Rightarrow> bool" where
  "later_tombstone tombs k ts \<longleftrightarrow> (\<exists>d. tombs k = Some d \<and> f64_scaled ts \<le> f64_scaled (tb_removed_at d))"

definition barrier :: "route_table \<Rightarrow> route_key \<Rightarrow> f64 \<Rightarrow> bool" where
  "barrier t k ts \<longleftrightarrow> later_tombstone (rt_tombstones t) k ts \<or> newer_route (rt_routes t) k ts"

lemma barrier_same_tombstones: "later_tombstone (rt_tombstones t) k ts \<Longrightarrow> rt_tombstones t' = rt_tombstones t \<Longrightarrow> barrier t' k ts"
  by (simp add: barrier_def)

lemma inv_tombstoneD:
  "relay_inv parse t \<Longrightarrow> rt_tombstones t k = Some d \<Longrightarrow> k = (tb_name d, tb_relay_id d) \<and> valid_tombstone d \<and> rt_routes t k = None"
  unfolding relay_inv_def tombstones_ok_def by blast

lemma inv_routeD: "relay_inv parse t \<Longrightarrow> rt_routes t k = Some e \<Longrightarrow> k = (re_name e, re_relay_id e) \<and> valid_route_entry parse t e"
  unfolding relay_inv_def by (blast dest: routes_okD)

lemma valid_tombstone_finite: "relay_inv parse t \<Longrightarrow> rt_tombstones t k = Some d \<Longrightarrow> f64_is_finite (tb_removed_at d)"
  using inv_tombstoneD [of parse t k d] by (simp add: valid_tombstone_def)

lemma valid_entry_finite: "valid_route_entry parse t e \<Longrightarrow> f64_is_finite (re_registered_at e)"
  by (simp add: valid_route_entry_def)

lemma register_prevalidated_barrier:
  assumes "relay_inv parse t" "register_prevalidated_route parse t e = Some t'" "later_tombstone (rt_tombstones t) k ts"
  shows "later_tombstone (rt_tombstones t') k ts \<or> (k = (re_name e, re_relay_id e) \<and> rt_routes t' k = Some e \<and> f64_scaled ts < f64_scaled (re_registered_at e))"
proof (cases "k = (re_name e, re_relay_id e)")
  case True
  obtain d where d: "rt_tombstones t k = Some d" "f64_scaled ts \<le> f64_scaled (tb_removed_at d)" using assms(3) by (auto simp: later_tombstone_def)
  have fin: "f64_is_finite (tb_removed_at d)" "f64_is_finite (re_registered_at e)"
    using valid_tombstone_finite [OF assms(1) d(1)] register_prevalidated_effect [OF assms(2)] valid_entry_finite by blast+
  have "\<not> f64_le (re_registered_at e) (tb_removed_at d)"
    using register_prevalidated_effect [OF assms(2)] d(1) True by (auto simp: can_register_route_def split: if_splits)
  then have "f64_scaled (tb_removed_at d) < f64_scaled (re_registered_at e)" using fin by (simp add: f64_le_finite not_le)
  then show ?thesis using register_prevalidated_effect [OF assms(2)] True d(2) by simp
next
  case False
  then show ?thesis using register_prevalidated_effect [OF assms(2)] assms(3) by (simp add: later_tombstone_def)
qed

lemma register_barrier:
  assumes "relay_inv parse t" "register_route parse t e = Some (r, t')" "later_tombstone (rt_tombstones t) k ts"
  shows "later_tombstone (rt_tombstones t') k ts \<or> (k = (re_name e, re_relay_id e) \<and> rt_routes t' k = Some e \<and> f64_scaled ts < f64_scaled (re_registered_at e))"
  using register_effect [OF assms(2)] register_prevalidated_barrier [OF assms(1) _ assms(3)] assms(3) by blast

lemma apply_tombstone_barrier:
  assumes "relay_inv parse t" "apply_tombstone now t d = (r, t')" "later_tombstone (rt_tombstones t) k ts"
  shows "later_tombstone (rt_tombstones t') k ts"
proof (cases "r \<and> k = (tb_name d, tb_relay_id d)")
  case True
  obtain old where old: "rt_tombstones t k = Some old" "f64_scaled ts \<le> f64_scaled (tb_removed_at old)" using assms(3) by (auto simp: later_tombstone_def)
  obtain d' where d': "rt_tombstones t' k = Some d'" "tb_removed_at d' = tb_removed_at d" "valid_tombstone d"
    "\<not> f64_le (tb_removed_at d) (tb_removed_at old)"
    using apply_tombstone_effect [OF assms(2)] True old(1) by (auto simp: is_some_and_def)
  have "f64_is_finite (tb_removed_at d)" using d'(3) by (simp add: valid_tombstone_def)
  then have "f64_scaled (tb_removed_at old) < f64_scaled (tb_removed_at d)"
    using d'(4) valid_tombstone_finite [OF assms(1) old(1)] by (simp add: f64_le_finite not_le)
  then show ?thesis using d' old(2) by (simp add: later_tombstone_def)
next
  case False
  then show ?thesis using apply_tombstone_effect [OF assms(2)] assms(3) by (auto simp: later_tombstone_def)
qed

lemma remove_barrier:
  assumes "relay_inv parse t" "remove_with_tombstone now t d = (r, t')" "later_tombstone (rt_tombstones t) k ts"
  shows "later_tombstone (rt_tombstones t') k ts"
  using remove_effect [OF assms(2)] apply_tombstone_barrier [OF assms(1) _ assms(3)] assms(3) by blast

lemma apply_tombstones_barrier:
  "relay_inv parse t \<Longrightarrow> later_tombstone (rt_tombstones t) k ts \<Longrightarrow> later_tombstone (rt_tombstones (apply_tombstones now t ds)) k ts"
proof (induction ds arbitrary: t)
  case (Cons d ds)
  show ?case
  proof (cases "tb_relay_id d = rt_relay_id t")
    case False
    obtain r t1 where a: "apply_tombstone now t d = (r, t1)" by fastforce
    have "relay_inv parse t1" using apply_tombstone_inv [OF Cons.prems(1) a] False by blast
    then show ?thesis using Cons.IH apply_tombstone_barrier [OF Cons.prems(1) a Cons.prems(2)] False a by simp
  qed (use Cons in simp)
qed simp


lemma register_replacements_barrier:
  assumes "relay_inv parse t" "\<And>k e. m k = Some e \<Longrightarrow> k = (re_name e, re_relay_id e) \<and> re_relay_id e \<noteq> rt_relay_id t"
    "register_replacements parse m t ks = Some t'"
    "later_tombstone (rt_tombstones t) k ts \<or> (\<exists>e. m k = Some e \<and> rt_routes t k = Some e \<and> f64_scaled ts < f64_scaled (re_registered_at e))"
  shows "later_tombstone (rt_tombstones t') k ts \<or> (\<exists>e. m k = Some e \<and> rt_routes t' k = Some e \<and> f64_scaled ts < f64_scaled (re_registered_at e))"
  using assms
proof (induction ks arbitrary: t)
  case (Cons j ks)
  show ?case
  proof (cases "\<exists>e. m j = Some e \<and> \<not> is_some_and (rt_tombstones t j) (\<lambda>d. f64_le (re_registered_at e) (tb_removed_at d))")
    case False
    then show ?thesis using Cons.IH [OF Cons.prems(1,2) _ Cons.prems(4)] Cons.prems(3) by (auto split: option.splits)
  next
    case True
    then obtain e where e: "m j = Some e" "\<not> is_some_and (rt_tombstones t j) (\<lambda>d. f64_le (re_registered_at e) (tb_removed_at d))" by blast
    obtain r t1 where reg: "register_route parse t e = Some (r, t1)" using register_never_panics [of parse t e] by fastforce
    have je: "j = (re_name e, re_relay_id e)" and ne: "re_relay_id e \<noteq> rt_relay_id t" using Cons.prems(2) [OF e(1)] by blast+
    have rest: "register_replacements parse m t1 ks = Some t'" using Cons.prems(3) e reg by simp
    have i: "relay_inv parse t1" by (rule register_inv [OF Cons.prems(1) reg ne])
    have own: "rt_relay_id t1 = rt_relay_id t" by (rule own_sameD [OF register_own [OF reg ne]])
    have b: "later_tombstone (rt_tombstones t1) k ts \<or> (\<exists>e. m k = Some e \<and> rt_routes t1 k = Some e \<and> f64_scaled ts < f64_scaled (re_registered_at e))"
      using Cons.prems(4)
    proof
      assume "later_tombstone (rt_tombstones t) k ts"
      then show ?thesis using register_barrier [OF Cons.prems(1) reg] e(1) je by blast
    next
      assume "\<exists>x. m k = Some x \<and> rt_routes t k = Some x \<and> f64_scaled ts < f64_scaled (re_registered_at x)"
      then obtain x where x: "m k = Some x" "rt_routes t k = Some x" "f64_scaled ts < f64_scaled (re_registered_at x)" by blast
      have "rt_routes t1 k = Some x"
        using register_effect [OF reg] register_prevalidated_effect [of parse t e t1] x(1,2) e(1) je by (cases "k = j") auto
      then show ?thesis using x by blast
    qed
    show ?thesis by (rule Cons.IH [OF i _ rest b]) (use Cons.prems(2) own in simp)
  qed
qed simp

lemma replacement_key:
  assumes "replacement_routes t snaps acc es = Some m" "\<And>k e. acc k = Some e \<Longrightarrow> k = (re_name e, re_relay_id e)"
  shows "m k = Some e \<Longrightarrow> k = (re_name e, re_relay_id e)"
  using assms
proof (induction es arbitrary: acc)
  case (Cons x es)
  then show ?case by (fastforce split: if_splits option.splits)
qed simp

lemma merge_peers_routes: "map_option re_registered_at (rt_routes (merge_peers now t ps) k) = map_option re_registered_at (rt_routes t k)"
proof (induction ps arbitrary: t)
  case (Cons p ps)
  have "map_option re_registered_at (rt_routes (sync_peer_route_urls t' r u) k) = map_option re_registered_at (rt_routes t' k)" for t' r u
    by (cases "rt_routes t' k") (simp_all add: sync_peer_route_urls_def)
  then show ?case by (simp add: Cons.IH Let_def)
qed simp

lemma merge_peers_tombstones: "rt_tombstones (merge_peers now t ps) = rt_tombstones t"
  by (induction ps arbitrary: t) (auto simp: Let_def sync_peer_route_urls_def)

lemma merge_barrier:
  assumes "relay_inv parse t" "validated_full_sync parse sha now env = Inr s"
    "merge_validated_snapshot parse now order t s = Some t'" "later_tombstone (rt_tombstones t) k ts"
  shows "barrier t' k ts"
proof (cases "replacement_routes t (index_peers (rt_relay_id t) (fs_peers s)) Map.empty (fs_routes s)")
  case None
  then show ?thesis using assms by (simp add: merge_validated_snapshot_def barrier_def)
next
  case (Some m)
  define t1 where "t1 = apply_tombstones now (drop_peer_routes t) (fs_tombstones s)"
  obtain t2 where t2: "register_replacements parse m t1 (order m) = Some t2" "t' = merge_peers now t2 (fs_peers s)"
    using assms(3) Some by (auto simp: merge_validated_snapshot_def t1_def bind_eq_Some_conv)
  have d: "relay_inv parse (drop_peer_routes t)" "own_same t (drop_peer_routes t)" using drop_peer_inv [OF assms(1)] by blast+
  have i: "relay_inv parse t1" "rt_relay_id t1 = rt_relay_id t"
    using apply_tombstones_inv [OF d(1), of now "fs_tombstones s"] own_sameD d(2) unfolding t1_def by metis+
  have "later_tombstone (rt_tombstones (drop_peer_routes t)) k ts" using assms(4) by (simp add: drop_peer_routes_def)
  then have b: "later_tombstone (rt_tombstones t1) k ts" unfolding t1_def by (rule apply_tombstones_barrier [OF d(1)])
  have m: "m k = Some e \<Longrightarrow> k = (re_name e, re_relay_id e) \<and> re_relay_id e \<noteq> rt_relay_id t1" for k e
    using replacement_key [OF Some, of k e] replacement_owner [OF Some, of k e] i(2) by simp
  have "later_tombstone (rt_tombstones t2) k ts \<or> (\<exists>e. m k = Some e \<and> rt_routes t2 k = Some e \<and> f64_scaled ts < f64_scaled (re_registered_at e))"
    using register_replacements_barrier [OF i(1) m t2(1)] b by blast
  then show ?thesis
  proof
    assume "later_tombstone (rt_tombstones t2) k ts"
    then show ?thesis by (simp add: barrier_def t2(2) merge_peers_tombstones)
  next
    assume "\<exists>e. m k = Some e \<and> rt_routes t2 k = Some e \<and> f64_scaled ts < f64_scaled (re_registered_at e)"
    then obtain e where "rt_routes t2 k = Some e" "f64_scaled ts < f64_scaled (re_registered_at e)" by blast
    then show ?thesis using merge_peers_routes [of now t2 "fs_peers s" k] by (auto simp: barrier_def newer_route_def t2(2))
  qed
qed


lemma own_removal_barrier:
  assumes "relay_inv parse t" "clock_ready wall t" "next_local_timestamp wall t = (x, t1)"
    "remove_with_tombstone now t1 d = (r, t')" "later_tombstone (rt_tombstones t) k ts"
  shows "later_tombstone (rt_tombstones t') k ts"
proof (rule remove_barrier [OF _ assms(4)])
  show "relay_inv parse t1" using tick_inv [OF assms(1-3)] by blast
  show "later_tombstone (rt_tombstones t1) k ts" using assms(3,5) by (auto simp: next_local_timestamp_def Let_def)
qed

lemma own_tombstone_barrier:
  assumes "relay_inv parse t" "clock_ready wall t" "next_local_timestamp wall t = (x, t1)"
    "apply_tombstone now t1 d = (r, t')" "later_tombstone (rt_tombstones t) k ts"
  shows "later_tombstone (rt_tombstones t') k ts"
proof (rule apply_tombstone_barrier [OF _ assms(4)])
  show "relay_inv parse t1" using tick_inv [OF assms(1-3)] by blast
  show "later_tombstone (rt_tombstones t1) k ts" using assms(3,5) by (auto simp: next_local_timestamp_def Let_def)
qed

lemma register_local_barrier:
  assumes "relay_inv parse t" "clock_ready wall t" "next_local_timestamp wall t = (x, t1)"
    "register_prevalidated_route parse t1 e = Some t'" "later_tombstone (rt_tombstones t) k ts"
  shows "barrier t' k ts"
proof -
  have "relay_inv parse t1" using tick_inv [OF assms(1-3)] by blast
  moreover have "later_tombstone (rt_tombstones t1) k ts" using assms(3,5) by (auto simp: next_local_timestamp_def Let_def)
  ultimately show ?thesis using register_prevalidated_barrier [OF _ assms(4), of k ts] by (auto simp: barrier_def newer_route_def)
qed

lemma announce_barrier:
  assumes "relay_inv parse t" "announce_locked parse t e = Some (r, t')" "later_tombstone (rt_tombstones t) k ts"
  shows "barrier t' k ts"
proof -
  have "t' = t \<or> (\<exists>x r. register_route parse t x = Some (r, t'))"
    using assms(2) by (auto simp: announce_locked_def bind_eq_Some_conv split: if_splits option.splits)
  then show ?thesis using register_barrier [OF assms(1) _ assms(3)] assms(3) by (auto simp: barrier_def newer_route_def)
qed

lemma step_barrier:
  assumes "relay_step parse sha l t t'" "relay_inv parse t" "l \<noteq> GcOp" "later_tombstone (rt_tombstones t) k ts"
  shows "barrier t' k ts"
  using assms
proof (induction rule: relay_step.induct)
  case (tick wall t ts' t')
  then show ?case by (auto simp: next_local_timestamp_def Let_def barrier_def)
next
  case (register_local wall t ts' t1 e t')
  show ?case by (rule register_local_barrier [OF register_local.prems(1) register_local.hyps(1,2,7) register_local.prems(3)])
next
  case (unregister_local wall t now name server_id r t')
  obtain x t1 d r' where "next_local_timestamp wall t = (x, t1)" "remove_with_tombstone now t1 d = (r', t')"
    using unregister_local_split [OF unregister_local.hyps(2)] by metis
  from own_removal_barrier [OF unregister_local.prems(1) unregister_local.hyps(1) this unregister_local.prems(3)] show ?case by (simp add: barrier_def)
next
  case (unregister_matching wall t now expected r t')
  consider x where "next_local_timestamp wall t = (x, t')"
    | (removed) x t1 d r' where "next_local_timestamp wall t = (x, t1)" "remove_with_tombstone now t1 d = (r', t')"
    using unregister_matching_split [OF unregister_matching.hyps(2)] by metis
  then show ?case
  proof cases
    case 1
    then show ?thesis using unregister_matching.prems(3) by (auto simp: next_local_timestamp_def Let_def barrier_def)
  next
    case removed
    from own_removal_barrier [OF unregister_matching.prems(1) unregister_matching.hyps(1) this unregister_matching.prems(3)]
    show ?thesis by (simp add: barrier_def)
  qed
next
  case (withdrawal t scope)
  then show ?case by (simp add: barrier_def record_registration_withdrawal_def)
next
  case (missing wall t now name relay_id r t')
  consider "t' = t" | (dead) x t1 d r' where "next_local_timestamp wall t = (x, t1)" "apply_tombstone now t1 d = (r', t')"
    using missing_split [OF missing.hyps(2)] by metis
  then show ?case
  proof cases
    case dead
    from own_tombstone_barrier [OF missing.prems(1) missing.hyps(1) this missing.prems(3)] show ?thesis by (simp add: barrier_def)
  qed (use missing.prems(3) in \<open>simp add: barrier_def\<close>)
next
  case (announce t e r t')
  show ?case by (rule announce_barrier [OF announce.prems(1) announce.hyps announce.prems(3)])
next
  case (withdraw relay_id t now name removed_at r t')
  have "later_tombstone (rt_tombstones t') k ts"
    by (rule remove_barrier [OF withdraw.prems(1) _ withdraw.prems(3)]) (use withdraw.hyps(2) in \<open>simp add: unregister_route_with_tombstone_def\<close>)
  then show ?case by (simp add: barrier_def)
next
  case (leave relay_id t keys r t')
  then show ?case by (auto simp: remove_routes_by_relay_def intro!: barrier_same_tombstones [of t])
next
  case (join now t relay_id u r t')
  then show ?case by (auto simp: record_peer_join_def Let_def sync_peer_route_urls_def split: if_splits intro!: barrier_same_tombstones [of t])
next
  case (forget t relay_id r t')
  then show ?case by (auto simp: unregister_peer_def intro!: barrier_same_tombstones [of t])
next
  case (heartbeat t now relay_id n)
  then show ?case by (intro barrier_same_tombstones [of t]) (auto simp: heartbeat_locked_def split: option.splits)
next
  case (suspect t relay_id p s)
  then show ?case by (intro barrier_same_tombstones [of t]) auto
next
  case (merge now env s order t t')
  show ?case by (rule merge_barrier [OF merge.prems(1) merge.hyps merge.prems(3)])
qed simp


section \<open>The relay's own operations\<close>

lemma fresh_timestamp:
  assumes "relay_inv parse t" "clock_ready wall t" "next_local_timestamp wall t = (ts, t1)"
  shows "f64_is_finite ts \<and> (\<forall>name e. rt_routes t (name, rt_relay_id t) = Some e \<longrightarrow> f64_lt (re_registered_at e) ts) \<and>
    (\<forall>name d. rt_tombstones t (name, rt_relay_id t) = Some d \<longrightarrow> f64_lt (tb_removed_at d) ts)"
proof -
  obtain n where n: "f64_scaled (rt_next_timestamp t) < f64_scaled ts" "f64_is_finite ts" by (rule next_timestamp_spec [OF assms(2,3)])
  have c: "clock_ok (rt_relay_id t) (rt_routes t) (rt_tombstones t) (rt_next_timestamp t)" using assms(1) by (simp add: relay_inv_def)
  have "f64_lt (re_registered_at e) ts" if "rt_routes t (name, rt_relay_id t) = Some e" for name e
    using c n that valid_entry_finite [OF conjunct2 [OF inv_routeD [OF assms(1) that]]] by (fastforce simp: clock_ok_def f64_lt_finite)
  moreover have "f64_lt (tb_removed_at d) ts" if "rt_tombstones t (name, rt_relay_id t) = Some d" for name d
    using c n that valid_tombstone_finite [OF assms(1) that] by (fastforce simp: clock_ok_def f64_lt_finite)
  ultimately show ?thesis using n(2) by blast
qed

lemma own_removal_effect:
  assumes "relay_inv parse t" "clock_ready wall t" "next_local_timestamp wall t = (ts, t1)" "valid_tombstone d"
    "tb_relay_id d = rt_relay_id t" "tb_removed_at d = ts" "remove_with_tombstone now t1 d = (r, t')"
  shows "r = rt_routes t (tb_name d, rt_relay_id t) \<and> rt_routes t' (tb_name d, rt_relay_id t) = None \<and>
    (\<exists>d'. rt_tombstones t' (tb_name d, rt_relay_id t) = Some d' \<and> tb_removed_at d' = ts)"
proof -
  have t1: "t1 = t\<lparr>rt_next_timestamp := ts\<rparr>" using assms(3) by (auto simp: next_local_timestamp_def Let_def)
  let ?k = "(tb_name d, rt_relay_id t)"
  have no: "\<not> is_some_and (rt_routes t ?k) (\<lambda>e. f64_lt ts (re_registered_at e))"
    "\<not> is_some_and (rt_tombstones t ?k) (\<lambda>old. f64_le ts (tb_removed_at old))"
  proof -
    have f: "f64_is_finite ts" "\<And>e. rt_routes t ?k = Some e \<Longrightarrow> f64_lt (re_registered_at e) ts"
      "\<And>x. rt_tombstones t ?k = Some x \<Longrightarrow> f64_lt (tb_removed_at x) ts"
      using fresh_timestamp [OF assms(1-3)] by blast+
    have "\<not> f64_lt ts (re_registered_at e)" if "rt_routes t ?k = Some e" for e
      using f(1) f(2) [OF that] valid_entry_finite [OF conjunct2 [OF inv_routeD [OF assms(1) that]]] by (simp add: f64_lt_finite)
    then show "\<not> is_some_and (rt_routes t ?k) (\<lambda>e. f64_lt ts (re_registered_at e))" by (auto simp: is_some_and_def split: option.splits)
    have "\<not> f64_le ts (tb_removed_at x)" if "rt_tombstones t ?k = Some x" for x
      using f(1) f(3) [OF that] valid_tombstone_finite [OF assms(1) that] by (simp add: f64_lt_finite f64_le_finite)
    then show "\<not> is_some_and (rt_tombstones t ?k) (\<lambda>old. f64_le ts (tb_removed_at old))" by (auto simp: is_some_and_def split: option.splits)
  qed
  obtain b t2 where a: "apply_tombstone now t1 d = (b, t2)" by fastforce
  then have b: "b" using no assms(4-6) by (auto simp: apply_tombstone_def t1 Let_def split: if_splits)
  then have "r = rt_routes t ?k" "t' = t2"
    using assms(4-7) a no by (simp_all add: remove_with_tombstone_def t1)
  then show ?thesis using apply_tombstone_effect [OF a] b assms(5,6) by auto
qed


section \<open>Resolution\<close>

definition matching_peer :: "route_table \<Rightarrow> expected_route_contract \<Rightarrow> route_entry \<Rightarrow> bool" where
  "matching_peer t x e \<longleftrightarrow>
     rt_routes t (ec_route_name x, re_relay_id e) = Some e \<and> contract_matches e x \<and> re_locality e = Peer \<and> peer_is_alive t (re_relay_id e)"

definition matching_local :: "route_table \<Rightarrow> expected_route_contract \<Rightarrow> relay_route_info list" where
  "matching_local t x =
     (case local_route t (ec_route_name x) of
        Some e \<Rightarrow> if contract_matches e x then [to_route_info e] else []
      | None \<Rightarrow> [])"

lemma in_map_filter: "y \<in> set (List.map_filter f ks) \<longleftrightarrow> (\<exists>k \<in> set ks. f k = Some y)"
  by (force simp: List.map_filter_def)

lemma distinct_map_filter: "(\<And>k e. f k = Some e \<Longrightarrow> g e = k) \<Longrightarrow> distinct ks \<Longrightarrow> distinct (List.map_filter f ks)"
  by (induction ks) (auto simp: map_filter_simps in_map_filter split: option.splits)

lemma map_filter_single:
  "(\<And>k. k \<noteq> a \<Longrightarrow> f k = None) \<Longrightarrow> distinct ks \<Longrightarrow>
   List.map_filter f ks = (if a \<in> set ks then case f a of Some v \<Rightarrow> [v] | None \<Rightarrow> [] else [])"
proof (induction ks)
  case (Cons k ks)
  then show ?case by (cases "k = a") (auto simp: map_filter_simps split: option.splits)
qed (simp add: map_filter_simps)

definition local_candidate :: "route_table \<Rightarrow> expected_route_contract \<Rightarrow> route_key \<Rightarrow> relay_route_info option" where
  "local_candidate t x k =
     (case rt_routes t k of
        Some e \<Rightarrow> if fst k = ec_route_name x \<and> contract_matches e x \<and> re_locality e = Local then Some (to_route_info e) else None
      | None \<Rightarrow> None)"

definition peer_candidate :: "route_table \<Rightarrow> expected_route_contract \<Rightarrow> route_key \<Rightarrow> route_entry option" where
  "peer_candidate t x k =
     (case rt_routes t k of
        Some e \<Rightarrow> if fst k = ec_route_name x \<and> contract_matches e x \<and> re_locality e = Peer \<and> peer_is_alive t (re_relay_id e) then Some e else None
      | None \<Rightarrow> None)"

lemma collect_candidates:
  "collect_matching t x ks = (List.map_filter (local_candidate t x) ks, List.map_filter (peer_candidate t x) ks)"
proof (induction ks)
  case (Cons k ks)
  show ?case
  proof (cases "rt_routes t k")
    case None
    then show ?thesis by (simp add: Cons.IH map_filter_simps local_candidate_def peer_candidate_def)
  next
    case (Some e)
    then show ?thesis by (cases "re_locality e") (simp_all add: Cons.IH map_filter_simps local_candidate_def peer_candidate_def)
  qed
qed (simp add: map_filter_simps)

lemma peer_candidate_iff:
  assumes "relay_inv parse t"
  shows "peer_candidate t x k = Some e \<longleftrightarrow> matching_peer t x e \<and> k = (ec_route_name x, re_relay_id e)"
proof
  assume c: "peer_candidate t x k = Some e"
  then have r: "rt_routes t k = Some e" by (simp add: peer_candidate_def split: option.splits if_splits)
  have "fst k = ec_route_name x" "contract_matches e x" "re_locality e = Peer" "peer_is_alive t (re_relay_id e)"
    using c r by (simp_all add: peer_candidate_def split: if_splits)
  moreover have "snd k = re_relay_id e" using inv_routeD [OF assms r] by simp
  ultimately show "matching_peer t x e \<and> k = (ec_route_name x, re_relay_id e)" using r by (cases k) (simp add: matching_peer_def)
next
  assume "matching_peer t x e \<and> k = (ec_route_name x, re_relay_id e)"
  then show "peer_candidate t x k = Some e" by (simp add: peer_candidate_def matching_peer_def)
qed

lemma local_candidate_other:
  assumes "relay_inv parse t" "k \<noteq> (ec_route_name x, rt_relay_id t)"
  shows "local_candidate t x k = None"
proof (cases "rt_routes t k")
  case (Some y)
  show ?thesis using own_local [OF assms(1) Some] assms(2) Some by (cases k) (auto simp: local_candidate_def)
qed (simp add: local_candidate_def)

lemma local_candidate_own:
  assumes "relay_inv parse t"
  shows "(case local_candidate t x (ec_route_name x, rt_relay_id t) of Some v \<Rightarrow> [v] | None \<Rightarrow> []) = matching_local t x"
  using own_local [OF assms, of "(ec_route_name x, rt_relay_id t)"]
  by (cases "rt_routes t (ec_route_name x, rt_relay_id t)") (simp_all add: local_candidate_def matching_local_def local_route_def)

lemma peer_rank_inj: "inj_on peer_rank {e. matching_peer t x e}"
proof (rule inj_onI)
  fix e f
  assume "e \<in> {e. matching_peer t x e}" "f \<in> {e. matching_peer t x e}" and r: "peer_rank e = peer_rank f"
  then have "rt_routes t (ec_route_name x, re_relay_id e) = Some e" "rt_routes t (ec_route_name x, re_relay_id f) = Some f"
    unfolding matching_peer_def by blast+
  moreover have "re_relay_id e = re_relay_id f" using r unfolding peer_rank_def prod.inject by (rule conjunct2)
  ultimately show "e = f" by (metis option.inject)
qed

lemma resolve_spec:
  assumes "relay_inv parse t" "distinct keys" "set keys = dom (rt_routes t)" "is_ok (validate_expected_route_contract x)"
  shows "\<exists>ps. resolve_matching keys t x = matching_local t x @ map to_route_info ps \<and> sorted (map peer_rank ps) \<and> distinct ps \<and>
    set ps = {e. matching_peer t x e}"
proof -
  let ?ps = "sort_key peer_rank (List.map_filter (peer_candidate t x) keys)"
  have "List.map_filter (local_candidate t x) keys = matching_local t x"
  proof -
    let ?a = "(ec_route_name x, rt_relay_id t)"
    have "List.map_filter (local_candidate t x) keys =
        (if ?a \<in> set keys then case local_candidate t x ?a of Some v \<Rightarrow> [v] | None \<Rightarrow> [] else [])"
      by (rule map_filter_single [OF local_candidate_other [OF assms(1)] assms(2)])
    moreover have "local_candidate t x ?a = None" if "?a \<notin> set keys" using that assms(3) by (simp add: domIff local_candidate_def)
    ultimately show ?thesis using local_candidate_own [OF assms(1), of x] by auto
  qed
  then have "resolve_matching keys t x = matching_local t x @ map to_route_info ?ps"
    using assms(4) by (simp add: resolve_matching_def collect_candidates)
  moreover have "distinct ?ps"
  proof -
    have "distinct (List.map_filter (peer_candidate t x) keys)"
      by (rule distinct_map_filter [of _ "\<lambda>e. (ec_route_name x, re_relay_id e)", OF _ assms(2)]) (simp add: peer_candidate_iff [OF assms(1)])
    then show ?thesis by simp
  qed
  moreover have "set ?ps = {e. matching_peer t x e}"
  proof -
    have "e \<in> set (List.map_filter (peer_candidate t x) keys) \<longleftrightarrow> matching_peer t x e" for e
      using peer_candidate_iff [OF assms(1), of x _ e] assms(3) unfolding in_map_filter matching_peer_def by blast
    then show ?thesis by auto
  qed
  ultimately show ?thesis by (intro exI [of _ ?ps]) simp
qed

lemma sorted_rank_unique:
  assumes "sorted (map peer_rank ps)" "distinct ps" "set ps = {e. matching_peer t x e}"
    "sorted (map peer_rank qs)" "distinct qs" "set qs = {e. matching_peer t x e}"
  shows "ps = qs"
proof -
  have inj: "inj_on peer_rank (set ps)" "inj_on peer_rank (set qs)" "inj_on peer_rank (set ps \<union> set qs)"
    using peer_rank_inj [of t x] assms(3,6) by simp_all
  have "distinct (map peer_rank ps)" "distinct (map peer_rank qs)" using inj(1,2) assms(2,5) by (simp_all only: distinct_map)
  then show ?thesis using map_sorted_distinct_set_unique [OF inj(3) assms(1) _ assms(4)] assms(3,6) by simp
qed


section \<open>A table with one route\<close>

definition sample_parse :: "str \<Rightarrow> url option" where
  "sample_parse s =
     Some \<lparr>url_scheme = [0x68, 0x74, 0x74, 0x70], url_host = Some s, url_query = None, url_fragment = None, url_username = [], url_password = None\<rparr>"

definition sample_sha :: "bytes \<Rightarrow> str" where
  "sample_sha bs = replicate 64 0x61"

definition sample_self :: str where "sample_self = [0x41]"
definition sample_peer :: str where "sample_peer = [0x42]"

definition sample_entry :: "f64 \<Rightarrow> route_entry" where
  "sample_entry ts =
     \<lparr>re_name = [0x72], re_relay_id = sample_self, re_relay_url = [0x75], re_server_id = Some [0x73], re_server_instance_id = Some [0x69],
      re_ipc_address = Some [0x69, 0x70, 0x63, 0x3A, 0x2F, 0x2F, 0x73], re_crm_ns = [0x6E], re_crm_name = [0x6D], re_crm_ver = [0x31],
      re_abi_hash = replicate 64 0x61, re_signature_hash = replicate 64 0x62, re_max_payload_size = 1024, re_route_uid = [0x31],
      re_locality = Local, re_registered_at = ts\<rparr>"

lemmas sample_validators = validate_route_uid_def validate_server_id_def validate_relay_id_def validate_id_def
  validate_call_route_key_def validate_route_text_field_def validate_crm_tag_def
  validate_contract_text_field_def validate_wire_len_def validate_contract_hash_def lower_hex_byte_def text_chars_def
  trim_chars_def is_whitespace_def is_control_def map_err_def MAX_WIRE_TEXT_BYTES_def CONTRACT_HASH_HEX_BYTES_def list_all_iff
  valid_route_name_def valid_relay_id_def valid_crm_tag_def valid_server_id_def valid_server_instance_id_def
  validate_server_instance_id_value_def valid_ipc_address_def is_ok_def is_some_and_def

lemma sample_ids: "valid_relay_id sample_self" "valid_relay_id sample_peer" "valid_route_name [0x72]" "valid_server_id [0x73]"
  by (simp_all add: sample_validators sample_self_def sample_peer_def)

lemma sample_url: "valid_relay_url sample_parse u"
  by (simp add: valid_relay_url_def sample_parse_def)

lemma sample_entry_valid:
  assumes "f64_is_finite ts" "rt_relay_id t = sample_self"
  shows "valid_route_entry sample_parse t (sample_entry ts)"
  unfolding valid_route_entry_def sample_entry_def using assms sample_url sample_ids(1,3,4)
  by (simp add: sample_validators)


definition sample_start :: route_table where "sample_start = table_new 5 sample_self"
definition sample_ts :: f64 where "sample_ts = fst (next_local_timestamp 10 sample_start)"
definition sample_table :: route_table where
  "sample_table = the (register_prevalidated_route sample_parse (snd (next_local_timestamp 10 sample_start)) (sample_entry sample_ts))"
definition sample_joined :: route_table where "sample_joined = snd (record_peer_join sample_parse 7 sample_table sample_peer [0x75])"
definition sample_removed :: route_table where
  "sample_removed = snd (unregister_local_route_with_tombstone 11 7 sample_table [0x72] [0x73])"

lemma sample_clock_int: "f64_int 4 (rt_next_timestamp sample_start)"
  using f64_of_u64_int [of 4] by (simp add: sample_start_def table_new_def)

lemma sample_start_ready: "clock_ready 10 sample_start"
  using sample_clock_int unfolding clock_ready_def by (intro conjI exI [of _ 4]) simp_all

lemma sample_ts_int: "f64_int 10 sample_ts"
proof -
  have i: "f64_int 10 (f64_of_u64 10)" "f64_int (4 + 1) (f64_plus (rt_next_timestamp sample_start) f64_one)"
    using f64_of_u64_int [of 10] f64_succ_int [OF sample_clock_int] by simp_all
  have "f64_is_finite (rt_next_timestamp sample_start)" using sample_clock_int by (simp add: f64_int_def)
  then have "sample_ts = f64_max (f64_of_u64 10) (f64_plus (rt_next_timestamp sample_start) f64_one)"
    by (simp add: sample_ts_def next_local_timestamp_def Let_def)
  then show ?thesis using f64_max_int [OF i] by simp
qed

lemma sample_next: "next_local_timestamp 10 sample_start = (sample_ts, sample_start\<lparr>rt_next_timestamp := sample_ts\<rparr>)"
  by (simp add: sample_ts_def next_local_timestamp_def Let_def)

lemma sample_registers:
  "can_register_route sample_parse (sample_start\<lparr>rt_next_timestamp := sample_ts\<rparr>) (sample_entry sample_ts) \<and>
   register_prevalidated_route sample_parse (sample_start\<lparr>rt_next_timestamp := sample_ts\<rparr>) (sample_entry sample_ts) = Some sample_table"
proof -
  have "f64_is_finite sample_ts" using sample_ts_int by (simp add: f64_int_def)
  then have "valid_route_entry sample_parse (sample_start\<lparr>rt_next_timestamp := sample_ts\<rparr>) (sample_entry sample_ts)"
    by (rule sample_entry_valid) (simp add: sample_start_def table_new_def)
  then have c: "can_register_route sample_parse (sample_start\<lparr>rt_next_timestamp := sample_ts\<rparr>) (sample_entry sample_ts)"
    by (simp add: can_register_route_def sample_start_def table_new_def)
  then show ?thesis by (simp add: sample_table_def sample_next register_prevalidated_route_def Let_def)
qed

lemma sample_reach: "relay_reach sample_parse sample_sha sample_self sample_table"
proof (rule relay_reach.relay_next)
  show "relay_reach sample_parse sample_sha sample_self sample_start" unfolding sample_start_def by (rule relay_reach.relay_start) simp
  show "relay_step sample_parse sample_sha OwnOp sample_start sample_table"
    by (rule relay_step.register_local [OF sample_start_ready sample_next _ _ _ conjunct1 [OF sample_registers] conjunct2 [OF sample_registers]])
      (simp_all add: sample_entry_def sample_start_def table_new_def)
qed

lemma sample_table_route:
  "rt_routes sample_table = [([0x72], sample_self) \<mapsto> sample_entry sample_ts] \<and> rt_relay_id sample_table = sample_self \<and>
   rt_next_timestamp sample_table = sample_ts \<and> rt_peers sample_table = Map.empty \<and> rt_tombstones sample_table = Map.empty"
proof -
  have "re_name (sample_entry sample_ts) = [0x72]" "re_relay_id (sample_entry sample_ts) = sample_self" by (simp_all add: sample_entry_def)
  then have t: "sample_table = sample_start\<lparr>rt_next_timestamp := sample_ts, rt_tombstones := (rt_tombstones sample_start)(([0x72], sample_self) := None),
      rt_withdrawn := (rt_withdrawn sample_start)(([0x72], sample_self) := None),
      rt_routes := (rt_routes sample_start)(([0x72], sample_self) \<mapsto> sample_entry sample_ts)\<rparr>"
    using register_prevalidated_effect [OF conjunct2 [OF sample_registers]] by simp
  show ?thesis unfolding t by (simp add: sample_start_def table_new_def)
qed

lemma sample_ready: "clock_ready 11 sample_table"
  using sample_ts_int sample_table_route unfolding clock_ready_def by (intro conjI exI [of _ 10]) simp_all

lemma sample_join_step: "relay_step sample_parse sample_sha PeerOp sample_table sample_joined"
  by (rule relay_step.join [of _ 7 _ sample_peer "[0x75]" "fst (record_peer_join sample_parse 7 sample_table sample_peer [0x75])"])
    (simp add: sample_joined_def)

lemma sample_remove_step: "relay_step sample_parse sample_sha OwnOp sample_table sample_removed"
  by (rule relay_step.unregister_local [OF sample_ready, of 7 "[0x72]" "[0x73]"
        "fst (unregister_local_route_with_tombstone 11 7 sample_table [0x72] [0x73])"]) (simp add: sample_removed_def)


section \<open>The properties\<close>

text \<open>C29: In every history of a relay, each stored route is stored under its own name and owner, has passed the validation,
  is local exactly when the relay itself owns it, and has no tombstone beside it; each tombstone is valid and
  stored under its own name and owner; each peer is another relay, stored under its own valid id with a valid URL.\<close>

theorem relay_table_wellformed:
  assumes "relay_reach parse sha self t"
  shows "(\<forall>k e. rt_routes t k = Some e \<longrightarrow> k = (re_name e, re_relay_id e) \<and> valid_route_entry parse t e \<and>
       (re_locality e = Local \<longleftrightarrow> re_relay_id e = self) \<and> rt_tombstones t k = None) \<and>
    (\<forall>k d. rt_tombstones t k = Some d \<longrightarrow> k = (tb_name d, tb_relay_id d) \<and> valid_tombstone d) \<and>
    (\<forall>r p. rt_peers t r = Some p \<longrightarrow> pi_relay_id p = r \<and> r \<noteq> self \<and> valid_relay_id r \<and> valid_relay_url parse (pi_url p))"
proof (intro conjI allI impI)
  have inv: "relay_inv parse t" and id: "rt_relay_id t = self" using relay_reach_inv [OF assms] by blast+
  fix k e
  assume r: "rt_routes t k = Some e"
  show k: "k = (re_name e, re_relay_id e)" and "valid_route_entry parse t e" using inv_routeD [OF inv r] by blast+
  show "re_locality e = Local \<longleftrightarrow> re_relay_id e = self" using own_local [OF inv r] k id by simp
  show "rt_tombstones t k = None" using inv_tombstoneD [OF inv, of k] r by (cases "rt_tombstones t k") auto
next
  fix k d
  assume "rt_tombstones t k = Some d"
  with inv_tombstoneD [OF conjunct1 [OF relay_reach_inv [OF assms]]] show "k = (tb_name d, tb_relay_id d)" "valid_tombstone d" by blast+
next
  fix r p
  assume "rt_peers t r = Some p"
  with known_peer_id [OF conjunct1 [OF relay_reach_inv [OF assms]]] relay_reach_inv [OF assms]
  show "pi_relay_id p = r" "r \<noteq> self" "valid_relay_id r" "valid_relay_url parse (pi_url p)" by blast+
qed

theorem relay_table_wellformed_witness:
  "re_locality (sample_entry sample_ts) = Local \<and> rt_tombstones sample_table ([0x72], sample_self) = None \<and>
   valid_route_entry sample_parse sample_table (sample_entry sample_ts)"
  using relay_table_wellformed [OF sample_reach, THEN conjunct1, rule_format, of "([0x72], sample_self)" "sample_entry sample_ts"] sample_table_route
  by (simp add: sample_entry_def)

text \<open>C30: An announcement, withdrawal, departure, join, heartbeat, failure suspicion or full-sync merge on behalf of peers
  leaves the relay's clock and its own routes, tombstones and withdrawal records as they were.\<close>

theorem peers_cannot_touch_own_routes:
  assumes "relay_reach parse sha self t" "relay_step parse sha PeerOp t t'"
  shows "rt_next_timestamp t' = rt_next_timestamp t \<and> local_route t' name = local_route t name \<and>
    rt_tombstones t' (name, self) = rt_tombstones t (name, self) \<and> rt_withdrawn t' (name, self) = rt_withdrawn t (name, self)"
proof -
  have inv: "relay_inv parse t" and id: "rt_relay_id t = self" using relay_reach_inv [OF assms(1)] by blast+
  have "own_same t t'" using relay_step_inv [OF assms(2) inv] by blast
  then show ?thesis using id by (simp add: own_same_def local_route_def)
qed

theorem peers_cannot_touch_own_routes_witness:
  "local_route sample_joined [0x72] = Some (sample_entry sample_ts) \<and> rt_next_timestamp sample_joined = sample_ts"
  using peers_cannot_touch_own_routes [OF sample_reach sample_join_step, of "[0x72]"] sample_table_route by (simp add: local_route_def)

text \<open>C31: As long as tombstones are not collected, a deletion is not undone by an older registration: after any step from a
  table with a tombstone for a route, the table has either a tombstone for it that is at least as late, or a route
  registered strictly after the deletion.\<close>

theorem deletion_not_undone:
  assumes "relay_reach parse sha self t" "relay_step parse sha l t t'" "l \<noteq> GcOp" "rt_tombstones t k = Some d"
  shows "(\<exists>d'. rt_tombstones t' k = Some d' \<and> f64_le (tb_removed_at d) (tb_removed_at d')) \<or>
    (\<exists>e. rt_routes t' k = Some e \<and> f64_lt (tb_removed_at d) (re_registered_at e))"
proof -
  have inv: "relay_inv parse t" using relay_reach_inv [OF assms(1)] by blast
  have inv': "relay_inv parse t'" using relay_step_inv [OF assms(2) inv] by blast
  have "later_tombstone (rt_tombstones t) k (tb_removed_at d)" using assms(4) by (simp add: later_tombstone_def)
  then have "barrier t' k (tb_removed_at d)" by (rule step_barrier [OF assms(2) inv assms(3)])
  then show ?thesis
    using valid_tombstone_finite [OF inv assms(4)] valid_tombstone_finite [OF inv'] inv_routeD [OF inv'] valid_entry_finite
    unfolding barrier_def later_tombstone_def newer_route_def by (metis f64_le_finite f64_lt_finite)
qed


lemma sample_removed_tombstone: "\<exists>d. rt_tombstones sample_removed ([0x72], sample_self) = Some d"
proof -
  obtain r ts where u: "unregister_local_route_with_tombstone 11 7 sample_table [0x72] [0x73] = ((r, ts), sample_removed)"
    by (metis prod.collapse sample_removed_def)
  obtain ts1 t1 d r' where "next_local_timestamp 11 sample_table = (ts1, t1)" "remove_with_tombstone 7 t1 d = (r', sample_removed)"
    "tb_removed_at d = ts1" "tb_name d = [0x72]" "tb_relay_id d = rt_relay_id sample_table" "tb_server_id d = Some [0x73]"
    using unregister_local_split [OF u] by metis
  note d = this
  have inv: "relay_inv sample_parse sample_table" using relay_reach_inv [OF sample_reach] by blast
  have "valid_tombstone d"
    using d fresh_timestamp [OF inv sample_ready d(1)] sample_ids sample_table_route by (simp add: valid_tombstone_def is_none_or_def)
  from own_removal_effect [OF inv sample_ready d(1) this d(5,3,2)] show ?thesis using d(4) sample_table_route by auto
qed

theorem deletion_not_undone_witness:
  "\<exists>d. rt_tombstones sample_removed ([0x72], sample_self) = Some d \<and>
    ((\<exists>d'. rt_tombstones (heartbeat_locked 7 sample_removed sample_peer 3) ([0x72], sample_self) = Some d' \<and> f64_le (tb_removed_at d) (tb_removed_at d')) \<or>
     (\<exists>e. rt_routes (heartbeat_locked 7 sample_removed sample_peer 3) ([0x72], sample_self) = Some e \<and> f64_lt (tb_removed_at d) (re_registered_at e)))"
proof -
  obtain d where d: "rt_tombstones sample_removed ([0x72], sample_self) = Some d" using sample_removed_tombstone by blast
  have r: "relay_reach sample_parse sample_sha sample_self sample_removed"
    by (rule relay_reach.relay_next [OF sample_reach sample_remove_step])
  have "PeerOp \<noteq> GcOp" by simp
  from deletion_not_undone [OF r relay_step.heartbeat [of _ _ _ 7 sample_peer 3] this d] d show ?thesis by blast
qed

lemma own_register_effect:
  assumes "relay_inv parse t" "clock_ready wall t" "next_local_timestamp wall t = (ts, t1)"
    "re_registered_at e = ts" "re_relay_id e = rt_relay_id t" "valid_route_entry parse t e"
  shows "\<exists>t2. register_route parse t1 e = Some (True, t2) \<and> local_route t2 (re_name e) = Some e"
proof -
  have t1: "t1 = t\<lparr>rt_next_timestamp := ts\<rparr>" using assms(3) by (auto simp: next_local_timestamp_def Let_def)
  have "valid_route_entry parse t1 e" using assms(6) valid_entry_cong [of t1 t parse e] by (simp add: t1)
  moreover have "\<not> f64_le ts (tb_removed_at d)" if "rt_tombstones t (re_name e, rt_relay_id t) = Some d" for d
  proof -
    have "f64_lt (tb_removed_at d) ts" "f64_is_finite ts" using fresh_timestamp [OF assms(1-3)] that by blast+
    then show ?thesis using valid_tombstone_finite [OF assms(1) that] by (simp add: f64_lt_finite f64_le_finite)
  qed
  ultimately have "can_register_route parse t1 e" using assms(4,5) by (auto simp: can_register_route_def t1 split: option.splits)
  then show ?thesis using assms(5) by (auto simp: register_route_def register_prevalidated_route_def Let_def local_route_def t1)
qed

lemma own_unregister_effect:
  assumes "relay_inv parse t" "clock_ready wall t" "next_local_timestamp wall t = (ts, t1)"
    "valid_relay_id (rt_relay_id t)" "valid_route_name name" "valid_server_id server_id"
  shows "\<exists>t2 d. unregister_local_route_with_tombstone wall now t name server_id = ((local_route t name, ts), t2) \<and>
    local_route t2 name = None \<and> rt_tombstones t2 (name, rt_relay_id t) = Some d \<and> tb_removed_at d = ts"
proof -
  define d where "d = \<lparr>tb_name = name, tb_relay_id = rt_relay_id t, tb_removed_at = ts, tb_server_id = Some server_id, tb_observed_at = now\<rparr>"
  have dv: "valid_tombstone d" "tb_relay_id d = rt_relay_id t" "tb_removed_at d = ts" "tb_name d = name"
    using assms(4-6) fresh_timestamp [OF assms(1-3)] by (simp_all add: d_def valid_tombstone_def is_none_or_def)
  obtain r t2 where m: "remove_with_tombstone now t1 d = (r, t2)" by fastforce
  have "unregister_local_route_with_tombstone wall now t name server_id = ((r, ts), t2)"
    using assms(3) m by (simp add: unregister_local_route_with_tombstone_def d_def)
  moreover have "rt_relay_id t2 = rt_relay_id t" using own_remove_inv [OF assms(1-3) m dv(3)] by simp
  ultimately show ?thesis using own_removal_effect [OF assms(1-3) dv(1-3) m] dv(4) by (auto simp: local_route_def)
qed

text \<open>C33: The relay's own operations take effect. The next timestamp is finite and strictly later than that of every route
  and tombstone of the relay; a valid local route with it is accepted; and unregistering a route with a valid name and
  server id returns the route that was there, removes it, and leaves a tombstone with that timestamp.\<close>

theorem own_operations_take_effect:
  assumes "relay_reach parse sha self t" "clock_ready wall t" "next_local_timestamp wall t = (ts, t1)" "valid_relay_id self"
  shows "f64_is_finite ts \<and> (\<forall>name e. local_route t name = Some e \<longrightarrow> f64_lt (re_registered_at e) ts) \<and>
    (\<forall>name d. rt_tombstones t (name, self) = Some d \<longrightarrow> f64_lt (tb_removed_at d) ts) \<and>
    (\<forall>e. re_registered_at e = ts \<and> re_relay_id e = self \<and> valid_route_entry parse t e \<longrightarrow>
       (\<exists>t2. register_route parse t1 e = Some (True, t2) \<and> local_route t2 (re_name e) = Some e)) \<and>
    (\<forall>name server_id. valid_route_name name \<and> valid_server_id server_id \<longrightarrow>
       (\<exists>t2 d. unregister_local_route_with_tombstone wall now t name server_id = ((local_route t name, ts), t2) \<and>
          local_route t2 name = None \<and> rt_tombstones t2 (name, self) = Some d \<and> tb_removed_at d = ts))"
proof (intro conjI)
  have inv: "relay_inv parse t" and id: "rt_relay_id t = self" using relay_reach_inv [OF assms(1)] by blast+
  note fresh = fresh_timestamp [OF inv assms(2,3), unfolded id]
  show "f64_is_finite ts" "\<forall>name e. local_route t name = Some e \<longrightarrow> f64_lt (re_registered_at e) ts"
    "\<forall>name d. rt_tombstones t (name, self) = Some d \<longrightarrow> f64_lt (tb_removed_at d) ts"
    using fresh unfolding local_route_def id by blast+
  show "\<forall>e. re_registered_at e = ts \<and> re_relay_id e = self \<and> valid_route_entry parse t e \<longrightarrow>
       (\<exists>t2. register_route parse t1 e = Some (True, t2) \<and> local_route t2 (re_name e) = Some e)"
    using own_register_effect [OF inv assms(2,3), unfolded id] by blast
  show "\<forall>name server_id. valid_route_name name \<and> valid_server_id server_id \<longrightarrow>
       (\<exists>t2 d. unregister_local_route_with_tombstone wall now t name server_id = ((local_route t name, ts), t2) \<and>
          local_route t2 name = None \<and> rt_tombstones t2 (name, self) = Some d \<and> tb_removed_at d = ts)"
    using own_unregister_effect [OF inv assms(2,3), unfolded id, OF assms(4)] by blast
qed

theorem own_operations_take_effect_witness:
  "\<exists>ts t2 d. unregister_local_route_with_tombstone 11 7 sample_table [0x72] [0x73] = ((Some (sample_entry sample_ts), ts), t2) \<and>
     f64_lt sample_ts ts \<and> local_route t2 [0x72] = None \<and> rt_tombstones t2 ([0x72], sample_self) = Some d \<and> tb_removed_at d = ts"
proof -
  obtain ts t1 where n: "next_local_timestamp 11 sample_table = (ts, t1)" by fastforce
  have r: "local_route sample_table [0x72] = Some (sample_entry sample_ts)" "re_registered_at (sample_entry sample_ts) = sample_ts"
    using sample_table_route by (simp_all add: local_route_def sample_entry_def)
  from own_operations_take_effect [OF sample_reach sample_ready n sample_ids(1), of 7] r sample_ids(3,4) show ?thesis by metis
qed

text \<open>A resolution returns the relay's own route if it matches the expected contract, then the matching routes of the peers
  that are alive, each once, in the order of registration time and relay id; so the answer does not depend on the
  iteration order of the hash map.\<close>

lemma resolve_matching_exact:
  assumes "relay_reach parse sha self t" "distinct keys" "set keys = dom (rt_routes t)" "is_ok (validate_expected_route_contract x)"
  shows "(\<exists>ps. resolve_matching keys t x = matching_local t x @ map to_route_info ps \<and> sorted (map peer_rank ps) \<and> distinct ps \<and>
       set ps = {e. matching_peer t x e}) \<and>
    (\<forall>keys'. distinct keys' \<and> set keys' = dom (rt_routes t) \<longrightarrow> resolve_matching keys' t x = resolve_matching keys t x)"
proof -
  have inv: "relay_inv parse t" using relay_reach_inv [OF assms(1)] by blast
  obtain ps where ps: "resolve_matching keys t x = matching_local t x @ map to_route_info ps" "sorted (map peer_rank ps)" "distinct ps"
    "set ps = {e. matching_peer t x e}"
    using resolve_spec [OF inv assms(2-4)] by blast
  have "resolve_matching keys' t x = resolve_matching keys t x" if k: "distinct keys'" "set keys' = dom (rt_routes t)" for keys'
  proof -
    obtain qs where qs: "resolve_matching keys' t x = matching_local t x @ map to_route_info qs" "sorted (map peer_rank qs)" "distinct qs"
      "set qs = {e. matching_peer t x e}"
      using resolve_spec [OF inv k assms(4)] by blast
    have "qs = ps" by (rule sorted_rank_unique [OF qs(2-4) ps(2-4)])
    then show ?thesis using ps(1) qs(1) by simp
  qed
  then show ?thesis using ps by blast
qed

definition sample_contract :: expected_route_contract where
  "sample_contract =
     \<lparr>ec_route_name = [0x72], ec_crm_ns = [0x6E], ec_crm_name = [0x6D], ec_crm_ver = [0x31], ec_abi_hash = replicate 64 0x61,
      ec_signature_hash = replicate 64 0x62\<rparr>"

lemma sample_contract_ok: "is_ok (validate_expected_route_contract sample_contract)"
  by (simp add: sample_contract_def validate_expected_route_contract_def and_then_def sample_validators)

section \<open>An older announcement replaces a newer route\<close>

text \<open>The tombstone is the only barrier: while a route is stored, an announcement by its owner replaces it whatever the two
  registration times are, so that an announcement delayed past a deletion and a new registration is accepted.\<close>

lemma stale_announcement_accepted:
  assumes "relay_reach parse sha self t" "rt_peers t (re_relay_id e) = Some p" "rt_routes t (re_name e, re_relay_id e) = Some newer"
    "valid_route_entry parse t (e\<lparr>re_relay_url := pi_url p, re_server_id := None, re_server_instance_id := None, re_ipc_address := None, re_locality := Peer\<rparr>)"
  shows "\<exists>t'. announce_locked parse t e = Some (Inr (), t') \<and> map_option re_registered_at (rt_routes t' (re_name e, re_relay_id e)) = Some (re_registered_at e)"
proof -
  have inv: "relay_inv parse t" using relay_reach_inv [OF assms(1)] by blast
  have "rt_tombstones t (re_name e, re_relay_id e) = None"
    using inv_tombstoneD [OF inv, of "(re_name e, re_relay_id e)"] assms(3) by (cases "rt_tombstones t (re_name e, re_relay_id e)") auto
  moreover have "re_relay_id e \<noteq> rt_relay_id t" using known_peer_id [OF inv assms(2)] by simp
  ultimately show ?thesis using assms(2,4)
    by (simp add: announce_locked_def register_route_def register_prevalidated_route_def can_register_route_def Let_def)
qed

end
