(* ===== verification/Relay_Handlers.thy ===== *)
theory Relay_Handlers
  imports Relay_Claims
begin

text \<open>
  The HTTP handlers of the mesh refine the step relation: each of them never panics and changes the table only by a
  sequence of steps, those on behalf of peers for gossip and the relay's own for answering a digest, and only in what
  the sender of the message owns. The table \<open>seen\<close> is the one a handler read before it took the write lock, and belongs
  to the same relay.
\<close>

definition relay_steps :: "(str \<Rightarrow> url option) \<Rightarrow> (bytes \<Rightarrow> str) \<Rightarrow> relay_label \<Rightarrow> route_table \<Rightarrow> route_table \<Rightarrow> bool" where
  "relay_steps parse sha l = (relay_step parse sha l)\<^sup>*\<^sup>*"

lemma steps_refl [simp]: "relay_steps parse sha l t t"
  by (simp add: relay_steps_def)

lemma steps_one: "relay_step parse sha l t t' \<Longrightarrow> relay_steps parse sha l t t'"
  by (simp add: relay_steps_def)

lemma steps_trans: "relay_steps parse sha l t t' \<Longrightarrow> relay_steps parse sha l t' t'' \<Longrightarrow> relay_steps parse sha l t t''"
  by (simp add: relay_steps_def)

lemma steps_inv:
  assumes "relay_steps parse sha l t t'" "relay_inv parse t"
  shows "relay_inv parse t' \<and> rt_relay_id t' = rt_relay_id t"
  using assms unfolding relay_steps_def by (induction rule: rtranclp_induct) (use relay_step_inv in fastforce)+

section \<open>Gossip\<close>

lemma register_total: "\<exists>r t'. register_route parse t e = Some (r, t')"
  using register_never_panics [of parse t e] by (cases "register_route parse t e") auto

lemma announce_locked_total: "\<exists>r t'. announce_locked parse t e = Some (r, t')"
proof (cases "rt_peers t (re_relay_id e)")
  case (Some p)
  obtain r t' where "register_route parse t (e\<lparr>re_relay_url := pi_url p, re_server_id := None, re_server_instance_id := None, re_ipc_address := None, re_locality := Peer\<rparr>) = Some (r, t')"
    using register_total by blast
  with Some show ?thesis by (simp add: announce_locked_def)
qed (simp add: announce_locked_def)

lemma announce_peer_steps: "\<exists>r t'. announce_peer parse seen sender e t = Some (r, t') \<and> relay_steps parse sha PeerOp t t'"
proof (cases "announce_checks seen sender e")
  case (Inl err)
  then show ?thesis by (simp add: announce_peer_def)
next
  case (Inr u)
  obtain r t' where "announce_locked parse t e = Some (r, t')" using announce_locked_total by blast
  then show ?thesis using Inr steps_one [OF relay_step.announce] by (simp add: announce_peer_def)
qed

lemma withdraw_peer_steps:
  assumes "rt_relay_id seen = rt_relay_id t" "withdraw_peer now seen sender name relay_id removed_at t = (r, t')"
  shows "relay_steps parse sha PeerOp t t'"
proof (cases "relay_id = rt_relay_id t \<or> t' = t")
  case False
  then have "t' = snd (unregister_route_with_tombstone now t name relay_id removed_at)"
    using assms(2) by (auto simp: withdraw_peer_def split: sum.splits)
  then have "relay_step parse sha PeerOp t t'"
    using False by (intro relay_step.withdraw [of relay_id _ now name removed_at "fst (unregister_route_with_tombstone now t name relay_id removed_at)"]) auto
  then show ?thesis by (rule steps_one)
next
  case True
  moreover have "t' = t" if "relay_id = rt_relay_id t"
    using assms that by (auto simp: withdraw_peer_def trusted_peer_owner_def and_then_def split: sum.splits if_splits)
  ultimately show ?thesis by auto
qed

lemma announce_handler_steps:
  assumes "rt_relay_id seen = rt_relay_id t"
  shows "\<exists>t'. handle_peer_announce parse now seen env t = Some t' \<and> relay_steps parse sha PeerOp t t'"
proof -
  have "\<exists>t'. map_option snd (announce_peer parse seen sender e t) = Some t' \<and> relay_steps parse sha PeerOp t t'" for sender e
    using announce_peer_steps [of parse seen sender e t sha] by auto
  moreover have "relay_steps parse sha PeerOp t (snd (withdraw_peer now seen sender name relay_id removed_at t))" for sender name relay_id removed_at
    by (rule withdraw_peer_steps [OF assms]) (rule prod.collapse [symmetric])
  ultimately show ?thesis
    by (simp add: handle_peer_announce_def split: sum.split validated_route_state_envelope.split peer_message.split)
qed

lemma heartbeat_handler_steps: "relay_steps parse sha PeerOp t (handle_peer_heartbeat parse now seen env t)"
  by (simp add: handle_peer_heartbeat_def steps_one [OF relay_step.heartbeat] split: sum.split validated_route_state_envelope.split peer_message.split)

lemma remove_peer_routes_steps: "relay_steps parse sha PeerOp t (remove_peer_routes keys t relay_id)"
proof (cases "isl (auth_validate_relay_id relay_id) \<or> relay_id = rt_relay_id t")
  case False
  then have "relay_step parse sha PeerOp t (snd (remove_routes_by_relay keys t relay_id))"
    by (intro relay_step.leave [of relay_id _ keys "fst (remove_routes_by_relay keys t relay_id)"]) auto
  then show ?thesis using False by (simp add: remove_peer_routes_def steps_one)
qed (auto simp: remove_peer_routes_def)

lemma leave_handler_steps: "relay_steps parse sha PeerOp t (handle_peer_leave parse keys seen env t)"
proof -
  have "relay_steps parse sha PeerOp t (snd (unregister_peer (remove_peer_routes keys t relay_id) relay_id))" for relay_id
    by (rule steps_trans [OF remove_peer_routes_steps [of parse sha t keys relay_id]], rule steps_one,
        rule relay_step.forget [of _ relay_id "fst (unregister_peer (remove_peer_routes keys t relay_id) relay_id)"]) simp
  then show ?thesis by (simp add: handle_peer_leave_def split: sum.split validated_route_state_envelope.split peer_message.split)
qed

lemma join_handler_steps: "relay_steps parse sha PeerOp t (snd (handle_peer_join parse now env t))"
proof -
  have "relay_steps parse sha PeerOp t (snd (record_peer_join parse now t relay_id u))" for relay_id u
    by (rule steps_one, rule relay_step.join [of _ now _ relay_id u "fst (record_peer_join parse now t relay_id u)"]) simp
  then show ?thesis by (simp add: handle_peer_join_def split: peer_message.split)
qed

lemma digest_diffs_steps: "\<exists>t'. apply_digest_diffs parse now sender t ds = Some t' \<and> relay_steps parse sha PeerOp t t'"
proof (induction ds arbitrary: t)
  case (Cons d ds)
  have "\<exists>r t1. apply_digest_diff parse (now (length ds)) t sender d t = Some (r, t1) \<and> relay_steps parse sha PeerOp t t1"
  proof (cases d)
    case (VActive e)
    then show ?thesis using announce_peer_steps [of parse t sender e t sha] by (simp add: apply_digest_diff_def)
  next
    case (VDeleted name relay_id removed_at)
    obtain r t1 where w: "withdraw_peer (now (length ds)) t sender name relay_id removed_at t = (r, t1)" by fastforce
    then show ?thesis using VDeleted withdraw_peer_steps [OF refl w] by (simp add: apply_digest_diff_def)
  qed
  then obtain r t1 where d: "apply_digest_diff parse (now (length ds)) t sender d t = Some (r, t1)" "relay_steps parse sha PeerOp t t1" by blast
  obtain t' where "apply_digest_diffs parse now sender t1 ds = Some t'" "relay_steps parse sha PeerOp t1 t'" using Cons.IH by blast
  then show ?case using d steps_trans [OF d(2)] by auto
qed simp

section \<open>Answering a digest\<close>

definition clock_budget :: "u64 \<Rightarrow> route_table \<Rightarrow> nat \<Rightarrow> bool" where
  "clock_budget wall t k \<longleftrightarrow> (\<exists>n. f64_int n (rt_next_timestamp t) \<and> max (unat wall) n + k < 2 ^ 53)"

lemma budget_ready: "clock_budget wall t (Suc k) \<Longrightarrow> clock_ready wall t"
  unfolding clock_budget_def clock_ready_def by fastforce

lemma budget_weaken: "clock_budget wall t (Suc k) \<Longrightarrow> clock_budget wall t k"
  unfolding clock_budget_def by fastforce

lemma budget_below: "clock_budget latest t k \<Longrightarrow> wall \<le> latest \<Longrightarrow> clock_budget wall t k"
  unfolding clock_budget_def word_le_nat_alt by fastforce

lemma budget_tick:
  assumes "clock_budget latest t (Suc k)" "wall \<le> latest" "next_local_timestamp wall t = (ts, t1)"
  shows "clock_budget latest t1 k"
proof -
  obtain n where n: "f64_int n (rt_next_timestamp t)" "max (unat latest) n + Suc k < 2 ^ 53" using assms(1) by (auto simp: clock_budget_def)
  moreover have latest: "unat wall \<le> unat latest" using assms(2) by (simp add: word_le_nat_alt)
  ultimately have b: "unat wall < 2 ^ 53" "n + 1 < 2 ^ 53" by auto
  have "f64_is_finite (rt_next_timestamp t)" using n(1) by (simp add: f64_int_def)
  then have "rt_next_timestamp t1 = f64_max (f64_of_u64 wall) (f64_plus (rt_next_timestamp t) f64_one)"
    using assms(3) by (auto simp: next_local_timestamp_def Let_def)
  then have "f64_int (max (unat wall) (n + 1)) (rt_next_timestamp t1)"
    using f64_max_int [OF f64_of_u64_int [OF b(1)] f64_succ_int [OF n(1) b(2)]] by simp
  moreover have "max (unat latest) (max (unat wall) (n + 1)) + k < 2 ^ 53" using n(2) latest by simp
  ultimately show ?thesis unfolding clock_budget_def by blast
qed

lemma budget_missing:
  assumes "clock_budget latest t (Suc k)" "wall \<le> latest" "authoritative_missing_tombstone wall now t name relay_id = (r, t')"
  shows "clock_budget latest t' k"
proof -
  consider "t' = t" | ts t1 d r' where "next_local_timestamp wall t = (ts, t1)" "apply_tombstone now t1 d = (r', t')"
    using missing_split [OF assms(3)] by metis
  then show ?thesis
  proof cases
    case 2
    have "rt_next_timestamp t' = rt_next_timestamp t1" using apply_tombstone_effect [OF 2(2)] by auto
    then show ?thesis using budget_tick [OF assms(1,2) 2(1)] by (simp add: clock_budget_def)
  qed (use budget_weaken [OF assms(1)] in simp)
qed

lemma missing_diffs_steps:
  assumes "\<forall>i. wall i \<le> latest"
  shows "clock_budget latest t (length ds) \<Longrightarrow> relay_steps parse sha OwnOp t (snd (missing_diffs wall now t ds))"
proof (induction ds arbitrary: t)
  case (Cons d ds)
  obtain r t1 where a: "authoritative_missing_tombstone (wall (length ds)) (now (length ds)) t (de_name d) (de_relay_id d) = (r, t1)" by fastforce
  have b: "clock_budget latest t (Suc (length ds))" using Cons.prems by simp
  have w: "wall (length ds) \<le> latest" using assms by simp
  have "relay_step parse sha OwnOp t t1" by (rule relay_step.missing [OF budget_ready [OF budget_below [OF b w]] a])
  then have "relay_steps parse sha OwnOp t (snd (missing_diffs wall now t1 ds))"
    by (rule steps_trans [OF steps_one Cons.IH [OF budget_missing [OF b w a]]])
  moreover have "relay_steps parse sha OwnOp t (snd (missing_diffs wall now t ds))" by (rule Cons.IH [OF budget_weaken [OF b]])
  ultimately show ?case
    using a by (cases "missing_diffs wall now t1 ds"; cases "de_relay_id d = rt_relay_id t \<and> \<not> de_deleted d \<and> route_state_for_diff t (de_name d) (de_relay_id d) False = None")
      (auto split: if_splits)
qed simp

definition digest_length :: "peer_envelope \<Rightarrow> nat" where
  "digest_length env = (case pe_message env of DigestExchange ds \<Rightarrow> length ds | _ \<Rightarrow> 0)"

lemma validated_same_message:
  "validate_route_state_envelope parse env expected = Inr (VMessage env') \<Longrightarrow> env' = env"
  by (auto simp: validate_route_state_envelope_def validate_route_state_message_def and_then_def Let_def
      split: if_splits sum.splits peer_message.splits option.splits)

lemma digest_handler_total: "\<exists>r t'. handle_peer_digest parse sha wall now keys env t = Some (r, t')"
proof -
  have "\<exists>t'. apply_digest_diffs parse now (pe_sender_relay_id env) t ds = Some t'" for ds
    using digest_diffs_steps by blast
  then obtain u where "\<And>ds. apply_digest_diffs parse now (pe_sender_relay_id env) t ds = Some (u ds)" by metis
  then show ?thesis
    by (simp add: handle_peer_digest_def Let_def split: sum.split validated_route_state_envelope.split peer_message.split prod.split)
qed

section \<open>What a message may change\<close>

text \<open>The two tables differ at most in what the relay \<open>s\<close> owns: its routes, their tombstones and withdrawals, and its
  entry among the peers.\<close>

definition confined_to :: "str \<Rightarrow> route_table \<Rightarrow> route_table \<Rightarrow> bool" where
  "confined_to s t t' \<longleftrightarrow> rt_relay_id t' = rt_relay_id t \<and> rt_next_timestamp t' = rt_next_timestamp t \<and>
     (\<forall>k. snd k \<noteq> s \<longrightarrow> rt_routes t' k = rt_routes t k \<and> rt_tombstones t' k = rt_tombstones t k \<and> rt_withdrawn t' k = rt_withdrawn t k) \<and>
     (\<forall>r. r \<noteq> s \<longrightarrow> rt_peers t' r = rt_peers t r)"

lemma confined_refl [simp]: "confined_to s t t"
  by (simp add: confined_to_def)

lemma confined_trans: "confined_to s t t1 \<Longrightarrow> confined_to s t1 t2 \<Longrightarrow> confined_to s t t2"
  by (simp add: confined_to_def)

lemma announce_locked_confined:
  assumes "announce_locked parse t e = Some (r, t')"
  shows "confined_to (re_relay_id e) t t' \<and> rt_peers t' = rt_peers t"
proof (cases "t' = t")
  case False
  then obtain p :: peer_info and x where "register_route parse t (e\<lparr>re_relay_url := pi_url p, re_server_id := None, re_server_instance_id := None,
      re_ipc_address := None, re_locality := Peer\<rparr>) = Some (x, t')"
    using assms by (auto simp: announce_locked_def bind_eq_Some_conv intro: that split: if_splits option.splits)
  then have "register_prevalidated_route parse t (e\<lparr>re_relay_url := pi_url p, re_server_id := None, re_server_instance_id := None,
      re_ipc_address := None, re_locality := Peer\<rparr>) = Some t'" using register_effect False by blast
  from register_prevalidated_effect [OF this] show ?thesis by (auto simp: confined_to_def)
qed simp

lemma trusted_owner: "trusted_peer_owner seen sender relay_id \<longleftrightarrow> relay_id = sender \<and> trusted_peer seen sender"
  by (auto simp: trusted_peer_owner_def trusted_peer_def)

lemma announce_checks_trust: "announce_checks seen sender e = Inr u \<Longrightarrow> re_relay_id e = sender \<and> trusted_peer seen sender"
  by (auto simp: announce_checks_def and_then_def trusted_owner split: sum.splits if_splits)

lemma announce_peer_confined:
  assumes "announce_peer parse seen sender e t = Some (r, t')"
  shows "confined_to sender t t' \<and> rt_peers t' = rt_peers t \<and> (t' \<noteq> t \<longrightarrow> re_relay_id e = sender \<and> trusted_peer seen sender)"
proof (cases "announce_checks seen sender e")
  case (Inr u)
  then show ?thesis using assms announce_locked_confined [of parse t e r t'] announce_checks_trust [OF Inr]
    by (simp add: announce_peer_def)
qed (use assms in \<open>simp add: announce_peer_def\<close>)

lemma tombstone_confined:
  assumes "unregister_route_with_tombstone now t name relay_id removed_at = (r, t')"
  shows "confined_to relay_id t t' \<and> rt_peers t' = rt_peers t"
  using remove_effect [OF assms [unfolded unregister_route_with_tombstone_def]] apply_tombstone_effect [of now t _ True t']
  by (fastforce simp: confined_to_def)

lemma withdraw_peer_confined:
  assumes "withdraw_peer now seen sender name relay_id removed_at t = (r, t')"
  shows "confined_to sender t t' \<and> rt_peers t' = rt_peers t \<and> (t' \<noteq> t \<longrightarrow> relay_id = sender \<and> trusted_peer seen sender)"
proof (cases "t' = t")
  case False
  then have "trusted_peer_owner seen sender relay_id" "t' = snd (unregister_route_with_tombstone now t name relay_id removed_at)"
    using assms by (auto simp: withdraw_peer_def and_then_def split: sum.splits if_splits)
  then show ?thesis
    using tombstone_confined [of now t name relay_id removed_at "fst (unregister_route_with_tombstone now t name relay_id removed_at)" t']
    by (simp add: trusted_owner)
qed simp

lemma diff_confined:
  assumes "apply_digest_diff parse now seen sender d t = Some (r, t')"
  shows "confined_to sender t t' \<and> rt_peers t' = rt_peers t"
  using assms announce_peer_confined withdraw_peer_confined
  by (cases d) (fastforce simp: apply_digest_diff_def)+

lemma diffs_confined:
  "apply_digest_diffs parse now sender t ds = Some t' \<Longrightarrow> confined_to sender t t' \<and> rt_peers t' = rt_peers t"
proof (induction ds arbitrary: t)
  case (Cons d ds)
  then obtain r t1 where "apply_digest_diff parse (now (length ds)) t sender d t = Some (r, t1)" "apply_digest_diffs parse now sender t1 ds = Some t'"
    by (auto simp: bind_eq_Some_conv)
  then show ?case using Cons.IH diff_confined confined_trans by metis
qed simp

text \<open>The routes a relay is asked about in a digest and does not have.\<close>

definition asked_missing :: "route_table \<Rightarrow> digest_entry list \<Rightarrow> route_key \<Rightarrow> bool" where
  "asked_missing t ds k \<longleftrightarrow> snd k = rt_relay_id t \<and> rt_routes t k = None \<and>
     (\<exists>d\<in>set ds. (de_name d, de_relay_id d) = k \<and> \<not> de_deleted d)"

definition answers_only :: "digest_entry list \<Rightarrow> route_table \<Rightarrow> route_table \<Rightarrow> bool" where
  "answers_only ds t t' \<longleftrightarrow> rt_routes t' = rt_routes t \<and> rt_withdrawn t' = rt_withdrawn t \<and> rt_peers t' = rt_peers t \<and>
     rt_relay_id t' = rt_relay_id t \<and> (\<forall>k. \<not> asked_missing t ds k \<longrightarrow> rt_tombstones t' k = rt_tombstones t k)"

lemma asked_Cons: "asked_missing t (d # ds) k \<longleftrightarrow> asked_missing t [d] k \<or> asked_missing t ds k"
  by (auto simp: asked_missing_def)

lemma asked_cong: "rt_routes t' = rt_routes t \<Longrightarrow> rt_relay_id t' = rt_relay_id t \<Longrightarrow> asked_missing t' = asked_missing t"
  by (simp add: asked_missing_def fun_eq_iff)

lemma answers_trans:
  assumes "answers_only [d] t t1" "answers_only ds t1 t2"
  shows "answers_only (d # ds) t t2"
  using assms asked_cong [of t1 t] by (simp add: answers_only_def asked_Cons [of t d ds] del: split_paired_All)

lemma answers_weaken: "answers_only ds t t' \<Longrightarrow> answers_only (d # ds) t t'"
  by (simp add: answers_only_def asked_Cons [of t d ds] del: split_paired_All)

lemma missing_answers:
  assumes "authoritative_missing_tombstone wall now t (de_name d) (de_relay_id d) = (r, t')" "\<not> de_deleted d"
  shows "answers_only [d] t t'"
proof (cases "t' = t")
  case False
  then have own: "de_relay_id d = rt_relay_id t" "rt_routes t (de_name d, de_relay_id d) = None"
    using assms(1) by (auto simp: authoritative_missing_tombstone_def split: if_splits)
  then obtain ts t1 x tb where n: "next_local_timestamp wall t = (ts, t1)" and a: "apply_tombstone now t1 tb = (x, t')"
    and k: "tb_name tb = de_name d" "tb_relay_id tb = de_relay_id d"
    using assms(1) False
    by (fastforce simp: authoritative_missing_tombstone_def split: if_splits prod.splits)
  have "rt_routes t1 = rt_routes t" "rt_withdrawn t1 = rt_withdrawn t" "rt_peers t1 = rt_peers t" "rt_relay_id t1 = rt_relay_id t"
    "rt_tombstones t1 = rt_tombstones t" using n by (auto simp: next_local_timestamp_def Let_def)
  then show ?thesis using apply_tombstone_effect [OF a] own k assms(2)
    by (auto simp: answers_only_def asked_missing_def fun_upd_idem)
qed (simp add: answers_only_def)

lemma missing_diffs_answers: "answers_only ds t (snd (missing_diffs wall now t ds))"
proof (induction ds arbitrary: t)
  case (Cons d ds)
  show ?case
  proof (cases "de_relay_id d = rt_relay_id t \<and> \<not> de_deleted d \<and> route_state_for_diff t (de_name d) (de_relay_id d) False = None")
    case True
    obtain r t1 where a: "authoritative_missing_tombstone (wall (length ds)) (now (length ds)) t (de_name d) (de_relay_id d) = (r, t1)" by fastforce
    have "answers_only (d # ds) t (snd (missing_diffs wall now t1 ds))"
      by (rule answers_trans [OF missing_answers [OF a] Cons.IH]) (use True in simp)
    then show ?thesis using True a by (auto simp: case_prod_unfold Let_def)
  next
    case False
    then show ?thesis using answers_weaken [OF Cons.IH] by (simp split del: if_split) (simp add: False)
  qed
qed (simp add: answers_only_def)

section \<open>Which messages are accepted\<close>

text \<open>A message speaks for its sender when everything it states is about routes or membership of the sender.\<close>

fun diff_by :: "(str \<Rightarrow> url option) \<Rightarrow> str \<Rightarrow> digest_diff_entry \<Rightarrow> bool" where
  "diff_by parse s (DiffActive r) \<longleftrightarrow> ra_relay_id r = s \<and> valid_active_route_fields parse r"
| "diff_by parse s (DiffDeleted name r removed_at) \<longleftrightarrow> r = s \<and> valid_deleted_route_fields name r removed_at"

fun speaks_for :: "(str \<Rightarrow> url option) \<Rightarrow> str \<Rightarrow> peer_message \<Rightarrow> bool" where
  "speaks_for parse s (RouteAnnounce r) \<longleftrightarrow> diff_by parse s (DiffActive r)"
| "speaks_for parse s (RouteWithdraw name r removed_at) \<longleftrightarrow> diff_by parse s (DiffDeleted name r removed_at)"
| "speaks_for parse s (RelayJoin r u) \<longleftrightarrow> r = s \<and> valid_relay_url parse u"
| "speaks_for parse s (RelayLeave r) \<longleftrightarrow> r = s"
| "speaks_for parse s (Heartbeat r n) \<longleftrightarrow> r = s"
| "speaks_for parse s (DigestExchange ds) \<longleftrightarrow> list_all (\<lambda>d. valid_route_name (de_name d) \<and> valid_wire_relay_id (de_relay_id d) \<and> valid_route_digest_hash (de_hash d)) ds"
| "speaks_for parse s (DigestDiff ds) \<longleftrightarrow> list_all (diff_by parse s) ds"
| "speaks_for parse s UnknownMessage \<longleftrightarrow> False"

definition admissible :: "(str \<Rightarrow> url option) \<Rightarrow> peer_envelope \<Rightarrow> bool" where
  "admissible parse env \<longleftrightarrow> pe_protocol_version env = PROTOCOL_VERSION \<and> valid_wire_relay_id (pe_sender_relay_id env) \<and>
     speaks_for parse (pe_sender_relay_id env) (pe_message env)"

lemma digest_entries_valid:
  "validate_digest_entries ds = Inr u \<Longrightarrow>
     list_all (\<lambda>d. valid_route_name (de_name d) \<and> valid_wire_relay_id (de_relay_id d) \<and> valid_route_digest_hash (de_hash d)) ds"
  by (induction ds) (auto split: if_splits)

lemma diff_entry_valid: "validate_digest_diff_entry parse s d = Inr v \<Longrightarrow> diff_by parse s d"
  by (cases d) (auto simp: validate_digest_diff_entry_def split: if_splits)

lemma diff_entries_valid: "validate_digest_diff_entries parse s ds = Inr vs \<Longrightarrow> list_all (diff_by parse s) ds"
  by (induction ds arbitrary: vs) (auto simp: and_then_def diff_entry_valid split: sum.splits)

lemma validated_admissible:
  assumes "validate_route_state_envelope parse env expected = Inr v"
  shows "case pe_message env of RelayJoin _ _ \<Rightarrow> True | Heartbeat _ _ \<Rightarrow> True | UnknownMessage \<Rightarrow> True | _ \<Rightarrow> admissible parse env"
  using assms
  by (auto simp: validate_route_state_envelope_def validate_route_state_message_def admissible_def and_then_def Let_def
      dest: digest_entries_valid diff_entries_valid split: if_splits sum.splits peer_message.splits)

lemma announce_handler_confined:
  assumes "handle_peer_announce parse now seen env t = Some t'"
  shows "confined_to (pe_sender_relay_id env) t t' \<and> rt_peers t' = rt_peers t \<and>
    (t' \<noteq> t \<longrightarrow> admissible parse env \<and> trusted_peer seen (pe_sender_relay_id env) \<and>
      ((\<exists>r. pe_message env = RouteAnnounce r) \<or> (\<exists>name r removed_at. pe_message env = RouteWithdraw name r removed_at)))"
proof (cases "t' = t")
  case False
  then obtain v where v: "validate_route_state_envelope parse env None = Inr (VMessage v)"
    using assms by (auto simp: handle_peer_announce_def split: if_splits sum.splits validated_route_state_envelope.splits)
  have e: "v = env" by (rule validated_same_message [OF v])
  note ok = validated_admissible [OF v]
  consider r x where "pe_message env = RouteAnnounce r" "announce_peer parse seen (pe_sender_relay_id env) (announced_entry r) t = Some (x, t')"
    | name r removed_at where "pe_message env = RouteWithdraw name r removed_at"
        "t' = snd (withdraw_peer now seen (pe_sender_relay_id env) name r removed_at t)"
    using assms v e False by (auto simp: handle_peer_announce_def split: if_splits peer_message.splits)
  then show ?thesis
  proof cases
    case 1
    then show ?thesis using announce_peer_confined [OF 1(2)] ok False by simp
  next
    case 2
    then obtain x where "withdraw_peer now seen (pe_sender_relay_id env) name r removed_at t = (x, t')" by (metis prod.collapse)
    from withdraw_peer_confined [OF this] show ?thesis using 2(1) ok False by simp
  qed
qed simp

lemma heartbeat_handler_effect:
  "handle_peer_heartbeat parse now seen env t =
     (case pe_message env of
        Heartbeat r n \<Rightarrow> if admissible parse env \<and> known_peer seen (pe_sender_relay_id env) then heartbeat_locked now t (pe_sender_relay_id env) n else t
      | _ \<Rightarrow> t)"
  by (auto simp: handle_peer_heartbeat_def validate_route_state_envelope_def validate_route_state_message_def admissible_def
      is_some_and_def and_then_def Let_def split: peer_message.splits sum.splits if_splits)

lemma leave_handler_effect:
  "handle_peer_leave parse keys seen env t =
     (case pe_message env of
        RelayLeave r \<Rightarrow> if admissible parse env \<and> trusted_peer seen (pe_sender_relay_id env)
          then snd (unregister_peer (remove_peer_routes keys t (pe_sender_relay_id env)) (pe_sender_relay_id env)) else t
      | _ \<Rightarrow> t)"
  by (auto simp: handle_peer_leave_def validate_route_state_envelope_def validate_route_state_message_def admissible_def
      is_some_and_def and_then_def Let_def split: peer_message.splits sum.splits if_splits)

lemma peer_status_alive: "(if x = Dead \<or> x = Suspect then Alive else x) = Alive"
  by (cases x) auto

lemma inv_route_key: "relay_inv parse t \<Longrightarrow> rt_routes t k = Some e \<Longrightarrow> re_relay_id e = snd k"
  by (auto simp: relay_inv_def dest!: routes_okD)

lemma heartbeat_handler_outcome:
  assumes "pe_sender_relay_id env = s" "t' = handle_peer_heartbeat parse now seen env t"
  shows "confined_to s t t' \<and> rt_routes t' = rt_routes t \<and> rt_tombstones t' = rt_tombstones t \<and> rt_withdrawn t' = rt_withdrawn t \<and>
    (if admissible parse env \<and> known_peer seen s \<and> (\<exists>n. pe_message env = Heartbeat s n)
     then \<forall>p n. rt_peers t s = Some p \<and> pe_message env = Heartbeat s n \<longrightarrow>
       rt_peers t' s = Some (p\<lparr>pi_last_heartbeat := now, pi_route_count := n, pi_status := Alive\<rparr>)
     else t' = t)"
proof (cases "admissible parse env \<and> known_peer seen s \<and> (\<exists>n. pe_message env = Heartbeat s n)")
  case True
  then obtain n where n: "pe_message env = Heartbeat s n" by blast
  have "t' = heartbeat_locked now t s n" using True assms n by (simp add: heartbeat_handler_effect)
  then show ?thesis using True n by (auto simp: heartbeat_locked_def confined_to_def peer_status_alive split: option.splits)
next
  case False
  then have "t' = t" using assms by (auto simp: heartbeat_handler_effect admissible_def split: peer_message.splits)
  then show ?thesis using False by (simp only: if_False) simp
qed

lemma leave_handler_outcome:
  assumes "pe_sender_relay_id env = s" "t' = handle_peer_leave parse keys seen env t" "rt_relay_id seen = rt_relay_id t"
  shows "confined_to s t t' \<and> rt_tombstones t' = rt_tombstones t \<and> rt_withdrawn t' = rt_withdrawn t \<and>
    (if admissible parse env \<and> trusted_peer seen s \<and> pe_message env = RelayLeave s
     then rt_peers t' s = None \<and> (\<forall>name. rt_routes t' (name, s) = None) else t' = t)"
proof (cases "admissible parse env \<and> trusted_peer seen s \<and> pe_message env = RelayLeave s")
  case True
  then have "t' = t\<lparr>rt_routes := (\<lambda>k. if snd k = s then None else rt_routes t k), rt_peers := (rt_peers t)(s := None)\<rparr>"
    using assms by (auto simp: leave_handler_effect remove_peer_routes_def remove_routes_by_relay_def unregister_peer_def
        auth_validate_relay_id_def admissible_def valid_wire_relay_id_def trusted_peer_def map_err_def is_ok_def split: sum.splits)
  then show ?thesis using True by (auto simp: confined_to_def)
next
  case False
  then have "t' = t" using assms by (auto simp: leave_handler_effect admissible_def split: peer_message.splits)
  then show ?thesis using False by (simp only: if_False) simp
qed

lemma join_handler_outcome:
  assumes "pe_sender_relay_id env = s" "(ok, t') = handle_peer_join parse now env t" "relay_inv parse t"
  shows "confined_to s t t' \<and> rt_tombstones t' = rt_tombstones t \<and> rt_withdrawn t' = rt_withdrawn t \<and>
    (ok \<longleftrightarrow> admissible parse env \<and> s \<noteq> rt_relay_id t \<and> (\<exists>u. pe_message env = RelayJoin s u)) \<and>
    (if ok then \<exists>p. rt_peers t' s = Some p \<and> pi_status p = Alive \<and> pi_last_heartbeat p = now \<and> pe_message env = RelayJoin s (pi_url p)
     else t' = t)"
proof (cases "admissible parse env \<and> s \<noteq> rt_relay_id t \<and> (\<exists>u. pe_message env = RelayJoin s u)")
  case True
  then obtain u where u: "pe_message env = RelayJoin s u" by blast
  have j: "(ok, t') = record_peer_join parse now t s u" and "valid_relay_id s" "valid_relay_url parse u"
    using assms(1,2) True u by (auto simp: handle_peer_join_def admissible_def valid_relay_id_def valid_wire_relay_id_def)
  then obtain p where p: "ok" "t' = sync_peer_route_urls (t\<lparr>rt_peers := (rt_peers t)(s \<mapsto> p)\<rparr>) s u"
    "pi_status p = Alive" "pi_last_heartbeat p = now" "pi_url p = u"
    using True by (auto simp: record_peer_join_def Let_def split: option.splits)
  have "rt_routes t' k = rt_routes t k" if "snd k \<noteq> s" for k
    using that inv_route_key [OF assms(3), of k] by (cases "rt_routes t k") (auto simp: p(2) sync_peer_route_urls_def)
  then show ?thesis using True p u by (auto simp: confined_to_def sync_peer_route_urls_def)
next
  case False
  then have "\<not> ok \<and> t' = t" using assms(1,2)
    by (auto simp: handle_peer_join_def admissible_def split: peer_message.splits if_splits)
  then show ?thesis using False by simp
qed

lemma digest_handler_outcome:
  assumes "pe_sender_relay_id env = s" "clock_budget latest t (digest_length env)" "\<forall>i. wall i \<le> latest"
    and run: "handle_peer_digest parse sha wall now keys env t = Some (r, t')"
  shows "(r \<noteq> None \<or> t' \<noteq> t \<longrightarrow> admissible parse env \<and> trusted_peer t s) \<and>
    (case pe_message env of
       DigestExchange ds \<Rightarrow> relay_steps parse sha OwnOp t t' \<and> answers_only ds t t'
     | DigestDiff ds \<Rightarrow> r = None \<and> relay_steps parse sha PeerOp t t' \<and> confined_to s t t' \<and> rt_peers t' = rt_peers t
     | _ \<Rightarrow> r = None \<and> t' = t)"
proof (cases "r = None \<and> t' = t")
  case True
  then show ?thesis by (auto simp: answers_only_def split: peer_message.split)
next
  case False
  then obtain v where v: "validate_route_state_envelope parse env (Some s) = Inr v" and trust: "trusted_peer t s"
    using assms(1) run by (auto simp: handle_peer_digest_def Let_def split: if_splits sum.splits)
  note ok = validated_admissible [OF v]
  show ?thesis
  proof (cases v)
    case (VMessage env')
    then have e: "env' = env" using v validated_same_message by blast
    then obtain ds where ds: "pe_message env = DigestExchange ds" "t' = snd (missing_diffs wall now t ds)"
      using assms(1) run v VMessage False
      by (auto simp: handle_peer_digest_def Let_def split: if_splits peer_message.splits prod.splits)
    then show ?thesis using ok trust missing_diffs_answers missing_diffs_steps [OF assms(3)] assms(2) by (simp add: digest_length_def)
  next
    case (VDigestDiff vs)
    then obtain ds where ds: "pe_message env = DigestDiff ds"
      using v by (auto simp: validate_route_state_envelope_def validate_route_state_message_def and_then_def Let_def
          split: if_splits sum.splits peer_message.splits)
    have d: "apply_digest_diffs parse now s t vs = Some t'" "r = None"
      using assms(1) run v VDigestDiff False by (auto simp: handle_peer_digest_def Let_def bind_eq_Some_conv split: if_splits)
    have "relay_steps parse sha PeerOp t t'" using digest_diffs_steps [of parse now s t vs sha] d(1) by simp
    then show ?thesis using ok trust ds d diffs_confined [OF d(1)] by simp
  qed
qed

section \<open>A concrete peer\<close>

definition sample_digest :: "digest_entry list" where
  "sample_digest = [\<lparr>de_name = [0x78], de_relay_id = sample_self, de_deleted = False, de_hash = replicate 64 0x61\<rparr>]"

lemma sample_joined_keeps:
  "rt_relay_id sample_joined = sample_self \<and> rt_next_timestamp sample_joined = sample_ts \<and> trusted_peer sample_joined sample_peer"
proof -
  have "sample_peer \<noteq> sample_self" by (simp add: sample_self_def sample_peer_def)
  then show ?thesis using sample_table_route sample_ids sample_url
    by (simp add: sample_joined_def record_peer_join_def sync_peer_route_urls_def trusted_peer_def peer_is_alive_def is_some_and_def Let_def)
qed

lemma sample_admissible:
  "admissible sample_parse (envelope_new sample_peer (RelayLeave sample_peer))"
  "admissible sample_parse (envelope_new sample_peer (DigestExchange sample_digest))"
proof -
  have "valid_wire_relay_id sample_self" "valid_wire_relay_id sample_peer" using sample_ids by (simp_all add: valid_wire_relay_id_def valid_relay_id_def)
  moreover have "valid_route_name [0x78]" by (simp add: sample_validators)
  moreover have "valid_route_digest_hash (replicate 64 0x61)" by (simp add: valid_route_digest_hash_def list_all_iff)
  ultimately show "admissible sample_parse (envelope_new sample_peer (RelayLeave sample_peer))"
    "admissible sample_parse (envelope_new sample_peer (DigestExchange sample_digest))"
    by (simp_all add: admissible_def envelope_new_def sample_digest_def)
qed

lemma sample_answered:
  "handle_peer_digest sample_parse sample_sha (\<lambda>i. 12) (\<lambda>i. 7) [] (envelope_new sample_peer (DigestExchange sample_digest)) sample_joined \<noteq> Some (None, t')"
  using sample_joined_keeps sample_ids sample_admissible(2)
  by (auto simp: handle_peer_digest_def validate_route_state_envelope_def validate_route_state_message_def admissible_def envelope_new_def
      sample_digest_def valid_wire_relay_id_def valid_relay_id_def is_some_and_def and_then_def Let_def split: prod.splits)

section \<open>The property\<close>

text \<open>C35: The mesh handlers implement the step relation and let a peer speak only for itself. From every reachable
  table no handler panics. An announcement, withdrawal, heartbeat, departure or join acts only by steps on behalf of peers
  and only on what its sender owns (its routes, their tombstones, its peer entry); it acts only if the version is right,
  the message speaks for its sender, and the sender is an alive peer (heartbeat: a known peer; join: another relay).
  An accepted heartbeat marks the sender, if still listed, alive; a departure removes it with its routes; a join
  makes it an alive peer under its URL. A digest is answered only to a trusted sender, by the relay's own steps, which
  change no route and write tombstones only for routes it was asked about and does not have, as long as its clock and
  the wall clock leave room for one tick per entry below two to the power of 53; a digest diff acts by steps on behalf of
  peers and only on what the sender owns.\<close>

theorem handlers_refine_steps:
  assumes "relay_reach parse sha self t" "rt_relay_id seen = self" "clock_budget latest t (digest_length env)" "\<forall>i. wall i \<le> latest"
    "pe_sender_relay_id env = s"
  shows "(\<exists>t'. handle_peer_announce parse now seen env t = Some t' \<and> relay_steps parse sha PeerOp t t' \<and>
      confined_to s t t' \<and> rt_peers t' = rt_peers t \<and>
      (t' \<noteq> t \<longrightarrow> admissible parse env \<and> trusted_peer seen s \<and>
        ((\<exists>r. pe_message env = RouteAnnounce r) \<or> (\<exists>name r removed_at. pe_message env = RouteWithdraw name r removed_at)))) \<and>
    (\<exists>t'. handle_peer_heartbeat parse now seen env t = t' \<and> relay_steps parse sha PeerOp t t' \<and>
      confined_to s t t' \<and> rt_routes t' = rt_routes t \<and> rt_tombstones t' = rt_tombstones t \<and> rt_withdrawn t' = rt_withdrawn t \<and>
      (if admissible parse env \<and> known_peer seen s \<and> (\<exists>n. pe_message env = Heartbeat s n)
       then \<forall>p n. rt_peers t s = Some p \<and> pe_message env = Heartbeat s n \<longrightarrow>
         rt_peers t' s = Some (p\<lparr>pi_last_heartbeat := now, pi_route_count := n, pi_status := Alive\<rparr>)
       else t' = t)) \<and>
    (\<exists>t'. handle_peer_leave parse keys seen env t = t' \<and> relay_steps parse sha PeerOp t t' \<and>
      confined_to s t t' \<and> rt_tombstones t' = rt_tombstones t \<and> rt_withdrawn t' = rt_withdrawn t \<and>
      (if admissible parse env \<and> trusted_peer seen s \<and> pe_message env = RelayLeave s
       then rt_peers t' s = None \<and> (\<forall>name. rt_routes t' (name, s) = None) else t' = t)) \<and>
    (\<exists>ok t'. handle_peer_join parse now env t = (ok, t') \<and> relay_steps parse sha PeerOp t t' \<and>
      confined_to s t t' \<and> rt_tombstones t' = rt_tombstones t \<and> rt_withdrawn t' = rt_withdrawn t \<and>
      (ok \<longleftrightarrow> admissible parse env \<and> s \<noteq> self \<and> (\<exists>u. pe_message env = RelayJoin s u)) \<and>
      (if ok then \<exists>p. rt_peers t' s = Some p \<and> pi_status p = Alive \<and> pi_last_heartbeat p = now \<and> pe_message env = RelayJoin s (pi_url p)
       else t' = t)) \<and>
    (\<exists>r t'. handle_peer_digest parse sha wall nows dkeys env t = Some (r, t') \<and>
      (r \<noteq> None \<or> t' \<noteq> t \<longrightarrow> admissible parse env \<and> trusted_peer t s) \<and>
      (case pe_message env of
         DigestExchange ds \<Rightarrow> relay_steps parse sha OwnOp t t' \<and> answers_only ds t t'
       | DigestDiff ds \<Rightarrow> r = None \<and> relay_steps parse sha PeerOp t t' \<and> confined_to s t t' \<and> rt_peers t' = rt_peers t
       | _ \<Rightarrow> r = None \<and> t' = t))"
proof -
  have inv: "relay_inv parse t" and id: "rt_relay_id t = self" "rt_relay_id seen = rt_relay_id t"
    using relay_reach_inv [OF assms(1)] assms(2) by auto
  obtain t1 where a: "handle_peer_announce parse now seen env t = Some t1" "relay_steps parse sha PeerOp t t1"
    using announce_handler_steps [OF id(2)] by blast
  obtain ok t2 where j: "handle_peer_join parse now env t = (ok, t2)" by fastforce
  obtain r t3 where d: "handle_peer_digest parse sha wall nows dkeys env t = Some (r, t3)" using digest_handler_total by blast
  have j': "relay_steps parse sha PeerOp t t2" using join_handler_steps [of parse sha t now env] j by simp
  show ?thesis
    apply (rule conjI, rule exI, rule conjI [OF a(1)], rule conjI [OF a(2)], rule announce_handler_confined [OF a(1), unfolded assms(5)])
    apply (rule conjI, rule exI, rule conjI [OF refl], rule conjI [OF heartbeat_handler_steps], rule heartbeat_handler_outcome [OF assms(5) refl])
    apply (rule conjI, rule exI, rule conjI [OF refl], rule conjI [OF leave_handler_steps], rule leave_handler_outcome [OF assms(5) refl id(2)])
    apply (rule conjI, rule exI, rule exI, rule conjI [OF j], rule conjI [OF j'], rule join_handler_outcome [OF assms(5) j [symmetric] inv, unfolded id(1)])
    apply (rule exI, rule exI, rule conjI [OF d], rule digest_handler_outcome [OF assms(5,3,4) d])
    done
qed

theorem handlers_refine_steps_witness:
  "rt_peers (handle_peer_leave sample_parse [] sample_joined (envelope_new sample_peer (RelayLeave sample_peer)) sample_joined) sample_peer = None \<and>
   (\<exists>r t'. handle_peer_digest sample_parse sample_sha (\<lambda>i. 12) (\<lambda>i. 7) [] (envelope_new sample_peer (DigestExchange sample_digest)) sample_joined = Some (r, t') \<and>
     r \<noteq> None \<and> answers_only sample_digest sample_joined t')"
proof
  have reach: "relay_reach sample_parse sample_sha sample_self sample_joined"
    by (rule relay_reach.relay_next [OF sample_reach sample_join_step])
  have id: "rt_relay_id sample_joined = sample_self" using relay_reach_inv [OF reach] by simp
  have "clock_budget 12 sample_joined k" if "k \<le> 1" for k
    unfolding clock_budget_def using sample_ts_int sample_joined_keeps that by (intro exI [of _ 10]) auto
  then have budget: "clock_budget 12 sample_joined (digest_length (envelope_new sample_peer (RelayLeave sample_peer)))"
    "clock_budget 12 sample_joined (digest_length (envelope_new sample_peer (DigestExchange sample_digest)))"
    by (simp_all add: digest_length_def envelope_new_def sample_digest_def)
  have walls: "\<forall>i :: nat. (12 :: u64) \<le> 12" by simp
  have trust: "trusted_peer sample_joined sample_peer" using sample_joined_keeps by simp
  show "rt_peers (handle_peer_leave sample_parse [] sample_joined (envelope_new sample_peer (RelayLeave sample_peer)) sample_joined) sample_peer = None"
    using handlers_refine_steps [OF reach id budget(1) walls refl] trust sample_admissible(1) by (simp add: envelope_new_def)
  have msg: "pe_message (envelope_new sample_peer (DigestExchange sample_digest)) = DigestExchange sample_digest" by (simp add: envelope_new_def)
  from handlers_refine_steps [OF reach id budget(2) walls refl, where nows = "\<lambda>i. 7" and dkeys = "[]", THEN conjunct2, THEN conjunct2, THEN conjunct2, THEN conjunct2]
  obtain r t' where "handle_peer_digest sample_parse sample_sha (\<lambda>i. 12) (\<lambda>i. 7) [] (envelope_new sample_peer (DigestExchange sample_digest)) sample_joined = Some (r, t')"
    "answers_only sample_digest sample_joined t'" unfolding msg by auto
  then show "\<exists>r t'. handle_peer_digest sample_parse sample_sha (\<lambda>i. 12) (\<lambda>i. 7) [] (envelope_new sample_peer (DigestExchange sample_digest)) sample_joined = Some (r, t') \<and>
     r \<noteq> None \<and> answers_only sample_digest sample_joined t'"
    using sample_answered [of t'] by (cases r) auto
qed

end
