(* ===== verification/Relay_Replication.thy ===== *)
theory Relay_Replication
  imports Relay_Claims
begin

text \<open>
  Replication between two relays: the snapshot that a relay serves passes the validation of the relay that fetches it and
  carries nothing private, and merging it makes the sender's own routes visible at the receiver.
\<close>

section \<open>A snapshot passes validation\<close>

definition scrubbed :: "route_entry \<Rightarrow> route_entry" where
  "scrubbed e = e\<lparr>re_server_id := None, re_server_instance_id := None, re_ipc_address := None, re_locality := Peer\<rparr>"

definition scrubbed_tombstone :: "nat \<Rightarrow> route_tombstone \<Rightarrow> route_tombstone" where
  "scrubbed_tombstone now d = d\<lparr>tb_server_id := None, tb_observed_at := now\<rparr>"

definition hex_digests :: "(bytes \<Rightarrow> str) \<Rightarrow> bool" where
  "hex_digests sha \<longleftrightarrow> (\<forall>bs. valid_route_digest_hash (sha bs))"

lemma transfer_entry: "to_peer_route_entry (from_route_entry sha e) = scrubbed e"
  by (simp add: to_peer_route_entry_def from_route_entry_def scrubbed_def)

lemma scrubbed_digest: "route_entry_digest_hash sha (scrubbed e) = route_entry_digest_hash sha e"
  by (simp add: route_entry_digest_hash_def scrubbed_def)

lemma transfer_tombstone: "to_tombstone now (from_tombstone sha d) = scrubbed_tombstone now d"
  by (simp add: to_tombstone_def from_tombstone_def scrubbed_tombstone_def)

lemma scrubbed_tombstone_digest: "tombstone_digest_hash sha (scrubbed_tombstone now d) = tombstone_digest_hash sha d"
  by (simp add: tombstone_digest_hash_def scrubbed_tombstone_def)

lemma transfer_entry_valid:
  assumes "hex_digests sha" "valid_route_entry parse t e"
  shows "valid_full_sync_route parse (from_route_entry sha e)"
proof -
  have "valid_route_digest_hash (route_entry_digest_hash sha e)"
    using assms(1) by (simp add: hex_digests_def route_entry_digest_hash_def active_route_digest_hash_def stable_route_digest_hash_def)
  moreover have "re_max_payload_size e > 0" using assms(2) unfolding valid_route_entry_def by (simp add: word_gt_0)
  ultimately show ?thesis using assms(2)
    unfolding valid_full_sync_route_def from_route_entry_def valid_route_entry_def valid_wire_relay_id_def valid_relay_id_def by simp
qed

lemma transfer_tombstone_valid:
  assumes "hex_digests sha" "valid_tombstone d"
  shows "valid_full_sync_tombstone (from_tombstone sha d)"
proof -
  have "valid_route_digest_hash (tombstone_digest_hash sha d)"
    using assms(1) by (simp add: hex_digests_def tombstone_digest_hash_def deleted_route_digest_hash_def stable_route_digest_hash_def)
  then show ?thesis using assms(2)
    by (simp add: valid_full_sync_tombstone_def from_tombstone_def valid_tombstone_def valid_wire_relay_id_def valid_relay_id_def)
qed

lemma transfer_routes:
  assumes "hex_digests sha"
  shows "\<forall>e\<in>set es. valid_route_entry parse t e \<Longrightarrow> validate_sync_routes parse sha (map (from_route_entry sha) es) = Inr (map scrubbed es)"
proof (induction es)
  case (Cons e es)
  have "fr_hash (from_route_entry sha e) = route_entry_digest_hash sha e" by (simp add: from_route_entry_def)
  then show ?case using Cons transfer_entry_valid [OF assms, of parse t e] by (simp add: transfer_entry scrubbed_digest and_then_def)
qed simp

lemma transfer_tombstones:
  assumes "hex_digests sha"
  shows "\<forall>d\<in>set ds. valid_tombstone d \<Longrightarrow>
    validate_sync_tombstones sha now (map (from_tombstone sha) ds) = Inr (map (scrubbed_tombstone now) ds)"
proof (induction ds)
  case (Cons d ds)
  have "ft_hash (from_tombstone sha d) = tombstone_digest_hash sha d" by (simp add: from_tombstone_def)
  then show ?case using Cons transfer_tombstone_valid [OF assms, of d] by (simp add: transfer_tombstone scrubbed_tombstone_digest and_then_def)
qed simp

lemma check_sync_peers_ok: "\<forall>p\<in>set ps. valid_relay_id (ps_relay_id p) \<and> valid_relay_url parse (ps_url p) \<Longrightarrow> check_sync_peers parse ps = Inr ()"
  by (induction ps) (simp_all add: valid_wire_relay_id_def valid_relay_id_def)

definition peer_view :: "peer_info \<Rightarrow> peer_snapshot" where
  "peer_view p = \<lparr>ps_relay_id = pi_relay_id p, ps_url = pi_url p, ps_route_count = pi_route_count p, ps_status = pi_status p\<rparr>"

definition self_view :: "str \<Rightarrow> str \<Rightarrow> u32 \<Rightarrow> peer_snapshot" where
  "self_view self u n = \<lparr>ps_relay_id = self, ps_url = u, ps_route_count = n, ps_status = Alive\<rparr>"

definition served_snapshot :: "nat \<Rightarrow> str \<Rightarrow> u32 \<Rightarrow> route_key list \<Rightarrow> route_key list \<Rightarrow> str list \<Rightarrow> route_table \<Rightarrow> full_sync" where
  "served_snapshot now u n rkeys tkeys pkeys t =
     \<lparr>fs_routes = map scrubbed (list_routes rkeys t), fs_tombstones = map (scrubbed_tombstone now) (list_tombstones tkeys t),
      fs_peers = map peer_view (List.map_filter (rt_peers t) pkeys) @ [self_view (rt_relay_id t) u n]\<rparr>"

lemma served_peers_valid:
  assumes "relay_inv parse t" "valid_relay_id (rt_relay_id t)" "valid_relay_url parse u"
  shows "\<forall>p\<in>set (fs_peers (served_snapshot now u n rkeys tkeys pkeys t)). valid_relay_id (ps_relay_id p) \<and> valid_relay_url parse (ps_url p)"
  using known_peer_id [OF assms(1)] assms(2,3) by (auto simp: served_snapshot_def peer_view_def self_view_def in_map_filter)

lemma relay_id_nonempty: "valid_relay_id r \<Longrightarrow> r \<noteq> []"
  by (auto simp: valid_relay_id_def is_ok_def validate_relay_id_def validate_id_def)

lemma served_snapshot_validates:
  assumes "relay_inv parse t" "hex_digests sha" "valid_relay_id (rt_relay_id t)" "valid_relay_url parse u"
  shows "validated_full_sync parse sha now (current_full_sync_envelope sha u n (rt_relay_id t) (full_snapshot rkeys tkeys pkeys t)) =
    Inr (served_snapshot now u n rkeys tkeys pkeys t)"
proof -
  have r: "\<forall>e\<in>set (list_routes rkeys t). valid_route_entry parse t e" using inv_routeD [OF assms(1)] by (auto simp: list_routes_def in_map_filter)
  have d: "\<forall>d\<in>set (list_tombstones tkeys t). valid_tombstone d" using inv_tombstoneD [OF assms(1)] by (auto simp: list_tombstones_def in_map_filter)
  have keep: "filter (\<lambda>d. tb_relay_id d \<noteq> []) (list_tombstones tkeys t) = list_tombstones tkeys t"
    using d relay_id_nonempty by (auto simp: filter_id_conv valid_tombstone_def)
  have nomatch: "\<not> list_ex (\<lambda>p. ps_relay_id p = rt_relay_id t) (map peer_view (List.map_filter (rt_peers t) pkeys))"
    using known_peer_id [OF assms(1)] by (auto simp: list_ex_iff in_map_filter peer_view_def)
  have env: "current_full_sync_envelope sha u n (rt_relay_id t) (full_snapshot rkeys tkeys pkeys t) =
      \<lparr>fe_protocol_version = PROTOCOL_VERSION,
       fe_snapshot = \<lparr>fn_routes = map (from_route_entry sha) (list_routes rkeys t), fn_tombstones = map (from_tombstone sha) (list_tombstones tkeys t),
         fn_peers = fs_peers (served_snapshot now u n rkeys tkeys pkeys t)\<rparr>\<rparr>"
    using keep nomatch
    by (simp add: current_full_sync_envelope_def full_snapshot_def from_internal_def served_snapshot_def peer_view_def [symmetric] self_view_def)
  show ?thesis
    unfolding env using check_sync_peers_ok [OF served_peers_valid [OF assms(1,3,4)]] transfer_routes [OF assms(2) r] transfer_tombstones [OF assms(2) d]
    by (simp add: validated_full_sync_def PROTOCOL_VERSION_def ROUTE_HASH_FULL_SYNC_VERSION_def and_then_def served_snapshot_def)
qed

section \<open>Merging makes routes visible\<close>

lemma index_peers_self:
  assumes "a \<noteq> b"
  shows "index_peers b (ps @ [self_view a u n]) a = Some (self_view a u n)"
  using assms by (simp add: index_peers_def self_view_def)

lemma index_peers_listed: "r \<in> ps_relay_id ` set ps \<Longrightarrow> r \<noteq> b \<Longrightarrow> index_peers b ps r \<noteq> None"
proof (induction ps rule: rev_induct)
  case (snoc p ps)
  then show ?case by (auto simp: index_peers_def)
qed simp

lemma replacement_total:
  "\<forall>e\<in>set es. re_relay_id e = rt_relay_id t \<or> snaps (re_relay_id e) \<noteq> None \<Longrightarrow> \<exists>m. replacement_routes t snaps acc es = Some m"
  by (induction es arbitrary: acc) auto

lemma replacement_keeps:
  assumes "replacement_routes t snaps acc es = Some m" "k \<notin> (\<lambda>e. (re_name e, re_relay_id e)) ` set es"
  shows "m k = acc k"
  using assms
proof (induction es arbitrary: acc)
  case (Cons x es)
  show ?case
  proof (cases "re_relay_id x = rt_relay_id t \<or> (\<exists>p. snaps (re_relay_id x) = Some p \<and> \<not> snapshot_route_owner_is_alive t p)")
    case True
    then have "replacement_routes t snaps acc es = Some m" using Cons.prems(1) by (auto split: if_splits)
    then show ?thesis using Cons.IH Cons.prems(2) by simp
  next
    case False
    then obtain p :: peer_snapshot where "replacement_routes t snaps (acc((re_name x, re_relay_id x) \<mapsto> x\<lparr>re_relay_url := ps_url p\<rparr>)) es = Some m"
      using Cons.prems(1) by (cases "snaps (re_relay_id x)") auto
    from Cons.IH [OF this] Cons.prems(2) show ?thesis by auto
  qed
qed simp

lemma replacement_finite: "replacement_routes t snaps acc es = Some m \<Longrightarrow> finite (dom acc) \<Longrightarrow> finite (dom m)"
  by (induction es arbitrary: acc) (auto split: if_splits option.splits)

lemma replacement_has:
  assumes "replacement_routes t snaps acc es = Some m" "distinct (map (\<lambda>e. (re_name e, re_relay_id e)) es)" "e \<in> set es"
    "re_relay_id e \<noteq> rt_relay_id t" "snaps (re_relay_id e) = Some p" "snapshot_route_owner_is_alive t p"
  shows "m (re_name e, re_relay_id e) = Some (e\<lparr>re_relay_url := ps_url p\<rparr>)"
  using assms
proof (induction es arbitrary: acc)
  case (Cons x es)
  show ?case
  proof (cases "x = e")
    case True
    then have "replacement_routes t snaps (acc((re_name e, re_relay_id e) \<mapsto> e\<lparr>re_relay_url := ps_url p\<rparr>)) es = Some m"
      using Cons.prems by simp
    from replacement_keeps [OF this, of "(re_name e, re_relay_id e)"] Cons.prems(2) True show ?thesis by auto
  next
    case False
    then have "e \<in> set es" "distinct (map (\<lambda>e. (re_name e, re_relay_id e)) es)" using Cons.prems by auto
    moreover have "\<exists>acc'. replacement_routes t snaps acc' es = Some m"
      using Cons.prems(1) by (auto split: if_splits option.splits)
    ultimately show ?thesis using Cons.IH Cons.prems(4-6) by blast
  qed
qed simp

lemma apply_tombstone_other:
  assumes "apply_tombstone now t d = (r, t')" "k \<noteq> (tb_name d, tb_relay_id d)"
  shows "rt_tombstones t' k = rt_tombstones t k"
  using apply_tombstone_effect [OF assms(1)] assms(2) by auto

lemma apply_tombstones_other:
  "k \<notin> (\<lambda>d. (tb_name d, tb_relay_id d)) ` set ds \<Longrightarrow> rt_tombstones (apply_tombstones now t ds) k = rt_tombstones t k"
proof (induction ds arbitrary: t)
  case (Cons d ds)
  obtain r t1 where a: "apply_tombstone now t d = (r, t1)" by fastforce
  show ?case using Cons.IH [of t] Cons.IH [of t1] apply_tombstone_other [OF a, of k] Cons.prems a by auto
qed simp

lemma register_replacements_has:
  assumes "register_replacements parse m t ks = Some t'" "\<And>k e. m k = Some e \<Longrightarrow> k = (re_name e, re_relay_id e) \<and> re_relay_id e \<noteq> rt_relay_id t"
    "m k = Some e" "valid_route_entry parse t e"
    "rt_routes t k = Some e \<or> (k \<in> set ks \<and> (\<forall>d. rt_tombstones t k = Some d \<longrightarrow> \<not> f64_le (re_registered_at e) (tb_removed_at d)))"
  shows "rt_routes t' k = Some e"
  using assms
proof (induction ks arbitrary: t)
  case (Cons j ks)
  show ?case
  proof (cases "\<exists>x. m j = Some x \<and> \<not> is_some_and (rt_tombstones t j) (\<lambda>d. f64_le (re_registered_at x) (tb_removed_at d))")
    case False
    then have rest: "register_replacements parse m t ks = Some t'" using Cons.prems(1) by (auto split: option.splits)
    have "rt_routes t k = Some e \<or> (k \<in> set ks \<and> (\<forall>d. rt_tombstones t k = Some d \<longrightarrow> \<not> f64_le (re_registered_at e) (tb_removed_at d)))"
      using False Cons.prems(3,5) by (cases "k = j") (auto simp: is_some_and_def split: option.splits)
    from Cons.IH [OF rest Cons.prems(2-4) this] show ?thesis .
  next
    case True
    then obtain x where x: "m j = Some x" "\<not> is_some_and (rt_tombstones t j) (\<lambda>d. f64_le (re_registered_at x) (tb_removed_at d))" by blast
    obtain r t1 where reg: "register_route parse t x = Some (r, t1)" using register_never_panics [of parse t x] by fastforce
    have jx: "j = (re_name x, re_relay_id x)" and ne: "re_relay_id x \<noteq> rt_relay_id t" using Cons.prems(2) [OF x(1)] by blast+
    have rest: "register_replacements parse m t1 ks = Some t'" using Cons.prems(1) x reg by simp
    have own: "rt_relay_id t1 = rt_relay_id t" by (rule own_sameD [OF register_own [OF reg ne]])
    have "rt_routes t1 k = Some e \<or> (k \<in> set ks \<and> (\<forall>d. rt_tombstones t1 k = Some d \<longrightarrow> \<not> f64_le (re_registered_at e) (tb_removed_at d)))"
    proof (cases "k = j")
      case True
      then have "x = e" using Cons.prems(3) x(1) by simp
      then have "can_register_route parse t x" using Cons.prems(4) x(2) jx by (auto simp: can_register_route_def is_some_and_def split: option.splits)
      then show ?thesis using reg True jx \<open>x = e\<close> by (auto simp: register_route_def register_prevalidated_route_def Let_def)
    next
      case False
      then show ?thesis using register_effect [OF reg] register_prevalidated_effect [of parse t x t1] Cons.prems(5) jx by auto
    qed
    then show ?thesis using Cons.IH [OF rest] Cons.prems(2-4) own valid_entry_cong [of t1 t parse e] by simp
  qed
qed simp

lemma merge_peers_keeps_route:
  assumes "rt_routes t k = Some e" "\<forall>p\<in>set ps. ps_relay_id p = re_relay_id e \<longrightarrow> ps_url p = re_relay_url e"
  shows "rt_routes (merge_peers now t ps) k = Some e"
  using assms
proof (induction ps arbitrary: t)
  case (Cons p ps)
  have "rt_routes (sync_peer_route_urls t' (ps_relay_id p) (ps_url p)) k = Some e" if "rt_routes t' k = Some e" for t'
    using that Cons.prems(2) by (auto simp: sync_peer_route_urls_def)
  then show ?case using Cons by (simp add: Let_def)
qed simp


lemma served_keys_distinct:
  assumes "relay_inv parse t" "distinct rkeys"
  shows "distinct (map (\<lambda>e. (re_name e, re_relay_id e)) (map scrubbed (list_routes rkeys t)))"
proof -
  have "distinct (list_routes rkeys t)"
    unfolding list_routes_def by (rule distinct_map_filter [of _ "\<lambda>e. (re_name e, re_relay_id e)", OF _ assms(2)]) (use inv_routeD [OF assms(1)] in auto)
  moreover have "inj_on (\<lambda>e. (re_name e, re_relay_id e)) (set (list_routes rkeys t))"
  proof (rule inj_onI)
    fix e f
    assume "e \<in> set (list_routes rkeys t)" "f \<in> set (list_routes rkeys t)" and same: "(re_name e, re_relay_id e) = (re_name f, re_relay_id f)"
    then obtain j k where "rt_routes t j = Some e" "rt_routes t k = Some f" unfolding list_routes_def in_map_filter by blast
    then show "e = f" using inv_routeD [OF assms(1)] same by (metis option.inject)
  qed
  ultimately show ?thesis by (simp add: distinct_map comp_def scrubbed_def)
qed

lemma scrubbed_valid:
  assumes "valid_route_entry parse ta e" "re_relay_id e \<noteq> rt_relay_id tb" "valid_relay_url parse u"
  shows "valid_route_entry parse tb ((scrubbed e)\<lparr>re_relay_url := u\<rparr>)"
  using assms unfolding valid_route_entry_def scrubbed_def by simp

lemma served_tombstone_absent:
  assumes "relay_inv parse t" "rt_routes t (name, self) = Some e"
  shows "(name, self) \<notin> (\<lambda>d. (tb_name d, tb_relay_id d)) ` set (fs_tombstones (served_snapshot now u n rkeys tkeys pkeys t))"
proof
  assume "(name, self) \<in> (\<lambda>d. (tb_name d, tb_relay_id d)) ` set (fs_tombstones (served_snapshot now u n rkeys tkeys pkeys t))"
  then obtain k d where d: "rt_tombstones t k = Some d" "(name, self) = (tb_name d, tb_relay_id d)"
    by (auto simp: served_snapshot_def scrubbed_tombstone_def list_tombstones_def in_map_filter)
  show False using inv_tombstoneD [OF assms(1) d(1)] assms(2) unfolding d(2) by (metis option.distinct(1))
qed

lemma served_peer_ids:
  assumes "relay_inv parse t" "set pkeys = dom (rt_peers t)" "r = rt_relay_id t \<or> has_peer t r"
  shows "r \<in> ps_relay_id ` set (fs_peers (served_snapshot now u n rkeys tkeys pkeys t))"
  using assms(3)
proof
  assume "has_peer t r"
  then obtain p where p: "rt_peers t r = Some p" by (auto simp: has_peer_def)
  then have "p \<in> set (List.map_filter (rt_peers t) pkeys)" using assms(2) unfolding in_map_filter by blast
  moreover have "ps_relay_id (peer_view p) = r" using known_peer_id [OF assms(1) p] by (simp add: peer_view_def)
  ultimately show ?thesis by (force simp: served_snapshot_def)
qed (simp add: served_snapshot_def self_view_def)

lemma served_replacement:
  assumes "relay_inv parse ta" "rt_relay_id ta \<noteq> rt_relay_id tb" "distinct rkeys" "set rkeys = dom (rt_routes ta)"
    "set pkeys = dom (rt_peers ta)" "\<And>k e. rt_routes ta k = Some e \<Longrightarrow> re_relay_id e = rt_relay_id ta \<or> has_peer ta (re_relay_id e)"
    "rt_routes ta (name, rt_relay_id ta) = Some e" "rt_peers tb (rt_relay_id ta) = None \<or> peer_is_alive tb (rt_relay_id ta)"
  shows "\<exists>m. replacement_routes tb (index_peers (rt_relay_id tb) (fs_peers (served_snapshot now u n rkeys tkeys pkeys ta))) Map.empty
      (fs_routes (served_snapshot now u n rkeys tkeys pkeys ta)) = Some m \<and> m (name, rt_relay_id ta) = Some ((scrubbed e)\<lparr>re_relay_url := u\<rparr>)"
proof -
  let ?s = "served_snapshot now u n rkeys tkeys pkeys ta" and ?a = "rt_relay_id ta"
  let ?snaps = "index_peers (rt_relay_id tb) (fs_peers ?s)"
  have k: "re_name e = name" "re_relay_id e = ?a" using inv_routeD [OF assms(1,7)] by auto
  have "\<exists>m. replacement_routes tb ?snaps Map.empty (fs_routes ?s) = Some m"
  proof (rule replacement_total, rule ballI)
    fix x
    assume "x \<in> set (fs_routes ?s)"
    then obtain y where "y \<in> set (list_routes rkeys ta)" "re_relay_id x = re_relay_id y" by (auto simp: served_snapshot_def scrubbed_def)
    then have "re_relay_id x = ?a \<or> has_peer ta (re_relay_id x)" using assms(6) unfolding list_routes_def in_map_filter by metis
    then have "re_relay_id x \<in> ps_relay_id ` set (fs_peers ?s)" by (rule served_peer_ids [OF assms(1,5)])
    then show "re_relay_id x = rt_relay_id tb \<or> ?snaps (re_relay_id x) \<noteq> None" using index_peers_listed by blast
  qed
  then obtain m where m: "replacement_routes tb ?snaps Map.empty (fs_routes ?s) = Some m" by blast
  have "m (re_name (scrubbed e), re_relay_id (scrubbed e)) = Some ((scrubbed e)\<lparr>re_relay_url := ps_url (self_view ?a u n)\<rparr>)"
  proof (rule replacement_has [OF m])
    show "distinct (map (\<lambda>e. (re_name e, re_relay_id e)) (fs_routes ?s))"
      using served_keys_distinct [OF assms(1,3)] by (simp add: served_snapshot_def)
    have "e \<in> set (list_routes rkeys ta)" using assms(4,7) unfolding list_routes_def in_map_filter by blast
    then show "scrubbed e \<in> set (fs_routes ?s)" by (simp add: served_snapshot_def)
    show "?snaps (re_relay_id (scrubbed e)) = Some (self_view ?a u n)"
      using index_peers_self [OF assms(2)] k(2) by (simp add: served_snapshot_def scrubbed_def)
    show "snapshot_route_owner_is_alive tb (self_view ?a u n)"
      using assms(8) by (cases "rt_peers tb ?a") (simp_all add: snapshot_route_owner_is_alive_def self_view_def peer_is_alive_def is_some_and_def)
  qed (use k assms(2) in \<open>simp add: scrubbed_def\<close>)
  then show ?thesis using m k by (simp add: scrubbed_def self_view_def)
qed

lemma merge_makes_visible:
  assumes "relay_inv parse ta" "relay_inv parse tb" "rt_relay_id ta \<noteq> rt_relay_id tb" "valid_relay_url parse u"
    "rt_routes ta (name, rt_relay_id ta) = Some e" "set (order m) = dom m"
    "\<And>d. rt_tombstones tb (name, rt_relay_id ta) = Some d \<Longrightarrow> f64_lt (tb_removed_at d) (re_registered_at e)"
    "s = served_snapshot now u n rkeys tkeys pkeys ta"
    "replacement_routes tb (index_peers (rt_relay_id tb) (fs_peers s)) Map.empty (fs_routes s) = Some m"
    "m (name, rt_relay_id ta) = Some ((scrubbed e)\<lparr>re_relay_url := u\<rparr>)"
    "merge_validated_snapshot parse now order tb s = Some t'"
  shows "rt_routes t' (name, rt_relay_id ta) = Some ((scrubbed e)\<lparr>re_relay_url := u\<rparr>)"
proof -
  let ?a = "rt_relay_id ta" and ?e = "(scrubbed e)\<lparr>re_relay_url := u\<rparr>"
  have k: "re_relay_id e = ?a" and v: "valid_route_entry parse ta e" using inv_routeD [OF assms(1,5)] by auto
  define t1 where "t1 = apply_tombstones now (drop_peer_routes tb) (fs_tombstones s)"
  obtain t2 where t2: "register_replacements parse m t1 (order m) = Some t2" "t' = merge_peers now t2 (fs_peers s)"
    using assms(11,9) by (auto simp: merge_validated_snapshot_def t1_def bind_eq_Some_conv)
  have d: "relay_inv parse (drop_peer_routes tb)" "rt_relay_id (drop_peer_routes tb) = rt_relay_id tb"
    using drop_peer_inv [OF assms(2)] own_sameD by blast+
  have id1: "rt_relay_id t1 = rt_relay_id tb"
    using apply_tombstones_inv [OF d(1), of now "fs_tombstones s"] own_sameD d(2) unfolding t1_def by metis
  have tomb: "rt_tombstones t1 (name, ?a) = rt_tombstones tb (name, ?a)"
    unfolding t1_def assms(8) by (subst apply_tombstones_other [OF served_tombstone_absent [OF assms(1,5)]]) (simp add: drop_peer_routes_def)
  have "\<not> f64_le (re_registered_at ?e) (tb_removed_at x)" if "rt_tombstones t1 (name, ?a) = Some x" for x
  proof -
    have x: "rt_tombstones tb (name, ?a) = Some x" using that tomb by simp
    show ?thesis using assms(7) [OF x] valid_tombstone_finite [OF assms(2) x] valid_entry_finite [OF v]
      by (simp add: f64_lt_finite f64_le_finite scrubbed_def)
  qed
  moreover have "(name, ?a) \<in> set (order m)" using assms(6,10) by auto
  moreover have "valid_route_entry parse t1 ?e" by (rule scrubbed_valid [OF v _ assms(4)]) (use k id1 assms(3) in simp)
  moreover have "j = (re_name x, re_relay_id x) \<and> re_relay_id x \<noteq> rt_relay_id t1" if "m j = Some x" for j x
    using replacement_key [OF assms(9), of j x] replacement_owner [OF assms(9), of j x] that id1 by simp
  ultimately have "rt_routes t2 (name, ?a) = Some ?e" using register_replacements_has [OF t2(1) _ assms(10)] by blast
  moreover have "ps_url p = re_relay_url ?e" if "p \<in> set (fs_peers s)" "ps_relay_id p = re_relay_id ?e" for p
  proof -
    have "p = self_view ?a u n \<or> (\<exists>r q. rt_peers ta r = Some q \<and> p = peer_view q)"
      using that(1) unfolding assms(8) served_snapshot_def by (simp add: image_iff) (metis in_map_filter)
    moreover have False if "rt_peers ta r = Some q" "p = peer_view q" for r q
      using known_peer_id [OF assms(1) that(1)] that(2) \<open>ps_relay_id p = re_relay_id ?e\<close> k by (simp add: peer_view_def scrubbed_def)
    ultimately show ?thesis by (auto simp: self_view_def)
  qed
  ultimately show ?thesis unfolding t2(2) by (intro merge_peers_keeps_route) auto
qed

section \<open>The properties\<close>

text \<open>C34: The full-sync envelope that a relay serves in any of its states passes the validation at another relay and decodes to
  the relay's routes without their server identity and IPC address, its tombstones, its peers and the relay itself as
  an alive peer.\<close>

theorem full_sync_roundtrip:
  assumes "relay_reach parse sha self t" "hex_digests sha" "valid_relay_id self" "valid_relay_url parse u"
  shows "validated_full_sync parse sha now (current_full_sync_envelope sha u n self (full_snapshot rkeys tkeys pkeys t)) =
    Inr \<lparr>fs_routes = map scrubbed (list_routes rkeys t), fs_tombstones = map (scrubbed_tombstone now) (list_tombstones tkeys t),
         fs_peers = map peer_view (List.map_filter (rt_peers t) pkeys) @ [self_view self u n]\<rparr>"
proof -
  have inv: "relay_inv parse t" and id: "rt_relay_id t = self" using relay_reach_inv [OF assms(1)] by blast+
  show ?thesis using served_snapshot_validates [OF inv assms(2), of u now n rkeys tkeys pkeys] assms(3,4) id by (simp add: served_snapshot_def)
qed

lemma sample_hex: "hex_digests sample_sha"
  by (simp add: hex_digests_def sample_sha_def valid_route_digest_hash_def list_all_iff)

theorem full_sync_roundtrip_witness:
  "validated_full_sync sample_parse sample_sha 9
     (current_full_sync_envelope sample_sha [0x75] 1 sample_self (full_snapshot [([0x72], sample_self)] [] [] sample_table)) =
   Inr \<lparr>fs_routes = [scrubbed (sample_entry sample_ts)], fs_tombstones = [], fs_peers = [self_view sample_self [0x75] 1]\<rparr>"
  using full_sync_roundtrip [OF sample_reach sample_hex sample_ids(1) sample_url, of 9 "[0x75]" 1 "[([0x72], sample_self)]" "[]" "[]"] sample_table_route
  by (simp add: list_routes_def list_tombstones_def map_filter_simps)

text \<open>C32: When relay \<open>b\<close> fetches and merges the envelope that relay \<open>a\<close> serves, every route that \<open>a\<close> itself owns becomes visible
  at \<open>b\<close>, without private data and with the URL under which \<open>a\<close> serves, unless \<open>b\<close> holds \<open>a\<close> for suspect or dead or knows
  a deletion that is not older than the registration. The envelope has to list the owner of each of its routes.\<close>

theorem sync_replicates_own_routes:
  assumes "relay_reach parse sha a ta" "relay_reach parse sha b tb" "a \<noteq> b" "hex_digests sha" "valid_relay_id a" "valid_relay_url parse u"
    "distinct rkeys" "set rkeys = dom (rt_routes ta)" "set pkeys = dom (rt_peers ta)" "\<forall>m. finite (dom m) \<longrightarrow> set (order m) = dom m"
    "\<forall>k e. rt_routes ta k = Some e \<longrightarrow> re_relay_id e = a \<or> has_peer ta (re_relay_id e)"
    "local_route ta name = Some e" "rt_peers tb a = None \<or> peer_is_alive tb a"
    "\<forall>d. rt_tombstones tb (name, a) = Some d \<longrightarrow> f64_lt (tb_removed_at d) (re_registered_at e)"
  shows "\<exists>s t'. validated_full_sync parse sha now (current_full_sync_envelope sha u n a (full_snapshot rkeys tkeys pkeys ta)) = Inr s \<and>
    merge_validated_snapshot parse now order tb s = Some t' \<and>
    rt_routes t' (name, a) = Some (e\<lparr>re_relay_url := u, re_server_id := None, re_server_instance_id := None, re_ipc_address := None, re_locality := Peer\<rparr>)"
proof -
  have ia: "relay_inv parse ta" "rt_relay_id ta = a" and ib: "relay_inv parse tb" "rt_relay_id tb = b"
    using relay_reach_inv [OF assms(1)] relay_reach_inv [OF assms(2)] by blast+
  let ?s = "served_snapshot now u n rkeys tkeys pkeys ta"
  have v: "validated_full_sync parse sha now (current_full_sync_envelope sha u n a (full_snapshot rkeys tkeys pkeys ta)) = Inr ?s"
    using served_snapshot_validates [OF ia(1) assms(4), of u] assms(5,6) ia(2) by simp
  obtain t' where t': "merge_validated_snapshot parse now order tb ?s = Some t'" using merge_inv [OF ib(1) v] by blast
  have r: "rt_routes ta (name, rt_relay_id ta) = Some e" using assms(12) by (simp add: local_route_def)
  obtain m where m: "replacement_routes tb (index_peers (rt_relay_id tb) (fs_peers ?s)) Map.empty (fs_routes ?s) = Some m"
    "m (name, rt_relay_id ta) = Some ((scrubbed e)\<lparr>re_relay_url := u\<rparr>)"
    using served_replacement [OF ia(1) _ assms(7-9) _ r, of tb now u n tkeys] assms(3,11,13) ia(2) ib(2) by auto
  have "set (order m) = dom m" using assms(10) replacement_finite [OF m(1)] by simp
  then have "rt_routes t' (name, rt_relay_id ta) = Some ((scrubbed e)\<lparr>re_relay_url := u\<rparr>)"
    using merge_makes_visible [OF ia(1) ib(1) _ assms(6) r _ _ refl m t'] assms(3,14) ia(2) ib(2) by blast
  then show ?thesis using v t' ia(2) by (auto simp: scrubbed_def)
qed


lemma sample_other_reach: "relay_reach sample_parse sample_sha sample_peer (table_new 5 sample_peer)"
  by (rule relay_reach.relay_start) simp

theorem sync_replicates_own_routes_witness:
  "\<exists>s t'. validated_full_sync sample_parse sample_sha 9
       (current_full_sync_envelope sample_sha [0x75] 1 sample_self (full_snapshot [([0x72], sample_self)] [] [] sample_table)) = Inr s \<and>
     merge_validated_snapshot sample_parse 9 (\<lambda>m. sorted_list_of_set (dom m)) (table_new 5 sample_peer) s = Some t' \<and>
     rt_routes t' ([0x72], sample_self) = Some ((sample_entry sample_ts)\<lparr>re_relay_url := [0x75], re_server_id := None,
        re_server_instance_id := None, re_ipc_address := None, re_locality := Peer\<rparr>)"
proof (rule sync_replicates_own_routes [OF sample_reach sample_other_reach _ sample_hex sample_ids(1) sample_url])
  show "\<forall>m. finite (dom m) \<longrightarrow> set (sorted_list_of_set (dom m)) = dom m" by simp
  show "\<forall>k e. rt_routes sample_table k = Some e \<longrightarrow> re_relay_id e = sample_self \<or> has_peer sample_table (re_relay_id e)"
    using sample_table_route by (auto simp: sample_entry_def split: if_splits)
  show "local_route sample_table [0x72] = Some (sample_entry sample_ts)" using sample_table_route by (simp add: local_route_def)
qed (use sample_table_route in \<open>simp_all add: table_new_def sample_self_def sample_peer_def\<close>)

end
