(* ===== verification/Spec2Isabelle.thy ===== *)
theory Spec2Isabelle
  imports Assembler_Proofs Retention Connection_Props Scheduler_Proofs Chunk_Gate Handshake_Proofs Route_Control Relay_Handlers Relay_Replication
begin

text \<open>
  A verification development for the Rust core of C-Two, a resource-oriented RPC runtime. Processes on one machine
  exchange calls over sockets and payloads through shared memory; relays make the routes of several machines
  reachable over HTTP. Paths below are relative to \<open>src/core\<close>.

  \<^bold>\<open>Conventions.\<close> A struct is a \<open>record\<close> (fields carry a prefix), an enum a \<open>datatype\<close>, a function or a critical section under
  one lock a HOL function. Integers of 8 to 64 bits are words and wrap; \<open>usize\<close> is \<open>nat\<close> with the 64-bit bound written out
  where the code checks it. A panic is \<open>None\<close> of the type \<open>run\<close>, a \<open>Result\<close> a sum with \<open>Inl\<close> the error. A hash map is a HOL
  map; where the code iterates over it, the order is an argument. Strings are byte lists (UTF-8), floats are 64-bit
  patterns (\<open>F64\<close>). Guards, tokens and their \<open>Drop\<close> are ghost state of inductive step relations, so that every interleaving of
  critical sections is a history. Third-party code (JSON in \<open>C2_Error\<close> and \<open>Route_Control\<close>, SHA-256, URL
  parsing, UUIDs) and the clocks are arguments; what is assumed of them is a hypothesis of the theorem. Between relays the
  model passes the decoded messages: the JSON text of gossip and full synchronisation is not modelled. \<open>C2_Prelude\<close> and \<open>Text\<close> hold the shared types and lemmas.

  \<^bold>\<open>Memory\<close> (\<open>foundation/c2-mem\<close>).
  \<^item> \<open>Bitmap\<close> models \<open>alloc/bitmap.rs\<close>, \<open>Buddy\<close> \<open>alloc/buddy.rs\<close>: initialisation, allocation by splitting, release with merging.
    \<open>Dyadic\<close> is the abstract specification (tilings by dyadic blocks), which \<open>Buddy\<close> refines. Live allocations are disjoint, a request
    is refused only when no aligned block is free, a live allocation can be released, and a fully released
    allocator is the fresh one. Loops over levels are structural recursions.
  \<^item> \<open>Ledger\<close> is an interface: what a budget charges and refunds in total. \<open>Budget\<close> (\<open>budget.rs\<close>) and \<open>Retention\<close> (\<open>retention.rs\<close>) interpret
    it: the used counters are the sum of the live reservations, admission is exact, release never panics.
  \<^item> \<open>Slots\<close> is the interface between a block allocator and a table of slots that hold allocators; \<open>Buddy\<close> interprets it. \<open>Pool\<close> models
    \<open>pool.rs\<close>, \<open>handle.rs\<close>, \<open>buddy_segment.rs\<close> and the sizes of \<open>dedicated.rs\<close> on top of it: allocation by reuse, expansion, dedicated and file
    backings, handles, generations, release, reclamation and prewarming, with the cells of the shared budget as a second
    component of the state. \<open>os_env\<close> is what the system and the pressure engine answer during a call. \<open>Pool_Proofs\<close> and \<open>Pool_Handles\<close> have the
    invariant, \<open>Pool_Props\<close> the executions (\<open>pool_run\<close>): live handles are disjoint, unmapped generations stay stale, no call panics, the
    budget is exact, the bounds hold. The loop of \<open>ensure_buddy_segments\<close> is a partial function, so that its ending is a theorem.

  \<^bold>\<open>Wire protocol\<close> (\<open>protocol/c2-wire\<close>).
  \<^item> \<open>Wire_Frame\<close> models \<open>flags.rs\<close>, \<open>frame.rs\<close>, \<open>msg_type.rs\<close>, \<open>buddy.rs\<close> and \<open>chunk/header.rs\<close>; an interface for fixed-size codecs is
    interpreted for each of them. \<open>Wire_Release\<close> models \<open>release.rs\<close>.
  \<^item> \<open>Control\<close> (\<open>control.rs\<close>), \<open>Handshake\<close> (\<open>handshake.rs\<close>) and \<open>Route_Control\<close> (\<open>registration_control.rs\<close>, \<open>route_catalog_control.rs\<close>,
    \<open>shutdown_control.rs\<close>) are the messages; \<open>Control_Proofs\<close> and \<open>Handshake_Proofs\<close> show the decoders to be the exact inverses of the
    encoders. \<open>C2_Error\<close> models \<open>foundation/c2-error\<close>.
  \<^item> \<open>Assembler\<close> models \<open>assembler.rs\<close> and \<open>chunk/backing.rs\<close>, the reassembly of chunked payloads in a block of the pool. \<open>Assembler_Proofs\<close>: chunks in
    any order give the payload back, exactly the well-formed chunks are accepted, admission and release are steps of the
    pool. A carrier owns its bytes, as the pool hands out disjoint blocks; their first contents are arbitrary. A chunk in the middle
    that is cut short is accepted too and leaves such contents in the payload (\<open>short_first_chunk_exposes_block\<close>).
  \<^item> \<open>Connection\<close> models \<open>connection/mod.rs\<close>, the core that tracks which allocations are lent to the peer: each locked section and each
    \<open>Drop\<close> is a definition and a step. \<open>Connection_Proofs\<close> has the invariant, \<open>Connection_Props\<close> the properties: handles are conserved, an
    allocation stays published until the peer releases it, a panic is exactly a misuse of the writer's batch, release
    records keep their order, a release frame settles exactly what it names.

  \<^bold>\<open>Server\<close> (\<open>transport/c2-server\<close>).
  \<^item> \<open>Admission\<close> (\<open>admission.rs\<close>), \<open>Scheduler\<close> (\<open>scheduler.rs\<close>) with \<open>Scheduler_Proofs\<close>: counters are exact, a waiting request is passed
    only while a worker slot is left for it (and a writer never), no wake-up is lost, generations fence restarts. A waiting loop is its polling step.
  \<^item> \<open>Chunk_Gate\<close> (\<open>chunk_ordering.rs\<close>): one outcome per request, fences are exact.

  \<^bold>\<open>Relay\<close> (\<open>transport/c2-http/src/relay\<close>).
  \<^item> \<open>Relay_Table\<close> models \<open>route_table.rs\<close> and \<open>types.rs\<close>, \<open>Relay_Sync\<close> full synchronisation, \<open>Relay_Gossip\<close> \<open>peer.rs\<close>, the peer part of \<open>authority.rs\<close>
    and \<open>peer_handlers.rs\<close>, with the step relation of a table. \<open>Relay_Proofs\<close>, \<open>Relay_Peers\<close> and \<open>Relay_Steps\<close> show that every step keeps the invariant.
  \<^item> \<open>Relay_Claims\<close>: the table is well formed, peers cannot touch the relay's own routes, a deletion is not undone, own
    operations take effect, resolution does not depend on hash order. \<open>Relay_Replication\<close>: a served snapshot
    validates and its merge makes the routes visible. \<open>Relay_Handlers\<close>: the HTTP handlers are sequences of steps,
    and a peer changes only what it owns, after the checks of version, sender and trust. A handler that takes several
    locks is composed on one table; the interleavings of its locked sections are histories of the step relation.
    The clock of a relay holds integers below two to the power of 53, as wall-clock milliseconds are.

  \<^bold>\<open>Not modelled.\<close> Operating system objects (shared memory mappings and their names, the mappings of a peer, sockets, files, credentials),
  the sampling of free memory behind the pressure decision, the registry of reassemblies with its limits and sweeps
  (\<open>chunk/registry.rs\<close>, above the modelled assembler), asynchronous tasks and
  HTTP (the event loops of server, client and relay call the components above), the SDK bindings, code generation,
  configuration from the environment and the JSON documents of contracts. Poisoning of mutexes, logging and the
  text of \<open>Debug\<close> output are left out.
\<close>

end
